(* ===== verification/Cs_Prelude.thy ===== *)
theory Cs_Prelude
  imports Main "HOL-Library.Word"
begin

text \<open>
  Shared ground of the development: the machine integers of the C sources, the faults an
  execution can run into, the type of C functions as state transformers that may fault or may
  not return, the loop combinator, and the total-correctness calculus (\<open>wp\<close>) the component
  theories use.
\<close>

section \<open>Machine integers and pointers\<close>

type_synonym u8 = "8 word"
type_synonym u16 = "16 word"
type_synonym u32 = "32 word"

text \<open>A pointer is an address; the null pointer is address 0.\<close>

type_synonym addr = nat

abbreviation (input) NULL :: addr where "NULL \<equiv> 0"

text \<open>Conversion of a C \<open>int\<close> to the 8-bit signed type of lwIP's \<open>err_t\<close>.\<close>

definition s8_of_int :: "int \<Rightarrow> int" where
  "s8_of_int x = (x + 128) mod 256 - 128"

lemma s8_of_int_id: "-128 \<le> x \<Longrightarrow> x < 128 \<Longrightarrow> s8_of_int x = x"
  by (simp add: s8_of_int_def)

text \<open>C's \<open>int\<close> to \<open>u16_t\<close> argument conversion.\<close>

lemma word_of_int_u16_id: "0 \<le> n \<Longrightarrow> n < 65536 \<Longrightarrow> uint (word_of_int n :: u16) = n"
  by (simp add: uint_word_of_int)

section \<open>Faults and results\<close>

text \<open>
  What makes an execution of the C code meaningless or stops it: dereferencing the null pointer
  or an object that is not allocated, a failed \<open>LWIP_ASSERT\<close> (the port's assertion handler
  prints and aborts), \<open>abort\<close> itself, overflow of a signed integer, an array access out of
  range, and a call through a function pointer nobody has set. In Go, a panic.
\<close>

datatype fault =
    NullDeref
  | UseAfterFree
  | AssertFailed string
  | Aborted
  | SignedOverflow
  | OutOfBounds
  | UnsetFunction
  | GoPanic string
  | Exited int

datatype 'a res = Fault fault | Ok 'a

text \<open>
  A C function over a store \<open>'s\<close>: \<open>None\<close> when it does not return, \<open>Some (Fault f)\<close> when it
  runs into \<open>f\<close>, \<open>Some (Ok (x, s'))\<close> when it returns \<open>x\<close> and leaves the store \<open>s'\<close>.
\<close>

type_synonym ('s, 'a) prog = "'s \<Rightarrow> ('a \<times> 's) res option"

definition ret :: "'a \<Rightarrow> ('s, 'a) prog" where
  "ret x = (\<lambda>s. Some (Ok (x, s)))"

definition fail :: "fault \<Rightarrow> ('s, 'a) prog" where
  "fail f = (\<lambda>s. Some (Fault f))"

definition bnd :: "('s, 'a) prog \<Rightarrow> ('a \<Rightarrow> ('s, 'b) prog) \<Rightarrow> ('s, 'b) prog" where
  "bnd m k = (\<lambda>s. case m s of
       None \<Rightarrow> None
     | Some (Fault f) \<Rightarrow> Some (Fault f)
     | Some (Ok (x, s')) \<Rightarrow> k x s')"

definition seq :: "('s, 'a) prog \<Rightarrow> ('s, 'b) prog \<Rightarrow> ('s, 'b) prog" where
  "seq m n = bnd m (\<lambda>_. n)"

definition gets :: "('s \<Rightarrow> 'a) \<Rightarrow> ('s, 'a) prog" where
  "gets f = (\<lambda>s. Some (Ok (f s, s)))"

definition modify :: "('s \<Rightarrow> 's) \<Rightarrow> ('s, unit) prog" where
  "modify f = (\<lambda>s. Some (Ok ((), f s)))"

text \<open>A call whose result the caller drops.\<close>

definition ignore :: "('s, 'a) prog \<Rightarrow> ('s, unit) prog" where
  "ignore m = bnd m (\<lambda>_. ret ())"

text \<open>A statement under an \<open>if\<close> with no \<open>else\<close>.\<close>

definition whenc :: "bool \<Rightarrow> ('s, unit) prog \<Rightarrow> ('s, unit) prog" where
  "whenc b m = (if b then m else ret ())"

text \<open>\<open>LWIP_ASSERT(message, expression)\<close>.\<close>

definition lwip_assert :: "string \<Rightarrow> bool \<Rightarrow> ('s, unit) prog" where
  "lwip_assert msg b = (if b then ret () else fail (AssertFailed msg))"

text \<open>Statements in sequence.\<close>

primrec block :: "('s, unit) prog list \<Rightarrow> ('s, unit) prog" where
  "block [] = ret ()"
| "block (c # cs) = seq c (block cs)"

text \<open>A call through a function pointer that may not have been set.\<close>

definition callp :: "'f option \<Rightarrow> ('f \<Rightarrow> ('s, 'a) prog) \<Rightarrow> ('s, 'a) prog" where
  "callp fp k = (case fp of None \<Rightarrow> fail UnsetFunction | Some f \<Rightarrow> k f)"

text \<open>Reading an object of a typed heap, and writing it.\<close>

definition deref :: "('s \<Rightarrow> addr \<rightharpoonup> 'a) \<Rightarrow> addr \<Rightarrow> ('s, 'a) prog" where
  "deref h p = (\<lambda>s. if p = NULL then Some (Fault NullDeref)
     else (case h s p of None \<Rightarrow> Some (Fault UseAfterFree) | Some v \<Rightarrow> Some (Ok (v, s))))"

text \<open>
  A C loop: the body runs and says whether another round follows. A loop that never stops is
  \<open>None\<close>.
\<close>

partial_function (option) repeat_m ::
  "('s, bool) prog \<Rightarrow> 's \<Rightarrow> (unit \<times> 's) res option" where
  "repeat_m body s = (case body s of
       None \<Rightarrow> None
     | Some (Fault f) \<Rightarrow> Some (Fault f)
     | Some (Ok (b, s')) \<Rightarrow> if b then repeat_m body s' else Some (Ok ((), s')))"

text \<open>A program on a part of the store.\<close>

definition zoom :: "('s \<Rightarrow> 'f) \<Rightarrow> ('f \<Rightarrow> 's \<Rightarrow> 's) \<Rightarrow> ('f, 'r) prog \<Rightarrow> ('s, 'r) prog" where
  "zoom sel upd m = (\<lambda>s. case m (sel s) of
       None \<Rightarrow> None
     | Some (Fault f) \<Rightarrow> Some (Fault f)
     | Some (Ok (x, v)) \<Rightarrow> Some (Ok (x, upd v s)))"

section \<open>Running programs\<close>

named_theorems run_simps \<open>equations that execute a program on a store\<close>

lemma ret_run [run_simps]: "ret x s = Some (Ok (x, s))"
  by (simp add: ret_def)

lemma fail_run [run_simps]: "fail f s = Some (Fault f)"
  by (simp add: fail_def)

lemma bnd_run [run_simps]:
  "bnd m k s = (case m s of
       None \<Rightarrow> None
     | Some (Fault f) \<Rightarrow> Some (Fault f)
     | Some (Ok (x, s')) \<Rightarrow> k x s')"
  by (simp add: bnd_def)

lemma seq_run [run_simps]:
  "seq m n s = (case m s of
       None \<Rightarrow> None
     | Some (Fault f) \<Rightarrow> Some (Fault f)
     | Some (Ok (x, s')) \<Rightarrow> n s')"
  by (simp add: seq_def bnd_def)

lemma ignore_run [run_simps]:
  "ignore m s = (case m s of
       None \<Rightarrow> None
     | Some (Fault f) \<Rightarrow> Some (Fault f)
     | Some (Ok (x, s')) \<Rightarrow> Some (Ok ((), s')))"
  by (simp add: ignore_def bnd_def ret_def)

lemma gets_run [run_simps]: "gets f s = Some (Ok (f s, s))"
  by (simp add: gets_def)

lemma modify_run [run_simps]: "modify f s = Some (Ok ((), f s))"
  by (simp add: modify_def)

lemma whenc_run [run_simps]: "whenc b m s = (if b then m s else Some (Ok ((), s)))"
  by (simp add: whenc_def ret_def)

lemma lwip_assert_run [run_simps]:
  "lwip_assert msg b s = (if b then Some (Ok ((), s)) else Some (Fault (AssertFailed msg)))"
  by (simp add: lwip_assert_def ret_def fail_def)

lemma callp_run [run_simps]:
  "callp fp k s = (case fp of None \<Rightarrow> Some (Fault UnsetFunction) | Some f \<Rightarrow> k f s)"
  by (simp add: callp_def fail_def split: option.split)

lemma deref_run [run_simps]:
  "deref h p s = (if p = NULL then Some (Fault NullDeref)
     else (case h s p of None \<Rightarrow> Some (Fault UseAfterFree) | Some v \<Rightarrow> Some (Ok (v, s))))"
  by (simp add: deref_def)

lemmas block_run [run_simps] = block.simps

lemma if_run [run_simps]: "(if b then m else n) s = (if b then m s else n s)"
  by simp

section \<open>Runs that return\<close>

text \<open>What it means that a program returns, constructor by constructor.\<close>

named_theorems ok_simps \<open>when a program returns a value and a store\<close>

lemma ret_Ok [ok_simps]: "ret x s = Some (Ok (y, t)) \<longleftrightarrow> y = x \<and> t = s"
  by (auto simp: ret_def)

lemma fail_Ok [ok_simps]: "fail f s \<noteq> Some (Ok (y, t))"
  by (simp add: fail_def)

lemma bnd_Ok [ok_simps]:
  "bnd m k s = Some (Ok (y, t)) \<longleftrightarrow> (\<exists>x u. m s = Some (Ok (x, u)) \<and> k x u = Some (Ok (y, t)))"
  by (auto simp: bnd_def split: option.splits res.splits)

lemma seq_Ok [ok_simps]:
  "seq m n s = Some (Ok (y, t)) \<longleftrightarrow> (\<exists>x u. m s = Some (Ok (x, u)) \<and> n u = Some (Ok (y, t)))"
  by (simp add: seq_def bnd_Ok)

lemma ignore_Ok [ok_simps]: "ignore m s = Some (Ok (y, t)) \<longleftrightarrow> (\<exists>x. m s = Some (Ok (x, t)))"
  by (simp add: ignore_def bnd_Ok ret_Ok)

lemma gets_Ok [ok_simps]: "gets f s = Some (Ok (y, t)) \<longleftrightarrow> y = f s \<and> t = s"
  by (auto simp: gets_def)

lemma modify_Ok [ok_simps]: "modify f s = Some (Ok (y, t)) \<longleftrightarrow> t = f s"
  by (auto simp: modify_def)

lemma whenc_Ok [ok_simps]: "whenc b m s = Some (Ok (y, t)) \<longleftrightarrow> (if b then m s = Some (Ok (y, t)) else t = s)"
  by (simp add: whenc_def ret_Ok)

lemma zoom_run [run_simps]:
  "zoom sel upd m s = (case m (sel s) of
       None \<Rightarrow> None
     | Some (Fault f) \<Rightarrow> Some (Fault f)
     | Some (Ok (x, v)) \<Rightarrow> Some (Ok (x, upd v s)))"
  by (simp add: zoom_def)

lemma zoom_Ok [ok_simps]:
  "zoom sel upd m s = Some (Ok (y, t)) \<longleftrightarrow> (\<exists>v. m (sel s) = Some (Ok (y, v)) \<and> t = upd v s)"
  by (auto simp: zoom_def split: option.splits res.splits)

lemma if_Ok [ok_simps]:
  "(if b then m else n) s = Some (Ok (y, t)) \<longleftrightarrow> (if b then m s = Some (Ok (y, t)) else n s = Some (Ok (y, t)))"
  by simp

section \<open>Total correctness\<close>

text \<open>
  \<open>wp m Q s\<close>: run from \<open>s\<close>, \<open>m\<close> returns, without a fault, a value and a store that satisfy
  \<open>Q\<close>.
\<close>

definition wp :: "('s, 'a) prog \<Rightarrow> ('a \<Rightarrow> 's \<Rightarrow> bool) \<Rightarrow> 's \<Rightarrow> bool" where
  "wp m Q s \<longleftrightarrow> (case m s of Some (Ok (x, s')) \<Rightarrow> Q x s' | _ \<Rightarrow> False)"

named_theorems wp_simps \<open>the weakest precondition of each program constructor\<close>

lemma wp_iff: "wp m Q s \<longleftrightarrow> (\<exists>x s'. m s = Some (Ok (x, s')) \<and> Q x s')"
  by (auto simp: wp_def split: option.splits res.splits)

lemma wpI: "m s = Some (Ok (x, s')) \<Longrightarrow> Q x s' \<Longrightarrow> wp m Q s"
  by (simp add: wp_def)

lemma wp_run: "m s = Some (Ok (x, s')) \<Longrightarrow> wp m Q s \<longleftrightarrow> Q x s'"
  by (simp add: wp_def)

lemma wp_mono: "wp m Q s \<Longrightarrow> (\<And>x s'. Q x s' \<Longrightarrow> R x s') \<Longrightarrow> wp m R s"
  by (auto simp: wp_iff)

lemma wp_conj: "wp m Q s \<Longrightarrow> wp m R s \<Longrightarrow> wp m (\<lambda>x s'. Q x s' \<and> R x s') s"
  by (auto simp: wp_iff)

lemma wp_ret [wp_simps]: "wp (ret x) Q = Q x"
  by (simp add: fun_eq_iff wp_def ret_def)

lemma wp_fail [wp_simps]: "wp (fail f) Q = (\<lambda>s. False)"
  by (simp add: fun_eq_iff wp_def fail_def)

lemma wp_bnd [wp_simps]: "wp (bnd m k) Q = wp m (\<lambda>x. wp (k x) Q)"
  by (auto simp: fun_eq_iff wp_def bnd_def split: option.splits res.splits)

lemma wp_seq [wp_simps]: "wp (seq m n) Q = wp m (\<lambda>_. wp n Q)"
  by (simp add: seq_def wp_bnd)

lemma wp_ignore [wp_simps]: "wp (ignore m) Q = wp m (\<lambda>_. Q ())"
  by (simp add: ignore_def wp_bnd wp_ret)

lemma wp_gets [wp_simps]: "wp (gets f) Q = (\<lambda>s. Q (f s) s)"
  by (simp add: fun_eq_iff wp_def gets_def)

lemma wp_modify [wp_simps]: "wp (modify f) Q = (\<lambda>s. Q () (f s))"
  by (simp add: fun_eq_iff wp_def modify_def)

lemma wp_whenc [wp_simps]: "wp (whenc b m) Q = (if b then wp m Q else Q ())"
  by (simp add: whenc_def wp_ret)

lemma wp_if [wp_simps]: "wp (if b then m else n) Q = (if b then wp m Q else wp n Q)"
  by simp

lemma wp_lwip_assert [wp_simps]: "wp (lwip_assert msg b) Q = (\<lambda>s. b \<and> Q () s)"
  by (simp add: fun_eq_iff lwip_assert_def wp_ret wp_fail)

lemma wp_block_Nil [wp_simps]: "wp (block []) Q = Q ()"
  by (simp add: wp_ret)

lemma wp_block_Cons [wp_simps]: "wp (block (c # cs)) Q = wp c (\<lambda>_. wp (block cs) Q)"
  by (simp add: wp_seq)

lemma wp_callp [wp_simps]:
  "wp (callp fp k) Q = (\<lambda>s. \<exists>f. fp = Some f \<and> wp (k f) Q s)"
  by (simp add: fun_eq_iff callp_def wp_fail split: option.split)

lemma wp_deref [wp_simps]:
  "wp (deref h p) Q = (\<lambda>s. p \<noteq> NULL \<and> (\<exists>v. h s p = Some v \<and> Q v s))"
  by (auto simp: fun_eq_iff wp_def deref_def split: option.splits)

text \<open>
  The loop rule: an invariant, and a measure that every round that asks for another one
  decreases. The loop then returns.
\<close>

lemma repeat_m_step:
  "body s = Some (Ok (b, s')) \<Longrightarrow>
   repeat_m body s = (if b then repeat_m body s' else Some (Ok ((), s')))"
  by (simp add: repeat_m.simps [of body s])

lemma wp_repeat_m:
  assumes "I s"
    and round: "\<And>s. I s \<Longrightarrow>
      wp body (\<lambda>b s'. if b then I s' \<and> \<mu> s' < (\<mu> s :: nat) else Q () s') s"
  shows "wp (repeat_m body) Q s"
  using \<open>I s\<close>
proof (induction "\<mu> s" arbitrary: s rule: less_induct)
  case less
  from round [OF less.prems] obtain b s' where
    run: "body s = Some (Ok (b, s'))" and
    post: "if b then I s' \<and> \<mu> s' < \<mu> s else Q () s'"
    by (auto simp: wp_iff)
  show ?case
  proof (cases b)
    case True
    with post have "I s'" and "\<mu> s' < \<mu> s" by auto
    with less.hyps have "wp (repeat_m body) Q s'" by blast
    with True show ?thesis
      by (simp add: wp_def repeat_m_step [where body = body, OF run])
  next
    case False
    with post show ?thesis by (simp add: wp_def repeat_m_step [where body = body, OF run])
  qed
qed

section \<open>Maps\<close>

lemma restrict_map_UNIV [simp]: "m |` UNIV = m"
  by (simp add: restrict_map_def)

section \<open>Byte lists and words\<close>

lemma unat_u16_le: "unat (x :: u16) \<le> 65535"
proof -
  have "unat x < 2 ^ LENGTH(16)" by (rule unsigned_less)
  then show ?thesis by simp
qed

lemma unat_minus_u16: "(y :: u16) \<le> x \<Longrightarrow> unat (x - y) = unat x - unat y"
  by (rule unat_sub)

end
