(* ===== verification/Fifo_Spec.thy ===== *)
theory Fifo_Spec
  imports Cs_Prelude
begin

text \<open>
  The contract of a bounded first-in-first-out queue: the specification as a list with a capacity, the
  locale \<open>bounded_fifo\<close> with the laws a provider promises of its two operations, and the theorem that a
  provider answers every sequence of operations as the specification does. The provider may have a
  limited \<open>life\<close>: a number of removals after which it need not work any more.
\<close>

datatype 'm fop = Put 'm | Get

datatype 'm fres = Accepted | Refused | Empty | Got 'm

section \<open>The specification\<close>

fun fifo_op :: "nat \<Rightarrow> 'm fop \<Rightarrow> 'm list \<Rightarrow> 'm fres \<times> 'm list" where
  "fifo_op cap (Put m) q = (if length q < cap then (Accepted, q @ [m]) else (Refused, q))"
| "fifo_op cap Get q = (case q of [] \<Rightarrow> (Empty, []) | m # q' \<Rightarrow> (Got m, q'))"

fun fifo_ops :: "nat \<Rightarrow> 'm fop list \<Rightarrow> 'm list \<Rightarrow> 'm fres list \<times> 'm list" where
  "fifo_ops cap [] q = ([], q)"
| "fifo_ops cap (op # ops) q =
     (let (r, q') = fifo_op cap op q; (rs, q'') = fifo_ops cap ops q' in (r # rs, q''))"

text \<open>Running operations on a provider: \<open>put\<close> says whether it took the message, \<open>get\<close> what it removed.\<close>

fun exec_op :: "('m \<Rightarrow> ('s, bool) prog) \<Rightarrow> ('s, 'm option) prog \<Rightarrow> 'm fop \<Rightarrow> ('s, 'm fres) prog" where
  "exec_op put get (Put m) = bnd (put m) (\<lambda>b. ret (if b then Accepted else Refused))"
| "exec_op put get Get = bnd get (\<lambda>r. ret (case r of None \<Rightarrow> Empty | Some m \<Rightarrow> Got m))"

fun exec_ops :: "('m \<Rightarrow> ('s, bool) prog) \<Rightarrow> ('s, 'm option) prog \<Rightarrow> 'm fop list \<Rightarrow> ('s, 'm fres list) prog" where
  "exec_ops put get [] = ret []"
| "exec_ops put get (op # ops) =
     bnd (exec_op put get op) (\<lambda>r. bnd (exec_ops put get ops) (\<lambda>rs. ret (r # rs)))"

section \<open>The interface\<close>

locale bounded_fifo =
  fixes inv :: "'s \<Rightarrow> bool"
    and life :: "'s \<Rightarrow> nat"
    and abs :: "'s \<Rightarrow> 'm list"
    and cap :: nat
    and put :: "'m \<Rightarrow> ('s, bool) prog"
    and get :: "('s, 'm option) prog"
  assumes put_takes: "inv s \<Longrightarrow> 0 < life s \<Longrightarrow> length (abs s) < cap \<Longrightarrow>
      wp (put m) (\<lambda>b s'. b \<and> inv s' \<and> life s' = life s \<and> abs s' = abs s @ [m]) s"
    and put_refuses: "inv s \<Longrightarrow> 0 < life s \<Longrightarrow> cap \<le> length (abs s) \<Longrightarrow>
      wp (put m) (\<lambda>b s'. \<not> b \<and> inv s' \<and> life s' = life s \<and> abs s' = abs s) s"
    and get_removes: "inv s \<Longrightarrow> abs s = m # q \<Longrightarrow>
      wp get (\<lambda>r s'. r = Some m \<and> inv s' \<and> life s \<le> life s' + 1 \<and> abs s' = q) s"
    and get_finds_none: "inv s \<Longrightarrow> abs s = [] \<Longrightarrow>
      wp get (\<lambda>r s'. r = None \<and> inv s' \<and> life s' = life s \<and> abs s' = []) s"
begin

lemma op_refines:
  assumes "inv s" and "1 < life s"
  shows "wp (exec_op put get op) (\<lambda>r s'. (r, abs s') = fifo_op cap op (abs s) \<and> inv s' \<and> life s \<le> life s' + 1) s"
proof (cases op)
  case (Put m)
  show ?thesis
  proof (cases "length (abs s) < cap")
    case True
    from put_takes [OF assms(1) _ this, of m] assms(2) True Put show ?thesis
      by (auto simp: wp_simps elim!: wp_mono)
  next
    case False
    with put_refuses [OF assms(1), of m] assms(2) Put show ?thesis
      by (auto simp: wp_simps elim!: wp_mono)
  qed
next
  case Get
  show ?thesis
  proof (cases "abs s")
    case Nil
    with get_finds_none [OF assms(1)] Get show ?thesis by (auto simp: wp_simps elim!: wp_mono)
  next
    case (Cons m q)
    with get_removes [OF assms(1)] Get show ?thesis by (auto simp: wp_simps elim!: wp_mono)
  qed
qed

text \<open>Functional refinement: a run of the provider is a run of the specification on its abstraction.\<close>

lemma ops_refine:
  "inv s \<Longrightarrow> length ops < life s \<Longrightarrow>
   wp (exec_ops put get ops) (\<lambda>rs s'. (rs, abs s') = fifo_ops cap ops (abs s) \<and> inv s') s"
proof (induction ops arbitrary: s)
  case Nil
  then show ?case by (simp add: wp_simps)
next
  case (Cons op ops)
  then have "1 < life s" by simp
  have rest: "wp (exec_ops put get ops)
      (\<lambda>rs s''. (r # rs, abs s'') = fifo_ops cap (op # ops) (abs s) \<and> inv s'') s'"
    if "(r, abs s') = fifo_op cap op (abs s) \<and> inv s' \<and> life s \<le> life s' + 1" for r s'
    by (rule wp_mono [OF Cons.IH]) (use that Cons.prems in \<open>auto split: prod.splits\<close>)
  show ?case
    unfolding exec_ops.simps wp_simps
    by (rule wp_mono [OF op_refines [OF Cons.prems(1) \<open>1 < life s\<close>]]) (rule rest)
qed

end

lemma fifo_ops_bound: "length q \<le> cap \<Longrightarrow> length (snd (fifo_ops cap ops q)) \<le> cap"
proof (induction ops arbitrary: q)
  case (Cons op ops)
  then have "length (snd (fifo_op cap op q)) \<le> cap" by (cases op) (auto split: list.split)
  from Cons.IH [OF this] show ?case by (simp add: split_beta Let_def)
qed simp

end
