(* ===== verification/Go_Chan.thy ===== *)
theory Go_Chan
  imports Fifo_Spec
begin

text \<open>
  Channels of Go with a buffer. A program that has to wait, for room or for a value, does not return by
  itself: its result is \<open>None\<close>. A send on a closed channel and a second close are panics.
\<close>

record 'a chan =
  ch_buf :: "'a list"
  ch_cap :: nat
  ch_closed :: bool

definition make_chan :: "nat \<Rightarrow> 'a chan" where
  "make_chan n = \<lparr>ch_buf = [], ch_cap = n, ch_closed = False\<rparr>"

definition chan_send :: "'a \<Rightarrow> ('a chan, unit) prog" where
  "chan_send x = (\<lambda>c.
     if ch_closed c then Some (Fault (GoPanic ''send on closed channel''))
     else if length (ch_buf c) < ch_cap c then Some (Ok ((), c\<lparr>ch_buf := ch_buf c @ [x]\<rparr>))
     else None)"

text \<open>A receive: \<open>None\<close> is the zero value of a closed and drained channel.\<close>

definition chan_recv :: "('a chan, 'a option) prog" where
  "chan_recv = (\<lambda>c. case ch_buf c of
       x # xs \<Rightarrow> Some (Ok (Some x, c\<lparr>ch_buf := xs\<rparr>))
     | [] \<Rightarrow> if ch_closed c then Some (Ok (None, c)) else None)"

definition chan_close :: "('a chan, unit) prog" where
  "chan_close = (\<lambda>c. if ch_closed c then Some (Fault (GoPanic ''close of closed channel''))
     else Some (Ok ((), c\<lparr>ch_closed := True\<rparr>)))"

text \<open>A \<open>select\<close> with one receive and a \<open>default\<close>: the outer \<open>None\<close> is the default.\<close>

definition chan_poll :: "('a chan, 'a option option) prog" where
  "chan_poll = (\<lambda>c. case chan_recv c of
       None \<Rightarrow> Some (Ok (None, c))
     | Some (Fault f) \<Rightarrow> Some (Fault f)
     | Some (Ok (x, c')) \<Rightarrow> Some (Ok (Some x, c')))"

definition chan_wf :: "'a chan \<Rightarrow> bool" where
  "chan_wf c \<longleftrightarrow> length (ch_buf c) \<le> ch_cap c"

lemma chan_ops_wf:
  "chan_wf (make_chan n)"
  "chan_wf c \<Longrightarrow> chan_send x c = Some (Ok ((), c')) \<Longrightarrow> chan_wf c'"
  "chan_wf c \<Longrightarrow> chan_recv c = Some (Ok (r, d)) \<Longrightarrow> chan_wf d"
  "chan_wf c \<Longrightarrow> chan_close c = Some (Ok ((), c')) \<Longrightarrow> chan_wf c'"
  by (auto simp: chan_wf_def make_chan_def chan_send_def chan_recv_def chan_close_def split: if_splits list.splits)

text \<open>As its clients see it, an open channel is a bounded queue: an attempt to send, and a poll.\<close>

definition offer :: "'a \<Rightarrow> ('a chan, bool) prog" where
  "offer x = (\<lambda>c. case chan_send x c of
       None \<Rightarrow> Some (Ok (False, c))
     | Some (Fault f) \<Rightarrow> Some (Fault f)
     | Some (Ok (_, c')) \<Rightarrow> Some (Ok (True, c')))"

definition poll :: "('a chan, 'a option) prog" where
  "poll = bnd chan_poll (\<lambda>r. ret (case r of None \<Rightarrow> None | Some x \<Rightarrow> x))"

definition open_chan :: "nat \<Rightarrow> 'a chan \<Rightarrow> bool" where
  "open_chan n c \<longleftrightarrow> chan_wf c \<and> ch_cap c = n \<and> \<not> ch_closed c"

interpretation chan_fifo: bounded_fifo "open_chan n" "\<lambda>_. l" ch_buf n offer poll for n l :: nat
  by unfold_locales
    (auto simp: open_chan_def chan_wf_def wp_def offer_def poll_def chan_poll_def chan_send_def chan_recv_def run_simps)

text \<open>Any sequence of attempts to send and polls on an open channel runs as on the specification.\<close>

lemma chan_runs:
  assumes "open_chan n c"
  shows "\<exists>c'. exec_ops offer poll ops c = Some (Ok (fst (fifo_ops n ops (ch_buf c)), c')) \<and>
     ch_buf c' = snd (fifo_ops n ops (ch_buf c)) \<and> open_chan n c'"
proof -
  from chan_fifo.ops_refine [OF assms, of ops "Suc (length ops)"] obtain rs c' where
    "exec_ops offer poll ops c = Some (Ok (rs, c'))" "(rs, ch_buf c') = fifo_ops n ops (ch_buf c)" "open_chan n c'"
    by (auto simp: wp_iff)
  then show ?thesis by (metis fst_conv snd_conv)
qed

end
