(* ===== verification/Lwip_Env.thy ===== *)
theory Lwip_Env
  imports Cs_Prelude
begin

text \<open>
  What the sources see of lwIP. The lwIP core is not part of this repository: its functions are
  the fields of the records \<open>pbuf_api\<close>, \<open>tcp_api\<close>, \<open>udp_api\<close> and \<open>netif_api\<close>, arguments of the
  definitions that call them. The structures the sources read and write through pointers
  (pbufs, protocol control blocks, the interface, the per-connection state of
  \<open>tcp.c\<close>) are objects of typed heaps in a \<open>world\<close>. The application behind the callbacks (Go
  or the test programs) keeps its own state in the component \<open>app\<close> of the world.
\<close>

section \<open>Constants of the lwIP interface\<close>

type_synonym err_t = int

abbreviation (input) ERR_OK :: err_t where "ERR_OK \<equiv> 0"
abbreviation (input) ERR_MEM :: err_t where "ERR_MEM \<equiv> - 1"
abbreviation (input) ERR_VAL :: err_t where "ERR_VAL \<equiv> - 6"
abbreviation (input) ERR_IF :: err_t where "ERR_IF \<equiv> - 12"
abbreviation (input) ERR_ABRT :: err_t where "ERR_ABRT \<equiv> - 13"

abbreviation (input) IPADDR_TYPE_V4 :: u8 where "IPADDR_TYPE_V4 \<equiv> 0"
abbreviation (input) IPADDR_TYPE_V6 :: u8 where "IPADDR_TYPE_V6 \<equiv> 6"
abbreviation (input) IPADDR_TYPE_ANY :: u8 where "IPADDR_TYPE_ANY \<equiv> 46"

abbreviation (input) TCP_PRIO_MIN :: u8 where "TCP_PRIO_MIN \<equiv> 1"
abbreviation (input) NETIF_NO_INDEX :: u8 where "NETIF_NO_INDEX \<equiv> 0"

datatype pbuf_layer = PBUF_RAW
datatype pbuf_type = PBUF_POOL

section \<open>Structures\<close>

text \<open>
  \<open>ip_addr_t\<close> of a dual-stack build: a union of four 32-bit words (an IPv4 address is the first
  word) and a type tag.
\<close>

record ip_addr_t =
  ip_w0 :: u32
  ip_w1 :: u32
  ip_w2 :: u32
  ip_w3 :: u32
  ip_type :: u8

definition IP_ANY_TYPE :: ip_addr_t where
  "IP_ANY_TYPE = \<lparr>ip_w0 = 0, ip_w1 = 0, ip_w2 = 0, ip_w3 = 0, ip_type = IPADDR_TYPE_ANY\<rparr>"

text \<open>
  A packet buffer. \<open>pb_payload\<close> holds the bytes the payload pointer leads to; \<open>pb_ref\<close> is the
  reference count lwIP keeps.
\<close>

record pbuf =
  pb_next :: addr
  pb_payload :: "u8 list"
  pb_tot_len :: u16
  pb_len :: u16
  pb_ref :: nat

text \<open>
  The functions of this repository that are handed to lwIP as callbacks, by name. A control
  block stores such a name, as it stores a function pointer in C.
\<close>

datatype fnptr =
    fn_NULL
  | fn_cs_tcp_raw_recv
  | fn_cs_tcp_raw_error
  | fn_cs_tcp_raw_poll
  | fn_cs_tcp_send
  | fn_cs_tcp_raw_accept
  | fn_cs_udp_raw_recv
  | fn_cs_netif_init
  | fn_netif_input
  | fn_etharp_output
  | fn_ethip6_output
  | fn_cs_low_level_output

text \<open>
  A TCP control block: what the sources read of it, the callback slots the setters of the raw
  API fill, and \<open>enqueued\<close>, every byte \<open>tcp_write\<close> has accepted for transmission so far.
\<close>

record tcp_pcb =
  t_local_ip :: ip_addr_t
  t_local_port :: u16
  t_remote_ip :: ip_addr_t
  t_remote_port :: u16
  t_callback_arg :: addr
  t_sent :: fnptr
  t_recv :: fnptr
  t_errf :: fnptr
  t_poll :: fnptr
  t_pollinterval :: u8
  t_accept :: fnptr
  t_prio :: u8
  t_snd_buf :: u16
  t_enqueued :: "u8 list"

record udp_pcb =
  u_local_ip :: ip_addr_t
  u_local_port :: u16
  u_netif_idx :: u8
  u_mcast_ifindex :: u8
  u_mcast_ip4 :: u32
  u_recv :: fnptr
  u_recv_arg :: addr

record netif =
  n_state :: addr
  n_name :: "u8 list"
  n_output :: fnptr
  n_output_ip6 :: fnptr
  n_linkoutput :: fnptr
  n_input :: fnptr
  n_mtu :: u16
  n_hwaddr :: "u8 list"
  n_hwaddr_len :: u8
  n_flags :: u8
  n_ifinoctets :: u32
  n_ifindiscards :: u32
  n_ifoutoctets :: u32
  n_ifoutdiscards :: u32

text \<open>The connection state of \<open>src/tcp.h\<close>: the states of a connection and the structure.\<close>

datatype cs_tcp_raw_states = ES_NONE | ES_ACCEPTED | ES_RECEIVED | ES_CLOSING

record cs_tcp_raw_state =
  es_tpcb :: tcp_pcb
  es_state :: cs_tcp_raw_states
  es_retries :: u8
  es_pcb :: addr
  es_p :: addr
  es_callback :: addr

record 'x world =
  pbufs :: "addr \<rightharpoonup> pbuf"
  ess :: "addr \<rightharpoonup> cs_tcp_raw_state"
  tpcbs :: "addr \<rightharpoonup> tcp_pcb"
  upcbs :: "addr \<rightharpoonup> udp_pcb"
  netifs :: "addr \<rightharpoonup> netif"
  app :: 'x

section \<open>The callback structure of cs.h\<close>

text \<open>
  \<open>cs_callback\<close>: what the application registers with \<open>cs_init\<close>. Function pointers nobody has
  assigned are \<open>None\<close>. \<open>cb_output\<close> gets the bytes of the frame and \<open>cb_input\<close> returns the pbuf
  together with the length it stored through \<open>readlen\<close>, if it stored one.
\<close>

record 'x cs_callback =
  cb_state :: addr
  cb_netif :: addr
  cb_tcp_accept :: "(addr \<Rightarrow> addr \<Rightarrow> addr \<Rightarrow> ('x world, err_t) prog) option"
  cb_tcp_recv :: "(addr \<Rightarrow> addr \<Rightarrow> addr \<Rightarrow> addr \<Rightarrow> ('x world, err_t) prog) option"
  cb_tcp_send_done :: "(addr \<Rightarrow> addr \<Rightarrow> addr \<Rightarrow> ('x world, unit) prog) option"
  cb_tcp_close :: "(addr \<Rightarrow> addr \<Rightarrow> addr \<Rightarrow> ('x world, unit) prog) option"
  cb_udp_recv :: "(addr \<Rightarrow> addr \<Rightarrow> addr \<Rightarrow> ip_addr_t \<Rightarrow> u16 \<Rightarrow> ('x world, err_t) prog) option"
  cb_output :: "(addr \<Rightarrow> addr \<Rightarrow> u8 list \<Rightarrow> u16 \<Rightarrow> ('x world, int) prog) option"
  cb_input :: "(addr \<Rightarrow> addr \<Rightarrow> ('x world, addr \<times> u16 option) prog) option"
  cb_init :: "(addr \<Rightarrow> addr \<Rightarrow> ('x world, unit) prog) option"

text \<open>The callback structures in memory, by address.\<close>

type_synonym 'x callbacks = "addr \<rightharpoonup> 'x cs_callback"

definition deref_cb :: "'x callbacks \<Rightarrow> addr \<Rightarrow> ('x world, 'x cs_callback) prog" where
  "deref_cb C a = deref (\<lambda>_. C) a"

section \<open>lwIP functions the sources call\<close>

record 'x pbuf_api =
  mem_malloc :: "('x world, addr) prog"
  mem_free :: "addr \<Rightarrow> ('x world, unit) prog"
  pbuf_alloc :: "pbuf_layer \<Rightarrow> u16 \<Rightarrow> pbuf_type \<Rightarrow> ('x world, addr) prog"
  pbuf_take :: "addr \<Rightarrow> u8 list \<Rightarrow> u16 \<Rightarrow> ('x world, err_t) prog"
  pbuf_copy_partial :: "addr \<Rightarrow> u16 \<Rightarrow> u16 \<Rightarrow> ('x world, u8 list) prog"
  pbuf_cat :: "addr \<Rightarrow> addr \<Rightarrow> ('x world, unit) prog"
  pbuf_refc :: "addr \<Rightarrow> ('x world, unit) prog"
  pbuf_free :: "addr \<Rightarrow> ('x world, u8) prog"

record 'x tcp_api =
  tcp_arg :: "addr \<Rightarrow> addr \<Rightarrow> ('x world, unit) prog"
  tcp_sent :: "addr \<Rightarrow> fnptr \<Rightarrow> ('x world, unit) prog"
  tcp_recv :: "addr \<Rightarrow> fnptr \<Rightarrow> ('x world, unit) prog"
  tcp_err :: "addr \<Rightarrow> fnptr \<Rightarrow> ('x world, unit) prog"
  tcp_poll :: "addr \<Rightarrow> fnptr \<Rightarrow> u8 \<Rightarrow> ('x world, unit) prog"
  tcp_accept :: "addr \<Rightarrow> fnptr \<Rightarrow> ('x world, unit) prog"
  tcp_setprio :: "addr \<Rightarrow> u8 \<Rightarrow> ('x world, unit) prog"
  tcp_sndbuf :: "addr \<Rightarrow> ('x world, u16) prog"
  tcp_write :: "addr \<Rightarrow> u8 list \<Rightarrow> u16 \<Rightarrow> u8 \<Rightarrow> ('x world, err_t) prog"
  tcp_output :: "addr \<Rightarrow> ('x world, err_t) prog"
  tcp_recved :: "addr \<Rightarrow> u16 \<Rightarrow> ('x world, unit) prog"
  tcp_close :: "addr \<Rightarrow> ('x world, err_t) prog"
  tcp_abort :: "addr \<Rightarrow> ('x world, unit) prog"
  tcp_new_ip_type :: "u8 \<Rightarrow> ('x world, addr) prog"
  tcp_bind :: "addr \<Rightarrow> ip_addr_t \<Rightarrow> u16 \<Rightarrow> ('x world, err_t) prog"
  tcp_listen :: "addr \<Rightarrow> ('x world, addr) prog"
  tcp_free :: "addr \<Rightarrow> ('x world, unit) prog"

record 'x udp_api =
  udp_new_ip_type :: "u8 \<Rightarrow> ('x world, addr) prog"
  udp_bind :: "addr \<Rightarrow> ip_addr_t \<Rightarrow> u16 \<Rightarrow> ('x world, err_t) prog"
  udp_recv :: "addr \<Rightarrow> fnptr \<Rightarrow> addr \<Rightarrow> ('x world, unit) prog"
  udp_remove :: "addr \<Rightarrow> ('x world, unit) prog"
  udp_sendto_if_src ::
    "addr \<Rightarrow> addr \<Rightarrow> ip_addr_t \<Rightarrow> u16 \<Rightarrow> addr \<Rightarrow> ip_addr_t \<Rightarrow> ('x world, err_t) prog"
  netif_get_by_index :: "u8 \<Rightarrow> ('x world, addr) prog"
  ip_route :: "ip_addr_t \<Rightarrow> ip_addr_t \<Rightarrow> ('x world, addr) prog"
  ip4_route_src :: "u32 \<Rightarrow> u32 \<Rightarrow> ('x world, addr) prog"
  ip_addr_ismulticast :: "ip_addr_t \<Rightarrow> bool"

text \<open>
  The interface layer. \<open>netif_add\<close> gets the set-up function of the driver itself, because it calls
  it; \<open>netif_call_input\<close> is the call through the \<open>input\<close> pointer of an interface. \<open>IP4_ADDR\<close>,
  \<open>lwip_htonl\<close> and \<open>ip4_addr_byte\<close> are lwIP's conversions of addresses (\<open>ip4_addr1_val\<close> to
  \<open>ip4_addr4_val\<close> are \<open>ip4_addr_byte\<close> at 0 to 3).
\<close>

record 'x netif_api =
  lwip_init :: "('x world, unit) prog"
  netif_add :: "addr \<Rightarrow> u32 \<Rightarrow> u32 \<Rightarrow> u32 \<Rightarrow> addr \<Rightarrow> (addr \<Rightarrow> ('x world, err_t) prog) \<Rightarrow> fnptr \<Rightarrow>
    ('x world, addr) prog"
  netif_set_up :: "addr \<Rightarrow> ('x world, unit) prog"
  netif_set_link_up :: "addr \<Rightarrow> ('x world, unit) prog"
  netif_set_default :: "addr \<Rightarrow> ('x world, unit) prog"
  netif_poll_all :: "('x world, unit) prog"
  netif_call_input :: "fnptr \<Rightarrow> addr \<Rightarrow> addr \<Rightarrow> ('x world, err_t) prog"
  mib2_init_netif :: "addr \<Rightarrow> u32 \<Rightarrow> ('x world, unit) prog"
  link_stats_inc_recv :: "('x world, unit) prog"
  IP4_ADDR :: "u8 \<Rightarrow> u8 \<Rightarrow> u8 \<Rightarrow> u8 \<Rightarrow> u32"
  lwip_htonl :: "u32 \<Rightarrow> u32"
  ip4_addr_byte :: "nat \<Rightarrow> u32 \<Rightarrow> u8"

end
