(* ===== verification/Lwip_Doc.thy ===== *)
theory Lwip_Doc
  imports Lwip_Env
begin

text \<open>
  The documented behaviour of the lwIP functions, as predicates on the interface records: a
  theorem that relies on it has the predicate among its hypotheses. Pbuf chains are described by
  the list of their addresses. The theory ends with the function a chain walk computes and the
  lemmas on chains the components share.
\<close>

section \<open>Pbuf chains\<close>

text \<open>\<open>is_chain h p qs\<close>: following the next pointers from \<open>p\<close> visits exactly \<open>qs\<close>, then null.\<close>

primrec is_chain :: "(addr \<rightharpoonup> pbuf) \<Rightarrow> addr \<Rightarrow> addr list \<Rightarrow> bool" where
  "is_chain h p [] \<longleftrightarrow> p = NULL"
| "is_chain h p (q # qs) \<longleftrightarrow> p = q \<and> q \<noteq> NULL \<and>
     (case h q of None \<Rightarrow> False | Some b \<Rightarrow> is_chain h (pb_next b) qs)"

definition bytes_at :: "(addr \<rightharpoonup> pbuf) \<Rightarrow> addr \<Rightarrow> u8 list" where
  "bytes_at h q = (case h q of None \<Rightarrow> [] | Some b \<Rightarrow> pb_payload b)"

definition chain_bytes :: "(addr \<rightharpoonup> pbuf) \<Rightarrow> addr list \<Rightarrow> u8 list" where
  "chain_bytes h qs = concat (map (bytes_at h) qs)"

text \<open>A buffer whose payload has the length it claims, referenced from one place only.\<close>

definition sole_pbuf :: "pbuf \<Rightarrow> bool" where
  "sole_pbuf b \<longleftrightarrow> length (pb_payload b) = unat (pb_len b) \<and> pb_ref b = 1"

definition sole_chain :: "(addr \<rightharpoonup> pbuf) \<Rightarrow> addr \<Rightarrow> addr list \<Rightarrow> bool" where
  "sole_chain h p qs \<longleftrightarrow> is_chain h p qs \<and>
     list_all (\<lambda>q. case h q of None \<Rightarrow> False | Some b \<Rightarrow> sole_pbuf b) qs"

text \<open>
  What \<open>pbuf_free\<close> does to a chain: the count of the first buffer goes down; at zero the buffer
  is released and the walk goes on with the next one, otherwise it stops.
\<close>

primrec free_chain :: "addr list \<Rightarrow> (addr \<rightharpoonup> pbuf) \<Rightarrow> (addr \<rightharpoonup> pbuf)" where
  "free_chain [] h = h"
| "free_chain (q # qs) h = (case h q of
       None \<Rightarrow> h
     | Some b \<Rightarrow> if pb_ref b = 1 then free_chain qs (h(q := None))
                 else h(q \<mapsto> b\<lparr>pb_ref := pb_ref b - 1\<rparr>))"

definition head_ptr :: "addr list \<Rightarrow> addr" where
  "head_ptr qs = (case qs of [] \<Rightarrow> NULL | q # _ \<Rightarrow> q)"

lemma head_ptr_simps [simp]: "head_ptr [] = NULL" "head_ptr (q # qs) = q"
  by (simp_all add: head_ptr_def)

lemma chain_bytes_simps [simp]:
  "chain_bytes h [] = []"
  "chain_bytes h (q # qs) = bytes_at h q @ chain_bytes h qs"
  "chain_bytes h (qs @ rs) = chain_bytes h qs @ chain_bytes h rs"
  by (simp_all add: chain_bytes_def)

lemma is_chain_Cons [simp]:
  "is_chain h p (q # qs) \<longleftrightarrow> p = q \<and> q \<noteq> NULL \<and> (\<exists>b. h q = Some b \<and> is_chain h (pb_next b) qs)"
  by (auto split: option.splits)

declare is_chain.simps(2) [simp del]

lemma is_chain_head: "is_chain h p qs \<Longrightarrow> p = head_ptr qs"
  by (cases qs) auto

lemma is_chain_null [simp]: "is_chain h NULL qs \<longleftrightarrow> qs = []"
  by (cases qs) auto

lemma is_chain_nonnull:
  "is_chain h p qs \<Longrightarrow> p \<noteq> NULL \<Longrightarrow> \<exists>b rs. qs = p # rs \<and> h p = Some b \<and> is_chain h (pb_next b) rs"
  by (cases qs) auto

lemma is_chain_alloc: "is_chain h p qs \<Longrightarrow> q \<in> set qs \<Longrightarrow> q \<noteq> NULL \<and> h q \<noteq> None"
  by (induction qs arbitrary: p) auto

lemma is_chain_unique: "is_chain h p qs \<Longrightarrow> is_chain h p rs \<Longrightarrow> qs = rs"
proof (induction qs arbitrary: p rs)
  case Nil
  then show ?case by simp
next
  case (Cons q qs)
  then show ?case by (cases rs) auto
qed

lemma is_chain_suffix: "is_chain h p (qs @ q # rs) \<Longrightarrow> is_chain h q (q # rs)"
  by (induction qs arbitrary: p) auto

lemma is_chain_distinct: "is_chain h p qs \<Longrightarrow> distinct qs"
proof (induction qs arbitrary: p)
  case Nil
  then show ?case by simp
next
  case (Cons q qs)
  have "q \<notin> set qs"
  proof
    assume "q \<in> set qs"
    then obtain xs ys where qs: "qs = xs @ q # ys" by (meson split_list)
    from Cons.prems qs have "is_chain h q ((q # xs) @ q # ys)" by simp
    then have "is_chain h q (q # ys)" by (rule is_chain_suffix)
    moreover from Cons.prems have "is_chain h q (q # qs)" by simp
    ultimately have "q # ys = q # qs" by (rule is_chain_unique)
    with qs show False by simp
  qed
  moreover from Cons.prems have "distinct qs" by (auto intro: Cons.IH)
  ultimately show ?case by simp
qed

text \<open>A chain only depends on the buffers in it.\<close>

lemma is_chain_cong: "(\<And>q. q \<in> set qs \<Longrightarrow> h q = h' q) \<Longrightarrow> is_chain h p qs = is_chain h' p qs"
  by (induction qs arbitrary: p) auto

lemma chain_bytes_cong:
  "(\<And>q. q \<in> set qs \<Longrightarrow> h q = h' q) \<Longrightarrow> chain_bytes h qs = chain_bytes h' qs"
  by (simp add: chain_bytes_def bytes_at_def cong: map_cong)

lemma sole_chain_cong:
  "(\<And>q. q \<in> set qs \<Longrightarrow> h q = h' q) \<Longrightarrow> sole_chain h p qs = sole_chain h' p qs"
  using is_chain_cong [of qs h h' p] by (auto simp: sole_chain_def list_all_iff)

lemma sole_chain_Nil [simp]: "sole_chain h p [] \<longleftrightarrow> p = NULL"
  by (simp add: sole_chain_def)

lemma sole_chain_Cons:
  "sole_chain h p (q # qs) \<longleftrightarrow> p = q \<and> q \<noteq> NULL \<and>
     (\<exists>b. h q = Some b \<and> sole_pbuf b \<and> sole_chain h (pb_next b) qs)"
  by (auto simp: sole_chain_def)

lemma sole_chain_is_chain: "sole_chain h p qs \<Longrightarrow> is_chain h p qs"
  by (simp add: sole_chain_def)

lemma sole_chain_head: "sole_chain h p qs \<Longrightarrow> p = head_ptr qs"
  by (drule sole_chain_is_chain) (rule is_chain_head)

lemma sole_chain_distinct: "sole_chain h p qs \<Longrightarrow> distinct qs"
  by (drule sole_chain_is_chain) (rule is_chain_distinct)

text \<open>Removing a buffer that is not on a chain leaves the chain as it is.\<close>

lemma sole_chain_del [simp]: "q \<notin> set qs \<Longrightarrow> sole_chain (h(q := x)) p qs = sole_chain h p qs"
  by (rule sole_chain_cong) auto

lemma chain_bytes_del [simp]: "q \<notin> set qs \<Longrightarrow> chain_bytes (h(q := x)) qs = chain_bytes h qs"
  by (rule chain_bytes_cong) auto

text \<open>Freeing a chain nobody else refers to releases all of it.\<close>

lemma free_chain_sole:
  "sole_chain h p qs \<Longrightarrow> free_chain qs h = h |` (- set qs)"
proof (induction qs arbitrary: h p)
  case Nil
  then show ?case by simp
next
  case (Cons q qs)
  then obtain b where b: "h q = Some b" "sole_pbuf b" and ch: "sole_chain h (pb_next b) qs"
    by (auto simp: sole_chain_Cons)
  from sole_chain_distinct [OF Cons.prems] have "q \<notin> set qs" by simp
  with ch have "sole_chain (h(q := None)) (pb_next b) qs" by simp
  then have "free_chain qs (h(q := None)) = (h(q := None)) |` (- set qs)"
    by (rule Cons.IH)
  also have "\<dots> = h |` (- set (q # qs))" by (auto simp: restrict_map_def fun_eq_iff)
  finally show ?case using b by (simp add: sole_pbuf_def)
qed

section \<open>Documented behaviour: pbufs and the heap\<close>

text \<open>\<open>pbuf_ref\<close>: increments the reference count of the buffer.\<close>

definition doc_pbuf_ref :: "'x pbuf_api \<Rightarrow> bool" where
  "doc_pbuf_ref P \<longleftrightarrow> (\<forall>p b w. p \<noteq> NULL \<and> pbufs w p = Some b \<longrightarrow>
     pbuf_refc P p w =
       Some (Ok ((), w\<lparr>pbufs := (pbufs w)(p \<mapsto> b\<lparr>pb_ref := pb_ref b + 1\<rparr>)\<rparr>)))"

text \<open>
  \<open>pbuf_free\<close>: dereferences a chain and deallocates the buffers at its head that are no longer
  used.
\<close>

definition doc_pbuf_free :: "'x pbuf_api \<Rightarrow> bool" where
  "doc_pbuf_free P \<longleftrightarrow> (\<forall>p qs w. p \<noteq> NULL \<and> is_chain (pbufs w) p qs \<longrightarrow>
     (\<exists>n. pbuf_free P p w = Some (Ok (n, w\<lparr>pbufs := free_chain qs (pbufs w)\<rparr>))))"

text \<open>
  \<open>pbuf_alloc\<close>: the null pointer when no memory is left, otherwise a new chain with room for the
  requested length, every buffer with one reference.
\<close>

definition fresh_chain ::
  "(addr \<rightharpoonup> pbuf) \<Rightarrow> (addr \<rightharpoonup> pbuf) \<Rightarrow> addr \<Rightarrow> addr list \<Rightarrow> nat \<Rightarrow> bool" where
  "fresh_chain h h' p qs n \<longleftrightarrow> p \<noteq> NULL \<and> sole_chain h' p qs \<and>
     (\<forall>q \<in> set qs. h q = None) \<and> (\<forall>q. q \<notin> set qs \<longrightarrow> h' q = h q) \<and>
     length (chain_bytes h' qs) = n"

definition doc_pbuf_alloc :: "'x pbuf_api \<Rightarrow> bool" where
  "doc_pbuf_alloc P \<longleftrightarrow> (\<forall>l n t w. pbuf_alloc P l n t w = Some (Ok (NULL, w)) \<or>
     (\<exists>p qs h'. pbuf_alloc P l n t w = Some (Ok (p, w\<lparr>pbufs := h'\<rparr>)) \<and>
        fresh_chain (pbufs w) h' p qs (unat n)))"

text \<open>
  \<open>pbuf_take\<close>: copies the first \<open>len\<close> bytes of the data into a chain that is long enough; the
  structure of the chain stays as it is.
\<close>

definition doc_pbuf_take :: "'x pbuf_api \<Rightarrow> bool" where
  "doc_pbuf_take P \<longleftrightarrow> (\<forall>p qs d n w.
     sole_chain (pbufs w) p qs \<and> p \<noteq> NULL \<and> unat n \<le> length d \<and>
     unat n \<le> length (chain_bytes (pbufs w) qs) \<longrightarrow>
     (\<exists>h'. pbuf_take P p d n w = Some (Ok (ERR_OK, w\<lparr>pbufs := h'\<rparr>)) \<and>
        sole_chain h' p qs \<and> (\<forall>q. q \<notin> set qs \<longrightarrow> h' q = pbufs w q) \<and>
        chain_bytes h' qs = take (unat n) d @ drop (unat n) (chain_bytes (pbufs w) qs)))"

text \<open>\<open>pbuf_copy_partial\<close> from offset 0 delivers the first bytes of the chain.\<close>

definition doc_pbuf_copy :: "'x pbuf_api \<Rightarrow> bool" where
  "doc_pbuf_copy P \<longleftrightarrow> (\<forall>p qs n w. is_chain (pbufs w) p qs \<and> p \<noteq> NULL \<longrightarrow>
     pbuf_copy_partial P p n 0 w = Some (Ok (take (unat n) (chain_bytes (pbufs w) qs), w)))"

text \<open>\<open>pbuf_cat\<close>: the second chain follows the first; the caller gives up its reference.\<close>

definition doc_pbuf_cat :: "'x pbuf_api \<Rightarrow> bool" where
  "doc_pbuf_cat P \<longleftrightarrow> (\<forall>p q ps qs w.
     sole_chain (pbufs w) p ps \<and> sole_chain (pbufs w) q qs \<and>
     p \<noteq> NULL \<and> q \<noteq> NULL \<and> set ps \<inter> set qs = {} \<longrightarrow>
     (\<exists>h'. pbuf_cat P p q w = Some (Ok ((), w\<lparr>pbufs := h'\<rparr>)) \<and>
        sole_chain h' p (ps @ qs) \<and> (\<forall>r. r \<notin> set (ps @ qs) \<longrightarrow> h' r = pbufs w r) \<and>
        chain_bytes h' (ps @ qs) = chain_bytes (pbufs w) (ps @ qs)))"

text \<open>\<open>mem_malloc\<close> and \<open>mem_free\<close>, used for the connection state only.\<close>

definition doc_mem :: "'x pbuf_api \<Rightarrow> bool" where
  "doc_mem P \<longleftrightarrow>
     (\<forall>w. mem_malloc P w = Some (Ok (NULL, w)) \<or>
        (\<exists>a e. a \<noteq> NULL \<and> ess w a = None \<and>
           mem_malloc P w = Some (Ok (a, w\<lparr>ess := (ess w)(a \<mapsto> e)\<rparr>)))) \<and>
     (\<forall>a w. a \<noteq> NULL \<and> ess w a \<noteq> None \<longrightarrow>
        mem_free P a w = Some (Ok ((), w\<lparr>ess := (ess w)(a := None)\<rparr>)))"

section \<open>Documented behaviour: TCP\<close>

text \<open>
  A raw API function that stores a value in a control block. The block has to be allocated.
\<close>

definition pcb_setter ::
  "(addr \<Rightarrow> ('x world, unit) prog) \<Rightarrow> (tcp_pcb \<Rightarrow> tcp_pcb) \<Rightarrow> bool" where
  "pcb_setter m f \<longleftrightarrow> (\<forall>p w. p \<noteq> NULL \<longrightarrow> m p w = (case tpcbs w p of
       None \<Rightarrow> Some (Fault UseAfterFree)
     | Some c \<Rightarrow> Some (Ok ((), w\<lparr>tpcbs := (tpcbs w)(p \<mapsto> f c)\<rparr>))))"

definition doc_tcp_setters :: "'x tcp_api \<Rightarrow> bool" where
  "doc_tcp_setters T \<longleftrightarrow>
     (\<forall>a. pcb_setter (\<lambda>p. tcp_arg T p a) (t_callback_arg_update (\<lambda>_. a))) \<and>
     (\<forall>f. pcb_setter (\<lambda>p. tcp_sent T p f) (t_sent_update (\<lambda>_. f))) \<and>
     (\<forall>f. pcb_setter (\<lambda>p. tcp_recv T p f) (t_recv_update (\<lambda>_. f))) \<and>
     (\<forall>f. pcb_setter (\<lambda>p. tcp_err T p f) (t_errf_update (\<lambda>_. f))) \<and>
     (\<forall>f i. pcb_setter (\<lambda>p. tcp_poll T p f i)
        (\<lambda>c. c\<lparr>t_poll := f, t_pollinterval := i\<rparr>)) \<and>
     (\<forall>f. pcb_setter (\<lambda>p. tcp_accept T p f) (t_accept_update (\<lambda>_. f))) \<and>
     (\<forall>n. pcb_setter (\<lambda>p. tcp_setprio T p n) (t_prio_update (\<lambda>_. n)))"

text \<open>\<open>tcp_sndbuf\<close>: the space left in the send buffer.\<close>

definition doc_tcp_sndbuf :: "'x tcp_api \<Rightarrow> bool" where
  "doc_tcp_sndbuf T \<longleftrightarrow> (\<forall>p c w. tpcbs w p = Some c \<longrightarrow>
     tcp_sndbuf T p w = Some (Ok (t_snd_buf c, w)))"

text \<open>
  \<open>tcp_write\<close>: enqueues data that fits the send buffer, or returns an error and enqueues
  nothing.
\<close>

definition pcb_enqueue :: "u8 list \<Rightarrow> u16 \<Rightarrow> tcp_pcb \<Rightarrow> tcp_pcb" where
  "pcb_enqueue d n c = c\<lparr>t_snd_buf := t_snd_buf c - n,
     t_enqueued := t_enqueued c @ take (unat n) d\<rparr>"

definition doc_tcp_write :: "'x tcp_api \<Rightarrow> bool" where
  "doc_tcp_write T \<longleftrightarrow> (\<forall>p d n f c w. tpcbs w p = Some c \<longrightarrow>
     (n \<le> t_snd_buf c \<and> tcp_write T p d n f w =
        Some (Ok (ERR_OK, w\<lparr>tpcbs := (tpcbs w)(p \<mapsto> pcb_enqueue d n c)\<rparr>))) \<or>
     (\<exists>e. e \<noteq> ERR_OK \<and> tcp_write T p d n f w = Some (Ok (e, w))))"

text \<open>\<open>tcp_output\<close>: transmits what is enqueued; only the device behind it sees a change.\<close>

definition doc_tcp_output :: "'x tcp_api \<Rightarrow> bool" where
  "doc_tcp_output T \<longleftrightarrow> (\<forall>p w. tpcbs w p \<noteq> None \<longrightarrow>
     (\<exists>e a. tcp_output T p w = Some (Ok (e, w\<lparr>app := a\<rparr>))))"

text \<open>
  \<open>tcp_close\<close>: closes the connection and takes the control block away from the application, or
  fails (with \<open>ERR_MEM\<close>) and leaves it where it is. Frames it sends reach the device.
\<close>

definition doc_tcp_close :: "'x tcp_api \<Rightarrow> bool" where
  "doc_tcp_close T \<longleftrightarrow> (\<forall>p w. tpcbs w p \<noteq> None \<longrightarrow>
     (\<exists>a. tcp_close T p w = Some (Ok (ERR_OK, w\<lparr>tpcbs := (tpcbs w)(p := None), app := a\<rparr>))) \<or>
     (\<exists>e. e \<noteq> ERR_OK \<and> tcp_close T p w = Some (Ok (e, w))))"

end
