(* ===== verification/Lwip_Ref.thy ===== *)
theory Lwip_Ref
  imports Lwip_Doc
begin

text \<open>
  A small executable stack that behaves as lwIP documents, for running the components on concrete
  inputs and for showing that the hypotheses on lwIP can hold together. It is one instance of the
  interface records, not a model of lwIP: its allocator knows one address per kind of object, and
  it accepts whatever fits the send buffer.
\<close>

section \<open>Packet buffers\<close>

partial_function (option) chain_list :: "(addr \<rightharpoonup> pbuf) \<Rightarrow> addr \<Rightarrow> addr list option" where
  "chain_list h p = (if p = NULL then Some [] else (case h p of
       None \<Rightarrow> None
     | Some b \<Rightarrow> Option.bind (chain_list h (pb_next b)) (\<lambda>qs. Some (p # qs))))"

lemma chain_list_is_chain: "is_chain h p qs \<Longrightarrow> chain_list h p = Some qs"
  by (induction qs arbitrary: p) (auto simp: chain_list.simps)

primrec write_chain :: "addr list \<Rightarrow> u8 list \<Rightarrow> (addr \<rightharpoonup> pbuf) \<Rightarrow> (addr \<rightharpoonup> pbuf)" where
  "write_chain [] d h = h"
| "write_chain (q # qs) d h = (case h q of
       None \<Rightarrow> h
     | Some b \<Rightarrow> write_chain qs (drop (length (pb_payload b)) d)
         (h(q \<mapsto> b\<lparr>pb_payload := take (length (pb_payload b)) d @ drop (length d) (pb_payload b)\<rparr>)))"

lemma write_chain_other: "r \<notin> set qs \<Longrightarrow> write_chain qs d h r = h r"
  by (induction qs arbitrary: d h) (auto split: option.split)

lemma write_chain_ok:
  assumes "sole_chain h p qs" and "length d \<le> length (chain_bytes h qs)"
  shows "sole_chain (write_chain qs d h) p qs \<and>
     chain_bytes (write_chain qs d h) qs = d @ drop (length d) (chain_bytes h qs)"
  using assms
proof (induction qs arbitrary: p d h)
  case Nil
  then show ?case by simp
next
  case (Cons q qs)
  then obtain b where b: "h q = Some b" "sole_pbuf b" "q \<noteq> NULL" "p = q"
    and ch: "sole_chain h (pb_next b) qs"
    by (auto simp: sole_chain_Cons)
  from sole_chain_distinct [OF Cons.prems(1)] have q: "q \<notin> set qs" by simp
  let ?l = "length (pb_payload b)"
  define b' where "b' = b\<lparr>pb_payload := take ?l d @ drop (length d) (pb_payload b)\<rparr>"
  have b': "sole_pbuf b'" "pb_next b' = pb_next b" "pb_payload b' = take ?l d @ drop (length d) (pb_payload b)"
    using b by (auto simp: b'_def sole_pbuf_def)
  let ?h = "h(q \<mapsto> b')"
  let ?r = "write_chain qs (drop ?l d) ?h"
  from q have same: "chain_bytes ?h qs = chain_bytes h qs" by simp
  from q ch have "sole_chain ?h (pb_next b) qs" by simp
  moreover from Cons.prems(2) b same have "length (drop ?l d) \<le> length (chain_bytes ?h qs)"
    by (simp add: bytes_at_def)
  ultimately have IH: "sole_chain ?r (pb_next b) qs"
    "chain_bytes ?r qs = drop ?l d @ drop (length (drop ?l d)) (chain_bytes h qs)"
    using Cons.IH same by metis+
  have rq: "?r q = Some b'" using q by (simp add: write_chain_other)
  have eq: "write_chain (q # qs) d h = ?r" using b by (simp add: b'_def)
  have "sole_chain ?r p (q # qs)" using rq b b' IH(1) by (simp add: sole_chain_Cons)
  moreover have "chain_bytes ?r (q # qs) = d @ drop (length d) (chain_bytes h (q # qs))"
    using rq b' IH(2) b by (cases "length d \<le> ?l") (simp_all add: bytes_at_def)
  ultimately show ?case by (simp only: eq)
qed

primrec link_last :: "addr list \<Rightarrow> addr \<Rightarrow> (addr \<rightharpoonup> pbuf) \<Rightarrow> (addr \<rightharpoonup> pbuf)" where
  "link_last [] q h = h"
| "link_last (p # ps) q h = (if ps = [] then
       (case h p of None \<Rightarrow> h | Some b \<Rightarrow> h(p \<mapsto> b\<lparr>pb_next := q\<rparr>))
     else link_last ps q h)"

lemma link_last_other: "r \<notin> set ps \<Longrightarrow> link_last ps q h r = h r"
  by (induction ps) (auto split: option.split)

lemma link_last_payload: "bytes_at (link_last ps q h) r = bytes_at h r"
  by (induction ps) (auto simp: bytes_at_def split: option.split)

lemma link_last_ok:
  assumes "sole_chain h p ps" and "sole_chain h q qs" and "ps \<noteq> []" and "set ps \<inter> set qs = {}"
  shows "sole_chain (link_last ps q h) p (ps @ qs)"
  using assms
proof (induction ps arbitrary: p)
  case Nil
  then show ?case by simp
next
  case (Cons r ps)
  then obtain b where b: "h r = Some b" "sole_pbuf b" "r \<noteq> NULL" "p = r"
    and ch: "sole_chain h (pb_next b) ps"
    by (auto simp: sole_chain_Cons)
  from sole_chain_distinct [OF Cons.prems(1)] have r: "r \<notin> set ps" by simp
  show ?case
  proof (cases "ps = []")
    case True
    from Cons.prems have "sole_chain (h(r \<mapsto> b\<lparr>pb_next := q\<rparr>)) q qs" by simp
    moreover have "sole_pbuf (b\<lparr>pb_next := q\<rparr>)" using b by (simp add: sole_pbuf_def)
    ultimately show ?thesis using b True by (simp add: sole_chain_Cons fun_upd_same del: fun_upd_apply)
  next
    case False
    with Cons.IH [OF ch] Cons.prems have "sole_chain (link_last ps q h) (pb_next b) (ps @ qs)"
      by simp
    with b r False show ?thesis by (simp add: sole_chain_Cons link_last_other)
  qed
qed

definition heap_addr :: addr where "heap_addr = 1000"

definition blank_pcb :: tcp_pcb where
  "blank_pcb = \<lparr>t_local_ip = IP_ANY_TYPE, t_local_port = 0, t_remote_ip = IP_ANY_TYPE,
     t_remote_port = 0, t_callback_arg = NULL, t_sent = fn_NULL, t_recv = fn_NULL,
     t_errf = fn_NULL, t_poll = fn_NULL, t_pollinterval = 0, t_accept = fn_NULL, t_prio = 64,
     t_snd_buf = 2048, t_enqueued = []\<rparr>"

definition blank_es :: cs_tcp_raw_state where
  "blank_es = \<lparr>es_tpcb = blank_pcb, es_state = ES_NONE, es_retries = 255, es_pcb = 77, es_p = 77,
     es_callback = 77\<rparr>"

text \<open>An operation on a chain: the chain has to end in null.\<close>

definition on_chain :: "(addr list \<Rightarrow> 'x world \<Rightarrow> 'x world) \<Rightarrow> addr \<Rightarrow> 'a \<Rightarrow> ('x world, 'a) prog" where
  "on_chain f p r = (\<lambda>w. case chain_list (pbufs w) p of
       None \<Rightarrow> Some (Fault UseAfterFree)
     | Some qs \<Rightarrow> Some (Ok (r, f qs w)))"

definition ref_pbuf :: "'x pbuf_api" where
  "ref_pbuf = \<lparr>
     mem_malloc = (\<lambda>w. if ess w heap_addr = None
       then Some (Ok (heap_addr, w\<lparr>ess := (ess w)(heap_addr \<mapsto> blank_es)\<rparr>)) else Some (Ok (NULL, w))),
     mem_free = (\<lambda>a w. if ess w a = None then Some (Fault UseAfterFree)
       else Some (Ok ((), w\<lparr>ess := (ess w)(a := None)\<rparr>))),
     pbuf_alloc = (\<lambda>l n t w. if pbufs w heap_addr = None
       then Some (Ok (heap_addr, w\<lparr>pbufs := (pbufs w)(heap_addr \<mapsto>
         \<lparr>pb_next = NULL, pb_payload = replicate (unat n) 0, pb_tot_len = n, pb_len = n, pb_ref = 1\<rparr>)\<rparr>))
       else Some (Ok (NULL, w))),
     pbuf_take = (\<lambda>p d n. on_chain (\<lambda>qs w. w\<lparr>pbufs := write_chain qs (take (unat n) d) (pbufs w)\<rparr>) p ERR_OK),
     pbuf_copy_partial = (\<lambda>p n off w. case chain_list (pbufs w) p of
         None \<Rightarrow> Some (Fault UseAfterFree)
       | Some qs \<Rightarrow> Some (Ok (take (unat n) (drop (unat off) (chain_bytes (pbufs w) qs)), w))),
     pbuf_cat = (\<lambda>p q. on_chain (\<lambda>ps w. w\<lparr>pbufs := link_last ps q (pbufs w)\<rparr>) p ()),
     pbuf_refc = (\<lambda>p w. case pbufs w p of
         None \<Rightarrow> Some (Fault UseAfterFree)
       | Some b \<Rightarrow> Some (Ok ((), w\<lparr>pbufs := (pbufs w)(p \<mapsto> b\<lparr>pb_ref := pb_ref b + 1\<rparr>)\<rparr>))),
     pbuf_free = (\<lambda>p. on_chain (\<lambda>qs w. w\<lparr>pbufs := free_chain qs (pbufs w)\<rparr>) p 1)\<rparr>"

lemma ref_pbuf_doc [simp]:
  "doc_pbuf_ref ref_pbuf" "doc_pbuf_free ref_pbuf" "doc_pbuf_copy ref_pbuf" "doc_mem ref_pbuf"
  by (auto simp: doc_pbuf_ref_def doc_pbuf_free_def doc_pbuf_copy_def doc_mem_def ref_pbuf_def
      on_chain_def chain_list_is_chain heap_addr_def)

lemma ref_pbuf_alloc_doc [simp]: "doc_pbuf_alloc ref_pbuf"
proof -
  have "pbuf_alloc ref_pbuf l n t w = Some (Ok (NULL, w)) \<or>
     (\<exists>p qs h'. pbuf_alloc ref_pbuf l n t w = Some (Ok (p, w\<lparr>pbufs := h'\<rparr>)) \<and>
        fresh_chain (pbufs w) h' p qs (unat n))" for l n t and w :: "'a world"
  proof (cases "pbufs w heap_addr")
    case None
    let ?h = "(pbufs w)(heap_addr \<mapsto>
      \<lparr>pb_next = NULL, pb_payload = replicate (unat n) 0, pb_tot_len = n, pb_len = n, pb_ref = 1\<rparr>)"
    have "fresh_chain (pbufs w) ?h heap_addr [heap_addr] (unat n)"
      using None by (simp add: fresh_chain_def sole_chain_Cons sole_pbuf_def bytes_at_def heap_addr_def)
    with None have "pbuf_alloc ref_pbuf l n t w = Some (Ok (heap_addr, w\<lparr>pbufs := ?h\<rparr>))"
      by (simp add: ref_pbuf_def)
    then show ?thesis using \<open>fresh_chain (pbufs w) ?h heap_addr [heap_addr] (unat n)\<close> by blast
  next
    case (Some b)
    then show ?thesis by (simp add: ref_pbuf_def)
  qed
  then show ?thesis unfolding doc_pbuf_alloc_def by blast
qed

lemma ref_pbuf_take_doc [simp]: "doc_pbuf_take ref_pbuf"
  unfolding doc_pbuf_take_def
proof (intro allI impI, elim conjE)
  fix p qs and d :: "u8 list" and n and w :: "'a world"
  assume ch: "sole_chain (pbufs w) p qs" and n: "unat (n :: u16) \<le> length d"
    "unat n \<le> length (chain_bytes (pbufs w) qs)"
  let ?h = "write_chain qs (take (unat n) d) (pbufs w)"
  have "pbuf_take ref_pbuf p d n w = Some (Ok (ERR_OK, w\<lparr>pbufs := ?h\<rparr>))"
    using chain_list_is_chain [OF sole_chain_is_chain [OF ch]]
    by (simp add: ref_pbuf_def on_chain_def)
  moreover from ch n have "sole_chain ?h p qs \<and>
      chain_bytes ?h qs = take (unat n) d @ drop (unat n) (chain_bytes (pbufs w) qs)"
    using write_chain_ok [of "pbufs w" p qs "take (unat n) d"] by simp
  ultimately show "\<exists>h'. pbuf_take ref_pbuf p d n w = Some (Ok (ERR_OK, w\<lparr>pbufs := h'\<rparr>)) \<and>
      sole_chain h' p qs \<and> (\<forall>q. q \<notin> set qs \<longrightarrow> h' q = pbufs w q) \<and>
      chain_bytes h' qs = take (unat n) d @ drop (unat n) (chain_bytes (pbufs w) qs)"
    using write_chain_other by blast
qed

lemma ref_pbuf_cat_doc [simp]: "doc_pbuf_cat ref_pbuf"
  unfolding doc_pbuf_cat_def
proof (intro allI impI, elim conjE)
  fix p q ps qs and w :: "'a world"
  assume ch: "sole_chain (pbufs w) p ps" "sole_chain (pbufs w) q qs" and "p \<noteq> NULL"
    and dj: "set ps \<inter> set qs = {}"
  let ?h = "link_last ps q (pbufs w)"
  from ch \<open>p \<noteq> NULL\<close> have ne: "ps \<noteq> []" by auto
  have "pbuf_cat ref_pbuf p q w = Some (Ok ((), w\<lparr>pbufs := ?h\<rparr>))"
    using chain_list_is_chain [OF sole_chain_is_chain [OF ch(1)]]
    by (simp add: ref_pbuf_def on_chain_def)
  moreover have "chain_bytes ?h (ps @ qs) = chain_bytes (pbufs w) (ps @ qs)"
    by (simp add: chain_bytes_def link_last_payload cong: map_cong)
  ultimately show "\<exists>h'. pbuf_cat ref_pbuf p q w = Some (Ok ((), w\<lparr>pbufs := h'\<rparr>)) \<and>
      sole_chain h' p (ps @ qs) \<and> (\<forall>r. r \<notin> set (ps @ qs) \<longrightarrow> h' r = pbufs w r) \<and>
      chain_bytes h' (ps @ qs) = chain_bytes (pbufs w) (ps @ qs)"
    using link_last_ok [OF ch ne dj] link_last_other by fastforce
qed

section \<open>TCP\<close>

definition set_pcb :: "addr \<Rightarrow> (tcp_pcb \<Rightarrow> tcp_pcb) \<Rightarrow> ('x world, unit) prog" where
  "set_pcb p f = (\<lambda>w. case tpcbs w p of
       None \<Rightarrow> Some (Fault UseAfterFree)
     | Some c \<Rightarrow> Some (Ok ((), w\<lparr>tpcbs := (tpcbs w)(p \<mapsto> f c)\<rparr>)))"

definition ref_tcp :: "'x tcp_api" where
  "ref_tcp = \<lparr>
     tcp_arg = (\<lambda>p a. set_pcb p (t_callback_arg_update (\<lambda>_. a))),
     tcp_sent = (\<lambda>p f. set_pcb p (t_sent_update (\<lambda>_. f))),
     tcp_recv = (\<lambda>p f. set_pcb p (t_recv_update (\<lambda>_. f))),
     tcp_err = (\<lambda>p f. set_pcb p (t_errf_update (\<lambda>_. f))),
     tcp_poll = (\<lambda>p f i. set_pcb p (\<lambda>c. c\<lparr>t_poll := f, t_pollinterval := i\<rparr>)),
     tcp_accept = (\<lambda>p f. set_pcb p (t_accept_update (\<lambda>_. f))),
     tcp_setprio = (\<lambda>p n. set_pcb p (t_prio_update (\<lambda>_. n))),
     tcp_sndbuf = (\<lambda>p w. case tpcbs w p of
         None \<Rightarrow> Some (Fault UseAfterFree) | Some c \<Rightarrow> Some (Ok (t_snd_buf c, w))),
     tcp_write = (\<lambda>p d n f w. case tpcbs w p of
         None \<Rightarrow> Some (Fault UseAfterFree)
       | Some c \<Rightarrow> if n \<le> t_snd_buf c
           then Some (Ok (ERR_OK, w\<lparr>tpcbs := (tpcbs w)(p \<mapsto> pcb_enqueue d n c)\<rparr>))
           else Some (Ok (ERR_MEM, w))),
     tcp_output = (\<lambda>p w. Some (Ok (ERR_OK, w))),
     tcp_recved = (\<lambda>p n. set_pcb p id),
     tcp_close = (\<lambda>p w. if tpcbs w p = None then Some (Fault UseAfterFree)
       else Some (Ok (ERR_OK, w\<lparr>tpcbs := (tpcbs w)(p := None)\<rparr>))),
     tcp_abort = (\<lambda>p w. Some (Ok ((), w\<lparr>tpcbs := (tpcbs w)(p := None)\<rparr>))),
     tcp_new_ip_type = (\<lambda>t w. if tpcbs w heap_addr = None
       then Some (Ok (heap_addr, w\<lparr>tpcbs := (tpcbs w)(heap_addr \<mapsto> blank_pcb)\<rparr>))
       else Some (Ok (NULL, w))),
     tcp_bind = (\<lambda>p ip port w. case tpcbs w p of
         None \<Rightarrow> Some (Fault UseAfterFree)
       | Some c \<Rightarrow> Some (Ok (ERR_OK,
           w\<lparr>tpcbs := (tpcbs w)(p \<mapsto> c\<lparr>t_local_ip := ip, t_local_port := port\<rparr>)\<rparr>))),
     tcp_listen = (\<lambda>p w. Some (Ok (p, w))),
     tcp_free = (\<lambda>p w. Some (Ok ((), w\<lparr>tpcbs := (tpcbs w)(p := None)\<rparr>)))\<rparr>"

lemma ref_tcp_doc [simp]:
  "doc_tcp_setters ref_tcp" "doc_tcp_sndbuf ref_tcp" "doc_tcp_write ref_tcp"
  "doc_tcp_output ref_tcp" "doc_tcp_close ref_tcp"
proof -
  show "doc_tcp_setters ref_tcp"
    by (simp add: doc_tcp_setters_def pcb_setter_def ref_tcp_def set_pcb_def split: option.split)
  show "doc_tcp_sndbuf ref_tcp"
    by (simp add: doc_tcp_sndbuf_def ref_tcp_def)
  show "doc_tcp_write ref_tcp"
    by (simp add: doc_tcp_write_def ref_tcp_def)
  have "\<exists>a. w = w\<lparr>app := a\<rparr>" for w :: "'d world"
    by (rule exI [of _ "app w"]) simp
  then show "doc_tcp_output (ref_tcp :: 'd tcp_api)"
    unfolding doc_tcp_output_def ref_tcp_def by simp
  have "\<exists>a. w\<lparr>tpcbs := x\<rparr> = w\<lparr>tpcbs := x, app := a\<rparr>" for x and w :: "'e world"
    by (rule exI [of _ "app w"]) simp
  then show "doc_tcp_close (ref_tcp :: 'e tcp_api)"
    unfolding doc_tcp_close_def ref_tcp_def by simp
qed

end
