(* ===== verification/Cs_Tcp.thy ===== *)
theory Cs_Tcp
  imports Lwip_Ref
begin

text \<open>
  The TCP side of the bridge, \<open>src/tcp.c\<close>: the life of a connection (accept, receive, send,
  poll, error, close), the send loop over the pending pbuf chain, and the listener. The
  arguments \<open>P\<close> and \<open>T\<close> are the lwIP functions, \<open>C\<close> the callback structures in memory.
\<close>

section \<open>The functions of tcp.c\<close>

text \<open>Assignment to fields of the connection state behind a pointer.\<close>

definition update_es ::
  "addr \<Rightarrow> (cs_tcp_raw_state \<Rightarrow> cs_tcp_raw_state) \<Rightarrow> ('x world, unit) prog" where
  "update_es es f = bnd (deref ess es) (\<lambda>e. modify (\<lambda>w. w\<lparr>ess := (ess w)(es \<mapsto> f e)\<rparr>))"

definition cs_tcp_raw_free :: "'x pbuf_api \<Rightarrow> addr \<Rightarrow> ('x world, unit) prog" where
  "cs_tcp_raw_free P es =
     whenc (es \<noteq> NULL)
       (bnd (deref ess es) (\<lambda>e.
          block
           [whenc (es_p e \<noteq> NULL) (ignore (pbuf_free P (es_p e))),
            mem_free P es]))"

definition cs_tcp_raw_close ::
  "'x pbuf_api \<Rightarrow> 'x tcp_api \<Rightarrow> 'x callbacks \<Rightarrow> addr \<Rightarrow> addr \<Rightarrow> ('x world, unit) prog" where
  "cs_tcp_raw_close P T C tpcb es =
     block
      [tcp_arg T tpcb NULL,
       tcp_sent T tpcb fn_NULL,
       tcp_recv T tpcb fn_NULL,
       tcp_err T tpcb fn_NULL,
       tcp_poll T tpcb fn_NULL 0,
       bnd (deref ess es) (\<lambda>e.
         bnd (deref_cb C (es_callback e)) (\<lambda>cb.
           callp (cb_tcp_close cb) (\<lambda>f. f (cb_state cb) tpcb es))),
       cs_tcp_raw_free P es,
       ignore (tcp_close T tpcb)]"

text \<open>
  One round of the loop of \<open>cs_tcp_raw_send\<close>: the guard, then the body. The result says whether
  the loop goes on: the guard's first conjunct is the result of the last write.
\<close>

definition cs_tcp_raw_send_round ::
  "'x pbuf_api \<Rightarrow> 'x tcp_api \<Rightarrow> addr \<Rightarrow> addr \<Rightarrow> ('x world, bool) prog" where
  "cs_tcp_raw_send_round P T tpcb es =
     bnd (deref ess es) (\<lambda>e.
     if es_p e = NULL then ret False
     else
       bnd (deref pbufs (es_p e)) (\<lambda>b.
       bnd (tcp_sndbuf T tpcb) (\<lambda>n.
       if \<not> pb_len b \<le> n then ret False
       else
         let ptr = es_p e in
         bnd (tcp_write T tpcb (pb_payload b) (pb_len b) 1) (\<lambda>wr_err.
         if wr_err = ERR_OK then
           bnd (deref pbufs ptr) (\<lambda>b'.
           seq (update_es es (es_p_update (\<lambda>_. pb_next b')))
          (seq (whenc (pb_next b' \<noteq> NULL) (pbuf_refc P (pb_next b')))
          (seq (ignore (pbuf_free P ptr))
          (ret True))))
         else if wr_err = ERR_MEM then
           seq (update_es es (es_p_update (\<lambda>_. ptr))) (ret False)
         else ret False))))"

definition cs_tcp_raw_send ::
  "'x pbuf_api \<Rightarrow> 'x tcp_api \<Rightarrow> addr \<Rightarrow> addr \<Rightarrow> ('x world, unit) prog" where
  "cs_tcp_raw_send P T tpcb es =
     block
      [repeat_m (cs_tcp_raw_send_round P T tpcb es),
       ignore (tcp_output T tpcb)]"

definition cs_tcp_raw_error ::
  "'x pbuf_api \<Rightarrow> 'x tcp_api \<Rightarrow> 'x callbacks \<Rightarrow> addr \<Rightarrow> err_t \<Rightarrow> ('x world, unit) prog" where
  "cs_tcp_raw_error P T C arg err =
     seq (lwip_assert ''arg != NULL'' (arg \<noteq> NULL))
         (bnd (deref ess arg) (\<lambda>e. cs_tcp_raw_close P T C (es_pcb e) arg))"

definition cs_tcp_raw_poll ::
  "'x pbuf_api \<Rightarrow> 'x tcp_api \<Rightarrow> 'x callbacks \<Rightarrow> addr \<Rightarrow> addr \<Rightarrow> ('x world, err_t) prog" where
  "cs_tcp_raw_poll P T C arg tpcb =
     seq (lwip_assert ''arg != NULL'' (arg \<noteq> NULL))
     (if arg \<noteq> NULL then
        bnd (deref ess arg) (\<lambda>e.
        if es_p e \<noteq> NULL then seq (cs_tcp_raw_send P T tpcb arg) (ret ERR_OK)
        else seq (whenc (es_state e = ES_CLOSING) (cs_tcp_raw_close P T C tpcb arg)) (ret ERR_OK))
      else seq (tcp_abort T tpcb) (ret ERR_ABRT))"

definition cs_tcp_send ::
  "'x pbuf_api \<Rightarrow> 'x tcp_api \<Rightarrow> 'x callbacks \<Rightarrow> addr \<Rightarrow> addr \<Rightarrow> u16 \<Rightarrow> ('x world, err_t) prog"
where
  "cs_tcp_send P T C arg tpcb len =
     seq (lwip_assert ''arg != NULL'' (arg \<noteq> NULL))
    (seq (update_es arg (es_retries_update (\<lambda>_. 0)))
    (bnd (deref ess arg) (\<lambda>e.
     if es_p e \<noteq> NULL then
       seq (tcp_sent T tpcb fn_cs_tcp_send)
      (seq (cs_tcp_raw_send P T tpcb arg)
      (ret ERR_OK))
     else
       seq (whenc (es_p e = NULL)
             (bnd (deref_cb C (es_callback e)) (\<lambda>cb.
                callp (cb_tcp_send_done cb) (\<lambda>f. f (cb_state cb) tpcb arg))))
      (bnd (deref ess arg) (\<lambda>e'.
       seq (whenc (es_state e' = ES_CLOSING) (cs_tcp_raw_close P T C tpcb arg))
      (ret ERR_OK))))))"

text \<open>The call \<open>es->callback->tcp_recv(es->callback->state, tpcb, p, es)\<close>.\<close>

definition call_tcp_recv ::
  "'x callbacks \<Rightarrow> addr \<Rightarrow> addr \<Rightarrow> addr \<Rightarrow> ('x world, err_t) prog" where
  "call_tcp_recv C es tpcb p =
     bnd (deref ess es) (\<lambda>e.
     bnd (deref_cb C (es_callback e)) (\<lambda>cb.
       callp (cb_tcp_recv cb) (\<lambda>f. f (cb_state cb) tpcb p es)))"

definition cs_tcp_raw_recv ::
  "'x pbuf_api \<Rightarrow> 'x tcp_api \<Rightarrow> 'x callbacks \<Rightarrow>
   addr \<Rightarrow> addr \<Rightarrow> addr \<Rightarrow> err_t \<Rightarrow> ('x world, err_t) prog" where
  "cs_tcp_raw_recv P T C arg tpcb p err =
     seq (lwip_assert ''arg != NULL'' (arg \<noteq> NULL))
     (if p = NULL then
        seq (update_es arg (es_state_update (\<lambda>_. ES_CLOSING)))
       (seq (cs_tcp_raw_close P T C tpcb arg)
       (ret ERR_OK))
      else if err \<noteq> ERR_OK then
        seq (lwip_assert ''no pbuf expected here'' (p = NULL))
       (ret err)
      else
        bnd (deref ess arg) (\<lambda>e.
        if es_state e = ES_ACCEPTED then
          seq (update_es arg (es_state_update (\<lambda>_. ES_RECEIVED)))
         (call_tcp_recv C arg tpcb p)
        else if es_state e = ES_RECEIVED then
          call_tcp_recv C arg tpcb p
        else
          bnd (deref pbufs p) (\<lambda>b.
          seq (tcp_recved T tpcb (pb_tot_len b))
         (seq (ignore (pbuf_free P p))
         (ret ERR_OK)))))"

definition cs_tcp_raw_accept ::
  "'x pbuf_api \<Rightarrow> 'x tcp_api \<Rightarrow> 'x callbacks \<Rightarrow> addr \<Rightarrow> addr \<Rightarrow> err_t \<Rightarrow> ('x world, err_t) prog"
where
  "cs_tcp_raw_accept P T C arg newpcb err =
     (if err \<noteq> ERR_OK \<or> newpcb = NULL \<or> arg = NULL then ret ERR_VAL
      else
        seq (tcp_setprio T newpcb TCP_PRIO_MIN)
       (bnd (mem_malloc P) (\<lambda>es.
        if es \<noteq> NULL then
          seq (block
            [update_es es (es_state_update (\<lambda>_. ES_ACCEPTED)),
             update_es es (es_pcb_update (\<lambda>_. newpcb)),
             update_es es (es_retries_update (\<lambda>_. 0)),
             update_es es (es_p_update (\<lambda>_. NULL)),
             update_es es (es_callback_update (\<lambda>_. arg)),
             tcp_arg T newpcb es,
             tcp_recv T newpcb fn_cs_tcp_raw_recv,
             tcp_err T newpcb fn_cs_tcp_raw_error,
             tcp_poll T newpcb fn_cs_tcp_raw_poll 1,
             tcp_sent T newpcb fn_cs_tcp_send,
             ignore (bnd (deref_cb C arg) (\<lambda>cb.
               callp (cb_tcp_accept cb) (\<lambda>f. f (cb_state cb) newpcb es)))])
         (ret ERR_OK)
        else ret ERR_MEM)))"

definition cs_tcp_raw_init :: "'x tcp_api \<Rightarrow> addr \<Rightarrow> ('x world, addr) prog" where
  "cs_tcp_raw_init T callback =
     bnd (tcp_new_ip_type T IPADDR_TYPE_ANY) (\<lambda>npcb.
     if npcb \<noteq> NULL then
       seq (tcp_arg T npcb callback)
      (bnd (tcp_bind T npcb IP_ANY_TYPE 7) (\<lambda>err.
       if err = ERR_OK then
         bnd (tcp_listen T npcb) (\<lambda>lpcb.
         seq (tcp_accept T lpcb fn_cs_tcp_raw_accept)
        (ret lpcb))
       else
         seq (tcp_free T npcb)
        (ret NULL)))
     else ret npcb)"

text \<open>
  \<open>cs_tcp_char_send\<close>: \<open>buf_len\<close> is a C \<open>int\<close>, and is converted to \<open>u16_t\<close> where it is passed
  to lwIP.
\<close>

definition cs_tcp_char_send ::
  "'x pbuf_api \<Rightarrow> 'x tcp_api \<Rightarrow> addr \<Rightarrow> addr \<Rightarrow> u8 list \<Rightarrow> int \<Rightarrow> ('x world, int) prog" where
  "cs_tcp_char_send P T tpcb state buf buf_len =
     bnd (deref ess state) (\<lambda>e.
     if es_p e \<noteq> NULL then ret 100
     else
       bnd (pbuf_alloc P PBUF_RAW (word_of_int buf_len) PBUF_POOL) (\<lambda>p.
       if p = NULL then ret 1
       else
         seq (ignore (pbuf_take P p buf (word_of_int buf_len)))
        (bnd (deref ess state) (\<lambda>e'.
         if es_p e' = NULL then
           seq (update_es state (es_p_update (\<lambda>_. p)))
          (seq (cs_tcp_raw_send P T tpcb state)
          (ret 0))
         else
           seq (pbuf_cat P (es_p e') p)
          (ret 0)))))"

lemmas tcp_defs = cs_tcp_raw_free_def cs_tcp_raw_close_def cs_tcp_raw_send_round_def
  cs_tcp_raw_send_def cs_tcp_raw_error_def cs_tcp_raw_poll_def cs_tcp_send_def
  call_tcp_recv_def cs_tcp_raw_recv_def cs_tcp_raw_accept_def cs_tcp_raw_init_def
  cs_tcp_char_send_def

section \<open>The send loop\<close>

lemma wp_update_es [wp_simps]:
  "wp (update_es es f) Q = (\<lambda>w. es \<noteq> NULL \<and>
     (\<exists>e. ess w es = Some e \<and> Q () (w\<lparr>ess := (ess w)(es \<mapsto> f e)\<rparr>)))"
  by (simp add: update_es_def wp_simps fun_eq_iff)

text \<open>
  Referencing the second buffer of a chain and freeing the first one removes exactly the first:
  the walk of \<open>pbuf_free\<close> stops at the extra reference and takes it back.
\<close>

definition ref_next :: "addr \<Rightarrow> (addr \<rightharpoonup> pbuf) \<Rightarrow> (addr \<rightharpoonup> pbuf)" where
  "ref_next q h = (case h q of None \<Rightarrow> h | Some b \<Rightarrow> h(q \<mapsto> b\<lparr>pb_ref := pb_ref b + 1\<rparr>))"

lemma is_chain_ref_next:
  "is_chain h p qs \<Longrightarrow> is_chain (ref_next r h) p qs"
  by (induction qs arbitrary: p) (auto simp: ref_next_def split: option.splits)

lemma chop_first:
  assumes "sole_chain h p (p # qs)" and "qs \<noteq> []"
  shows "free_chain (p # qs) (ref_next (head_ptr qs) h) = h(p := None)"
proof -
  from \<open>qs \<noteq> []\<close> obtain q rs where qs: "qs = q # rs" by (cases qs) auto
  from assms(1) qs obtain b b' where
    b: "h p = Some b" "pb_ref b = 1" and b': "h q = Some b'" "pb_ref b' = 1"
    by (auto simp: sole_chain_Cons sole_pbuf_def)
  from sole_chain_distinct [OF assms(1)] qs have "p \<noteq> q" by auto
  with b b' qs show ?thesis by (auto simp: ref_next_def fun_eq_iff)
qed

lemma chop_last:
  "sole_chain h p [p] \<Longrightarrow> free_chain [p] h = h(p := None)"
  by (auto simp: sole_chain_Cons sole_pbuf_def)

text \<open>
  The store after the first \<open>k\<close> buffers of the pending chain \<open>qs\<close> have gone out: they are
  released, their bytes are enqueued on the connection, and the pending chain starts after them.
\<close>

definition after_send ::
  "'x world \<Rightarrow> addr \<Rightarrow> addr \<Rightarrow> addr list \<Rightarrow> nat \<Rightarrow> 'x world" where
  "after_send w tpcb es qs k =
     w\<lparr>pbufs := (\<lambda>q. if q \<in> set (take k qs) then None else pbufs w q),
       ess := (ess w)(es := map_option (\<lambda>e. e\<lparr>es_p := head_ptr (drop k qs)\<rparr>) (ess w es)),
       tpcbs := (tpcbs w)(tpcb := map_option
          (\<lambda>c. c\<lparr>t_snd_buf := t_snd_buf c - of_nat (length (chain_bytes (pbufs w) (take k qs))),
                 t_enqueued := t_enqueued c @ chain_bytes (pbufs w) (take k qs)\<rparr>)
          (tpcbs w tpcb))\<rparr>"

text \<open>A live connection with the pending chain \<open>qs\<close>.\<close>

definition conn :: "'x world \<Rightarrow> addr \<Rightarrow> addr \<Rightarrow> addr list \<Rightarrow> bool" where
  "conn w tpcb es qs \<longleftrightarrow> tpcb \<noteq> NULL \<and> es \<noteq> NULL \<and> tpcbs w tpcb \<noteq> None \<and>
     (case ess w es of None \<Rightarrow> False | Some e \<Rightarrow> sole_chain (pbufs w) (es_p e) qs)"

definition doc_send :: "'x pbuf_api \<Rightarrow> 'x tcp_api \<Rightarrow> bool" where
  "doc_send P T \<longleftrightarrow> doc_pbuf_ref P \<and> doc_pbuf_free P \<and> doc_tcp_sndbuf T \<and> doc_tcp_write T \<and>
     doc_tcp_output T"

lemma connE:
  assumes "conn w tpcb es qs"
  obtains e c where "ess w es = Some e" and "sole_chain (pbufs w) (es_p e) qs"
    and "tpcbs w tpcb = Some c" and "tpcb \<noteq> NULL" and "es \<noteq> NULL"
  using assms unfolding conn_def by (cases "ess w es") auto

lemma sole_chain_drop:
  "sole_chain h p qs \<Longrightarrow> sole_chain h (head_ptr (drop k qs)) (drop k qs)"
proof (induction k arbitrary: p qs)
  case 0
  then show ?case using sole_chain_head by fastforce
next
  case (Suc k)
  show ?case
  proof (cases qs)
    case Nil
    then show ?thesis by simp
  next
    case (Cons q rs)
    with Suc.prems have "\<exists>p. sole_chain h p rs" by (auto simp: sole_chain_Cons)
    with Suc.IH Cons show ?thesis by auto
  qed
qed

lemma after_send_0:
  assumes "conn w tpcb es qs"
  shows "after_send w tpcb es qs 0 = w"
proof -
  from assms obtain e c where e: "ess w es = Some e" "sole_chain (pbufs w) (es_p e) qs"
    and c: "tpcbs w tpcb = Some c"
    by (rule connE)
  from e have "e\<lparr>es_p := head_ptr qs\<rparr> = e" using sole_chain_head by fastforce
  with e c show ?thesis by (simp add: after_send_def fun_upd_idem)
qed

text \<open>What is still pending is a chain as before, with the same bytes.\<close>

lemma after_send_conn:
  assumes "conn w tpcb es qs"
  shows "conn (after_send w tpcb es qs k) tpcb es (drop k qs)"
    and "chain_bytes (pbufs (after_send w tpcb es qs k)) (drop k qs) =
         chain_bytes (pbufs w) (drop k qs)"
proof -
  from assms obtain e c where e: "ess w es = Some e" and ch: "sole_chain (pbufs w) (es_p e) qs"
    by (rule connE)
  from sole_chain_distinct [OF ch] have "distinct (take k qs @ drop k qs)" by simp
  then have disj: "set (take k qs) \<inter> set (drop k qs) = {}" by (simp only: distinct_append)
  from ch have "sole_chain (pbufs w) (head_ptr (drop k qs)) (drop k qs)"
    by (rule sole_chain_drop)
  moreover have same: "q \<in> set (drop k qs) \<Longrightarrow>
      pbufs (after_send w tpcb es qs k) q = pbufs w q" for q
    using disj by (auto simp: after_send_def)
  ultimately show "conn (after_send w tpcb es qs k) tpcb es (drop k qs)"
    using assms e sole_chain_cong [of "drop k qs" "pbufs (after_send w tpcb es qs k)" "pbufs w"]
    by (auto simp: conn_def after_send_def)
  show "chain_bytes (pbufs (after_send w tpcb es qs k)) (drop k qs) =
        chain_bytes (pbufs w) (drop k qs)"
    by (rule chain_bytes_cong) (rule same)
qed

lemma after_send_Suc:
  assumes "conn w tpcb es (q # rs)"
  shows "after_send (after_send w tpcb es (q # rs) 1) tpcb es rs k =
         after_send w tpcb es (q # rs) (Suc k)"
proof -
  from assms obtain e c where "ess w es = Some e" "sole_chain (pbufs w) (es_p e) (q # rs)"
    by (rule connE)
  then have q: "q \<notin> set rs" using sole_chain_distinct by fastforce
  have "q \<notin> set (take k rs)" using q by (meson in_set_takeD)
  then have "chain_bytes (pbufs (after_send w tpcb es (q # rs) 1)) (take k rs) =
      chain_bytes (pbufs w) (take k rs)"
    by (intro chain_bytes_cong) (auto simp: after_send_def)
  then show ?thesis
    by (simp add: after_send_def fun_eq_iff option.map_comp o_def algebra_simps)
qed

lemma doc_sendD:
  assumes "doc_send P T"
  shows "doc_pbuf_ref P" "doc_pbuf_free P" "doc_tcp_sndbuf T" "doc_tcp_write T" "doc_tcp_output T"
  using assms by (auto simp: doc_send_def)

text \<open>Chopping the first buffer off a chain, as the loop does it.\<close>

lemma chop_run:
  assumes ref: "doc_pbuf_ref P" and free: "doc_pbuf_free P"
    and ch: "sole_chain (pbufs w) q (q # rs)"
  shows "\<exists>n w'. (if head_ptr rs = NULL then Some (Ok ((), w)) else pbuf_refc P (head_ptr rs) w) =
        Some (Ok ((), w')) \<and>
      pbuf_free P q w' = Some (Ok (n, w\<lparr>pbufs := (pbufs w)(q := None)\<rparr>))"
proof (cases rs)
  case Nil
  with ch have "is_chain (pbufs w) q [q]" and q: "q \<noteq> NULL"
    by (auto simp: sole_chain_Cons)
  with free obtain n where "pbuf_free P q w = Some (Ok (n, w\<lparr>pbufs := free_chain [q] (pbufs w)\<rparr>))"
    unfolding doc_pbuf_free_def by blast
  moreover from ch Nil have "free_chain [q] (pbufs w) = (pbufs w)(q := None)"
    by (intro chop_last) simp
  ultimately show ?thesis using Nil by simp
next
  case (Cons r ts)
  with ch obtain b where r: "r \<noteq> NULL" "pbufs w r = Some b" and q: "q \<noteq> NULL"
    by (auto simp: sole_chain_Cons)
  define w' where "w' = w\<lparr>pbufs := ref_next r (pbufs w)\<rparr>"
  from r ref have "pbuf_refc P r w = Some (Ok ((), w'))"
    unfolding doc_pbuf_ref_def w'_def ref_next_def by simp
  moreover from ch have "is_chain (pbufs w') q (q # rs)"
    using is_chain_ref_next sole_chain_is_chain by (force simp: w'_def)
  with free q obtain n where
    "pbuf_free P q w' = Some (Ok (n, w'\<lparr>pbufs := free_chain (q # rs) (pbufs w')\<rparr>))"
    unfolding doc_pbuf_free_def by blast
  moreover have "free_chain (q # rs) (pbufs w') = (pbufs w)(q := None)"
    using chop_first [OF ch] Cons by (simp add: w'_def)
  ultimately show ?thesis using Cons r by (simp add: w'_def)
qed

text \<open>One round, with something pending: either the first buffer goes out, or nothing changes.\<close>

lemma send_round:
  assumes doc: "doc_send P T" and conn: "conn w tpcb es (q # rs)"
    and c: "tpcbs w tpcb = Some c" and b: "pbufs w q = Some b"
  shows "wp (cs_tcp_raw_send_round P T tpcb es) (\<lambda>go w'.
     if go then w' = after_send w tpcb es (q # rs) 1 \<and> pb_len b \<le> t_snd_buf c
     else w' = w \<and> (pb_len b \<le> t_snd_buf c \<longrightarrow>
       (\<exists>err. err \<noteq> ERR_OK \<and>
          tcp_write T tpcb (pb_payload b) (pb_len b) 1 w = Some (Ok (err, w))))) w"
proof -
  from conn obtain e c' where e: "ess w es = Some e"
    and ch: "sole_chain (pbufs w) (es_p e) (q # rs)" and nn: "tpcb \<noteq> NULL" "es \<noteq> NULL"
    by (rule connE)
  from ch b have p: "es_p e = q" "q \<noteq> NULL" and len: "length (pb_payload b) = unat (pb_len b)"
    and nx: "pb_next b = head_ptr rs"
    by (auto simp: sole_chain_Cons sole_pbuf_def dest: sole_chain_head)
  have snd: "tcp_sndbuf T tpcb w = Some (Ok (t_snd_buf c, w))"
    using doc c by (simp add: doc_send_def doc_tcp_sndbuf_def)
  show ?thesis
  proof (cases "pb_len b \<le> t_snd_buf c")
    case False
    then show ?thesis
      by (simp add: cs_tcp_raw_send_round_def wp_def run_simps e nn p b snd)
  next
    case fits: True
    from doc c have "(\<exists>err. err \<noteq> ERR_OK \<and>
          tcp_write T tpcb (pb_payload b) (pb_len b) 1 w = Some (Ok (err, w))) \<or>
        tcp_write T tpcb (pb_payload b) (pb_len b) 1 w =
          Some (Ok (ERR_OK, w\<lparr>tpcbs := (tpcbs w)(tpcb \<mapsto> pcb_enqueue (pb_payload b) (pb_len b) c)\<rparr>))"
      unfolding doc_send_def doc_tcp_write_def by blast
    then show ?thesis
    proof (elim disjE exE conjE)
      fix err
      assume err: "err \<noteq> ERR_OK" and
        wr: "tcp_write T tpcb (pb_payload b) (pb_len b) 1 w = Some (Ok (err, w))"
      have "w\<lparr>ess := (ess w)(es \<mapsto> e\<lparr>es_p := q\<rparr>)\<rparr> = w"
        using e p by (simp add: fun_upd_idem)
      with err wr show ?thesis
        by (simp add: cs_tcp_raw_send_round_def update_es_def wp_def run_simps e nn p b snd wr
            fits Let_def)
    next
      assume wr: "tcp_write T tpcb (pb_payload b) (pb_len b) 1 w =
          Some (Ok (ERR_OK, w\<lparr>tpcbs := (tpcbs w)(tpcb \<mapsto> pcb_enqueue (pb_payload b) (pb_len b) c)\<rparr>))"
      define w1 where "w1 = w\<lparr>tpcbs := (tpcbs w)(tpcb \<mapsto> pcb_enqueue (pb_payload b) (pb_len b) c),
          ess := (ess w)(es \<mapsto> e\<lparr>es_p := pb_next b\<rparr>)\<rparr>"
      have after: "w1\<lparr>pbufs := (pbufs w)(q := None)\<rparr> = after_send w tpcb es (q # rs) 1"
        using e c b nx len
        by (simp add: w1_def after_send_def pcb_enqueue_def bytes_at_def fun_eq_iff)
      have ch1: "sole_chain (pbufs w1) q (q # rs)" using ch p by (simp add: w1_def)
      have pb: "pbufs w1 = pbufs w" by (simp add: w1_def)
      from chop_run [OF doc_sendD(1,2) [OF doc] ch1] obtain n w2 where
        ref: "(if head_ptr rs = NULL then Some (Ok ((), w1)) else pbuf_refc P (head_ptr rs) w1) =
          Some (Ok ((), w2))" and
        free: "pbuf_free P q w2 = Some (Ok (n, after_send w tpcb es (q # rs) 1))"
        unfolding pb after by blast
      show ?thesis
        using ref free
        by (auto simp: cs_tcp_raw_send_round_def update_es_def wp_def run_simps e nn p b snd wr
            fits Let_def nx w1_def [unfolded nx, symmetric] split: if_splits)
    qed
  qed
qed

text \<open>
  Why the loop stops: nothing is pending, the first pending buffer does not fit the send buffer,
  or lwIP refuses to take it.
\<close>

definition send_blocked :: "'x tcp_api \<Rightarrow> 'x world \<Rightarrow> addr \<Rightarrow> addr list \<Rightarrow> bool" where
  "send_blocked T w tpcb qs \<longleftrightarrow> (case qs of [] \<Rightarrow> True | q # _ \<Rightarrow>
     (\<forall>b c. pbufs w q = Some b \<longrightarrow> tpcbs w tpcb = Some c \<longrightarrow> pb_len b \<le> t_snd_buf c \<longrightarrow>
        (\<exists>err. err \<noteq> ERR_OK \<and>
           tcp_write T tpcb (pb_payload b) (pb_len b) 1 w = Some (Ok (err, w)))))"

definition snd_space :: "'x world \<Rightarrow> addr \<Rightarrow> nat" where
  "snd_space w tpcb = (case tpcbs w tpcb of None \<Rightarrow> 0 | Some c \<Rightarrow> unat (t_snd_buf c))"

lemma snd_space_after_1:
  assumes "conn w tpcb es (q # rs)" and "pbufs w q = Some b" and "tpcbs w tpcb = Some c"
    and "pb_len b \<le> t_snd_buf c"
  shows "snd_space (after_send w tpcb es (q # rs) 1) tpcb = snd_space w tpcb - length (bytes_at (pbufs w) q)"
    and "length (bytes_at (pbufs w) q) \<le> snd_space w tpcb"
proof -
  from assms(1) obtain e c' where "ess w es = Some e" "sole_chain (pbufs w) (es_p e) (q # rs)"
    by (rule connE)
  with assms(2) have len: "length (bytes_at (pbufs w) q) = unat (pb_len b)"
    by (auto simp: sole_chain_Cons sole_pbuf_def bytes_at_def)
  show "length (bytes_at (pbufs w) q) \<le> snd_space w tpcb"
    using assms len by (simp add: snd_space_def word_le_nat_alt)
  show "snd_space (after_send w tpcb es (q # rs) 1) tpcb = snd_space w tpcb - length (bytes_at (pbufs w) q)"
    using assms(3,4) len by (simp add: snd_space_def after_send_def unat_sub)
qed

lemma send_loop:
  assumes doc: "doc_send P T"
  shows "conn w tpcb es qs \<Longrightarrow>
    \<exists>k \<le> length qs. repeat_m (cs_tcp_raw_send_round P T tpcb es) w =
        Some (Ok ((), after_send w tpcb es qs k)) \<and>
      length (chain_bytes (pbufs w) (take k qs)) \<le> snd_space w tpcb \<and>
      send_blocked T (after_send w tpcb es qs k) tpcb (drop k qs)"
proof (induction qs arbitrary: w)
  case Nil
  then obtain e c where e: "ess w es = Some e" "sole_chain (pbufs w) (es_p e) []" "es \<noteq> NULL"
    by (rule connE)
  then have "cs_tcp_raw_send_round P T tpcb es w = Some (Ok (False, w))"
    by (simp add: cs_tcp_raw_send_round_def run_simps)
  then have "repeat_m (cs_tcp_raw_send_round P T tpcb es) w = Some (Ok ((), w))"
    by (simp add: repeat_m.simps [of _ w])
  with after_send_0 [OF Nil] show ?case by (simp add: send_blocked_def)
next
  case (Cons q rs)
  let ?w1 = "after_send w tpcb es (q # rs) 1"
  from Cons.prems obtain e c where ec: "ess w es = Some e" "sole_chain (pbufs w) (es_p e) (q # rs)"
    "tpcbs w tpcb = Some c"
    by (rule connE)
  then obtain b where b: "pbufs w q = Some b" by (auto simp: sole_chain_Cons)
  from send_round [OF doc Cons.prems ec(3) b] obtain go w' where
    run: "cs_tcp_raw_send_round P T tpcb es w = Some (Ok (go, w'))" and
    post: "if go then w' = ?w1 \<and> pb_len b \<le> t_snd_buf c
     else w' = w \<and> (pb_len b \<le> t_snd_buf c \<longrightarrow> (\<exists>err. err \<noteq> ERR_OK \<and>
          tcp_write T tpcb (pb_payload b) (pb_len b) 1 w = Some (Ok (err, w))))"
    unfolding wp_iff by blast
  show ?case
  proof (cases go)
    case False
    with run post have "repeat_m (cs_tcp_raw_send_round P T tpcb es) w = Some (Ok ((), w))"
      by (simp add: repeat_m.simps [of _ w])
    moreover from False post b ec have "send_blocked T w tpcb (q # rs)"
      by (simp add: send_blocked_def)
    ultimately show ?thesis using after_send_0 [OF Cons.prems] by (intro exI [of _ 0]) simp
  next
    case True
    with post have w': "w' = ?w1" and fits: "pb_len b \<le> t_snd_buf c" by auto
    note space = snd_space_after_1 [OF Cons.prems b ec(3) fits]
    have "conn ?w1 tpcb es rs" using after_send_conn(1) [OF Cons.prems, of 1] by simp
    from Cons.IH [OF this] obtain k where k: "k \<le> length rs"
      and rest: "repeat_m (cs_tcp_raw_send_round P T tpcb es) ?w1 = Some (Ok ((), after_send ?w1 tpcb es rs k))"
      and sp: "length (chain_bytes (pbufs ?w1) (take k rs)) \<le> snd_space ?w1 tpcb"
      and bl: "send_blocked T (after_send ?w1 tpcb es rs k) tpcb (drop k rs)"
      by blast
    have "q \<notin> set (take k rs)"
      using sole_chain_distinct [OF ec(2)] by (auto dest: in_set_takeD)
    then have "chain_bytes (pbufs ?w1) (take k rs) = chain_bytes (pbufs w) (take k rs)"
      by (intro chain_bytes_cong) (auto simp: after_send_def)
    with sp space have "length (chain_bytes (pbufs w) (take (Suc k) (q # rs))) \<le> snd_space w tpcb"
      by simp
    moreover from run True w' rest have "repeat_m (cs_tcp_raw_send_round P T tpcb es) w =
        Some (Ok ((), after_send w tpcb es (q # rs) (Suc k)))"
      by (simp add: repeat_m.simps [of _ w] after_send_Suc [OF Cons.prems, simplified])
    moreover from bl have "send_blocked T (after_send w tpcb es (q # rs) (Suc k)) tpcb (drop (Suc k) (q # rs))"
      by (simp add: after_send_Suc [OF Cons.prems, simplified])
    ultimately show ?thesis using k by (intro exI [of _ "Suc k"]) simp
  qed
qed

lemma send_run:
  assumes doc: "doc_send P T" and conn: "conn w tpcb es qs"
  shows "\<exists>k a. k \<le> length qs \<and>
     cs_tcp_raw_send P T tpcb es w = Some (Ok ((), (after_send w tpcb es qs k)\<lparr>app := a\<rparr>)) \<and>
     length (chain_bytes (pbufs w) (take k qs)) \<le> snd_space w tpcb \<and>
     send_blocked T (after_send w tpcb es qs k) tpcb (drop k qs)"
proof -
  from send_loop [OF doc conn] obtain k where k: "k \<le> length qs" and
    run: "repeat_m (cs_tcp_raw_send_round P T tpcb es) w = Some (Ok ((), after_send w tpcb es qs k))" and
    rest: "length (chain_bytes (pbufs w) (take k qs)) \<le> snd_space w tpcb"
      "send_blocked T (after_send w tpcb es qs k) tpcb (drop k qs)"
    by blast
  have "tpcbs (after_send w tpcb es qs k) tpcb \<noteq> None"
    using conn by (auto simp: conn_def after_send_def)
  with doc_sendD(5) [OF doc] obtain e a where
    "tcp_output T tpcb (after_send w tpcb es qs k) = Some (Ok (e, (after_send w tpcb es qs k)\<lparr>app := a\<rparr>))"
    unfolding doc_tcp_output_def by blast
  with k run rest show ?thesis
    by (auto simp: cs_tcp_raw_send_def run_simps)
qed

section \<open>Properties of the send loop\<close>

definition enqueued :: "'x world \<Rightarrow> addr \<Rightarrow> u8 list" where
  "enqueued w tpcb = (case tpcbs w tpcb of None \<Rightarrow> [] | Some c \<Rightarrow> t_enqueued c)"

lemma enqueued_after_send:
  "conn w tpcb es qs \<Longrightarrow>
   enqueued (after_send w tpcb es qs k) tpcb = enqueued w tpcb @ chain_bytes (pbufs w) (take k qs)"
  by (auto simp: conn_def enqueued_def after_send_def)

lemma app_update_frame [simp]:
  "conn (w\<lparr>app := a\<rparr>) tpcb es qs = conn w tpcb es qs"
  "enqueued (w\<lparr>app := a\<rparr>) tpcb = enqueued w tpcb"
  by (simp_all add: conn_def enqueued_def split: option.split)

lemma chain_bytes_take_drop:
  "chain_bytes h (take k qs) @ chain_bytes h (drop k qs) = chain_bytes h qs"
  by (simp flip: chain_bytes_simps(3))

text \<open>
  A connection with three pending bytes in two buffers, on the reference stack, used by the
  witnesses below.
\<close>

definition demo_buf :: "addr \<Rightarrow> u8 list \<Rightarrow> pbuf" where
  "demo_buf n d = \<lparr>pb_next = n, pb_payload = d, pb_tot_len = of_nat (length d),
     pb_len = of_nat (length d), pb_ref = 1\<rparr>"

definition demo_es :: "addr \<Rightarrow> cs_tcp_raw_state" where
  "demo_es p = \<lparr>es_tpcb = blank_pcb, es_state = ES_RECEIVED, es_retries = 3, es_pcb = 5, es_p = p,
     es_callback = 9\<rparr>"

definition demo_world :: "u16 \<Rightarrow> unit world" where
  "demo_world space = \<lparr>pbufs = [1 \<mapsto> demo_buf 2 [10, 20], 2 \<mapsto> demo_buf NULL [30]],
     ess = [7 \<mapsto> demo_es 1], tpcbs = [5 \<mapsto> blank_pcb\<lparr>t_snd_buf := space\<rparr>], upcbs = Map.empty,
     netifs = Map.empty, app = ()\<rparr>"

lemma demo_conn [simp]: "conn (demo_world space) 5 7 [1, 2]"
  by (simp add: conn_def demo_world_def demo_es_def demo_buf_def sole_chain_Cons sole_pbuf_def)

lemma ref_doc_send [simp]: "doc_send ref_pbuf ref_tcp"
  by (simp add: doc_send_def)

text \<open>
  C2. \<open>cs_tcp_raw_send\<close> loses, duplicates and reorders nothing. On a live connection with a
  pending pbuf chain it returns without a fault, whatever lwIP accepts or refuses; what it
  enqueued, followed by what is still pending, is what was enqueued before followed by what was
  pending before; and the chain still pending is a final part of the old one.
\<close>

theorem cs_tcp_raw_send_conserves:
  assumes "doc_send P T" and "conn w tpcb es qs"
  shows "\<exists>w' k. cs_tcp_raw_send P T tpcb es w = Some (Ok ((), w')) \<and>
     conn w' tpcb es (drop k qs) \<and>
     enqueued w' tpcb @ chain_bytes (pbufs w') (drop k qs) =
       enqueued w tpcb @ chain_bytes (pbufs w) qs"
proof -
  from send_run [OF assms] obtain k a where
    run: "cs_tcp_raw_send P T tpcb es w = Some (Ok ((), (after_send w tpcb es qs k)\<lparr>app := a\<rparr>))"
    by blast
  have "enqueued w tpcb @ chain_bytes (pbufs w) (take k qs) @ chain_bytes (pbufs w) (drop k qs) =
      enqueued w tpcb @ chain_bytes (pbufs w) qs"
    by (simp only: chain_bytes_take_drop)
  with run show ?thesis
    using after_send_conn [OF assms(2), of k] enqueued_after_send [OF assms(2), of k]
    by (intro exI [of _ "(after_send w tpcb es qs k)\<lparr>app := a\<rparr>"] exI [of _ k]) simp
qed

theorem cs_tcp_raw_send_conserves_witness:
  "\<exists>w' k. cs_tcp_raw_send ref_pbuf ref_tcp 5 7 (demo_world 2) = Some (Ok ((), w')) \<and>
     conn w' 5 7 (drop k [1, 2]) \<and>
     enqueued w' 5 @ chain_bytes (pbufs w') (drop k [1, 2]) = [10, 20, 30]"
  using cs_tcp_raw_send_conserves [OF ref_doc_send demo_conn [of 2]]
  by (simp add: demo_world_def demo_buf_def enqueued_def blank_pcb_def bytes_at_def)

text \<open>
  The specification of how much goes out when lwIP takes everything that fits: the longest run
  of whole buffers that fits the space in the send buffer.
\<close>

primrec fit :: "nat \<Rightarrow> nat list \<Rightarrow> nat" where
  "fit n [] = 0"
| "fit n (l # ls) = (if l \<le> n then Suc (fit (n - l) ls) else 0)"

definition accepts_fitting :: "'x tcp_api \<Rightarrow> bool" where
  "accepts_fitting T \<longleftrightarrow> (\<forall>p d n f c w. tpcbs w p = Some c \<longrightarrow> n \<le> t_snd_buf c \<longrightarrow>
     (\<exists>w'. tcp_write T p d n f w = Some (Ok (ERR_OK, w'))))"

lemma fit_unique:
  "k \<le> length ls \<Longrightarrow> sum_list (take k ls) \<le> n \<Longrightarrow>
   (k < length ls \<Longrightarrow> n < sum_list (take k ls) + ls ! k) \<Longrightarrow> k = fit n ls"
proof (induction ls arbitrary: k n)
  case Nil
  then show ?case by simp
next
  case (Cons l ls)
  show ?case
  proof (cases k)
    case 0
    with Cons.prems show ?thesis by simp
  next
    case (Suc j)
    with Cons.prems have "j = fit (n - l) ls" by (intro Cons.IH) auto
    with Suc Cons.prems show ?thesis by simp
  qed
qed

lemma length_chain_bytes: "length (chain_bytes h qs) = sum_list (map (length \<circ> bytes_at h) qs)"
  by (induction qs) auto

lemma not_blocked_big:
  assumes conn: "conn w tpcb es qs" and "accepts_fitting T" and ne: "qs \<noteq> []"
    and "send_blocked T w tpcb qs"
  shows "snd_space w tpcb < length (bytes_at (pbufs w) (hd qs))"
proof -
  from ne obtain q rs where qs: "qs = q # rs" by (cases qs) auto
  from conn obtain e c where ec: "ess w es = Some e" "sole_chain (pbufs w) (es_p e) (q # rs)"
    "tpcbs w tpcb = Some c" unfolding qs by (rule connE)
  then obtain b where b: "pbufs w q = Some b" "sole_pbuf b" by (auto simp: sole_chain_Cons)
  have "\<not> pb_len b \<le> t_snd_buf c"
  proof
    assume fits: "pb_len b \<le> t_snd_buf c"
    with assms(4) b ec obtain err where "err \<noteq> ERR_OK"
      "tcp_write T tpcb (pb_payload b) (pb_len b) 1 w = Some (Ok (err, w))"
      by (auto simp: send_blocked_def qs)
    moreover from assms(2) ec(3) fits obtain w' where
      "tcp_write T tpcb (pb_payload b) (pb_len b) 1 w = Some (Ok (ERR_OK, w'))"
      unfolding accepts_fitting_def by blast
    ultimately show False by simp
  qed
  with b ec show ?thesis
    by (simp add: qs snd_space_def bytes_at_def sole_pbuf_def word_le_nat_alt)
qed

lemma snd_space_after_send:
  assumes "conn w tpcb es qs" and "length (chain_bytes (pbufs w) (take k qs)) \<le> snd_space w tpcb"
  shows "snd_space (after_send w tpcb es qs k) tpcb =
     snd_space w tpcb - length (chain_bytes (pbufs w) (take k qs))"
proof -
  from assms(1) obtain e c where "ess w es = Some e" "sole_chain (pbufs w) (es_p e) qs" and
    c: "tpcbs w tpcb = Some c"
    by (rule connE)
  let ?n = "length (chain_bytes (pbufs w) (take k qs))"
  from assms(2) c have n: "?n \<le> unat (t_snd_buf c)" by (simp add: snd_space_def)
  with unat_u16_le [of "t_snd_buf c"] have un: "unat (of_nat ?n :: u16) = ?n"
    by (simp add: unat_of_nat)
  with n have "(of_nat ?n :: u16) \<le> t_snd_buf c" by (simp add: word_le_nat_alt)
  with c un show ?thesis by (simp add: snd_space_def after_send_def unat_sub)
qed

lemma send_fit:
  assumes "doc_send P T" and "accepts_fitting T" and "conn w tpcb es qs"
    and k: "k = fit (snd_space w tpcb) (map (length \<circ> bytes_at (pbufs w)) qs)"
  shows "\<exists>a. cs_tcp_raw_send P T tpcb es w =
     Some (Ok ((), (after_send w tpcb es qs k)\<lparr>app := a\<rparr>))"
proof -
  from send_run [OF assms(1,3)] obtain j a where j: "j \<le> length qs" and
    run: "cs_tcp_raw_send P T tpcb es w = Some (Ok ((), (after_send w tpcb es qs j)\<lparr>app := a\<rparr>))" and
    sp: "length (chain_bytes (pbufs w) (take j qs)) \<le> snd_space w tpcb" and
    bl: "send_blocked T (after_send w tpcb es qs j) tpcb (drop j qs)"
    by blast
  let ?ls = "map (length \<circ> bytes_at (pbufs w)) qs"
  have tot: "length (chain_bytes (pbufs w) (take j qs)) = sum_list (take j ?ls)"
    by (simp add: length_chain_bytes take_map)
  have big: "snd_space w tpcb < sum_list (take j ?ls) + ?ls ! j" if "j < length ?ls"
  proof -
    from that have d: "drop j qs \<noteq> []" "hd (drop j qs) = qs ! j" by (simp_all add: hd_drop_conv_nth)
    have "bytes_at (pbufs (after_send w tpcb es qs j)) (qs ! j) = bytes_at (pbufs w) (qs ! j)"
    proof -
      from assms(3) obtain e c where "ess w es = Some e" "sole_chain (pbufs w) (es_p e) qs"
        by (rule connE)
      with that have "qs ! j \<notin> set (take j qs)"
        using sole_chain_distinct by (auto simp: in_set_conv_nth nth_eq_iff_index_eq)
      then show ?thesis by (simp add: bytes_at_def after_send_def)
    qed
    with not_blocked_big [OF after_send_conn(1) [OF assms(3)] assms(2) d(1) bl] d(2) sp that
    show ?thesis by (simp add: snd_space_after_send [OF assms(3) sp] tot)
  qed
  have "j = fit (snd_space w tpcb) ?ls"
    by (rule fit_unique) (use j sp tot big in auto)
  with k run show ?thesis by blast
qed

text \<open>
  C3. \<open>cs_tcp_raw_send\<close> computes its specification: when lwIP takes every write that fits, the
  buffers that go out are exactly the longest initial run of whole buffers that fits the send
  buffer, and they are released; the rest of the chain stays pending, untouched.
\<close>

theorem cs_tcp_raw_send_refines_fit:
  assumes "doc_send P T" and "accepts_fitting T" and "conn w tpcb es qs"
    and "k = fit (snd_space w tpcb) (map (length \<circ> bytes_at (pbufs w)) qs)"
  shows "\<exists>a. cs_tcp_raw_send P T tpcb es w =
     Some (Ok ((), (after_send w tpcb es qs k)\<lparr>app := a\<rparr>))"
  by (rule send_fit [OF assms])

lemma ref_accepts_fitting [simp]: "accepts_fitting ref_tcp"
  by (simp add: accepts_fitting_def ref_tcp_def)

theorem cs_tcp_raw_send_refines_fit_witness:
  "\<exists>a. cs_tcp_raw_send ref_pbuf ref_tcp 5 7 (demo_world 2) =
     Some (Ok ((), (after_send (demo_world 2) 5 7 [1, 2] 1)\<lparr>app := a\<rparr>))"
  using cs_tcp_raw_send_refines_fit [OF ref_doc_send ref_accepts_fitting demo_conn [of 2], of 1]
  by (simp add: demo_world_def demo_buf_def blank_pcb_def snd_space_def bytes_at_def)

end
