(* ===== verification/Cs_Tcp_Conn.thy ===== *)
theory Cs_Tcp_Conn
  imports Cs_Tcp
begin

text \<open>
  One connection: what \<open>tcp.c\<close> asks of the application's callbacks (the locale \<open>cs_app\<close>), and the
  theorems on closing, on errors and on sending application data.
\<close>

section \<open>The contract of the application callbacks\<close>

text \<open>A function that returns and changes nothing but the application's own state.\<close>

definition app_only :: "('x world, 'a) prog \<Rightarrow> bool" where
  "app_only m \<longleftrightarrow> (\<forall>w. \<exists>r a. m w = Some (Ok (r, w\<lparr>app := a\<rparr>)))"

lemma app_only_callp:
  assumes "\<exists>f. fp = Some f \<and> (\<forall>s p e. app_only (f s p e))"
  shows "\<exists>r a. callp fp (\<lambda>f. f s p e) w = Some (Ok (r, w\<lparr>app := a\<rparr>))"
proof -
  from assms obtain f where f: "fp = Some f" "app_only (f s p e)" by blast
  from f(2) obtain r a where "f s p e w = Some (Ok (r, w\<lparr>app := a\<rparr>))"
    unfolding app_only_def by blast
  with f(1) show ?thesis by (auto simp: run_simps)
qed

text \<open>
  What \<open>tcp.c\<close> needs from a callback structure at address \<open>ca\<close>: the accept, send-done and close
  callbacks are set and leave the connection structures alone.
\<close>

locale cs_app =
  fixes C :: "'x callbacks" and ca :: addr and cb :: "'x cs_callback"
  assumes at: "ca \<noteq> NULL" "C ca = Some cb"
    and accept_cb: "\<exists>f. cb_tcp_accept cb = Some f \<and> (\<forall>s p e. app_only (f s p e))"
    and send_done_cb: "\<exists>f. cb_tcp_send_done cb = Some f \<and> (\<forall>s p e. app_only (f s p e))"
    and close_cb: "\<exists>f. cb_tcp_close cb = Some f \<and> (\<forall>s p e. app_only (f s p e))"
begin

lemma deref_cb_run [simp]: "deref_cb C ca w = Some (Ok (cb, w))"
  using at by (simp add: deref_cb_def run_simps)

lemma call_accept:
  "\<exists>r a. callp (cb_tcp_accept cb) (\<lambda>f. f (cb_state cb) p e) w = Some (Ok (r, w\<lparr>app := a\<rparr>))"
  using app_only_callp [OF accept_cb] by simp

lemma call_send_done:
  "\<exists>a. callp (cb_tcp_send_done cb) (\<lambda>f. f (cb_state cb) p e) w = Some (Ok ((), w\<lparr>app := a\<rparr>))"
  using app_only_callp [OF send_done_cb] by simp

lemma call_close:
  "\<exists>a. callp (cb_tcp_close cb) (\<lambda>f. f (cb_state cb) p e) w = Some (Ok ((), w\<lparr>app := a\<rparr>))"
  using app_only_callp [OF close_cb] by simp

end

section \<open>Received data is handed over\<close>

text \<open>In an open connection the receive callback of \<open>tcp.c\<close> is a call of the application's.\<close>

lemma raw_recv_open:
  assumes "es \<noteq> NULL" and "ess w es = Some e" and "es_callback e = ca" and "ca \<noteq> NULL" and "C ca = Some cb"
    and "es_state e \<in> {ES_ACCEPTED, ES_RECEIVED}" and "p \<noteq> NULL" and "cb_tcp_recv cb = Some f"
  shows "cs_tcp_raw_recv P T C es tpcb p ERR_OK w =
     f (cb_state cb) tpcb p es (w\<lparr>ess := (ess w)(es \<mapsto> e\<lparr>es_state := ES_RECEIVED\<rparr>)\<rparr>)"
proof -
  let ?w = "w\<lparr>ess := (ess w)(es \<mapsto> e\<lparr>es_state := ES_RECEIVED\<rparr>)\<rparr>"
  have call: "call_tcp_recv C es tpcb p ?w = f (cb_state cb) tpcb p es ?w"
    using assms by (simp add: call_tcp_recv_def deref_cb_def run_simps)
  show ?thesis
  proof (cases "es_state e = ES_ACCEPTED")
    case True
    with assms call show ?thesis by (simp add: cs_tcp_raw_recv_def update_es_def run_simps)
  next
    case False
    with assms(2,6) have "?w = w" by (simp add: fun_upd_idem)
    with False assms call show ?thesis by (simp add: cs_tcp_raw_recv_def run_simps)
  qed
qed

section \<open>Closing a connection\<close>

lemma tcp_setters_run:
  assumes "doc_tcp_setters T" and "p \<noteq> NULL" and "tpcbs w p = Some c"
  shows "tcp_arg T p a w = Some (Ok ((), w\<lparr>tpcbs := (tpcbs w)(p \<mapsto> c\<lparr>t_callback_arg := a\<rparr>)\<rparr>))"
    and "tcp_sent T p f w = Some (Ok ((), w\<lparr>tpcbs := (tpcbs w)(p \<mapsto> c\<lparr>t_sent := f\<rparr>)\<rparr>))"
    and "tcp_recv T p f w = Some (Ok ((), w\<lparr>tpcbs := (tpcbs w)(p \<mapsto> c\<lparr>t_recv := f\<rparr>)\<rparr>))"
    and "tcp_err T p f w = Some (Ok ((), w\<lparr>tpcbs := (tpcbs w)(p \<mapsto> c\<lparr>t_errf := f\<rparr>)\<rparr>))"
    and "tcp_poll T p f i w =
      Some (Ok ((), w\<lparr>tpcbs := (tpcbs w)(p \<mapsto> c\<lparr>t_poll := f, t_pollinterval := i\<rparr>)\<rparr>))"
    and "tcp_accept T p f w = Some (Ok ((), w\<lparr>tpcbs := (tpcbs w)(p \<mapsto> c\<lparr>t_accept := f\<rparr>)\<rparr>))"
    and "tcp_setprio T p n w = Some (Ok ((), w\<lparr>tpcbs := (tpcbs w)(p \<mapsto> c\<lparr>t_prio := n\<rparr>)\<rparr>))"
  using assms by (simp_all add: doc_tcp_setters_def pcb_setter_def)

lemma tcp_arg_freed:
  "doc_tcp_setters T \<Longrightarrow> p \<noteq> NULL \<Longrightarrow> tpcbs w p = None \<Longrightarrow> tcp_arg T p a w = Some (Fault UseAfterFree)"
  by (simp add: doc_tcp_setters_def pcb_setter_def)

text \<open>A control block on which no callback is registered any more.\<close>

definition detach :: "tcp_pcb \<Rightarrow> tcp_pcb" where
  "detach c = c\<lparr>t_callback_arg := NULL, t_sent := fn_NULL, t_recv := fn_NULL, t_errf := fn_NULL,
     t_poll := fn_NULL, t_pollinterval := 0\<rparr>"

definition doc_close :: "'x pbuf_api \<Rightarrow> 'x tcp_api \<Rightarrow> bool" where
  "doc_close P T \<longleftrightarrow> doc_pbuf_free P \<and> doc_mem P \<and> doc_tcp_setters T \<and> doc_tcp_close T"

text \<open>The connection's objects are gone: its state and its pending chain.\<close>

definition drop_conn :: "'x world \<Rightarrow> addr \<Rightarrow> addr list \<Rightarrow> 'x world" where
  "drop_conn w es qs = w\<lparr>pbufs := pbufs w |` (- set qs), ess := (ess w)(es := None)\<rparr>"

lemma raw_free_run:
  assumes "doc_pbuf_free P" and "doc_mem P" and e: "ess w es = Some e" "es \<noteq> NULL"
    and ch: "sole_chain (pbufs w) (es_p e) qs"
  shows "cs_tcp_raw_free P es w = Some (Ok ((), drop_conn w es qs))"
proof (cases "es_p e = NULL")
  case True
  with ch have "qs = []" by (simp add: sole_chain_def)
  moreover from assms(2) e have "mem_free P es w = Some (Ok ((), w\<lparr>ess := (ess w)(es := None)\<rparr>))"
    unfolding doc_mem_def by blast
  ultimately show ?thesis using True e by (simp add: cs_tcp_raw_free_def run_simps drop_conn_def)
next
  case False
  with assms(1) sole_chain_is_chain [OF ch] obtain n where
    f: "pbuf_free P (es_p e) w = Some (Ok (n, w\<lparr>pbufs := free_chain qs (pbufs w)\<rparr>))"
    unfolding doc_pbuf_free_def by blast
  let ?w = "w\<lparr>pbufs := free_chain qs (pbufs w)\<rparr>"
  from e have "ess ?w es \<noteq> None" by simp
  with assms(2) e(2) have "mem_free P es ?w = Some (Ok ((), ?w\<lparr>ess := (ess ?w)(es := None)\<rparr>))"
    unfolding doc_mem_def by blast
  with False e f show ?thesis
    by (simp add: cs_tcp_raw_free_def run_simps drop_conn_def free_chain_sole [OF ch])
qed

context cs_app
begin

text \<open>Everything up to the final \<open>tcp_close\<close>: the application is told while the connection state is still there.\<close>

lemma close_run:
  assumes doc: "doc_close P T" and conn: "conn w tpcb es qs"
    and e: "ess w es = Some e" "es_callback e = ca" and c: "tpcbs w tpcb = Some c"
  shows "\<exists>a. cs_tcp_raw_close P T C tpcb es w = ignore (tcp_close T tpcb)
       ((drop_conn w es qs)\<lparr>tpcbs := (tpcbs w)(tpcb \<mapsto> detach c), app := a\<rparr>) \<and>
     callp (cb_tcp_close cb) (\<lambda>f. f (cb_state cb) tpcb es) (w\<lparr>tpcbs := (tpcbs w)(tpcb \<mapsto> detach c)\<rparr>) =
       Some (Ok ((), w\<lparr>tpcbs := (tpcbs w)(tpcb \<mapsto> detach c), app := a\<rparr>))"
proof -
  from conn e have ch: "sole_chain (pbufs w) (es_p e) qs" and nn: "tpcb \<noteq> NULL" "es \<noteq> NULL"
    by (auto simp: conn_def)
  define w1 where "w1 = w\<lparr>tpcbs := (tpcbs w)(tpcb \<mapsto> detach c)\<rparr>"
  from doc have sets: "doc_tcp_setters T" by (simp add: doc_close_def)
  obtain a where call: "callp (cb_tcp_close cb) (\<lambda>f. f (cb_state cb) tpcb es) w1 =
      Some (Ok ((), w1\<lparr>app := a\<rparr>))"
    using call_close by blast
  have "cs_tcp_raw_free P es (w1\<lparr>app := a\<rparr>) = Some (Ok ((), drop_conn (w1\<lparr>app := a\<rparr>) es qs))"
    by (rule raw_free_run) (use doc e ch nn in \<open>auto simp: doc_close_def w1_def\<close>)
  moreover have "drop_conn (w1\<lparr>app := a\<rparr>) es qs =
      (drop_conn w es qs)\<lparr>tpcbs := (tpcbs w)(tpcb \<mapsto> detach c), app := a\<rparr>"
    by (simp add: drop_conn_def w1_def)
  ultimately have "cs_tcp_raw_close P T C tpcb es w = ignore (tcp_close T tpcb)
      ((drop_conn w es qs)\<lparr>tpcbs := (tpcbs w)(tpcb \<mapsto> detach c), app := a\<rparr>)"
    using e nn c call
    by (simp add: cs_tcp_raw_close_def run_simps tcp_setters_run [OF sets nn(1)]
        w1_def detach_def split: option.split res.split)
  then show ?thesis using call unfolding w1_def by auto
qed

end

lemma doc_tcp_close_run:
  assumes "doc_tcp_close T" and "tpcbs w p = Some c"
  shows "\<exists>a. ignore (tcp_close T p) w = Some (Ok ((), w\<lparr>tpcbs := (tpcbs w)(p := None), app := a\<rparr>)) \<or>
     ignore (tcp_close T p) w = Some (Ok ((), w))"
proof -
  from assms have "(\<exists>a. tcp_close T p w = Some (Ok (ERR_OK, w\<lparr>tpcbs := (tpcbs w)(p := None), app := a\<rparr>))) \<or>
     (\<exists>e. tcp_close T p w = Some (Ok (e, w)))"
    unfolding doc_tcp_close_def by blast
  then show ?thesis by (auto simp: run_simps)
qed

text \<open>
  C16. \<open>cs_tcp_raw_close\<close> releases the connection. It returns without a fault; it removes the callbacks from the control block, tells the
  application while the connection state is still there, frees that state and every pending buffer, and ends with \<open>tcp_close\<close>. Nothing else on the
  heaps is touched, and the control block is either closed or, if lwIP could not close it, left with no callback registered.
\<close>

theorem cs_tcp_raw_close_releases:
  assumes "cs_app C ca cb" and "doc_close P T" and "conn w tpcb es qs"
    and "ess w es = Some e" and "es_callback e = ca"
  shows "\<exists>w'. cs_tcp_raw_close P T C tpcb es w = Some (Ok ((), w')) \<and>
     ess w' = (ess w)(es := None) \<and> pbufs w' = pbufs w |` (- set qs) \<and>
     tpcbs w' tpcb \<in> {None, map_option detach (tpcbs w tpcb)} \<and>
     (\<forall>p. p \<noteq> tpcb \<longrightarrow> tpcbs w' p = tpcbs w p) \<and>
     (\<exists>f v u. cb_tcp_close cb = Some f \<and> v = w\<lparr>tpcbs := (tpcbs w)(tpcb := map_option detach (tpcbs w tpcb))\<rparr> \<and>
        f (cb_state cb) tpcb es v = Some (Ok ((), u)) \<and>
        ignore (tcp_close T tpcb) (u\<lparr>pbufs := pbufs w', ess := ess w'\<rparr>) = Some (Ok ((), w')))"
proof -
  from assms(3) obtain c where c: "tpcbs w tpcb = Some c" by (auto elim: connE)
  from cs_app.close_run [OF assms(1-5) c] obtain a where
    run: "cs_tcp_raw_close P T C tpcb es w = ignore (tcp_close T tpcb)
      ((drop_conn w es qs)\<lparr>tpcbs := (tpcbs w)(tpcb \<mapsto> detach c), app := a\<rparr>)"
    and told: "callp (cb_tcp_close cb) (\<lambda>f. f (cb_state cb) tpcb es) (w\<lparr>tpcbs := (tpcbs w)(tpcb \<mapsto> detach c)\<rparr>) =
      Some (Ok ((), w\<lparr>tpcbs := (tpcbs w)(tpcb \<mapsto> detach c), app := a\<rparr>))"
    by blast
  from told obtain f where f: "cb_tcp_close cb = Some f" "f (cb_state cb) tpcb es (w\<lparr>tpcbs := (tpcbs w)(tpcb \<mapsto> detach c)\<rparr>) =
      Some (Ok ((), w\<lparr>tpcbs := (tpcbs w)(tpcb \<mapsto> detach c), app := a\<rparr>))"
    by (auto simp: callp_run split: option.splits)
  let ?w1 = "(drop_conn w es qs)\<lparr>tpcbs := (tpcbs w)(tpcb \<mapsto> detach c), app := a\<rparr>"
  have "tpcbs ?w1 tpcb = Some (detach c)" by simp
  with assms(2) doc_tcp_close_run [of T ?w1] obtain w' where
    w': "w' = ?w1 \<or> (\<exists>b. w' = ?w1\<lparr>tpcbs := (tpcbs ?w1)(tpcb := None), app := b\<rparr>)"
    and close: "ignore (tcp_close T tpcb) ?w1 = Some (Ok ((), w'))"
    unfolding doc_close_def by blast
  then have "ess w' = (ess w)(es := None) \<and> pbufs w' = pbufs w |` (- set qs) \<and>
      tpcbs w' tpcb \<in> {None, map_option detach (tpcbs w tpcb)} \<and> (\<forall>p. p \<noteq> tpcb \<longrightarrow> tpcbs w' p = tpcbs w p)"
    using c by (auto simp: drop_conn_def)
  moreover from this have "w\<lparr>tpcbs := (tpcbs w)(tpcb \<mapsto> detach c), app := a\<rparr>\<lparr>pbufs := pbufs w', ess := ess w'\<rparr> = ?w1"
    by (simp add: drop_conn_def)
  ultimately show ?thesis using run close f c by (intro exI [of _ w']) auto
qed

text \<open>A callback table with one structure at address 9 whose callbacks do nothing.\<close>

definition quiet_cb :: "'x cs_callback" where
  "quiet_cb = \<lparr>cb_state = 3, cb_netif = 4,
     cb_tcp_accept = Some (\<lambda>s p e. ret ERR_OK),
     cb_tcp_recv = Some (\<lambda>s t p e. ret ERR_OK),
     cb_tcp_send_done = Some (\<lambda>s p e. ret ()),
     cb_tcp_close = Some (\<lambda>s p e. ret ()),
     cb_udp_recv = Some (\<lambda>s u p i n. ret ERR_OK),
     cb_output = Some (\<lambda>s n d l. ret (int (unat l))),
     cb_input = Some (\<lambda>s n. ret (NULL, Some 0)),
     cb_init = Some (\<lambda>s n. ret ())\<rparr>"

lemma app_only_ret [simp]: "app_only (ret r)"
  unfolding app_only_def
proof (intro allI)
  fix w
  show "\<exists>r' a. ret r w = Some (Ok (r', w\<lparr>app := a\<rparr>))"
    by (intro exI [of _ r] exI [of _ "app w"]) (simp add: ret_def)
qed

lemma quiet_app [simp]: "cs_app [9 \<mapsto> quiet_cb] 9 quiet_cb"
  by unfold_locales (simp_all add: quiet_cb_def)

lemma ref_doc_close [simp]: "doc_close ref_pbuf ref_tcp"
  by (simp add: doc_close_def)

lemma demo_es_at [simp]: "ess (demo_world n) 7 = Some (demo_es 1)" "es_callback (demo_es p) = 9"
  by (simp_all add: demo_world_def demo_es_def)

theorem cs_tcp_raw_close_releases_witness:
  "\<exists>w'. cs_tcp_raw_close ref_pbuf ref_tcp [9 \<mapsto> quiet_cb] 5 7 (demo_world 2) = Some (Ok ((), w')) \<and>
     ess w' = Map.empty \<and> pbufs w' = Map.empty"
proof -
  have "(ess (demo_world 2))(7 := None) = Map.empty"
    and "pbufs (demo_world 2) |` (- set [1, 2]) = Map.empty"
    by (auto simp: demo_world_def restrict_map_def fun_eq_iff)
  then show ?thesis
    using cs_tcp_raw_close_releases [OF quiet_app ref_doc_close demo_conn [of 2] demo_es_at]
    by auto
qed

text \<open>
  \<open>cs_tcp_raw_close\<close> drops the result of \<open>tcp_close\<close>. When lwIP reports that it had no memory to
  close the connection (its documentation asks to try again from the poll or sent callback), the
  control block stays allocated with every callback removed and the connection state gone, so
  nothing in the program will try again.
\<close>

theorem cs_tcp_raw_close_strands_pcb:
  assumes "cs_app C ca cb" and "doc_close P T" and "conn w tpcb es qs"
    and "ess w es = Some e" and "es_callback e = ca" and "tpcbs w tpcb = Some c"
    and "\<forall>w. tcp_close T tpcb w = Some (Ok (ERR_MEM, w))"
  shows "\<exists>w'. cs_tcp_raw_close P T C tpcb es w = Some (Ok ((), w')) \<and>
     tpcbs w' tpcb = Some (detach c) \<and> ess w' es = None"
proof -
  from cs_app.close_run [OF assms(1-6)] obtain a where
    "cs_tcp_raw_close P T C tpcb es w = ignore (tcp_close T tpcb)
      ((drop_conn w es qs)\<lparr>tpcbs := (tpcbs w)(tpcb \<mapsto> detach c), app := a\<rparr>)"
    by blast
  with assms(7) show ?thesis by (simp add: run_simps drop_conn_def)
qed

definition stubborn_tcp :: "'x tcp_api" where
  "stubborn_tcp = ref_tcp\<lparr>tcp_close := (\<lambda>p w. Some (Ok (ERR_MEM, w)))\<rparr>"

lemma stubborn_doc_close [simp]: "doc_close ref_pbuf stubborn_tcp"
  using ref_tcp_doc(1)
  by (simp add: doc_close_def stubborn_tcp_def doc_tcp_close_def doc_tcp_setters_def)

theorem cs_tcp_raw_close_strands_pcb_witness:
  "\<exists>w'. cs_tcp_raw_close ref_pbuf stubborn_tcp [9 \<mapsto> quiet_cb] 5 7 (demo_world 2) =
       Some (Ok ((), w')) \<and>
     tpcbs w' 5 = Some (detach (blank_pcb\<lparr>t_snd_buf := 2\<rparr>)) \<and> ess w' 7 = None"
  using cs_tcp_raw_close_strands_pcb [OF quiet_app stubborn_doc_close demo_conn [of 2] demo_es_at]
  by (simp add: demo_world_def stubborn_tcp_def)

text \<open>
  \<open>cs_tcp_raw_error\<close> uses memory that is gone. lwIP documents that the control block is already
  freed when the error callback runs; \<open>cs_tcp_raw_error\<close> passes exactly this block to
  \<open>cs_tcp_raw_close\<close>, whose first statement writes to it.
\<close>

theorem cs_tcp_raw_error_use_after_free:
  assumes "doc_tcp_setters T" and "es \<noteq> NULL" and "ess w es = Some e"
    and "es_pcb e \<noteq> NULL" and "tpcbs w (es_pcb e) = None"
  shows "cs_tcp_raw_error P T C es err w = Some (Fault UseAfterFree)"
  using assms by (simp add: cs_tcp_raw_error_def cs_tcp_raw_close_def run_simps tcp_arg_freed)

theorem cs_tcp_raw_error_use_after_free_witness:
  "cs_tcp_raw_error ref_pbuf ref_tcp [9 \<mapsto> quiet_cb] 7 ERR_ABRT
     ((demo_world 2)\<lparr>tpcbs := Map.empty\<rparr>) = Some (Fault UseAfterFree)"
  by (rule cs_tcp_raw_error_use_after_free [where e = "demo_es 1"]) (simp_all add: demo_es_def)

section \<open>Sending application data\<close>

definition doc_char_send :: "'x pbuf_api \<Rightarrow> 'x tcp_api \<Rightarrow> bool" where
  "doc_char_send P T \<longleftrightarrow> doc_send P T \<and> doc_pbuf_alloc P \<and> doc_pbuf_take P"

lemma char_send_fresh:
  assumes doc: "doc_char_send P T" and conn: "conn w tpcb es []"
    and e: "ess w es = Some e" and n: "unat n \<le> length buf"
    and al: "pbuf_alloc P PBUF_RAW n PBUF_POOL w = Some (Ok (p, w\<lparr>pbufs := h\<rparr>))"
    and fr: "fresh_chain (pbufs w) h p ps (unat n)"
  shows "\<exists>h'. pbuf_take P p buf n (w\<lparr>pbufs := h\<rparr>) = Some (Ok (ERR_OK, w\<lparr>pbufs := h'\<rparr>)) \<and>
     conn (w\<lparr>pbufs := h', ess := (ess w)(es \<mapsto> e\<lparr>es_p := p\<rparr>)\<rparr>) tpcb es ps \<and>
     chain_bytes h' ps = take (unat n) buf \<and> (\<forall>q. q \<notin> set ps \<longrightarrow> h' q = pbufs w q)"
proof -
  from fr have ch: "sole_chain (pbufs (w\<lparr>pbufs := h\<rparr>)) p ps" and p: "p \<noteq> NULL"
    and len: "length (chain_bytes (pbufs (w\<lparr>pbufs := h\<rparr>)) ps) = unat n"
    by (auto simp: fresh_chain_def)
  from doc have "doc_pbuf_take P" by (simp add: doc_char_send_def)
  with ch p len n obtain h' where
    tk: "pbuf_take P p buf n (w\<lparr>pbufs := h\<rparr>) = Some (Ok (ERR_OK, w\<lparr>pbufs := h\<rparr>\<lparr>pbufs := h'\<rparr>))" and
    h': "sole_chain h' p ps" "chain_bytes h' ps =
      take (unat n) buf @ drop (unat n) (chain_bytes (pbufs (w\<lparr>pbufs := h\<rparr>)) ps)"
      "\<forall>q. q \<notin> set ps \<longrightarrow> h' q = pbufs (w\<lparr>pbufs := h\<rparr>) q"
    unfolding doc_pbuf_take_def by (metis order_refl)
  from h'(2) len have "chain_bytes h' ps = take (unat n) buf" by simp
  moreover from conn h'(1) have "conn (w\<lparr>pbufs := h', ess := (ess w)(es \<mapsto> e\<lparr>es_p := p\<rparr>)\<rparr>) tpcb es ps"
    by (auto simp: conn_def)
  moreover from h'(3) fr have "\<forall>q. q \<notin> set ps \<longrightarrow> h' q = pbufs w q"
    by (simp add: fresh_chain_def)
  ultimately show ?thesis using tk by auto
qed

lemma char_send_cases:
  assumes doc: "doc_char_send P T" and conn: "conn w tpcb es qs"
    and len: "0 \<le> buf_len" "buf_len \<le> int (length buf)"
  shows "\<exists>r w'. cs_tcp_char_send P T tpcb es buf buf_len w = Some (Ok (r, w')) \<and>
     (r = 100 \<and> qs \<noteq> [] \<and> w' = w \<or>
      r = 1 \<and> qs = [] \<and> w' = w \<and>
        pbuf_alloc P PBUF_RAW (word_of_int buf_len) PBUF_POOL w = Some (Ok (NULL, w)) \<or>
      r = 0 \<and> qs = [] \<and> (\<exists>rs. conn w' tpcb es rs \<and> send_blocked T (w'\<lparr>app := app w\<rparr>) tpcb rs \<and>
        enqueued w' tpcb @ chain_bytes (pbufs w') rs =
          enqueued w tpcb @ take (nat (buf_len mod 65536)) buf))"
proof -
  let ?n = "word_of_int buf_len :: u16"
  have n: "unat ?n = nat (buf_len mod 65536)"
    by (simp add: unat_eq_nat_uint uint_word_of_int)
  from conn obtain e c where e: "ess w es = Some e" "sole_chain (pbufs w) (es_p e) qs"
    "tpcbs w tpcb = Some c" "tpcb \<noteq> NULL" "es \<noteq> NULL"
    by (rule connE)
  show ?thesis
  proof (cases "qs = []")
    case False
    with e have "es_p e \<noteq> NULL" by (cases qs) (auto simp: sole_chain_Cons)
    with False e show ?thesis by (auto simp: cs_tcp_char_send_def run_simps)
  next
    case True
    with e have p0: "es_p e = NULL" by simp
    from doc have "pbuf_alloc P PBUF_RAW ?n PBUF_POOL w = Some (Ok (NULL, w)) \<or>
        (\<exists>p ps h. pbuf_alloc P PBUF_RAW ?n PBUF_POOL w = Some (Ok (p, w\<lparr>pbufs := h\<rparr>)) \<and>
           fresh_chain (pbufs w) h p ps (unat ?n))"
      unfolding doc_char_send_def doc_pbuf_alloc_def by blast
    then show ?thesis
    proof (elim disjE exE conjE)
      assume "pbuf_alloc P PBUF_RAW ?n PBUF_POOL w = Some (Ok (NULL, w))"
      with True e p0 show ?thesis by (simp add: cs_tcp_char_send_def run_simps)
    next
      fix p ps h
      assume al: "pbuf_alloc P PBUF_RAW ?n PBUF_POOL w = Some (Ok (p, w\<lparr>pbufs := h\<rparr>))" and
        fr: "fresh_chain (pbufs w) h p ps (unat ?n)"
      from len n have "unat ?n \<le> length buf" using zmod_le_nonneg_dividend [of buf_len 65536] by linarith
      from char_send_fresh [OF doc conn [unfolded True] e(1) this al fr] obtain h' where
        tk: "pbuf_take P p buf ?n (w\<lparr>pbufs := h\<rparr>) = Some (Ok (ERR_OK, w\<lparr>pbufs := h'\<rparr>))" and
        conn': "conn (w\<lparr>pbufs := h', ess := (ess w)(es \<mapsto> e\<lparr>es_p := p\<rparr>)\<rparr>) tpcb es ps" and
        by': "chain_bytes h' ps = take (unat ?n) buf"
        by blast
      let ?w = "w\<lparr>pbufs := h', ess := (ess w)(es \<mapsto> e\<lparr>es_p := p\<rparr>)\<rparr>"
      from doc have "doc_send P T" by (simp add: doc_char_send_def)
      from send_run [OF this conn'] obtain k a where
        run: "cs_tcp_raw_send P T tpcb es ?w = Some (Ok ((), (after_send ?w tpcb es ps k)\<lparr>app := a\<rparr>))"
        and bl: "send_blocked T (after_send ?w tpcb es ps k) tpcb (drop k ps)"
        by blast
      let ?w' = "(after_send ?w tpcb es ps k)\<lparr>app := a\<rparr>"
      from fr have "p \<noteq> NULL" by (simp add: fresh_chain_def)
      then have "cs_tcp_char_send P T tpcb es buf buf_len w = Some (Ok (0, ?w'))"
        using e p0 al tk run by (simp add: cs_tcp_char_send_def update_es_def run_simps)
      moreover have "conn ?w' tpcb es (drop k ps)"
        using after_send_conn(1) [OF conn', of k] by simp
      moreover have "enqueued ?w' tpcb @ chain_bytes (pbufs ?w') (drop k ps) =
          enqueued w tpcb @ take (nat (buf_len mod 65536)) buf"
        using after_send_conn(2) [OF conn', of k] enqueued_after_send [OF conn', of k]
          chain_bytes_take_drop [of h' k ps] by' n
        by (simp add: enqueued_def)
      moreover have "?w'\<lparr>app := app w\<rparr> = after_send ?w tpcb es ps k" by (simp add: after_send_def)
      with bl have "send_blocked T (?w'\<lparr>app := app w\<rparr>) tpcb (drop k ps)" by simp
      ultimately show ?thesis using True by blast
    qed
  qed
qed

text \<open>
  C14. \<open>cs_tcp_char_send\<close>, on every branch. With data still pending it returns 100 and changes
  nothing; without memory for a pbuf it returns 1 and changes nothing; otherwise it returns 0, and
  what it took, the first \<open>buf_len mod 65536\<close> bytes of the buffer, is enqueued behind everything
  enqueued before, or still pending behind that, and pending only because it did not fit the send buffer or lwIP refused it.
\<close>

theorem cs_tcp_char_send_cases:
  assumes "doc_char_send P T" and "conn w tpcb es qs"
    and "0 \<le> buf_len" and "buf_len \<le> int (length buf)"
  shows "\<exists>r w'. cs_tcp_char_send P T tpcb es buf buf_len w = Some (Ok (r, w')) \<and>
     (r = 100 \<and> qs \<noteq> [] \<and> w' = w \<or>
      r = 1 \<and> qs = [] \<and> w' = w \<and>
        pbuf_alloc P PBUF_RAW (word_of_int buf_len) PBUF_POOL w = Some (Ok (NULL, w)) \<or>
      r = 0 \<and> qs = [] \<and> (\<exists>rs. conn w' tpcb es rs \<and> send_blocked T (w'\<lparr>app := app w\<rparr>) tpcb rs \<and>
        enqueued w' tpcb @ chain_bytes (pbufs w') rs =
          enqueued w tpcb @ take (nat (buf_len mod 65536)) buf))"
  using char_send_cases [OF assms] .

text \<open>An idle connection on the reference stack, for the witnesses.\<close>

definition idle_world :: "unit world" where
  "idle_world = \<lparr>pbufs = Map.empty, ess = [7 \<mapsto> demo_es NULL], tpcbs = [5 \<mapsto> blank_pcb],
     upcbs = Map.empty, netifs = Map.empty, app = ()\<rparr>"

lemma idle_conn [simp]: "conn idle_world 5 7 []"
  by (simp add: conn_def idle_world_def demo_es_def)

lemma idle_simps [simp]:
  "enqueued idle_world 5 = []" "ess idle_world 7 = Some (demo_es NULL)" "pbufs idle_world = Map.empty"
  by (simp_all add: idle_world_def enqueued_def blank_pcb_def)

lemma ref_doc_char_send [simp]: "doc_char_send ref_pbuf ref_tcp"
  by (simp add: doc_char_send_def)

lemma ref_alloc_idle:
  "pbuf_alloc ref_pbuf l n t idle_world = Some (Ok (heap_addr, idle_world\<lparr>pbufs := [heap_addr \<mapsto>
     \<lparr>pb_next = NULL, pb_payload = replicate (unat n) 0, pb_tot_len = n, pb_len = n, pb_ref = 1\<rparr>]\<rparr>))"
  by (simp add: ref_pbuf_def)

theorem cs_tcp_char_send_cases_witness:
  "\<exists>w' rs. cs_tcp_char_send ref_pbuf ref_tcp 5 7 [1, 2, 3] 3 idle_world = Some (Ok (0, w')) \<and>
     conn w' 5 7 rs \<and> send_blocked ref_tcp (w'\<lparr>app := ()\<rparr>) 5 rs \<and> enqueued w' 5 @ chain_bytes (pbufs w') rs = [1, 2, 3]"
  using cs_tcp_char_send_cases [OF ref_doc_char_send idle_conn, of 3 "[1, 2, 3]"]
  by (auto simp: ref_alloc_idle heap_addr_def)

text \<open>
  Buffers of 64 KiB and more are cut silently. The length is an \<open>int\<close> for the caller and a
  \<open>u16_t\<close> for lwIP, so \<open>cs_tcp_char_send\<close> reports success (0) although only
  \<open>length buf mod 65536\<close> bytes of the buffer are sent or pending.
\<close>

theorem cs_tcp_char_send_truncates:
  assumes "doc_char_send P T" and "conn w tpcb es []" and "65536 \<le> length buf"
    and "pbuf_alloc P PBUF_RAW (word_of_int (int (length buf))) PBUF_POOL w = Some (Ok (p, w1))"
    and "p \<noteq> NULL"
  shows "\<exists>w' rs. cs_tcp_char_send P T tpcb es buf (int (length buf)) w = Some (Ok (0, w')) \<and>
     conn w' tpcb es rs \<and>
     length (enqueued w' tpcb @ chain_bytes (pbufs w') rs) =
       length (enqueued w tpcb) + length buf mod 65536 \<and>
     length buf mod 65536 < length buf"
proof -
  have m: "nat (int (length buf) mod 65536) = length buf mod 65536"
    by (metis nat_int of_nat_numeral zmod_int)
  from char_send_cases [OF assms(1,2), of "int (length buf)" buf] assms(4,5) obtain w' rs where
    "cs_tcp_char_send P T tpcb es buf (int (length buf)) w = Some (Ok (0, w'))"
    "conn w' tpcb es rs" and
    eq: "enqueued w' tpcb @ chain_bytes (pbufs w') rs =
      enqueued w tpcb @ take (length buf mod 65536) buf"
    unfolding m by auto
  moreover have "length (enqueued w' tpcb @ chain_bytes (pbufs w') rs) =
      length (enqueued w tpcb) + length buf mod 65536"
    unfolding eq by (simp add: min_def)
  moreover have "length buf mod 65536 < length buf"
    using assms(3) by (meson mod_less_divisor order_less_le_trans zero_less_numeral)
  ultimately show ?thesis by blast
qed

theorem cs_tcp_char_send_truncates_witness:
  "\<exists>w' rs. cs_tcp_char_send ref_pbuf ref_tcp 5 7 (replicate 65539 0)
       (int (length (replicate 65539 (0 :: u8)))) idle_world = Some (Ok (0, w')) \<and>
     conn w' 5 7 rs \<and> length (enqueued w' 5 @ chain_bytes (pbufs w') rs) = 3"
proof -
  have "(65536 :: nat) \<le> length (replicate 65539 (0 :: u8))" by (simp only: length_replicate)
  from cs_tcp_char_send_truncates [OF ref_doc_char_send idle_conn this ref_alloc_idle]
  show ?thesis by (simp only: length_replicate heap_addr_def idle_simps list.size) auto
qed

end
