(* ===== verification/Cs_Tcp_Life.thy ===== *)
theory Cs_Tcp_Life
  imports Cs_Tcp_Conn
begin

text \<open>
  The other handlers of a connection: accepting, receiving (under the contract \<open>cs_recv_app\<close> on the
  application's receive callback), acknowledgements, the poll timer and the end of the stream, each
  with its effect on the buffers, the connection state and the control block.
\<close>

section \<open>Accepting\<close>

definition fresh_es :: "cs_tcp_raw_state \<Rightarrow> addr \<Rightarrow> addr \<Rightarrow> cs_tcp_raw_state" where
  "fresh_es e pcb ca = e\<lparr>es_state := ES_ACCEPTED, es_pcb := pcb, es_retries := 0, es_p := NULL,
     es_callback := ca\<rparr>"

definition attach :: "addr \<Rightarrow> tcp_pcb \<Rightarrow> tcp_pcb" where
  "attach es c = c\<lparr>t_prio := TCP_PRIO_MIN, t_callback_arg := es, t_recv := fn_cs_tcp_raw_recv,
     t_errf := fn_cs_tcp_raw_error, t_poll := fn_cs_tcp_raw_poll, t_pollinterval := 1,
     t_sent := fn_cs_tcp_send\<rparr>"

definition doc_accept :: "'x pbuf_api \<Rightarrow> 'x tcp_api \<Rightarrow> bool" where
  "doc_accept P T \<longleftrightarrow> doc_mem P \<and> doc_tcp_setters T"

context cs_app
begin

lemma accept_run:
  assumes doc: "doc_accept P T" and c: "newpcb \<noteq> NULL" "tpcbs w newpcb = Some c"
  shows "cs_tcp_raw_accept P T C ca newpcb ERR_OK w =
       Some (Ok (ERR_MEM, w\<lparr>tpcbs := (tpcbs w)(newpcb \<mapsto> c\<lparr>t_prio := TCP_PRIO_MIN\<rparr>)\<rparr>)) \<and> (\<exists>v. mem_malloc P v = Some (Ok (NULL, v))) \<or>
     (\<exists>es e a. es \<noteq> NULL \<and> ess w es = None \<and>
       cs_tcp_raw_accept P T C ca newpcb ERR_OK w =
         Some (Ok (ERR_OK, w\<lparr>ess := (ess w)(es \<mapsto> fresh_es e newpcb ca),
           tpcbs := (tpcbs w)(newpcb \<mapsto> attach es c), app := a\<rparr>)) \<and>
       (\<exists>r. callp (cb_tcp_accept cb) (\<lambda>f. f (cb_state cb) newpcb es)
           (w\<lparr>ess := (ess w)(es \<mapsto> fresh_es e newpcb ca), tpcbs := (tpcbs w)(newpcb \<mapsto> attach es c)\<rparr>) =
         Some (Ok (r, w\<lparr>ess := (ess w)(es \<mapsto> fresh_es e newpcb ca),
           tpcbs := (tpcbs w)(newpcb \<mapsto> attach es c), app := a\<rparr>))))"
proof -
  from doc have sets: "doc_tcp_setters T" and mem: "doc_mem P" by (auto simp: doc_accept_def)
  let ?w1 = "w\<lparr>tpcbs := (tpcbs w)(newpcb \<mapsto> c\<lparr>t_prio := TCP_PRIO_MIN\<rparr>)\<rparr>"
  from mem have "mem_malloc P ?w1 = Some (Ok (NULL, ?w1)) \<or>
      (\<exists>es e. es \<noteq> NULL \<and> ess ?w1 es = None \<and>
         mem_malloc P ?w1 = Some (Ok (es, ?w1\<lparr>ess := (ess ?w1)(es \<mapsto> e)\<rparr>)))"
    unfolding doc_mem_def by blast
  then show ?thesis
  proof (elim disjE exE conjE)
    assume "mem_malloc P ?w1 = Some (Ok (NULL, ?w1))"
    then show ?thesis using c at
      by (auto simp: cs_tcp_raw_accept_def run_simps tcp_setters_run [OF sets])
  next
    fix es e
    assume es: "es \<noteq> NULL" "ess ?w1 es = None" and
      al: "mem_malloc P ?w1 = Some (Ok (es, ?w1\<lparr>ess := (ess ?w1)(es \<mapsto> e)\<rparr>))"
    let ?w2 = "w\<lparr>ess := (ess w)(es \<mapsto> fresh_es e newpcb ca), tpcbs := (tpcbs w)(newpcb \<mapsto> attach es c)\<rparr>"
    obtain r a where call: "callp (cb_tcp_accept cb) (\<lambda>f. f (cb_state cb) newpcb es) ?w2 =
        Some (Ok (r, ?w2\<lparr>app := a\<rparr>))"
      using call_accept by blast
    have "cs_tcp_raw_accept P T C ca newpcb ERR_OK w = Some (Ok (ERR_OK, ?w2\<lparr>app := a\<rparr>))"
      using c at es(1) al call
      by (simp add: cs_tcp_raw_accept_def update_es_def run_simps tcp_setters_run [OF sets]
          attach_def fresh_es_def)
    with es call show ?thesis by (intro disjI2 exI [of _ es] exI [of _ e] exI [of _ a]) simp
  qed
qed

end

text \<open>What a returned accept callback has done, by its result.\<close>

definition accept_post :: "'x world \<Rightarrow> addr \<Rightarrow> addr \<Rightarrow> err_t \<Rightarrow> 'x world \<Rightarrow> bool" where
  "accept_post w newpcb ca r w' \<longleftrightarrow> pbufs w' = pbufs w \<and>
     (r = ERR_MEM \<and> ess w' = ess w \<or>
      r = ERR_OK \<and> (\<exists>es e. ess w es = None \<and> ess w' = (ess w)(es \<mapsto> e) \<and>
        es_state e = ES_ACCEPTED \<and> es_pcb e = newpcb \<and> es_callback e = ca \<and>
        conn w' newpcb es [] \<and>
        tpcbs w' = (tpcbs w)(newpcb := map_option (attach es) (tpcbs w newpcb))))"

text \<open>
  \<open>ERR_MEM\<close> stands for a failed allocation, and with \<open>ERR_OK\<close> the application's accept callback was the last to run, on the connection
  all set up.
\<close>

definition accept_told :: "'x pbuf_api \<Rightarrow> 'x cs_callback \<Rightarrow> 'x world \<Rightarrow> addr \<Rightarrow> err_t \<Rightarrow> 'x world \<Rightarrow> bool" where
  "accept_told P cb w newpcb r w' \<longleftrightarrow>
     (r = ERR_MEM \<longrightarrow> (\<exists>v. mem_malloc P v = Some (Ok (NULL, v)))) \<and>
     (r = ERR_OK \<longrightarrow> (\<exists>es f e. ess w es = None \<and> ess w' es \<noteq> None \<and> cb_tcp_accept cb = Some f \<and>
        f (cb_state cb) newpcb es (w'\<lparr>app := app w\<rparr>) = Some (Ok (e, w'))))"


lemma ref_doc_accept [simp]: "doc_accept ref_pbuf ref_tcp"
  by (simp add: doc_accept_def)


section \<open>Changes local to one connection\<close>

text \<open>The callback slots of a control block.\<close>

definition slots :: "tcp_pcb \<Rightarrow> addr \<times> fnptr \<times> fnptr \<times> fnptr \<times> fnptr" where
  "slots c = (t_callback_arg c, t_recv c, t_sent c, t_poll c, t_errf c)"

definition same_slots :: "'x world \<Rightarrow> 'x world \<Rightarrow> bool" where
  "same_slots w w' \<longleftrightarrow> (\<forall>p. map_option slots (tpcbs w' p) = map_option slots (tpcbs w p))"

text \<open>
  From \<open>w\<close> to \<open>w'\<close> only the connection \<open>es\<close> changed: its state is \<open>st\<close>, its pending chain
  \<open>qs\<close>, of the buffers in \<open>mine\<close> the ones that are not pending are freed, all others are
  untouched, and so are the callback slots.
\<close>

definition local_change ::
  "'x world \<Rightarrow> 'x world \<Rightarrow> addr \<Rightarrow> cs_tcp_raw_states \<Rightarrow> addr set \<Rightarrow> addr list \<Rightarrow> bool" where
  "local_change w w' es st mine qs \<longleftrightarrow>
     (\<exists>e e'. ess w es = Some e \<and> ess w' = (ess w)(es \<mapsto> e') \<and> es_pcb e' = es_pcb e \<and>
        es_callback e' = es_callback e \<and> es_state e' = st \<and> sole_chain (pbufs w') (es_p e') qs) \<and>
     set qs \<subseteq> mine \<and> same_slots w w' \<and>
     (\<forall>q. q \<notin> mine \<longrightarrow> pbufs w' q = pbufs w q) \<and>
     (\<forall>q. q \<in> mine \<longrightarrow> q \<notin> set qs \<longrightarrow> pbufs w' q = None)"

lemma local_changeI:
  assumes "ess w es = Some e" and "ess w' = (ess w)(es \<mapsto> e')" and "es_pcb e' = es_pcb e"
    and "es_callback e' = es_callback e" and "es_state e' = st"
    and "sole_chain (pbufs w') (es_p e') qs" and "set qs \<subseteq> mine" and "same_slots w w'"
    and "\<And>q. q \<notin> mine \<Longrightarrow> pbufs w' q = pbufs w q"
    and "\<And>q. q \<in> mine \<Longrightarrow> q \<notin> set qs \<Longrightarrow> pbufs w' q = None"
  shows "local_change w w' es st mine qs"
  using assms unfolding local_change_def by (intro conjI exI) auto

lemma local_changeE:
  assumes "local_change w w' es st mine qs"
  obtains e e' where "ess w es = Some e" and "ess w' = (ess w)(es \<mapsto> e')"
    and "es_pcb e' = es_pcb e" and "es_callback e' = es_callback e" and "es_state e' = st"
    and "sole_chain (pbufs w') (es_p e') qs" and "set qs \<subseteq> mine" and "same_slots w w'"
    and "\<forall>q. q \<notin> mine \<longrightarrow> pbufs w' q = pbufs w q"
    and "\<forall>q. q \<in> mine \<longrightarrow> q \<notin> set qs \<longrightarrow> pbufs w' q = None"
  using assms that unfolding local_change_def by blast

text \<open>Changes to fields of the connection other than the chain come first in the handlers.\<close>

lemma local_change_pre:
  assumes "local_change (w\<lparr>ess := (ess w)(es \<mapsto> e1)\<rparr>) w' es st mine qs"
    and "ess w es = Some e" and "es_pcb e1 = es_pcb e" and "es_callback e1 = es_callback e"
  shows "local_change w w' es st mine qs"
  using assms unfolding local_change_def same_slots_def by auto

lemma after_send_local:
  assumes conn: "conn w tpcb es qs" and e: "ess w es = Some e"
  shows "local_change w ((after_send w tpcb es qs k)\<lparr>app := a\<rparr>) es (es_state e) (set qs) (drop k qs)"
    (is "local_change w ?w' _ _ _ _")
proof -
  have disj: "q \<in> set qs \<Longrightarrow> q \<notin> set (drop k qs) \<Longrightarrow> q \<in> set (take k qs)" for q
    by (metis Un_iff append_take_drop_id set_append)
  show ?thesis
  proof (rule local_changeI [where e = e and e' = "e\<lparr>es_p := head_ptr (drop k qs)\<rparr>"])
    show "sole_chain (pbufs ?w') (es_p (e\<lparr>es_p := head_ptr (drop k qs)\<rparr>)) (drop k qs)"
      using after_send_conn(1) [OF conn, of k] e by (simp add: conn_def after_send_def)
    show "same_slots w ?w'"
      by (cases "tpcbs w tpcb") (simp_all add: same_slots_def after_send_def slots_def)
  qed (use e disj in \<open>auto simp: after_send_def dest: in_set_takeD in_set_dropD\<close>)
qed

text \<open>
  The stream of a connection: the bytes its control block has taken for transmission, then the pending
  ones. A step that concerns the control block \<open>p\<close> leaves what was enqueued on all others alone.
\<close>

definition stream :: "'x world \<Rightarrow> addr \<Rightarrow> addr list \<Rightarrow> u8 list" where
  "stream w p qs = enqueued w p @ chain_bytes (pbufs w) qs"

definition same_streams :: "'x world \<Rightarrow> 'x world \<Rightarrow> addr \<Rightarrow> bool" where
  "same_streams w w' p \<longleftrightarrow> (\<forall>p'. p' \<noteq> p \<longrightarrow> enqueued w' p' = enqueued w p')"

lemma stream_upd [simp]:
  "stream (w\<lparr>ess := x\<rparr>) p qs = stream w p qs" "stream (w\<lparr>app := a\<rparr>) p qs = stream w p qs"
  by (simp_all add: stream_def enqueued_def)

lemma same_streams_upd [simp]:
  "same_streams (w\<lparr>ess := x\<rparr>) w' p = same_streams w w' p"
  "same_streams w (w'\<lparr>ess := x\<rparr>) p = same_streams w w' p"
  "same_streams (w\<lparr>pbufs := h\<rparr>) w' p = same_streams w w' p"
  "same_streams w (w'\<lparr>pbufs := h\<rparr>) p = same_streams w w' p"
  "same_streams w (w'\<lparr>app := a\<rparr>) p = same_streams w w' p"
  by (simp_all add: same_streams_def enqueued_def)

lemma same_streams_refl [simp]: "same_streams w w p"
  by (simp add: same_streams_def)

lemma send_local:
  assumes doc: "doc_send P T" and conn: "conn w tpcb es qs" and e: "ess w es = Some e"
  shows "\<exists>w' k. cs_tcp_raw_send P T tpcb es w = Some (Ok ((), w')) \<and>
     local_change w w' es (es_state e) (set qs) (drop k qs) \<and>
     stream w' tpcb (drop k qs) = stream w tpcb qs \<and> same_streams w w' tpcb"
proof -
  from send_run [OF doc conn] obtain k a where
    run: "cs_tcp_raw_send P T tpcb es w = Some (Ok ((), (after_send w tpcb es qs k)\<lparr>app := a\<rparr>))"
    by blast
  have "stream (after_send w tpcb es qs k) tpcb (drop k qs) = stream w tpcb qs"
    using after_send_conn(2) [OF conn, of k] enqueued_after_send [OF conn, of k]
      chain_bytes_take_drop [of "pbufs w" k qs] by (simp add: stream_def)
  moreover have "same_streams w (after_send w tpcb es qs k) tpcb"
    by (simp add: same_streams_def after_send_def enqueued_def)
  ultimately show ?thesis using run after_send_local [OF conn e] by auto
qed

section \<open>Receiving, sending, polling\<close>

text \<open>
  What \<open>tcp.c\<close> needs from the receive callback: it returns \<open>ERR_OK\<close> (any other result would tell
  lwIP to keep the chain and deliver it again) and takes over the received chain. When it returns,
  every buffer of the chain is freed or pending on the connection, and the rest of the
  system is untouched.
\<close>

locale cs_recv_app = cs_app C ca cb for C :: "'x callbacks" and ca :: addr and cb :: "'x cs_callback" +
  assumes recv_cb: "\<exists>f. cb_tcp_recv cb = Some f \<and>
     (\<forall>s tpcb p es w qs ps e. conn w tpcb es qs \<longrightarrow> ess w es = Some e \<longrightarrow> es_callback e = ca \<longrightarrow>
        p \<noteq> NULL \<longrightarrow> sole_chain (pbufs w) p ps \<longrightarrow> set ps \<inter> set qs = {} \<longrightarrow>
        (\<exists>w' qs'. f s tpcb p es w = Some (Ok (ERR_OK, w')) \<and>
           local_change w w' es (es_state e) (set qs \<union> set ps) qs' \<and> same_streams w w' tpcb))"
begin

lemma call_recv:
  assumes "conn w tpcb es qs" and "ess w es = Some e" and "es_callback e = ca" and "p \<noteq> NULL"
    and "sole_chain (pbufs w) p ps" and "set ps \<inter> set qs = {}"
  shows "\<exists>w' qs'. call_tcp_recv C es tpcb p w = Some (Ok (ERR_OK, w')) \<and>
     local_change w w' es (es_state e) (set qs \<union> set ps) qs' \<and> same_streams w w' tpcb"
proof -
  from recv_cb obtain f where f: "cb_tcp_recv cb = Some f"
    and law: "\<And>s tpcb p es w qs ps e. conn w tpcb es qs \<Longrightarrow> ess w es = Some e \<Longrightarrow>
      es_callback e = ca \<Longrightarrow> p \<noteq> NULL \<Longrightarrow> sole_chain (pbufs w) p ps \<Longrightarrow> set ps \<inter> set qs = {} \<Longrightarrow>
      \<exists>w' qs'. f s tpcb p es w = Some (Ok (ERR_OK, w')) \<and>
        local_change w w' es (es_state e) (set qs \<union> set ps) qs' \<and> same_streams w w' tpcb"
    by blast
  from law [OF assms, of "cb_state cb"] obtain w' qs' where
    "f (cb_state cb) tpcb p es w = Some (Ok (ERR_OK, w'))"
    and "local_change w w' es (es_state e) (set qs \<union> set ps) qs'" and "same_streams w w' tpcb"
    by blast
  with f assms show ?thesis
    by (auto simp: call_tcp_recv_def run_simps conn_def)
qed

lemma recv_run:
  assumes conn: "conn w tpcb es qs" and e: "ess w es = Some e" "es_callback e = ca"
    and st: "es_state e \<in> {ES_ACCEPTED, ES_RECEIVED}" and p: "p \<noteq> NULL"
    and ps: "sole_chain (pbufs w) p ps" "set ps \<inter> set qs = {}"
  shows "\<exists>w' qs'. cs_tcp_raw_recv P T C es tpcb p ERR_OK w = Some (Ok (ERR_OK, w')) \<and>
     local_change w w' es ES_RECEIVED (set qs \<union> set ps) qs' \<and> same_streams w w' tpcb"
proof (cases "es_state e = ES_ACCEPTED")
  case False
  with st have "es_state e = ES_RECEIVED" by simp
  with call_recv [OF conn e p ps] e p conn show ?thesis
    by (auto simp: cs_tcp_raw_recv_def run_simps conn_def)
next
  case True
  let ?e = "e\<lparr>es_state := ES_RECEIVED\<rparr>"
  let ?w = "w\<lparr>ess := (ess w)(es \<mapsto> ?e)\<rparr>"
  from conn e have "conn ?w tpcb es qs" by (simp add: conn_def)
  moreover have "ess ?w es = Some ?e" "es_callback ?e = ca" "sole_chain (pbufs ?w) p ps"
    using e ps by simp_all
  ultimately obtain w' qs' where
    run: "call_tcp_recv C es tpcb p ?w = Some (Ok (ERR_OK, w'))" and
    lc: "local_change ?w w' es (es_state ?e) (set qs \<union> set ps) qs'" and ss: "same_streams w w' tpcb"
    using call_recv [of ?w tpcb es qs ?e p ps] p ps(2) by auto
  have "cs_tcp_raw_recv P T C es tpcb p ERR_OK w = Some (Ok (ERR_OK, w'))"
    using conn True e p run by (simp add: cs_tcp_raw_recv_def update_es_def run_simps conn_def)
  moreover from local_change_pre [OF lc e(1)] have
    "local_change w w' es ES_RECEIVED (set qs \<union> set ps) qs'" by simp
  ultimately show ?thesis using ss by blast
qed

end

context cs_app
begin

lemma sent_run:
  assumes doc: "doc_send P T" "doc_tcp_setters T" and conn: "conn w tpcb es qs"
    and e: "ess w es = Some e" "es_callback e = ca" "es_state e \<noteq> ES_CLOSING"
    and c: "tpcbs w tpcb = Some c" "t_sent c = fn_cs_tcp_send"
  shows "\<exists>w' k. cs_tcp_send P T C es tpcb n w = Some (Ok (ERR_OK, w')) \<and>
     local_change w w' es (es_state e) (set qs) (drop k qs) \<and>
     stream w' tpcb (drop k qs) = stream w tpcb qs \<and> same_streams w w' tpcb"
proof -
  from conn e have nn: "tpcb \<noteq> NULL" "es \<noteq> NULL" and ch: "sole_chain (pbufs w) (es_p e) qs"
    by (auto simp: conn_def)
  let ?e = "e\<lparr>es_retries := 0\<rparr>"
  let ?w = "w\<lparr>ess := (ess w)(es \<mapsto> ?e)\<rparr>"
  from conn e have conn': "conn ?w tpcb es qs" and e': "ess ?w es = Some ?e"
    by (simp_all add: conn_def)
  show ?thesis
  proof (cases "es_p e = NULL")
    case False
    have same: "(tpcbs w)(tpcb \<mapsto> c\<lparr>t_sent := fn_cs_tcp_send\<rparr>) = tpcbs w"
      using c by (simp add: fun_upd_idem)
    from send_local [OF doc(1) conn' e'] obtain w' k where
      run: "cs_tcp_raw_send P T tpcb es ?w = Some (Ok ((), w'))" and
      lc: "local_change ?w w' es (es_state ?e) (set qs) (drop k qs)" and
      st: "stream w' tpcb (drop k qs) = stream w tpcb qs" "same_streams w w' tpcb" by auto
    from local_change_pre [OF lc e(1)] have "local_change w w' es (es_state e) (set qs) (drop k qs)"
      by simp
    moreover have "cs_tcp_send P T C es tpcb n w = Some (Ok (ERR_OK, w'))"
      using False nn e c run same
      by (simp add: cs_tcp_send_def update_es_def run_simps tcp_setters_run [OF doc(2)])
    ultimately show ?thesis using st by blast
  next
    case True
    with ch have qs: "qs = []" by (simp add: sole_chain_def)
    obtain a where call: "callp (cb_tcp_send_done cb) (\<lambda>f. f (cb_state cb) tpcb es) ?w =
        Some (Ok ((), ?w\<lparr>app := a\<rparr>))"
      using call_send_done by blast
    have "cs_tcp_send P T C es tpcb n w = Some (Ok (ERR_OK, ?w\<lparr>app := a\<rparr>))"
      using True nn e call by (simp add: cs_tcp_send_def update_es_def run_simps)
    moreover have "local_change w (?w\<lparr>app := a\<rparr>) es (es_state e) (set qs) (drop 0 qs)"
      by (rule local_changeI [where e = e and e' = ?e])
        (use e ch qs in \<open>auto simp: same_slots_def\<close>)
    ultimately show ?thesis using qs by (intro exI [of _ "?w\<lparr>app := a\<rparr>"] exI [of _ 0]) simp
  qed
qed

lemma poll_run:
  assumes doc: "doc_send P T" and conn: "conn w tpcb es qs"
    and e: "ess w es = Some e" "es_state e \<noteq> ES_CLOSING"
  shows "\<exists>w' k. cs_tcp_raw_poll P T C es tpcb w = Some (Ok (ERR_OK, w')) \<and>
     local_change w w' es (es_state e) (set qs) (drop k qs) \<and>
     stream w' tpcb (drop k qs) = stream w tpcb qs \<and> same_streams w w' tpcb"
proof (cases "es_p e = NULL")
  case False
  with send_local [OF doc conn e(1)] e conn show ?thesis
    by (auto simp: cs_tcp_raw_poll_def run_simps conn_def)
next
  case True
  from conn e True have "qs = []" "es \<noteq> NULL" by (auto simp: conn_def sole_chain_def)
  moreover have "local_change w w es (es_state e) (set qs) (drop 0 qs)"
    by (rule local_changeI [where e = e and e' = e])
      (use e conn \<open>qs = []\<close> in \<open>auto simp: same_slots_def conn_def\<close>)
  ultimately show ?thesis using True e by (auto simp: cs_tcp_raw_poll_def run_simps)
qed

lemma fin_run:
  assumes doc: "doc_close P T" and conn: "conn w tpcb es qs"
    and e: "ess w es = Some e" "es_callback e = ca" and c: "tpcbs w tpcb = Some c"
  shows "\<exists>w'. cs_tcp_raw_recv P T C es tpcb NULL err w = Some (Ok (ERR_OK, w')) \<and>
     ess w' = (ess w)(es := None) \<and> pbufs w' = pbufs w |` (- set qs) \<and>
     (tpcbs w' = (tpcbs w)(tpcb := None) \<or> tpcbs w' = (tpcbs w)(tpcb \<mapsto> detach c))"
proof -
  let ?e = "e\<lparr>es_state := ES_CLOSING\<rparr>"
  let ?w = "w\<lparr>ess := (ess w)(es \<mapsto> ?e)\<rparr>"
  from conn e have conn': "conn ?w tpcb es qs" and nn: "es \<noteq> NULL" by (simp_all add: conn_def)
  from close_run [OF doc conn', of ?e c] e c obtain a where
    run: "cs_tcp_raw_close P T C tpcb es ?w = ignore (tcp_close T tpcb)
      ((drop_conn ?w es qs)\<lparr>tpcbs := (tpcbs ?w)(tpcb \<mapsto> detach c), app := a\<rparr>)"
    by auto
  let ?v = "(drop_conn ?w es qs)\<lparr>tpcbs := (tpcbs ?w)(tpcb \<mapsto> detach c), app := a\<rparr>"
  from doc have "doc_tcp_close T" by (simp add: doc_close_def)
  from doc_tcp_close_run [OF this, of ?v tpcb "detach c"] obtain b where
    "ignore (tcp_close T tpcb) ?v = Some (Ok ((), ?v\<lparr>tpcbs := (tpcbs ?v)(tpcb := None), app := b\<rparr>)) \<or>
     ignore (tcp_close T tpcb) ?v = Some (Ok ((), ?v))"
    by auto
  with run e nn show ?thesis
    by (auto simp: cs_tcp_raw_recv_def update_es_def run_simps drop_conn_def)
qed

end

end
