(* ===== verification/Cs_Tcp_System.thy ===== *)
theory Cs_Tcp_System
  imports Cs_Tcp_Life
begin

text \<open>
  The TCP side as a system: lwIP delivers events to whatever callback a control block has
  registered, the application writes, and any interleaving of these is a run. The invariant of a
  run, that no event can make a handler fault, that no buffer is ever leaked, and what a reset
  does.
\<close>

section \<open>Events\<close>

text \<open>
  What lwIP and the application can do: a new control block arrives at the listener, a chain of
  buffers arrives on a connection, the peer closes, data is acknowledged, the poll timer fires, the
  peer resets the connection (lwIP frees the control block and then reports the error), the
  application writes.
\<close>

datatype tcp_event =
    EvAccept addr tcp_pcb
  | EvData addr "(addr \<times> pbuf) list"
  | EvFin addr
  | EvSent addr u16
  | EvPoll addr
  | EvReset addr err_t
  | EvWrite addr "u8 list"

definition put_pcb :: "addr \<Rightarrow> tcp_pcb option \<Rightarrow> ('x world, unit) prog" where
  "put_pcb p c = modify (\<lambda>w. w\<lparr>tpcbs := (tpcbs w)(p := c)\<rparr>)"

text \<open>
  One event. lwIP calls what is registered in the control block, with the argument registered
  there; a control block whose accept callback reports an error is aborted.
\<close>

fun tcp_event_run ::
  "'x pbuf_api \<Rightarrow> 'x tcp_api \<Rightarrow> 'x callbacks \<Rightarrow> addr \<Rightarrow> tcp_event \<Rightarrow> ('x world, unit) prog" where
  "tcp_event_run P T C ca (EvAccept p c) =
     seq (put_pcb p (Some c))
    (bnd (cs_tcp_raw_accept P T C ca p ERR_OK) (\<lambda>r.
     whenc (r \<noteq> ERR_OK) (put_pcb p None)))"
| "tcp_event_run P T C ca (EvData p ps) =
     bnd (deref tpcbs p) (\<lambda>c.
     whenc (t_recv c = fn_cs_tcp_raw_recv)
       (seq (modify (\<lambda>w. w\<lparr>pbufs := pbufs w ++ map_of ps\<rparr>))
       (ignore (cs_tcp_raw_recv P T C (t_callback_arg c) p (head_ptr (map fst ps)) ERR_OK))))"
| "tcp_event_run P T C ca (EvFin p) =
     bnd (deref tpcbs p) (\<lambda>c.
     whenc (t_recv c = fn_cs_tcp_raw_recv)
       (ignore (cs_tcp_raw_recv P T C (t_callback_arg c) p NULL ERR_OK)))"
| "tcp_event_run P T C ca (EvSent p n) =
     bnd (deref tpcbs p) (\<lambda>c.
     seq (put_pcb p (Some (c\<lparr>t_snd_buf := t_snd_buf c + n\<rparr>)))
    (whenc (t_sent c = fn_cs_tcp_send)
       (ignore (cs_tcp_send P T C (t_callback_arg c) p n))))"
| "tcp_event_run P T C ca (EvPoll p) =
     bnd (deref tpcbs p) (\<lambda>c.
     whenc (t_poll c = fn_cs_tcp_raw_poll)
       (ignore (cs_tcp_raw_poll P T C (t_callback_arg c) p)))"
| "tcp_event_run P T C ca (EvReset p err) =
     bnd (deref tpcbs p) (\<lambda>c.
     seq (put_pcb p None)
    (whenc (t_errf c = fn_cs_tcp_raw_error)
       (cs_tcp_raw_error P T C (t_callback_arg c) err)))"
| "tcp_event_run P T C ca (EvWrite es buf) =
     bnd (deref ess es) (\<lambda>e.
     ignore (cs_tcp_char_send P T (es_pcb e) es buf (int (length buf))))"

text \<open>No callback of \<open>tcp.c\<close> is registered: a new control block, or one that was detached.\<close>

definition idle_slots :: "tcp_pcb \<Rightarrow> bool" where
  "idle_slots c \<longleftrightarrow> t_recv c \<noteq> fn_cs_tcp_raw_recv \<and> t_sent c \<noteq> fn_cs_tcp_send \<and>
     t_poll c \<noteq> fn_cs_tcp_raw_poll \<and> t_errf c \<noteq> fn_cs_tcp_raw_error"

text \<open>
  When an event can happen: on an existing object, a new control block at a free address, and a
  received chain in new buffers nobody else refers to.
\<close>

fun tcp_enabled :: "tcp_event \<Rightarrow> 'x world \<Rightarrow> bool" where
  "tcp_enabled (EvAccept p c) w \<longleftrightarrow> p \<noteq> NULL \<and> tpcbs w p = None \<and> idle_slots c"
| "tcp_enabled (EvData p ps) w \<longleftrightarrow> tpcbs w p \<noteq> None \<and> ps \<noteq> [] \<and>
     list_all (\<lambda>(q, b). pbufs w q = None) ps \<and>
     sole_chain (pbufs w ++ map_of ps) (head_ptr (map fst ps)) (map fst ps)"
| "tcp_enabled (EvFin p) w \<longleftrightarrow> tpcbs w p \<noteq> None"
| "tcp_enabled (EvSent p n) w \<longleftrightarrow> tpcbs w p \<noteq> None"
| "tcp_enabled (EvPoll p) w \<longleftrightarrow> tpcbs w p \<noteq> None"
| "tcp_enabled (EvReset p err) w \<longleftrightarrow> tpcbs w p \<noteq> None"
| "tcp_enabled (EvWrite es buf) w \<longleftrightarrow> ess w es \<noteq> None"

definition is_reset :: "tcp_event \<Rightarrow> bool" where
  "is_reset ev \<longleftrightarrow> (case ev of EvReset p err \<Rightarrow> True | _ \<Rightarrow> False)"

text \<open>The states a run from a freshly initialised stack passes through.\<close>

definition tcp_init_world :: "'x world \<Rightarrow> bool" where
  "tcp_init_world w \<longleftrightarrow> ess w = Map.empty \<and> pbufs w = Map.empty \<and>
     (\<forall>p c. tpcbs w p = Some c \<longrightarrow> p \<noteq> NULL \<and> idle_slots c)"

inductive tcp_reach ::
  "'x pbuf_api \<Rightarrow> 'x tcp_api \<Rightarrow> 'x callbacks \<Rightarrow> addr \<Rightarrow> 'x world \<Rightarrow> bool"
  for P :: "'x pbuf_api" and T :: "'x tcp_api" and C :: "'x callbacks" and ca :: addr where
  start: "tcp_init_world w \<Longrightarrow> tcp_reach P T C ca w"
| event: "tcp_reach P T C ca w \<Longrightarrow> tcp_enabled ev w \<Longrightarrow>
    tcp_event_run P T C ca ev w = Some (Ok ((), w')) \<Longrightarrow> tcp_reach P T C ca w'"

section \<open>The invariant\<close>

definition es_slots :: "addr \<Rightarrow> addr \<times> fnptr \<times> fnptr \<times> fnptr \<times> fnptr" where
  "es_slots es = (es, fn_cs_tcp_raw_recv, fn_cs_tcp_send, fn_cs_tcp_raw_poll, fn_cs_tcp_raw_error)"

text \<open>
  A connection in order: it is open, knows its callback structure and its control block, all
  callbacks of which lead back to it, and its pending chain \<open>qs\<close> is referenced from nowhere else.
\<close>

definition conn_at :: "addr \<Rightarrow> 'x world \<Rightarrow> addr \<Rightarrow> cs_tcp_raw_state \<Rightarrow> addr list \<Rightarrow> bool" where
  "conn_at ca w es e qs \<longleftrightarrow> es \<noteq> NULL \<and> es_callback e = ca \<and>
     es_state e \<in> {ES_ACCEPTED, ES_RECEIVED} \<and> es_pcb e \<noteq> NULL \<and>
     map_option slots (tpcbs w (es_pcb e)) = Some (es_slots es) \<and>
     sole_chain (pbufs w) (es_p e) qs"

definition pcb_at :: "'x world \<Rightarrow> addr \<Rightarrow> tcp_pcb \<Rightarrow> bool" where
  "pcb_at w p c \<longleftrightarrow> p \<noteq> NULL \<and> (idle_slots c \<or> (\<exists>es e. slots c = es_slots es \<and> ess w es = Some e \<and> es_pcb e = p))"

definition tcp_inv_at :: "addr \<Rightarrow> 'x world \<Rightarrow> (addr \<Rightarrow> addr list) \<Rightarrow> bool" where
  "tcp_inv_at ca w ch \<longleftrightarrow>
     (\<forall>es e. ess w es = Some e \<longrightarrow> conn_at ca w es e (ch es)) \<and>
     (\<forall>es es'. ess w es \<noteq> None \<longrightarrow> ess w es' \<noteq> None \<longrightarrow> es \<noteq> es' \<longrightarrow>
        set (ch es) \<inter> set (ch es') = {}) \<and>
     (\<forall>p c. tpcbs w p = Some c \<longrightarrow> pcb_at w p c) \<and>
     (\<forall>q. pbufs w q \<noteq> None \<longrightarrow> (\<exists>es. ess w es \<noteq> None \<and> q \<in> set (ch es)))"

definition tcp_inv :: "addr \<Rightarrow> 'x world \<Rightarrow> bool" where
  "tcp_inv ca w \<longleftrightarrow> (\<exists>ch. tcp_inv_at ca w ch)"

lemma tcp_inv_atI:
  assumes "\<And>es e. ess w es = Some e \<Longrightarrow> conn_at ca w es e (ch es)"
    and "\<And>es es'. ess w es \<noteq> None \<Longrightarrow> ess w es' \<noteq> None \<Longrightarrow> es \<noteq> es' \<Longrightarrow> set (ch es) \<inter> set (ch es') = {}"
    and "\<And>p c. tpcbs w p = Some c \<Longrightarrow> pcb_at w p c"
    and "\<And>q. pbufs w q \<noteq> None \<Longrightarrow> \<exists>es. ess w es \<noteq> None \<and> q \<in> set (ch es)"
  shows "tcp_inv_at ca w ch"
  using assms unfolding tcp_inv_at_def by blast

lemma tcp_inv_atD:
  assumes "tcp_inv_at ca w ch"
  shows "ess w es = Some e \<Longrightarrow> conn_at ca w es e (ch es)"
    and "ess w es \<noteq> None \<Longrightarrow> ess w es' \<noteq> None \<Longrightarrow> es \<noteq> es' \<Longrightarrow> set (ch es) \<inter> set (ch es') = {}"
    and "tpcbs w p = Some c \<Longrightarrow> pcb_at w p c"
    and "pbufs w q \<noteq> None \<Longrightarrow> \<exists>es. ess w es \<noteq> None \<and> q \<in> set (ch es)"
  using assms unfolding tcp_inv_at_def by blast+

lemma conn_at_conn: "conn_at ca w es e qs \<Longrightarrow> ess w es = Some e \<Longrightarrow> conn w (es_pcb e) es qs"
  by (auto simp: conn_at_def conn_def)

text \<open>A chain of a live connection consists of allocated buffers.\<close>

lemma inv_chain_alloc:
  assumes "tcp_inv_at ca w ch" and "ess w es \<noteq> None" and "q \<in> set (ch es)"
  shows "pbufs w q \<noteq> None"
proof -
  from assms obtain e where "conn_at ca w es e (ch es)" using tcp_inv_atD(1) by blast
  with assms(3) show ?thesis
    using is_chain_alloc sole_chain_is_chain unfolding conn_at_def by blast
qed

section \<open>Streams\<close>

text \<open>
  The stream of a connection, from its state alone: the bytes enqueued on its control block, then those
  on its pending chain. \<open>streams_kept w w' A\<close>: of the connections open before and after, all but those in
  \<open>A\<close> have the stream they had.
\<close>

definition conn_stream :: "'x world \<Rightarrow> addr \<Rightarrow> u8 list" where
  "conn_stream w es = (case ess w es of
       None \<Rightarrow> []
     | Some e \<Rightarrow> stream w (es_pcb e) (the (chain_list (pbufs w) (es_p e))))"

definition streams_kept :: "'x world \<Rightarrow> 'x world \<Rightarrow> addr set \<Rightarrow> bool" where
  "streams_kept w w' A \<longleftrightarrow>
     (\<forall>es. es \<notin> A \<longrightarrow> ess w es \<noteq> None \<longrightarrow> ess w' es \<noteq> None \<longrightarrow> conn_stream w' es = conn_stream w es)"

lemma conn_stream_at:
  "conn_at ca w es e qs \<Longrightarrow> ess w es = Some e \<Longrightarrow> conn_stream w es = stream w (es_pcb e) qs"
  using chain_list_is_chain [OF sole_chain_is_chain] by (fastforce simp: conn_at_def conn_stream_def)

lemma conn_stream_inv:
  "tcp_inv_at ca w ch \<Longrightarrow> ess w es = Some e \<Longrightarrow> conn_stream w es = stream w (es_pcb e) (ch es)"
  using conn_stream_at tcp_inv_atD(1) by blast

lemma streams_kept_refl [simp]: "streams_kept w w A"
  by (simp add: streams_kept_def)

lemma streams_kept_one:
  assumes "streams_kept w w' {es}" and "conn_stream w' es = conn_stream w es"
  shows "streams_kept w w' A"
  unfolding streams_kept_def
proof (intro allI impI)
  fix k assume "ess w k \<noteq> None" "ess w' k \<noteq> None"
  with assms show "conn_stream w' k = conn_stream w k" unfolding streams_kept_def by (cases "k = es") auto
qed

lemma chain_list_NULL [simp]: "chain_list h NULL = Some []"
  by (simp add: chain_list.simps)

text \<open>Different connections have different control blocks.\<close>

lemma inv_pcb_inj:
  assumes "tcp_inv_at ca w ch" and "ess w k = Some x" and "ess w es = Some e" and "k \<noteq> es"
  shows "es_pcb x \<noteq> es_pcb e"
  using tcp_inv_atD(1) [OF assms(1,2)] tcp_inv_atD(1) [OF assms(1,3)] assms(4)
  by (auto simp: conn_at_def es_slots_def)


text \<open>A connection nobody touches keeps its stream.\<close>

lemma stream_frame:
  assumes inv: "tcp_inv_at ca w ch" and inv': "tcp_inv_at ca w' ch'"
    and k: "ess w k = Some x" "ess w' k = Some x'" "es_pcb x' = es_pcb x" "ch' k = ch k"
    and same: "\<And>q. q \<in> set (ch k) \<Longrightarrow> pbufs w' q = pbufs w q" "enqueued w' (es_pcb x) = enqueued w (es_pcb x)"
  shows "conn_stream w' k = conn_stream w k"
  using conn_stream_inv [OF inv k(1)] conn_stream_inv [OF inv' k(2)] k(3,4) same(2)
    chain_bytes_cong [of "ch k" "pbufs w'" "pbufs w"] same(1)
  by (simp add: stream_def)

section \<open>Changes of one connection keep the invariant\<close>

lemma idle_slots_cong: "slots c = slots c' \<Longrightarrow> idle_slots c = idle_slots c'"
  by (simp add: slots_def idle_slots_def)

lemma same_slotsD:
  "same_slots w w' \<Longrightarrow> tpcbs w' p = Some c' \<Longrightarrow> \<exists>c. tpcbs w p = Some c \<and> slots c = slots c'"
  unfolding same_slots_def by (metis (no_types, lifting) map_option_eq_Some)

text \<open>Buffers that arrive with the event are the connection's own from the start.\<close>

lemma local_change_fresh:
  assumes "local_change (w\<lparr>pbufs := h\<rparr>) w' es st mine qs" and "\<And>q. q \<notin> mine \<Longrightarrow> h q = pbufs w q"
  shows "local_change w w' es st mine qs"
proof -
  from assms(1) obtain e e' where *: "ess w es = Some e" "ess w' = (ess w)(es \<mapsto> e')"
    "es_pcb e' = es_pcb e" "es_callback e' = es_callback e" "es_state e' = st"
    "sole_chain (pbufs w') (es_p e') qs" "set qs \<subseteq> mine" "same_slots w w'"
    unfolding local_change_def same_slots_def by auto
  from assms have "\<And>q. q \<notin> mine \<Longrightarrow> pbufs w' q = pbufs w q"
    "\<And>q. q \<in> mine \<Longrightarrow> q \<notin> set qs \<Longrightarrow> pbufs w' q = None"
    unfolding local_change_def by auto
  with * show ?thesis by (intro local_changeI)
qed

lemma inv_local:
  assumes inv: "tcp_inv_at ca w ch" and lc: "local_change w w' es st mine qs"
    and st: "st \<in> {ES_ACCEPTED, ES_RECEIVED}" and own: "set (ch es) \<subseteq> mine"
    and sep: "\<And>es'. es' \<noteq> es \<Longrightarrow> ess w es' \<noteq> None \<Longrightarrow> mine \<inter> set (ch es') = {}"
  shows "tcp_inv_at ca w' (ch(es := qs))"
proof -
  from lc obtain e e' where e: "ess w es = Some e" and ess': "ess w' = (ess w)(es \<mapsto> e')"
    and e': "es_pcb e' = es_pcb e" "es_callback e' = es_callback e" "es_state e' = st"
    and qs: "sole_chain (pbufs w') (es_p e') qs" "set qs \<subseteq> mine" and sl: "same_slots w w'"
    and rest: "\<forall>q. q \<notin> mine \<longrightarrow> pbufs w' q = pbufs w q"
    and freed: "\<forall>q. q \<in> mine \<longrightarrow> q \<notin> set qs \<longrightarrow> pbufs w' q = None"
    by (rule local_changeE)
  note D = tcp_inv_atD [OF inv]
  have slots: "map_option slots (tpcbs w' p) = map_option slots (tpcbs w p)" for p
    using sl by (simp add: same_slots_def)
  show ?thesis
  proof (rule tcp_inv_atI)
    fix k x assume "ess w' k = Some x"
    then consider "k = es" "x = e'" | "k \<noteq> es" "ess w k = Some x" using ess' by (auto split: if_splits)
    then show "conn_at ca w' k x ((ch(es := qs)) k)"
    proof cases
      case 1
      with D(1) [OF e] e' qs st slots show ?thesis by (simp add: conn_at_def)
    next
      case 2
      then have "mine \<inter> set (ch k) = {}" using sep by auto
      then have "sole_chain (pbufs w') (es_p x) (ch k) = sole_chain (pbufs w) (es_p x) (ch k)"
        using rest by (intro sole_chain_cong) blast
      with D(1) [OF 2(2)] 2(1) slots show ?thesis by (simp add: conn_at_def)
    qed
  next
    fix k k' assume live: "ess w' k \<noteq> None" "ess w' k' \<noteq> None" "k \<noteq> k'"
    show "set ((ch(es := qs)) k) \<inter> set ((ch(es := qs)) k') = {}"
      using live ess' sep [of k] sep [of k'] qs(2) D(2) [of k k'] by (auto split: if_splits)
  next
    fix p c' assume "tpcbs w' p = Some c'"
    with same_slotsD [OF sl] obtain c where c: "tpcbs w p = Some c" "slots c = slots c'" by blast
    from D(3) [OF c(1)] consider "idle_slots c" "p \<noteq> NULL" |
      k x where "slots c = es_slots k" "ess w k = Some x" "es_pcb x = p" "p \<noteq> NULL"
      unfolding pcb_at_def by blast
    then show "pcb_at w' p c'"
    proof cases
      case 1
      with idle_slots_cong [OF c(2)] show ?thesis by (simp add: pcb_at_def)
    next
      case 2
      have "ess w' k = Some (if k = es then e' else x)" "es_pcb (if k = es then e' else x) = p"
        using 2 ess' e e' by auto
      with 2 c(2) show ?thesis unfolding pcb_at_def by metis
    qed
  next
    fix q assume q: "pbufs w' q \<noteq> None"
    show "\<exists>k. ess w' k \<noteq> None \<and> q \<in> set ((ch(es := qs)) k)"
    proof (cases "q \<in> mine")
      case True
      with freed q have "q \<in> set qs" by metis
      with ess' show ?thesis by (intro exI [of _ es]) simp
    next
      case False
      with q rest have "pbufs w q \<noteq> None" by auto
      then obtain k where "ess w k \<noteq> None" "q \<in> set (ch k)" using D(4) [of q] by auto
      with False own ess' show ?thesis by (intro exI [of _ k]) auto
    qed
  qed
qed

lemma local_streams:
  assumes inv: "tcp_inv_at ca w ch" and lc: "local_change w w' es st mine qs"
    and st: "st \<in> {ES_ACCEPTED, ES_RECEIVED}" and own: "set (ch es) \<subseteq> mine"
    and sep: "\<And>es'. es' \<noteq> es \<Longrightarrow> ess w es' \<noteq> None \<Longrightarrow> mine \<inter> set (ch es') = {}"
    and e: "ess w es = Some e" and ss: "same_streams w w' (es_pcb e)"
  shows "tcp_inv ca w' \<and> dom (ess w') = dom (ess w) \<and> streams_kept w w' {es} \<and>
     conn_stream w' es = stream w' (es_pcb e) qs"
proof -
  from inv_local [OF inv lc st own sep] have inv': "tcp_inv_at ca w' (ch(es := qs))" by blast
  from lc e obtain e' where ess': "ess w' = (ess w)(es \<mapsto> e')" and pc: "es_pcb e' = es_pcb e"
    and rest: "\<forall>q. q \<notin> mine \<longrightarrow> pbufs w' q = pbufs w q"
    by (auto elim: local_changeE)
  have "conn_stream w' k = conn_stream w k" if k: "k \<noteq> es" "ess w k = Some x" for k x
  proof (rule stream_frame [OF inv inv' k(2)])
    show "pbufs w' q = pbufs w q" if "q \<in> set (ch k)" for q using sep [OF k(1)] k(2) that rest by auto
    show "enqueued w' (es_pcb x) = enqueued w (es_pcb x)"
      using ss inv_pcb_inj [OF inv k(2) e k(1)] by (simp add: same_streams_def)
  qed (use ess' k in simp_all)
  then have "streams_kept w w' {es}" unfolding streams_kept_def by auto
  moreover have "conn_stream w' es = stream w' (es_pcb e) qs"
    using conn_stream_inv [OF inv', of es e'] ess' pc by simp
  moreover have "dom (ess w') = dom (ess w)" using ess' e by auto
  ultimately show ?thesis using inv' unfolding tcp_inv_def by blast
qed

text \<open>Only the connection's own buffers change.\<close>

lemma inv_local_own:
  assumes "tcp_inv_at ca w ch" and "local_change w w' es st (set (ch es)) qs"
    and "st \<in> {ES_ACCEPTED, ES_RECEIVED}" and "ess w es = Some e" and "same_streams w w' (es_pcb e)"
  shows "tcp_inv ca w' \<and> dom (ess w') = dom (ess w) \<and> streams_kept w w' {es} \<and>
     conn_stream w' es = stream w' (es_pcb e) qs"
  by (rule local_streams [OF assms(1-3) _ _ assms(4,5)])
    (use tcp_inv_atD(2) [OF assms(1)] assms(4) in blast)+

text \<open>The connection's own buffers change, and new ones \<open>fresh\<close> are added.\<close>

lemma inv_local_new:
  assumes "tcp_inv_at ca w ch" and "local_change w w' es st (set (ch es) \<union> fresh) qs"
    and "st \<in> {ES_ACCEPTED, ES_RECEIVED}" and "\<And>q. q \<in> fresh \<Longrightarrow> pbufs w q = None"
    and "ess w es = Some e" and "same_streams w w' (es_pcb e)"
  shows "tcp_inv ca w' \<and> dom (ess w') = dom (ess w) \<and> streams_kept w w' {es} \<and>
     conn_stream w' es = stream w' (es_pcb e) qs"
proof (rule local_streams [OF assms(1-3) _ _ assms(5,6)])
  show "(set (ch es) \<union> fresh) \<inter> set (ch es') = {}" if "es' \<noteq> es" "ess w es' \<noteq> None" for es'
    using that tcp_inv_atD(2) [OF assms(1)] inv_chain_alloc [OF assms(1)] assms(4,5) by blast
qed simp

section \<open>Connections come and go\<close>

lemma inv_add:
  assumes inv: "tcp_inv_at ca w ch" and es: "es \<noteq> NULL" "ess w es = None"
    and p: "p \<noteq> NULL" "tpcbs w p = None"
  shows "tcp_inv ca (w\<lparr>ess := (ess w)(es \<mapsto> fresh_es e p ca), tpcbs := (tpcbs w)(p \<mapsto> attach es c), app := a\<rparr>)"
proof -
  note D = tcp_inv_atD [OF inv]
  have other: "es_pcb x \<noteq> p" if "ess w k = Some x" for k x
    using D(1) [OF that] p by (auto simp: conn_at_def)
  have "tcp_inv_at ca (w\<lparr>ess := (ess w)(es \<mapsto> fresh_es e p ca), tpcbs := (tpcbs w)(p \<mapsto> attach es c), app := a\<rparr>)
      (ch(es := []))" (is "tcp_inv_at ca ?w _")
  proof (rule tcp_inv_atI)
    fix k x assume "ess ?w k = Some x"
    then show "conn_at ca ?w k x ((ch(es := [])) k)"
      using D(1) [of k x] other [of k x] es p
      by (auto simp: conn_at_def fresh_es_def attach_def slots_def es_slots_def split: if_splits)
  next
    fix k k' assume "ess ?w k \<noteq> None" "ess ?w k' \<noteq> None" "k \<noteq> k'"
    then show "set ((ch(es := [])) k) \<inter> set ((ch(es := [])) k') = {}"
      using D(2) [of k k'] by (auto split: if_splits)
  next
    fix k x assume "tpcbs ?w k = Some x"
    then show "pcb_at ?w k x"
      using D(3) [of k x] es p
      by (auto simp: pcb_at_def attach_def slots_def es_slots_def fresh_es_def split: if_splits)
  next
    fix q assume "pbufs ?w q \<noteq> None"
    then obtain k where "ess w k \<noteq> None" "q \<in> set (ch k)" using D(4) [of q] by auto
    with es show "\<exists>k. ess ?w k \<noteq> None \<and> q \<in> set ((ch(es := [])) k)"
      by (intro exI [of _ k]) auto
  qed
  then show ?thesis unfolding tcp_inv_def by blast
qed

lemma detach_idle [simp]: "idle_slots (detach c)"
  by (simp add: idle_slots_def detach_def)

lemma inv_remove:
  assumes inv: "tcp_inv_at ca w ch" and e: "ess w es = Some e"
    and ess': "ess w' = (ess w)(es := None)" and pb: "pbufs w' = pbufs w |` (- set (ch es))"
    and pcb: "tpcbs w' = (tpcbs w)(es_pcb e := None) \<or> tpcbs w' = (tpcbs w)(es_pcb e \<mapsto> detach c)"
  shows "tcp_inv_at ca w' ch"
proof -
  note D = tcp_inv_atD [OF inv]
  have other: "es_pcb x \<noteq> es_pcb e" if "ess w k = Some x" "k \<noteq> es" for k x
    using D(1) [OF that(1)] D(1) [OF e] that(2) by (auto simp: conn_at_def es_slots_def)
  have nn: "es_pcb e \<noteq> NULL" using D(1) [OF e] by (simp add: conn_at_def)
  show ?thesis
  proof (rule tcp_inv_atI)
    fix k x assume "ess w' k = Some x"
    then have k: "ess w k = Some x" "k \<noteq> es" using ess' by (auto split: if_splits)
    have "set (ch es) \<inter> set (ch k) = {}" using D(2) k e by auto
    then have "sole_chain (pbufs w') (es_p x) (ch k) = sole_chain (pbufs w) (es_p x) (ch k)"
      using pb by (intro sole_chain_cong) (auto simp: restrict_map_def)
    with D(1) [OF k(1)] other [OF k] pcb show "conn_at ca w' k x (ch k)"
      by (auto simp: conn_at_def)
  next
    fix k k' assume "ess w' k \<noteq> None" "ess w' k' \<noteq> None" "k \<noteq> k'"
    then show "set (ch k) \<inter> set (ch k') = {}" using ess' D(2) [of k k'] by (auto split: if_splits)
  next
    fix p x assume x: "tpcbs w' p = Some x"
    show "pcb_at w' p x"
    proof (cases "p = es_pcb e")
      case True
      with x pcb have "x = detach c" by auto
      with True nn show ?thesis by (simp add: pcb_at_def)
    next
      case False
      with x pcb have "tpcbs w p = Some x" by auto
      from D(3) [OF this] False e show ?thesis
        unfolding pcb_at_def ess' by (metis fun_upd_apply option.inject)
    qed
  next
    fix q assume "pbufs w' q \<noteq> None"
    with pb have "pbufs w q \<noteq> None" "q \<notin> set (ch es)" by (auto simp: restrict_map_def split: if_splits)
    with D(4) obtain k where "ess w k \<noteq> None" "q \<in> set (ch k)" "k \<noteq> es" by blast
    with ess' show "\<exists>k. ess w' k \<noteq> None \<and> q \<in> set (ch k)" by auto
  qed
qed

section \<open>Application writes\<close>

lemma local_refl:
  "conn w tpcb es qs \<Longrightarrow> ess w es = Some e \<Longrightarrow> local_change w w es (es_state e) (set qs) qs"
  by (rule local_changeI [where e = e and e' = e]) (auto simp: conn_def same_slots_def fun_upd_idem)

text \<open>
  Whatever \<open>cs_tcp_char_send\<close> returns, only the connection changes, and every buffer it allocated is
  freed or pending.
\<close>

lemma char_send_local:
  assumes doc: "doc_char_send P T" and conn: "conn w tpcb es qs" and e: "ess w es = Some e"
    and len: "0 \<le> buf_len" "buf_len \<le> int (length buf)"
  shows "\<exists>r w' fresh rs. cs_tcp_char_send P T tpcb es buf buf_len w = Some (Ok (r, w')) \<and>
     (\<forall>q \<in> fresh. pbufs w q = None) \<and> local_change w w' es (es_state e) (set qs \<union> fresh) rs \<and>
     stream w' tpcb rs = stream w tpcb qs @ (if r = 0 then take (nat (buf_len mod 65536)) buf else []) \<and>
     same_streams w w' tpcb"
proof (cases "qs = []")
  case False
  with conn e have "es_p e \<noteq> NULL" "es \<noteq> NULL" by (cases qs; auto simp: conn_def sole_chain_Cons)+
  with e have "cs_tcp_char_send P T tpcb es buf buf_len w = Some (Ok (100, w))"
    by (simp add: cs_tcp_char_send_def run_simps)
  with local_refl [OF conn e] show ?thesis
    by (intro exI [of _ 100] exI [of _ w] exI [of _ "{}"] exI [of _ qs]) simp
next
  case True
  let ?n = "word_of_int buf_len :: u16"
  have n: "unat ?n = nat (buf_len mod 65536)" by (simp add: unat_eq_nat_uint uint_word_of_int)
  from conn e True have p0: "es_p e = NULL" and nn: "es \<noteq> NULL" by (auto simp: conn_def)
  from doc have "pbuf_alloc P PBUF_RAW ?n PBUF_POOL w = Some (Ok (NULL, w)) \<or>
      (\<exists>p ps h. pbuf_alloc P PBUF_RAW ?n PBUF_POOL w = Some (Ok (p, w\<lparr>pbufs := h\<rparr>)) \<and>
         fresh_chain (pbufs w) h p ps (unat ?n))"
    unfolding doc_char_send_def doc_pbuf_alloc_def by blast
  then show ?thesis
  proof (elim disjE exE conjE)
    assume "pbuf_alloc P PBUF_RAW ?n PBUF_POOL w = Some (Ok (NULL, w))"
    with e p0 nn have "cs_tcp_char_send P T tpcb es buf buf_len w = Some (Ok (1, w))"
      by (simp add: cs_tcp_char_send_def run_simps)
    with local_refl [OF conn e] show ?thesis
      by (intro exI [of _ 1] exI [of _ w] exI [of _ "{}"] exI [of _ qs]) simp
  next
    fix p ps h
    assume al: "pbuf_alloc P PBUF_RAW ?n PBUF_POOL w = Some (Ok (p, w\<lparr>pbufs := h\<rparr>))" and
      fr: "fresh_chain (pbufs w) h p ps (unat ?n)"
    from len n have "unat ?n \<le> length buf" using zmod_le_nonneg_dividend [of buf_len 65536] by linarith
    from char_send_fresh [OF doc conn [unfolded True] e this al fr] obtain h' where
      tk: "pbuf_take P p buf ?n (w\<lparr>pbufs := h\<rparr>) = Some (Ok (ERR_OK, w\<lparr>pbufs := h'\<rparr>))" and
      conn': "conn (w\<lparr>pbufs := h', ess := (ess w)(es \<mapsto> e\<lparr>es_p := p\<rparr>)\<rparr>) tpcb es ps" and
      same: "\<forall>q. q \<notin> set ps \<longrightarrow> h' q = pbufs w q" and by': "chain_bytes h' ps = take (unat ?n) buf"
      by blast
    let ?v = "w\<lparr>pbufs := h'\<rparr>"
    let ?w = "?v\<lparr>ess := (ess ?v)(es \<mapsto> e\<lparr>es_p := p\<rparr>)\<rparr>"
    from doc have "doc_send P T" by (simp add: doc_char_send_def)
    from send_local [OF this, of ?w tpcb es ps "e\<lparr>es_p := p\<rparr>"] conn' obtain w' k where
      run: "cs_tcp_raw_send P T tpcb es ?w = Some (Ok ((), w'))" and
      lc: "local_change ?w w' es (es_state e) (set ps) (drop k ps)" and
      st: "stream w' tpcb (drop k ps) = stream ?w tpcb ps" "same_streams w w' tpcb" by auto
    from st(1) by' n True have "stream w' tpcb (drop k ps) = stream w tpcb qs @ take (nat (buf_len mod 65536)) buf"
      by (simp add: stream_def enqueued_def)
    moreover from fr have "p \<noteq> NULL" and new: "\<forall>q \<in> set ps. pbufs w q = None" by (auto simp: fresh_chain_def)
    then have "cs_tcp_char_send P T tpcb es buf buf_len w = Some (Ok (0, w'))"
      using e p0 nn al tk run by (simp add: cs_tcp_char_send_def update_es_def run_simps)
    moreover from local_change_pre [OF lc] e have "local_change ?v w' es (es_state e) (set ps) (drop k ps)"
      by simp
    then have "local_change w w' es (es_state e) (set ps) (drop k ps)"
      by (rule local_change_fresh) (use same in simp)
    ultimately show ?thesis using True new st(2)
      by (intro exI [of _ 0] exI [of _ w'] exI [of _ "set ps"] exI [of _ "drop k ps"]) simp
  qed
qed

section \<open>Every event\<close>

definition doc_stack :: "'x pbuf_api \<Rightarrow> 'x tcp_api \<Rightarrow> bool" where
  "doc_stack P T \<longleftrightarrow> doc_char_send P T \<and> doc_close P T \<and> doc_accept P T"

lemma doc_stackD:
  assumes "doc_stack P T"
  shows "doc_char_send P T" "doc_close P T" "doc_accept P T" "doc_send P T" "doc_tcp_setters T"
  using assms by (auto simp: doc_stack_def doc_char_send_def doc_accept_def)

text \<open>
  What an event does to the streams. A connection that an event opens starts with what its control block has enqueued. Received data
  is handed over: the receive callback of the connection's callback structure is called once, with the chain that arrived, and
  whatever else becomes of the connection is that call's doing. A close by the peer removes the connection, and with it what is pending on it.
  Acknowledgements and poll timers keep every connection and every stream. A reset that returns meets no connection. An application
  write appends its bytes exactly if it returns 0. The streams of all other connections are kept.
\<close>

definition on_pcb :: "'x world \<Rightarrow> addr \<Rightarrow> addr set" where
  "on_pcb w p = {es. \<exists>e. ess w es = Some e \<and> es_pcb e = p}"

definition handed_over :: "'x callbacks \<Rightarrow> addr \<Rightarrow> (addr \<times> pbuf) list \<Rightarrow> 'x world \<Rightarrow> 'x world \<Rightarrow> addr \<Rightarrow> bool" where
  "handed_over C p ps w w' es \<longleftrightarrow> (\<exists>e cb f. ess w es = Some e \<and> C (es_callback e) = Some cb \<and> cb_tcp_recv cb = Some f \<and>
     f (cb_state cb) p (head_ptr (map fst ps)) es
       (w\<lparr>pbufs := pbufs w ++ map_of ps, ess := (ess w)(es \<mapsto> e\<lparr>es_state := ES_RECEIVED\<rparr>)\<rparr>) = Some (Ok (ERR_OK, w')))"

definition written ::
  "'x pbuf_api \<Rightarrow> 'x tcp_api \<Rightarrow> addr \<Rightarrow> u8 list \<Rightarrow> 'x world \<Rightarrow> 'x world \<Rightarrow> bool" where
  "written P T es buf w w' \<longleftrightarrow> (\<exists>e r. ess w es = Some e \<and>
     cs_tcp_char_send P T (es_pcb e) es buf (int (length buf)) w = Some (Ok (r, w')) \<and>
     conn_stream w' es = conn_stream w es @ (if r = 0 then take (length buf mod 65536) buf else []))"

fun stream_step ::
  "'x pbuf_api \<Rightarrow> 'x tcp_api \<Rightarrow> 'x callbacks \<Rightarrow> tcp_event \<Rightarrow> 'x world \<Rightarrow> 'x world \<Rightarrow> bool" where
  "stream_step P T C (EvAccept p c) w w' \<longleftrightarrow> streams_kept w w' {} \<and> dom (ess w) \<subseteq> dom (ess w') \<and>
     (\<forall>es \<in> dom (ess w') - dom (ess w). conn_stream w' es = t_enqueued c)"
| "stream_step P T C (EvData p ps) w w' \<longleftrightarrow> streams_kept w w' (on_pcb w p) \<and> dom (ess w') = dom (ess w) \<and>
     (\<forall>es \<in> on_pcb w p. handed_over C p ps w w' es)"
| "stream_step P T C (EvFin p) w w' \<longleftrightarrow> streams_kept w w' {} \<and> dom (ess w') = dom (ess w) - on_pcb w p"
| "stream_step P T C (EvReset p err) w w' \<longleftrightarrow> streams_kept w w' {} \<and> ess w' = ess w \<and> on_pcb w p = {}"
| "stream_step P T C (EvWrite es buf) w w' \<longleftrightarrow> streams_kept w w' {es} \<and> dom (ess w') = dom (ess w) \<and> written P T es buf w w'"
| "stream_step P T C ev w w' \<longleftrightarrow> streams_kept w w' {} \<and> dom (ess w') = dom (ess w)"

text \<open>A control block without the callbacks of \<open>tcp.c\<close> is that of no connection.\<close>

lemma on_pcb_none:
  assumes "tcp_inv_at ca w ch" and "tpcbs w p = Some c" and "t_recv c \<noteq> fn_cs_tcp_raw_recv"
  shows "on_pcb w p = {}"
  using tcp_inv_atD(1) [OF assms(1)] assms(2,3) by (fastforce simp: on_pcb_def conn_at_def slots_def es_slots_def)

lemma on_pcb_one:
  assumes "tcp_inv_at ca w ch" and "ess w es = Some e"
  shows "on_pcb w (es_pcb e) = {es}"
  using inv_pcb_inj [OF assms(1) _ assms(2)] assms(2) by (auto simp: on_pcb_def)

text \<open>Data of a control block other than what it has enqueued does not matter to the streams.\<close>

lemma conn_stream_pcb:
  "t_enqueued c' = t_enqueued c \<Longrightarrow> tpcbs w p = Some c \<Longrightarrow>
   conn_stream (w\<lparr>tpcbs := (tpcbs w)(p \<mapsto> c')\<rparr>) = conn_stream w"
  by (auto simp: conn_stream_def stream_def enqueued_def fun_eq_iff split: option.split)

text \<open>A registered callback leads to the connection it was registered for.\<close>

lemma hooked:
  assumes inv: "tcp_inv_at ca w ch" and c: "tpcbs w p = Some c" "\<not> idle_slots c"
  obtains es e where "t_callback_arg c = es" and "ess w es = Some e" and "es_pcb e = p" and "p \<noteq> NULL"
    and "conn_at ca w es e (ch es)" and "conn w p es (ch es)" and "slots c = es_slots es"
proof -
  from tcp_inv_atD(3) [OF inv c(1)] c(2) obtain es e where
    *: "slots c = es_slots es" "ess w es = Some e" "es_pcb e = p" "p \<noteq> NULL"
    unfolding pcb_at_def by blast
  moreover from * have "t_callback_arg c = es" by (simp add: slots_def es_slots_def)
  moreover have "conn_at ca w es e (ch es)" using tcp_inv_atD(1) [OF inv *(2)] .
  moreover from conn_at_conn [OF this *(2)] *(3) have "conn w p es (ch es)" by simp
  ultimately show ?thesis using that by blast
qed

lemma inv_pcb_data:
  assumes inv: "tcp_inv_at ca w ch" and c: "tpcbs w p = Some c" and "slots c' = slots c"
  shows "tcp_inv_at ca (w\<lparr>tpcbs := (tpcbs w)(p \<mapsto> c')\<rparr>) ch" (is "tcp_inv_at ca ?w ch")
proof -
  have eq: "map_option slots (tpcbs ?w k) = map_option slots (tpcbs w k)" for k
    using assms by simp
  have pc: "pcb_at ?w k x = pcb_at w k x" for k x by (simp add: pcb_at_def)
  have "pcb_at ?w k x" if "tpcbs ?w k = Some x" for k x
  proof (cases "k = p")
    case True
    with that have "x = c'" by simp
    with tcp_inv_atD(3) [OF inv c] True assms(3) idle_slots_cong [OF assms(3)] show ?thesis
      by (simp add: pcb_at_def)
  next
    case False
    with that tcp_inv_atD(3) [OF inv] pc show ?thesis by simp
  qed
  moreover have "conn_at ca ?w k x qs = conn_at ca w k x qs" for k x qs
    by (simp only: conn_at_def eq) simp
  ultimately show ?thesis using inv unfolding tcp_inv_at_def by simp
qed

context cs_recv_app
begin

lemmas cb_at = at

lemma event_accept:
  assumes doc: "doc_stack P T" and inv: "tcp_inv_at ca w ch"
    and p: "p \<noteq> NULL" "tpcbs w p = None"
  shows "\<exists>w'. tcp_event_run P T C ca (EvAccept p c) w = Some (Ok ((), w')) \<and> tcp_inv ca w' \<and>
     stream_step P T C (EvAccept p c) w w'"
proof -
  let ?w = "w\<lparr>tpcbs := (tpcbs w)(p \<mapsto> c)\<rparr>"
  from accept_run [OF doc_stackD(3) [OF doc] p(1), of ?w c] consider
    "cs_tcp_raw_accept P T C ca p ERR_OK ?w =
       Some (Ok (ERR_MEM, ?w\<lparr>tpcbs := (tpcbs ?w)(p \<mapsto> c\<lparr>t_prio := TCP_PRIO_MIN\<rparr>)\<rparr>))" |
    es e a where "es \<noteq> NULL" "ess w es = None" "cs_tcp_raw_accept P T C ca p ERR_OK ?w =
       Some (Ok (ERR_OK, w\<lparr>ess := (ess w)(es \<mapsto> fresh_es e p ca),
         tpcbs := (tpcbs w)(p \<mapsto> attach es c), app := a\<rparr>))"
    by auto
  then show ?thesis
  proof cases
    case 1
    moreover from p have "(tpcbs w)(p := None) = tpcbs w" by (simp add: fun_upd_idem)
    ultimately show ?thesis using inv by (auto simp: put_pcb_def run_simps tcp_inv_def)
  next
    case 2
    let ?w' = "w\<lparr>ess := (ess w)(es \<mapsto> fresh_es e p ca), tpcbs := (tpcbs w)(p \<mapsto> attach es c), app := a\<rparr>"
    have "es_pcb x \<noteq> p" if "ess w k = Some x" for k x
      using tcp_inv_atD(1) [OF inv that] p by (auto simp: conn_at_def)
    then have "stream_step P T C (EvAccept p c) w ?w'" using 2(2)
      by (fastforce simp: streams_kept_def conn_stream_def stream_def enqueued_def attach_def fresh_es_def)
    with inv_add [OF inv 2(1,2) p, where e = e and c = c and a = a] 2 show ?thesis
      by (simp add: put_pcb_def run_simps del: stream_step.simps)
  qed
qed

lemma event_data:
  assumes inv: "tcp_inv_at ca w ch" and c: "tpcbs w p = Some c" and p: "p \<noteq> NULL" and ne: "ps \<noteq> []"
    and new: "list_all (\<lambda>(q, b). pbufs w q = None) ps"
    and ps: "sole_chain (pbufs w ++ map_of ps) (head_ptr (map fst ps)) (map fst ps)"
  shows "\<exists>w'. tcp_event_run P T C ca (EvData p ps) w = Some (Ok ((), w')) \<and> tcp_inv ca w' \<and>
     stream_step P T C (EvData p ps) w w'"
proof (cases "t_recv c = fn_cs_tcp_raw_recv")
  case False
  with c p inv on_pcb_none [OF inv c] show ?thesis by (auto simp: run_simps tcp_inv_def)
next
  case True
  then have "\<not> idle_slots c" by (simp add: idle_slots_def)
  with inv c obtain es e where arg: "t_callback_arg c = es" and e: "ess w es = Some e" and ep: "es_pcb e = p"
    and at: "conn_at ca w es e (ch es)" and conn: "conn w p es (ch es)"
    by (auto elim: hooked)
  let ?h = "pbufs w ++ map_of ps"
  let ?w = "w\<lparr>pbufs := ?h\<rparr>"
  let ?q = "head_ptr (map fst ps)"
  from new have fresh: "q \<in> set (map fst ps) \<Longrightarrow> pbufs w q = None" for q
    by (auto simp: list_all_iff)
  have out: "?h q = pbufs w q" if "q \<notin> set (map fst ps)" for q
    using that by (simp add: map_add_def map_of_eq_None_iff [THEN iffD2])
  have sep: "set (map fst ps) \<inter> set (ch es) = {}"
    using inv_chain_alloc [OF inv] e fresh by blast
  then have "sole_chain ?h (es_p e) (ch es) = sole_chain (pbufs w) (es_p e) (ch es)"
    using out by (intro sole_chain_cong) blast
  with conn e have conn': "conn ?w p es (ch es)" by (simp add: conn_def)
  from ps ne have q: "?q \<noteq> NULL" by (cases ps) (auto simp: sole_chain_Cons)
  from at have cb: "es_callback e = ca" and st: "es_state e \<in> {ES_ACCEPTED, ES_RECEIVED}"
    by (auto simp: conn_at_def)
  have e': "ess ?w es = Some e" and ps': "sole_chain (pbufs ?w) ?q (map fst ps)"
    using e ps by simp_all
  from recv_run [OF conn' e' cb st q ps' sep, of P T] obtain w' qs' where
    run: "cs_tcp_raw_recv P T C es p ?q ERR_OK ?w = Some (Ok (ERR_OK, w'))" and
    lc: "local_change ?w w' es ES_RECEIVED (set (ch es) \<union> set (map fst ps)) qs'" and
    ss: "same_streams w w' (es_pcb e)"
    unfolding ep by auto
  from lc have "local_change w w' es ES_RECEIVED (set (ch es) \<union> set (map fst ps)) qs'"
    by (rule local_change_fresh) (use out in blast)
  from inv_local_new [OF inv this _ fresh e ss] have "tcp_inv ca w'" and dom: "dom (ess w') = dom (ess w)"
    and kept: "streams_kept w w' {es}" by auto
  moreover from recv_cb obtain f where f: "cb_tcp_recv cb = Some f" by blast
  have "es \<noteq> NULL" using at by (simp add: conn_at_def)
  from raw_recv_open [of es ?w e ca C cb ?q f P T p] this e' cb cb_at st q f run have
    "f (cb_state cb) p ?q es (?w\<lparr>ess := (ess ?w)(es \<mapsto> e\<lparr>es_state := ES_RECEIVED\<rparr>)\<rparr>) = Some (Ok (ERR_OK, w'))" by simp
  then have "handed_over C p ps w w' es" using cb cb_at(2) f e by (simp add: handed_over_def)
  with kept dom on_pcb_one [OF inv e] ep have "stream_step P T C (EvData p ps) w w'" by simp
  ultimately show ?thesis using run c p True arg by (auto simp: run_simps simp del: stream_step.simps)
qed

lemma event_fin:
  assumes doc: "doc_stack P T" and inv: "tcp_inv_at ca w ch" and c: "tpcbs w p = Some c" and p: "p \<noteq> NULL"
  shows "\<exists>w'. tcp_event_run P T C ca (EvFin p) w = Some (Ok ((), w')) \<and> tcp_inv ca w' \<and>
     stream_step P T C (EvFin p) w w'"
proof (cases "t_recv c = fn_cs_tcp_raw_recv")
  case False
  with c p inv on_pcb_none [OF inv c] show ?thesis by (auto simp: run_simps tcp_inv_def)
next
  case True
  then have "\<not> idle_slots c" by (simp add: idle_slots_def)
  with inv c obtain es e where arg: "t_callback_arg c = es" and e: "ess w es = Some e" "es_pcb e = p"
    and at: "conn_at ca w es e (ch es)" and conn: "conn w p es (ch es)"
    by (auto elim: hooked)
  from at have "es_callback e = ca" by (simp add: conn_at_def)
  from fin_run [OF doc_stackD(2) [OF doc] conn e(1) this c, of ERR_OK] obtain w' where
    run: "cs_tcp_raw_recv P T C es p NULL ERR_OK w = Some (Ok (ERR_OK, w'))" and
    w': "ess w' = (ess w)(es := None)" "pbufs w' = pbufs w |` (- set (ch es))"
    "tpcbs w' = (tpcbs w)(p := None) \<or> tpcbs w' = (tpcbs w)(p \<mapsto> detach c)"
    by blast
  then have inv': "tcp_inv_at ca w' ch" using inv_remove [OF inv e(1)] e(2) by blast
  have "conn_stream w' k = conn_stream w k" if k: "k \<noteq> es" "ess w k = Some x" for k x
  proof (rule stream_frame [OF inv inv' k(2)])
    show "pbufs w' q = pbufs w q" if "q \<in> set (ch k)" for q
      using that tcp_inv_atD(2) [OF inv, of es k] e(1) k w'(2) by (auto simp: restrict_map_def)
    show "enqueued w' (es_pcb x) = enqueued w (es_pcb x)"
      using inv_pcb_inj [OF inv k(2) e(1) k(1)] w'(3) e(2) by (auto simp: enqueued_def)
  qed (use k w'(1) in simp_all)
  then have "streams_kept w w' {}" using w'(1) by (auto simp: streams_kept_def)
  then have "stream_step P T C (EvFin p) w w'" using w'(1) on_pcb_one [OF inv e(1)] e(2) by simp
  moreover have "tcp_inv ca w'" using inv' unfolding tcp_inv_def by blast
  ultimately show ?thesis using run c p True arg by (auto simp: run_simps simp del: stream_step.simps)
qed

lemma event_sent:
  assumes doc: "doc_stack P T" and inv: "tcp_inv_at ca w ch" and c: "tpcbs w p = Some c" and p: "p \<noteq> NULL"
  shows "\<exists>w'. tcp_event_run P T C ca (EvSent p n) w = Some (Ok ((), w')) \<and> tcp_inv ca w' \<and>
     stream_step P T C (EvSent p n) w w'"
proof -
  let ?c = "c\<lparr>t_snd_buf := t_snd_buf c + n\<rparr>"
  let ?w = "w\<lparr>tpcbs := (tpcbs w)(p \<mapsto> ?c)\<rparr>"
  have inv': "tcp_inv_at ca ?w ch" by (rule inv_pcb_data [OF inv c]) (simp add: slots_def)
  have str: "conn_stream ?w = conn_stream w" by (rule conn_stream_pcb [OF _ c]) simp
  show ?thesis
  proof (cases "t_sent c = fn_cs_tcp_send")
    case False
    with c p inv' str show ?thesis by (auto simp: run_simps put_pcb_def tcp_inv_def streams_kept_def)
  next
    case True
    then have "\<not> idle_slots ?c" by (simp add: idle_slots_def)
    moreover have c': "tpcbs ?w p = Some ?c" by simp
    ultimately obtain es e where arg: "t_callback_arg ?c = es" and e: "ess ?w es = Some e" "es_pcb e = p"
      and at: "conn_at ca ?w es e (ch es)" and conn: "conn ?w p es (ch es)"
      using inv' by (auto elim: hooked)
    from at have "es_callback e = ca" and st: "es_state e \<in> {ES_ACCEPTED, ES_RECEIVED}"
      by (auto simp: conn_at_def)
    moreover from st have "es_state e \<noteq> ES_CLOSING" by auto
    ultimately obtain w' k where run: "cs_tcp_send P T C es p n ?w = Some (Ok (ERR_OK, w'))" and
      lc: "local_change ?w w' es (es_state e) (set (ch es)) (drop k (ch es))" and
      keep: "stream w' p (drop k (ch es)) = stream ?w p (ch es)" "same_streams ?w w' p"
      using sent_run [OF doc_stackD(4,5) [OF doc] conn e(1) _ _ c', of n] True by auto
    from inv_local_own [OF inv' lc st e(1)] keep e(2) have "tcp_inv ca w'" "dom (ess w') = dom (ess ?w)"
      "streams_kept ?w w' {es}" "conn_stream w' es = stream w' p (drop k (ch es))" by auto
    moreover from this(4) keep(1) conn_stream_inv [OF inv' e(1)] e(2) have "conn_stream w' es = conn_stream ?w es" by simp
    ultimately have "streams_kept ?w w' {}" using streams_kept_one [of ?w w' es "{}"] by blast
    then have "streams_kept w w' {}" using str by (simp add: streams_kept_def)
    with \<open>tcp_inv ca w'\<close> \<open>dom (ess w') = dom (ess ?w)\<close> have "tcp_inv ca w' \<and> stream_step P T C (EvSent p n) w w'" by simp
    with run c p True arg show ?thesis by (auto simp: run_simps put_pcb_def simp del: stream_step.simps)
  qed
qed

lemma event_poll:
  assumes doc: "doc_stack P T" and inv: "tcp_inv_at ca w ch" and c: "tpcbs w p = Some c" and p: "p \<noteq> NULL"
  shows "\<exists>w'. tcp_event_run P T C ca (EvPoll p) w = Some (Ok ((), w')) \<and> tcp_inv ca w' \<and>
     stream_step P T C (EvPoll p) w w'"
proof (cases "t_poll c = fn_cs_tcp_raw_poll")
  case False
  with c p inv show ?thesis by (auto simp: run_simps tcp_inv_def)
next
  case True
  then have "\<not> idle_slots c" by (simp add: idle_slots_def)
  with inv c obtain es e where arg: "t_callback_arg c = es" and e: "ess w es = Some e" "es_pcb e = p"
    and at: "conn_at ca w es e (ch es)" and conn: "conn w p es (ch es)"
    by (auto elim: hooked)
  from at have st: "es_state e \<in> {ES_ACCEPTED, ES_RECEIVED}" by (simp add: conn_at_def)
  then have "es_state e \<noteq> ES_CLOSING" by auto
  from poll_run [OF doc_stackD(4) [OF doc] conn e(1) this] obtain w' k where
    run: "cs_tcp_raw_poll P T C es p w = Some (Ok (ERR_OK, w'))" and
    lc: "local_change w w' es (es_state e) (set (ch es)) (drop k (ch es))" and
    keep: "stream w' p (drop k (ch es)) = stream w p (ch es)" "same_streams w w' p" by blast
  from inv_local_own [OF inv lc st e(1)] keep e(2) have "tcp_inv ca w'" "dom (ess w') = dom (ess w)"
    "streams_kept w w' {es}" "conn_stream w' es = stream w' p (drop k (ch es))" by auto
  moreover from this(4) keep(1) conn_stream_inv [OF inv e(1)] e(2) have "conn_stream w' es = conn_stream w es" by simp
  ultimately have "tcp_inv ca w' \<and> stream_step P T C (EvPoll p) w w'"
    using streams_kept_one [of w w' es "{}"] by auto
  with run c p True arg show ?thesis by (auto simp: run_simps simp del: stream_step.simps)
qed

lemma event_write:
  assumes doc: "doc_stack P T" and inv: "tcp_inv_at ca w ch" and e: "ess w es = Some e"
  shows "\<exists>w'. tcp_event_run P T C ca (EvWrite es buf) w = Some (Ok ((), w')) \<and> tcp_inv ca w' \<and>
     stream_step P T C (EvWrite es buf) w w'"
proof -
  from tcp_inv_atD(1) [OF inv e] have at: "conn_at ca w es e (ch es)" .
  then have st: "es_state e \<in> {ES_ACCEPTED, ES_RECEIVED}" and es: "es \<noteq> NULL"
    by (auto simp: conn_at_def)
  from char_send_local [OF doc_stackD(1) [OF doc] conn_at_conn [OF at e] e, of "int (length buf)" buf]
  obtain r w' fresh rs where
    run: "cs_tcp_char_send P T (es_pcb e) es buf (int (length buf)) w = Some (Ok (r, w'))" and
    new: "\<forall>q \<in> fresh. pbufs w q = None" and
    lc: "local_change w w' es (es_state e) (set (ch es) \<union> fresh) rs" and
    app: "stream w' (es_pcb e) rs = stream w (es_pcb e) (ch es) @ (if r = 0 then take (length buf mod 65536) buf else [])" and
    ss: "same_streams w w' (es_pcb e)"
    by (auto simp: nat_mod_as_int)
  from inv_local_new [OF inv lc st _ e ss] new have "tcp_inv ca w'" and dom: "dom (ess w') = dom (ess w)"
    and kept: "streams_kept w w' {es}" and "conn_stream w' es = stream w' (es_pcb e) rs" by auto
  moreover from this(4) app conn_stream_inv [OF inv e] have
    "conn_stream w' es = conn_stream w es @ (if r = 0 then take (length buf mod 65536) buf else [])" by simp
  moreover from this e run have "written P T es buf w w'" unfolding written_def by blast
  ultimately have "tcp_inv ca w' \<and> stream_step P T C (EvWrite es buf) w w'" by simp
  with run e es show ?thesis by (auto simp: run_simps simp del: stream_step.simps)
qed

lemma event_ok:
  assumes doc: "doc_stack P T" and "tcp_inv ca w" and en: "tcp_enabled ev w" and nr: "\<not> is_reset ev"
  shows "\<exists>w'. tcp_event_run P T C ca ev w = Some (Ok ((), w')) \<and> tcp_inv ca w' \<and> stream_step P T C ev w w'"
proof -
  from \<open>tcp_inv ca w\<close> obtain ch where inv: "tcp_inv_at ca w ch" unfolding tcp_inv_def by blast
  have nn: "p \<noteq> NULL" if "tpcbs w p = Some c" for p c
    using tcp_inv_atD(3) [OF inv that] by (simp add: pcb_at_def)
  show ?thesis
  proof (cases ev)
    case (EvAccept p c)
    then show ?thesis using en event_accept [OF doc inv, of p c] by simp
  next
    case (EvData p ps)
    with en obtain c where c: "tpcbs w p = Some c" by auto
    from event_data [OF inv c nn [OF c], where ps = ps] EvData en show ?thesis by simp
  next
    case (EvFin p)
    with en obtain c where "tpcbs w p = Some c" by auto
    with event_fin [OF doc inv _ nn] EvFin show ?thesis by blast
  next
    case (EvSent p n)
    with en obtain c where "tpcbs w p = Some c" by auto
    with event_sent [OF doc inv _ nn] EvSent show ?thesis by blast
  next
    case (EvPoll p)
    with en obtain c where "tpcbs w p = Some c" by auto
    with event_poll [OF doc inv _ nn] EvPoll show ?thesis by blast
  next
    case (EvReset p err)
    with nr show ?thesis by (simp add: is_reset_def)
  next
    case (EvWrite es buf)
    with en obtain e where "ess w es = Some e" by auto
    with event_write [OF doc inv] EvWrite show ?thesis by blast
  qed
qed

text \<open>A reset: on a connection the error handler faults, otherwise nothing happens.\<close>

lemma event_reset:
  assumes doc: "doc_stack P T" and inv: "tcp_inv_at ca w ch" and c: "tpcbs w p = Some c" "\<not> idle_slots c"
  shows "tcp_event_run P T C ca (EvReset p err) w = Some (Fault UseAfterFree)"
proof -
  from inv c obtain es e where arg: "t_callback_arg c = es" and e: "ess w es = Some e" "es_pcb e = p"
    "p \<noteq> NULL" and at: "conn_at ca w es e (ch es)" and sl: "slots c = es_slots es"
    by (rule hooked)
  from at have es: "es \<noteq> NULL" by (simp add: conn_at_def)
  have "tcp_arg T p NULL (w\<lparr>tpcbs := (tpcbs w)(p := None)\<rparr>) = Some (Fault UseAfterFree)"
    by (rule tcp_arg_freed) (use doc_stackD(5) [OF doc] e in simp_all)
  moreover from sl have "t_errf c = fn_cs_tcp_raw_error" by (simp add: slots_def es_slots_def)
  ultimately show ?thesis using c e es arg
    by (simp add: run_simps put_pcb_def cs_tcp_raw_error_def cs_tcp_raw_close_def)
qed

end

lemma inv_init: "tcp_init_world w \<Longrightarrow> tcp_inv ca w"
  unfolding tcp_inv_def
  by (intro exI [of _ "\<lambda>_. []"] tcp_inv_atI) (auto simp: tcp_init_world_def pcb_at_def)

lemma inv_drop_idle:
  assumes inv: "tcp_inv_at ca w ch" and c: "tpcbs w p = Some c" "idle_slots c"
  shows "tcp_inv ca (w\<lparr>tpcbs := (tpcbs w)(p := None)\<rparr>)" (is "tcp_inv ca ?w")
    and "streams_kept w (w\<lparr>tpcbs := (tpcbs w)(p := None)\<rparr>) {}"
proof -
  have ne: "es_pcb e \<noteq> p" if "ess w es = Some e" for es e
    using tcp_inv_atD(1) [OF inv that] c
    by (auto simp: conn_at_def slots_def es_slots_def idle_slots_def)
  have "conn_at ca ?w es e (ch es)" if "ess w es = Some e" for es e
    using tcp_inv_atD(1) [OF inv that] ne [OF that] by (simp add: conn_at_def)
  moreover have "pcb_at ?w k x" if "tpcbs ?w k = Some x" for k x
  proof -
    from that have "tpcbs w k = Some x" by (auto split: if_splits)
    from tcp_inv_atD(3) [OF inv this] show ?thesis by (simp add: pcb_at_def)
  qed
  ultimately have "tcp_inv_at ca ?w ch"
    using tcp_inv_atD(2,4) [OF inv] by (intro tcp_inv_atI) auto
  then show "tcp_inv ca ?w" unfolding tcp_inv_def by blast
  show "streams_kept w ?w {}" using ne
    by (auto simp: streams_kept_def conn_stream_def stream_def enqueued_def)
qed

lemma idle_errf: "idle_slots c \<Longrightarrow> t_errf c \<noteq> fn_cs_tcp_raw_error"
  by (simp add: idle_slots_def)

context cs_recv_app
begin

lemma reset_inv:
  assumes doc: "doc_stack P T" and inv: "tcp_inv ca w"
    and run: "tcp_event_run P T C ca (EvReset p err) w = Some (Ok ((), w'))"
  shows "tcp_inv ca w'" and "stream_step P T C (EvReset p err) w w'"
proof -
  from inv obtain ch where at: "tcp_inv_at ca w ch" unfolding tcp_inv_def by blast
  from run obtain c where p: "p \<noteq> NULL" and c: "tpcbs w p = Some c"
    by (auto simp: run_simps split: if_splits option.splits)
  from event_reset [OF doc at c, of err] run have idle: "idle_slots c"
    by (cases "idle_slots c") (simp_all del: tcp_event_run.simps)
  with run p c idle_errf [OF idle] have "w' = w\<lparr>tpcbs := (tpcbs w)(p := None)\<rparr>"
    by (simp add: run_simps put_pcb_def)
  with inv_drop_idle [OF at c idle] on_pcb_none [OF at c] idle show "tcp_inv ca w'" "stream_step P T C (EvReset p err) w w'"
    by (simp_all add: idle_slots_def)
qed

text \<open>Every event that returns keeps the invariant and does to the streams what its kind says.\<close>

lemma event_step:
  assumes doc: "doc_stack P T" and inv: "tcp_inv ca w" and en: "tcp_enabled ev w"
    and run: "tcp_event_run P T C ca ev w = Some (Ok ((), w'))"
  shows "tcp_inv ca w'" and "stream_step P T C ev w w'"
proof -
  have "tcp_inv ca w' \<and> stream_step P T C ev w w'"
  proof (cases "is_reset ev")
    case True
    then obtain p err where "ev = EvReset p err" by (cases ev) (auto simp: is_reset_def)
    with reset_inv [OF doc inv] run show ?thesis by blast
  next
    case False
    from event_ok [OF doc inv en False] run show ?thesis by auto
  qed
  then show "tcp_inv ca w'" "stream_step P T C ev w w'" by simp_all
qed

lemma reach_inv:
  assumes doc: "doc_stack P T" and "tcp_reach P T C ca w"
  shows "tcp_inv ca w"
  using assms(2)
proof induction
  case (start w)
  then show ?case by (rule inv_init)
next
  case (event w ev w')
  from event_step(1) [OF doc event.IH event.hyps(2,3)] show ?case .
qed

end

section \<open>Properties of every run\<close>

text \<open>
  C1. No event breaks the bridge. In every state that a run from a freshly initialised stack can
  reach, in any interleaving of accepts, received data, closes by the peer, acknowledgements, poll
  timers and application writes on any number of connections, the handler of every further such
  event returns, without a fault: no null or dangling pointer is followed, no assertion fails, and
  the send loop ends. The application's callbacks keep the contract \<open>cs_recv_app\<close>: they return, and the receive callback takes over the
  chain it is given and changes no connection but its own.
\<close>

theorem tcp_run_never_faults:
  assumes "cs_recv_app C ca cb" and "doc_stack P T" and "tcp_reach P T C ca w"
    and "tcp_enabled ev w" and "\<not> is_reset ev"
  shows "\<exists>w'. tcp_event_run P T C ca ev w = Some (Ok ((), w'))"
  using cs_recv_app.event_ok [OF assms(1,2) cs_recv_app.reach_inv [OF assms(1-3)] assms(4,5)] by blast

text \<open>
  C4. No buffer leaks and none is shared. In every reachable state every allocated buffer is on the
  pending chain of a connection that is still open, and the chains of different connections have no
  buffer in common, so the next acknowledgement, poll or close will send or free it.
\<close>

theorem tcp_run_never_leaks:
  assumes "cs_recv_app C ca cb" and "doc_stack P T" and "tcp_reach P T C ca w"
  shows "\<exists>ch. (\<forall>es e. ess w es = Some e \<longrightarrow> sole_chain (pbufs w) (es_p e) (ch es)) \<and>
     (\<forall>q. pbufs w q \<noteq> None \<longrightarrow> (\<exists>es. ess w es \<noteq> None \<and> q \<in> set (ch es))) \<and>
     (\<forall>es es'. ess w es \<noteq> None \<longrightarrow> ess w es' \<noteq> None \<longrightarrow> es \<noteq> es' \<longrightarrow> set (ch es) \<inter> set (ch es') = {})"
proof -
  from cs_recv_app.reach_inv [OF assms] obtain ch where "tcp_inv_at ca w ch"
    unfolding tcp_inv_def by blast
  then show ?thesis unfolding tcp_inv_at_def conn_at_def by (intro exI [of _ ch]) blast
qed


text \<open>
  C12. Between events a connection is open and wired up. In every reachable state a connection state
  is in \<open>ES_ACCEPTED\<close> or \<open>ES_RECEIVED\<close>, and its control block exists and has the connection as its
  argument and the callbacks of \<open>tcp.c\<close> registered. So the branches of the sent, poll and receive
  callbacks that handle \<open>ES_CLOSING\<close>, and the one that trashes data, are dead code: the state is set
  to \<open>ES_CLOSING\<close> only in the handler that frees the connection before it returns.
\<close>

theorem tcp_run_connections_wired:
  assumes "cs_recv_app C ca cb" and "doc_stack P T" and "tcp_reach P T C ca w" and "ess w es = Some e"
  shows "es_state e \<in> {ES_ACCEPTED, ES_RECEIVED} \<and>
     (\<exists>c. tpcbs w (es_pcb e) = Some c \<and> t_callback_arg c = es \<and> t_recv c = fn_cs_tcp_raw_recv \<and>
        t_sent c = fn_cs_tcp_send \<and> t_poll c = fn_cs_tcp_raw_poll \<and> t_errf c = fn_cs_tcp_raw_error)"
proof -
  from cs_recv_app.reach_inv [OF assms(1-3)] obtain ch where "tcp_inv_at ca w ch"
    unfolding tcp_inv_def by blast
  from tcp_inv_atD(1) [OF this assms(4)] have "conn_at ca w es e (ch es)" .
  then show ?thesis by (auto simp: conn_at_def slots_def es_slots_def)
qed

text \<open>
  C13. Every reset is a use after free. In whatever reachable state the peer resets an open
  connection, the error handler runs into the control block lwIP has just freed.
\<close>

theorem tcp_run_reset_faults:
  assumes "cs_recv_app C ca cb" and "doc_stack P T" and "tcp_reach P T C ca w" and "ess w es = Some e"
  shows "tcp_event_run P T C ca (EvReset (es_pcb e) err) w = Some (Fault UseAfterFree)"
proof -
  from cs_recv_app.reach_inv [OF assms(1-3)] obtain ch where at: "tcp_inv_at ca w ch"
    unfolding tcp_inv_def by blast
  from tcp_inv_atD(1) [OF this assms(4)] obtain c where "tpcbs w (es_pcb e) = Some c" "\<not> idle_slots c"
    by (auto simp: conn_at_def slots_def es_slots_def idle_slots_def)
  with cs_recv_app.event_reset [OF assms(1,2) at] show ?thesis by blast
qed

end
