(* ===== verification/Cs_Udp.thy ===== *)
theory Cs_Udp
  imports Lwip_Ref
begin

text \<open>
  The UDP side of the bridge, \<open>src/udp.c\<close>: the choice of the outgoing interface, sending with a
  borrowed source address, the receive callback and the set-up of the socket. The argument \<open>U\<close> is
  lwIP's UDP and routing interface.
\<close>

section \<open>The functions of udp.c\<close>

text \<open>\<open>IP_IS_V4\<close> on an existing address.\<close>

definition ip_is_v4 :: "ip_addr_t \<Rightarrow> bool" where
  "ip_is_v4 a \<longleftrightarrow> ip_type a = IPADDR_TYPE_V4"

definition cs_get_current_netif ::
  "'x udp_api \<Rightarrow> addr \<Rightarrow> ip_addr_t \<Rightarrow> u16 \<Rightarrow> ('x world, addr) prog" where
  "cs_get_current_netif U pcb dst_ip dst_port =
     bnd (deref upcbs pcb) (\<lambda>c.
     if u_netif_idx c \<noteq> NETIF_NO_INDEX then netif_get_by_index U (u_netif_idx c)
     else
       bnd (if ip_addr_ismulticast U dst_ip then
              if u_mcast_ifindex c \<noteq> NETIF_NO_INDEX then netif_get_by_index U (u_mcast_ifindex c)
              else if ip_is_v4 dst_ip then
                if u_mcast_ip4 c \<noteq> 0 \<and> u_mcast_ip4 c \<noteq> 0xffffffff
                then ip4_route_src U (ip_w0 (u_local_ip c)) (u_mcast_ip4 c)
                else ret NULL
              else ret NULL
            else ret NULL) (\<lambda>netif.
       if netif = NULL then ip_route U (u_local_ip c) dst_ip
       else ret netif))"

definition cs_udp_sendto ::
  "'x udp_api \<Rightarrow> addr \<Rightarrow> addr \<Rightarrow> ip_addr_t \<Rightarrow> u16 \<Rightarrow> ('x world, err_t) prog" where
  "cs_udp_sendto U upcb p ipaddr port =
     bnd (cs_get_current_netif U upcb ipaddr port) (\<lambda>netif.
     bnd (deref upcbs upcb) (\<lambda>c.
     udp_sendto_if_src U upcb p ipaddr port netif (u_local_ip c)))"

definition update_upcb :: "addr \<Rightarrow> (udp_pcb \<Rightarrow> udp_pcb) \<Rightarrow> ('x world, unit) prog" where
  "update_upcb p f = bnd (deref upcbs p) (\<lambda>c. modify (\<lambda>w. w\<lparr>upcbs := (upcbs w)(p \<mapsto> f c)\<rparr>))"

text \<open>\<open>buf_len\<close> is a C \<open>int\<close>, converted to \<open>u16_t\<close> where it is passed to lwIP.\<close>

definition cs_udp_char_sendto ::
  "'x pbuf_api \<Rightarrow> 'x udp_api \<Rightarrow> addr \<Rightarrow> ip_addr_t \<Rightarrow> u16 \<Rightarrow> ip_addr_t \<Rightarrow> u16 \<Rightarrow> u8 list \<Rightarrow> int \<Rightarrow>
   ('x world, int) prog" where
  "cs_udp_char_sendto P U upcb laddr lport raddr rport buf buf_len =
     bnd (pbuf_alloc P PBUF_RAW (word_of_int buf_len) PBUF_POOL) (\<lambda>p.
     if p = NULL then ret 1
     else
       seq (ignore (pbuf_take P p buf (word_of_int buf_len)))
      (bnd (deref upcbs upcb) (\<lambda>c.
       let old_addr = u_local_ip c; old_port = u_local_port c in
       seq (block
        [update_upcb upcb (u_local_ip_update (\<lambda>_. laddr)),
         update_upcb upcb (u_local_port_update (\<lambda>_. lport)),
         ignore (cs_udp_sendto U upcb p raddr rport),
         update_upcb upcb (u_local_ip_update (\<lambda>_. old_addr)),
         update_upcb upcb (u_local_port_update (\<lambda>_. old_port)),
         ignore (pbuf_free P p)])
      (ret 0))))"

definition cs_udp_raw_recv ::
  "'x callbacks \<Rightarrow> addr \<Rightarrow> addr \<Rightarrow> addr \<Rightarrow> ip_addr_t \<Rightarrow> u16 \<Rightarrow> ('x world, unit) prog" where
  "cs_udp_raw_recv C arg upcb p ipaddr port =
     whenc (p \<noteq> NULL)
       (bnd (deref_cb C arg) (\<lambda>cb.
        ignore (callp (cb_udp_recv cb) (\<lambda>f. f arg upcb p ipaddr port))))"

definition cs_udp_raw_init :: "'x udp_api \<Rightarrow> addr \<Rightarrow> ('x world, addr) prog" where
  "cs_udp_raw_init U cb_addr =
     bnd (udp_new_ip_type U IPADDR_TYPE_ANY) (\<lambda>npcb.
     if npcb \<noteq> NULL then
       bnd (udp_bind U npcb IP_ANY_TYPE 7) (\<lambda>err.
       if err = ERR_OK then
         seq (udp_recv U npcb fn_cs_udp_raw_recv cb_addr)
        (ret npcb)
       else
         seq (udp_remove U npcb)
        (ret NULL))
     else ret npcb)"

section \<open>Documented behaviour of the UDP interface\<close>

text \<open>Routing only looks things up.\<close>

definition doc_route ::
  "'x udp_api \<Rightarrow> (u8 \<Rightarrow> addr) \<Rightarrow> (ip_addr_t \<Rightarrow> ip_addr_t \<Rightarrow> addr) \<Rightarrow> (u32 \<Rightarrow> u32 \<Rightarrow> addr) \<Rightarrow> bool" where
  "doc_route U g r s \<longleftrightarrow>
     (\<forall>i w. netif_get_by_index U i w = Some (Ok (g i, w))) \<and>
     (\<forall>a d w. ip_route U a d w = Some (Ok (r a d, w))) \<and>
     (\<forall>a m w. ip4_route_src U a m w = Some (Ok (s a m, w)))"

text \<open>
  \<open>udp_sendto_if_src\<close>: sends the chain or reports an error. It may move headers into the chain, and
  does not free it; frames reach the device. Other buffers and the sockets stay as they are.
\<close>

definition doc_udp_send :: "'x udp_api \<Rightarrow> bool" where
  "doc_udp_send U \<longleftrightarrow> (\<forall>u p qs d port n src w.
     upcbs w u \<noteq> None \<and> p \<noteq> NULL \<and> sole_chain (pbufs w) p qs \<longrightarrow>
     (\<exists>e h a. udp_sendto_if_src U u p d port n src w = Some (Ok (e, w\<lparr>pbufs := h, app := a\<rparr>)) \<and>
        sole_chain h p qs \<and> (\<forall>q. q \<notin> set qs \<longrightarrow> h q = pbufs w q)))"

definition doc_udp :: "'x pbuf_api \<Rightarrow> 'x udp_api \<Rightarrow> bool" where
  "doc_udp P U \<longleftrightarrow> doc_pbuf_alloc P \<and> doc_pbuf_take P \<and> doc_pbuf_free P \<and> doc_udp_send U"

section \<open>The outgoing interface\<close>

text \<open>
  The specification: a socket bound to an interface uses that one or none. Otherwise the candidates
  are asked in order, and the first that exists is taken: for a multicast destination the multicast
  interface of the socket, then the regular route.
\<close>

definition mcast_netif ::
  "(u8 \<Rightarrow> addr) \<Rightarrow> (u32 \<Rightarrow> u32 \<Rightarrow> addr) \<Rightarrow> (ip_addr_t \<Rightarrow> bool) \<Rightarrow> udp_pcb \<Rightarrow> ip_addr_t \<Rightarrow> addr list" where
  "mcast_netif g s multi c d =
     (if \<not> multi d then []
      else if u_mcast_ifindex c \<noteq> NETIF_NO_INDEX then [g (u_mcast_ifindex c)]
      else if ip_is_v4 d \<and> u_mcast_ip4 c \<notin> {0, 0xffffffff} then [s (ip_w0 (u_local_ip c)) (u_mcast_ip4 c)]
      else [])"

definition first_netif :: "addr list \<Rightarrow> addr" where
  "first_netif ns = head_ptr (filter (\<lambda>n. n \<noteq> NULL) ns)"

definition udp_netif ::
  "(u8 \<Rightarrow> addr) \<Rightarrow> (ip_addr_t \<Rightarrow> ip_addr_t \<Rightarrow> addr) \<Rightarrow> (u32 \<Rightarrow> u32 \<Rightarrow> addr) \<Rightarrow> (ip_addr_t \<Rightarrow> bool) \<Rightarrow>
   udp_pcb \<Rightarrow> ip_addr_t \<Rightarrow> addr" where
  "udp_netif g r s multi c d =
     (if u_netif_idx c \<noteq> NETIF_NO_INDEX then first_netif [g (u_netif_idx c)]
      else first_netif (mcast_netif g s multi c d @ [r (u_local_ip c) d]))"

lemma get_netif_run:
  assumes "doc_route U g r s" and "upcb \<noteq> NULL" and "upcbs w upcb = Some c"
  shows "cs_get_current_netif U upcb d port w =
     Some (Ok (udp_netif g r s (ip_addr_ismulticast U) c d, w))"
  using assms
  by (simp add: doc_route_def cs_get_current_netif_def run_simps udp_netif_def mcast_netif_def
      first_netif_def)

text \<open>
  C20. \<open>cs_get_current_netif\<close> implements the specification of the outgoing interface and changes
  nothing: a bound socket never falls back to another interface, a stale multicast interface does
  fall back to the regular route.
\<close>

theorem cs_get_current_netif_refines:
  assumes "doc_route U g r s" and "upcb \<noteq> NULL" and "upcbs w upcb = Some c"
  shows "cs_get_current_netif U upcb d port w =
       Some (Ok (udp_netif g r s (ip_addr_ismulticast U) c d, w)) \<and>
     (u_netif_idx c \<noteq> NETIF_NO_INDEX \<longrightarrow>
        cs_get_current_netif U upcb d port w = Some (Ok (g (u_netif_idx c), w))) \<and>
     (u_netif_idx c = NETIF_NO_INDEX \<longrightarrow> u_mcast_ifindex c \<noteq> NETIF_NO_INDEX \<longrightarrow>
        g (u_mcast_ifindex c) = NULL \<longrightarrow>
        cs_get_current_netif U upcb d port w = Some (Ok (r (u_local_ip c) d, w)))"
  using get_netif_run [OF assms] by (simp add: udp_netif_def mcast_netif_def first_netif_def)

text \<open>A UDP interface for the witnesses: one interface, at address 4, and a device that takes all.\<close>

definition ref_udp :: "'x udp_api" where
  "ref_udp = \<lparr>
     udp_new_ip_type = (\<lambda>t w. if upcbs w heap_addr = None
       then Some (Ok (heap_addr, w\<lparr>upcbs := (upcbs w)(heap_addr \<mapsto>
         \<lparr>u_local_ip = IP_ANY_TYPE, u_local_port = 0, u_netif_idx = 0, u_mcast_ifindex = 0,
          u_mcast_ip4 = 0, u_recv = fn_NULL, u_recv_arg = NULL\<rparr>)\<rparr>))
       else Some (Ok (NULL, w))),
     udp_bind = (\<lambda>p ip port w. case upcbs w p of
         None \<Rightarrow> Some (Fault UseAfterFree)
       | Some c \<Rightarrow> Some (Ok (ERR_OK,
           w\<lparr>upcbs := (upcbs w)(p \<mapsto> c\<lparr>u_local_ip := ip, u_local_port := port\<rparr>)\<rparr>))),
     udp_recv = (\<lambda>p f a w. case upcbs w p of
         None \<Rightarrow> Some (Fault UseAfterFree)
       | Some c \<Rightarrow> Some (Ok ((), w\<lparr>upcbs := (upcbs w)(p \<mapsto> c\<lparr>u_recv := f, u_recv_arg := a\<rparr>)\<rparr>))),
     udp_remove = (\<lambda>p w. Some (Ok ((), w\<lparr>upcbs := (upcbs w)(p := None)\<rparr>))),
     udp_sendto_if_src = (\<lambda>u p d port n src w. Some (Ok (ERR_OK, w))),
     netif_get_by_index = (\<lambda>i w. Some (Ok (if i = 1 then 4 else NULL, w))),
     ip_route = (\<lambda>a d w. Some (Ok (4, w))),
     ip4_route_src = (\<lambda>a m w. Some (Ok (4, w))),
     ip_addr_ismulticast = (\<lambda>a. ip_is_v4 a \<and> take_bit 4 (drop_bit 4 (ip_w0 a)) = 0xe)\<rparr>"

lemma ref_udp_route [simp]:
  "doc_route ref_udp (\<lambda>i. if i = 1 then 4 else NULL) (\<lambda>a d. 4) (\<lambda>a m. 4)"
  by (simp add: doc_route_def ref_udp_def)

definition udp_world :: "u8 \<Rightarrow> u8 \<Rightarrow> unit world" where
  "udp_world i m = \<lparr>pbufs = Map.empty, ess = Map.empty, tpcbs = Map.empty,
     upcbs = [6 \<mapsto> \<lparr>u_local_ip = IP_ANY_TYPE, u_local_port = 7, u_netif_idx = i, u_mcast_ifindex = m,
       u_mcast_ip4 = 0, u_recv = fn_cs_udp_raw_recv, u_recv_arg = 9\<rparr>],
     netifs = Map.empty, app = ()\<rparr>"

theorem cs_get_current_netif_refines_witness:
  "cs_get_current_netif ref_udp 6 IP_ANY_TYPE 53 (udp_world 0 2) = Some (Ok (4, udp_world 0 2)) \<and>
   cs_get_current_netif ref_udp 6 IP_ANY_TYPE 53 (udp_world 3 0) = Some (Ok (NULL, udp_world 3 0))"
  using cs_get_current_netif_refines [OF ref_udp_route, of 6 "udp_world 0 2" _ IP_ANY_TYPE 53]
    cs_get_current_netif_refines [OF ref_udp_route, of 6 "udp_world 3 0" _ IP_ANY_TYPE 53]
  by (simp add: udp_world_def udp_netif_def mcast_netif_def first_netif_def)

section \<open>Sending\<close>

text \<open>The socket while it carries the borrowed source address.\<close>

definition borrow :: "ip_addr_t \<Rightarrow> u16 \<Rightarrow> udp_pcb \<Rightarrow> udp_pcb" where
  "borrow laddr lport c = c\<lparr>u_local_ip := laddr, u_local_port := lport\<rparr>"

lemma udp_alloc_take:
  assumes doc: "doc_pbuf_alloc P" "doc_pbuf_take P"
    and len: "0 \<le> buf_len" "buf_len \<le> int (length buf)"
  shows "pbuf_alloc P PBUF_RAW (word_of_int buf_len) PBUF_POOL w = Some (Ok (NULL, w)) \<or>
     (\<exists>p ps h h'. pbuf_alloc P PBUF_RAW (word_of_int buf_len) PBUF_POOL w = Some (Ok (p, w\<lparr>pbufs := h\<rparr>)) \<and>
        p \<noteq> NULL \<and> (\<forall>q \<in> set ps. pbufs w q = None) \<and>
        pbuf_take P p buf (word_of_int buf_len) (w\<lparr>pbufs := h\<rparr>) = Some (Ok (ERR_OK, w\<lparr>pbufs := h'\<rparr>)) \<and>
        sole_chain h' p ps \<and> (\<forall>q. q \<notin> set ps \<longrightarrow> h' q = pbufs w q) \<and>
        chain_bytes h' ps = take (nat (buf_len mod 65536)) buf)"
proof -
  let ?n = "word_of_int buf_len :: u16"
  have n: "unat ?n = nat (buf_len mod 65536)" by (simp add: unat_eq_nat_uint uint_word_of_int)
  with len have fits: "unat ?n \<le> length buf"
    using zmod_le_nonneg_dividend [of buf_len 65536] by linarith
  from doc(1) consider "pbuf_alloc P PBUF_RAW ?n PBUF_POOL w = Some (Ok (NULL, w))" |
    p ps h where "pbuf_alloc P PBUF_RAW ?n PBUF_POOL w = Some (Ok (p, w\<lparr>pbufs := h\<rparr>))"
      "fresh_chain (pbufs w) h p ps (unat ?n)"
    unfolding doc_pbuf_alloc_def by blast
  then show ?thesis
  proof cases
    case 2
    let ?w = "w\<lparr>pbufs := h\<rparr>"
    from 2(2) have p: "p \<noteq> NULL" and ch: "sole_chain (pbufs ?w) p ps"
      and ln: "length (chain_bytes (pbufs ?w) ps) = unat ?n"
      and fr: "\<forall>q \<in> set ps. pbufs w q = None" "\<forall>q. q \<notin> set ps \<longrightarrow> h q = pbufs w q"
      by (auto simp: fresh_chain_def)
    from doc(2) ch p fits ln obtain h' where
      tk: "pbuf_take P p buf ?n ?w = Some (Ok (ERR_OK, ?w\<lparr>pbufs := h'\<rparr>))"
        "sole_chain h' p ps" "\<forall>q. q \<notin> set ps \<longrightarrow> h' q = pbufs ?w q"
        "chain_bytes h' ps = take (unat ?n) buf @ drop (unat ?n) (chain_bytes (pbufs ?w) ps)"
      unfolding doc_pbuf_take_def by (metis order_refl)
    with ln n have "chain_bytes h' ps = take (nat (buf_len mod 65536)) buf" by simp
    with 2(1) p fr tk show ?thesis
      by (intro disjI2 exI [of _ p] exI [of _ ps] exI [of _ h] exI [of _ h']) simp
  qed simp
qed

lemma udp_send_run:
  assumes doc: "doc_udp_send U" "doc_route U g r s" and u: "upcb \<noteq> NULL" "upcbs w upcb = Some c"
    and p: "p \<noteq> NULL" "sole_chain (pbufs w) p qs"
  shows "\<exists>e h a. cs_udp_sendto U upcb p d port w =
       udp_sendto_if_src U upcb p d port (udp_netif g r s (ip_addr_ismulticast U) c d) (u_local_ip c) w \<and>
     cs_udp_sendto U upcb p d port w = Some (Ok (e, w\<lparr>pbufs := h, app := a\<rparr>)) \<and>
     sole_chain h p qs \<and> (\<forall>q. q \<notin> set qs \<longrightarrow> h q = pbufs w q)"
proof -
  have run: "cs_udp_sendto U upcb p d port w =
      udp_sendto_if_src U upcb p d port (udp_netif g r s (ip_addr_ismulticast U) c d) (u_local_ip c) w"
    using u by (simp add: cs_udp_sendto_def run_simps get_netif_run [OF doc(2) u])
  from u have "upcbs w upcb \<noteq> None" by simp
  with doc(1) p obtain e h a where
    "udp_sendto_if_src U upcb p d port (udp_netif g r s (ip_addr_ismulticast U) c d) (u_local_ip c) w =
      Some (Ok (e, w\<lparr>pbufs := h, app := a\<rparr>))" "sole_chain h p qs" "\<forall>q. q \<notin> set qs \<longrightarrow> h q = pbufs w q"
    unfolding doc_udp_send_def by blast
  with run show ?thesis by auto
qed

text \<open>
  C19. \<open>cs_udp_char_sendto\<close>, on both branches. Without memory it returns 1 and changes nothing.
  Otherwise it returns 0 and has made exactly one call of \<open>udp_sendto_if_src\<close>, in a state in which the
  socket carries the given local address and port, with the first \<open>buf_len mod 65536\<close> bytes of the
  buffer, that local address as the source, and the interface of the specification; afterwards the
  socket has its old address and port back, and no buffer has been leaked or touched.
\<close>

theorem cs_udp_char_sendto_cases:
  assumes "doc_udp P U" and "doc_route U g r s" and "upcb \<noteq> NULL" and "upcbs w upcb = Some c"
    and "0 \<le> buf_len" and "buf_len \<le> int (length buf)"
  shows "pbuf_alloc P PBUF_RAW (word_of_int buf_len) PBUF_POOL w = Some (Ok (NULL, w)) \<and>
       cs_udp_char_sendto P U upcb laddr lport raddr rport buf buf_len w = Some (Ok (1, w)) \<or>
     (\<exists>p ps h w1 e h2 a.
        w1 = w\<lparr>pbufs := h, upcbs := (upcbs w)(upcb \<mapsto> borrow laddr lport c)\<rparr> \<and>
        sole_chain h p ps \<and> chain_bytes h ps = take (nat (buf_len mod 65536)) buf \<and>
        udp_sendto_if_src U upcb p raddr rport
          (udp_netif g r s (ip_addr_ismulticast U) (borrow laddr lport c) raddr) laddr w1 =
          Some (Ok (e, w1\<lparr>pbufs := h2, app := a\<rparr>)) \<and>
        cs_udp_char_sendto P U upcb laddr lport raddr rport buf buf_len w =
          Some (Ok (0, w\<lparr>app := a\<rparr>)))"
proof -
  from assms(1) have doc: "doc_pbuf_alloc P" "doc_pbuf_take P" "doc_pbuf_free P" "doc_udp_send U"
    by (auto simp: doc_udp_def)
  from udp_alloc_take [OF doc(1,2) assms(5,6), of w] show ?thesis
  proof (elim disjE exE conjE)
    assume "pbuf_alloc P PBUF_RAW (word_of_int buf_len) PBUF_POOL w = Some (Ok (NULL, w))"
    then show ?thesis by (simp add: cs_udp_char_sendto_def run_simps)
  next
    fix p ps h h'
    assume al: "pbuf_alloc P PBUF_RAW (word_of_int buf_len) PBUF_POOL w = Some (Ok (p, w\<lparr>pbufs := h\<rparr>))"
      and p: "p \<noteq> NULL" and fr: "\<forall>q \<in> set ps. pbufs w q = None"
      and tk: "pbuf_take P p buf (word_of_int buf_len) (w\<lparr>pbufs := h\<rparr>) = Some (Ok (ERR_OK, w\<lparr>pbufs := h'\<rparr>))"
      and ch: "sole_chain h' p ps" and same: "\<forall>q. q \<notin> set ps \<longrightarrow> h' q = pbufs w q"
      and bytes: "chain_bytes h' ps = take (nat (buf_len mod 65536)) buf"
    let ?c = "borrow laddr lport c"
    let ?w1 = "w\<lparr>pbufs := h', upcbs := (upcbs w)(upcb \<mapsto> ?c)\<rparr>"
    have u1: "upcbs ?w1 upcb = Some ?c" and ch1: "sole_chain (pbufs ?w1) p ps" using ch by simp_all
    from udp_send_run [OF doc(4) assms(2,3) u1 p ch1] obtain e h2 a where
      call: "cs_udp_sendto U upcb p raddr rport ?w1 = udp_sendto_if_src U upcb p raddr rport
        (udp_netif g r s (ip_addr_ismulticast U) ?c raddr) (u_local_ip ?c) ?w1" and
      snd: "cs_udp_sendto U upcb p raddr rport ?w1 = Some (Ok (e, ?w1\<lparr>pbufs := h2, app := a\<rparr>))" and
      h2: "sole_chain h2 p ps" "\<forall>q. q \<notin> set ps \<longrightarrow> h2 q = pbufs ?w1 q"
      by blast
    let ?w2 = "w\<lparr>pbufs := h2, app := a\<rparr>"
    from sole_chain_is_chain [OF h2(1)] have "is_chain (pbufs ?w2) p ps" by simp
    with doc(3) p obtain n where
      fre: "pbuf_free P p ?w2 = Some (Ok (n, ?w2\<lparr>pbufs := free_chain ps (pbufs ?w2)\<rparr>))"
      unfolding doc_pbuf_free_def by blast
    have "h2 |` (- set ps) = pbufs w"
      using h2(2) same fr by (auto simp: restrict_map_def fun_eq_iff)
    with free_chain_sole [OF h2(1)] have back_heap: "free_chain ps h2 = pbufs w" by simp
    have back_pcb: "(upcbs w)(upcb \<mapsto> c) = upcbs w" using assms(4) by (simp add: fun_upd_idem)
    have "cs_udp_char_sendto P U upcb laddr lport raddr rport buf buf_len w = Some (Ok (0, w\<lparr>app := a\<rparr>))"
      using al p tk snd fre back_heap back_pcb assms(3,4)
      by (simp add: cs_udp_char_sendto_def update_upcb_def run_simps borrow_def Let_def)
    moreover from call snd have "udp_sendto_if_src U upcb p raddr rport
        (udp_netif g r s (ip_addr_ismulticast U) ?c raddr) laddr ?w1 =
        Some (Ok (e, ?w1\<lparr>pbufs := h2, app := a\<rparr>))"
      by (simp add: borrow_def)
    ultimately show ?thesis using ch bytes
      by (intro disjI2 exI [of _ p] exI [of _ ps] exI [of _ h'] exI [of _ ?w1] exI [of _ e]
          exI [of _ h2] exI [of _ a]) simp
  qed
qed

lemma ref_udp_send [simp]: "doc_udp_send (ref_udp :: 'x udp_api)"
proof -
  have "w = w\<lparr>pbufs := pbufs w, app := app w\<rparr>" for w :: "'x world" by simp
  then show ?thesis unfolding doc_udp_send_def ref_udp_def by (simp, blast)
qed

lemma ref_doc_udp [simp]: "doc_udp ref_pbuf ref_udp"
  by (simp add: doc_udp_def)

theorem cs_udp_char_sendto_cases_witness:
  "\<exists>a. cs_udp_char_sendto ref_pbuf ref_udp 6 IP_ANY_TYPE 5000 IP_ANY_TYPE 53 [1, 2, 3] 3 (udp_world 0 0) =
     Some (Ok (0, (udp_world 0 0)\<lparr>app := a\<rparr>))"
proof -
  have u: "upcbs (udp_world 0 0) 6 = Some \<lparr>u_local_ip = IP_ANY_TYPE, u_local_port = 7, u_netif_idx = 0,
      u_mcast_ifindex = 0, u_mcast_ip4 = 0, u_recv = fn_cs_udp_raw_recv, u_recv_arg = 9\<rparr>"
    by (simp add: udp_world_def)
  have "pbuf_alloc ref_pbuf PBUF_RAW n PBUF_POOL (udp_world 0 0) \<noteq> Some (Ok (NULL, udp_world 0 0))" for n
    by (simp add: ref_pbuf_def udp_world_def heap_addr_def)
  with cs_udp_char_sendto_cases [OF ref_doc_udp ref_udp_route _ u, of 3 "[1, 2, 3]" IP_ANY_TYPE 5000
      IP_ANY_TYPE 53]
  show ?thesis by auto
qed

end
