(* ===== verification/Cs_Listen.thy ===== *)
theory Cs_Listen
  imports Cs_Tcp_Conn Cs_Udp
begin

text \<open>
  Setting up the TCP listener and the UDP socket: what \<open>cs_tcp_raw_init\<close> (\<open>src/tcp.c\<close>) and
  \<open>cs_udp_raw_init\<close> (\<open>src/udp.c\<close>) return and leave behind on each of their branches.
\<close>

section \<open>Documented behaviour of the set-up functions\<close>

text \<open>
  \<open>udp_new_ip_type\<close>: a new socket, or null when there is no memory. \<open>udp_bind\<close>: binds the socket or
  reports an error. \<open>udp_recv\<close> registers the callback, \<open>udp_remove\<close> deallocates the socket.
\<close>

definition doc_udp_setup :: "'x udp_api \<Rightarrow> bool" where
  "doc_udp_setup U \<longleftrightarrow>
     (\<forall>t w. udp_new_ip_type U t w = Some (Ok (NULL, w)) \<or>
        (\<exists>p c. p \<noteq> NULL \<and> upcbs w p = None \<and>
           udp_new_ip_type U t w = Some (Ok (p, w\<lparr>upcbs := (upcbs w)(p \<mapsto> c)\<rparr>)))) \<and>
     (\<forall>p c ip port w. upcbs w p = Some c \<longrightarrow>
        udp_bind U p ip port w = Some (Ok (ERR_OK,
          w\<lparr>upcbs := (upcbs w)(p \<mapsto> c\<lparr>u_local_ip := ip, u_local_port := port\<rparr>)\<rparr>)) \<or>
        (\<exists>e. e \<noteq> ERR_OK \<and> udp_bind U p ip port w = Some (Ok (e, w)))) \<and>
     (\<forall>p c f a w. upcbs w p = Some c \<longrightarrow>
        udp_recv U p f a w = Some (Ok ((), w\<lparr>upcbs := (upcbs w)(p \<mapsto> c\<lparr>u_recv := f, u_recv_arg := a\<rparr>)\<rparr>))) \<and>
     (\<forall>p c w. upcbs w p = Some c \<longrightarrow>
        udp_remove U p w = Some (Ok ((), w\<lparr>upcbs := (upcbs w)(p := None)\<rparr>)))"

text \<open>
  The same for TCP. \<open>tcp_listen\<close> exchanges the control block for a smaller one that listens, which
  keeps its address and callback argument, or returns null and leaves the block where it is.
  \<open>tcp_accept\<close> on null does nothing.
\<close>

definition doc_tcp_setup :: "'x tcp_api \<Rightarrow> bool" where
  "doc_tcp_setup T \<longleftrightarrow>
     (\<forall>t w. tcp_new_ip_type T t w = Some (Ok (NULL, w)) \<or>
        (\<exists>p c. p \<noteq> NULL \<and> tpcbs w p = None \<and>
           tcp_new_ip_type T t w = Some (Ok (p, w\<lparr>tpcbs := (tpcbs w)(p \<mapsto> c)\<rparr>)))) \<and>
     (\<forall>p c ip port w. tpcbs w p = Some c \<longrightarrow>
        tcp_bind T p ip port w = Some (Ok (ERR_OK,
          w\<lparr>tpcbs := (tpcbs w)(p \<mapsto> c\<lparr>t_local_ip := ip, t_local_port := port\<rparr>)\<rparr>)) \<or>
        (\<exists>e. e \<noteq> ERR_OK \<and> tcp_bind T p ip port w = Some (Ok (e, w)))) \<and>
     (\<forall>p c w. tpcbs w p = Some c \<longrightarrow>
        tcp_listen T p w = Some (Ok (NULL, w)) \<or>
        (\<exists>l c'. l \<noteq> NULL \<and> (l = p \<or> tpcbs w l = None) \<and> t_local_ip c' = t_local_ip c \<and>
           t_local_port c' = t_local_port c \<and> t_callback_arg c' = t_callback_arg c \<and>
           tcp_listen T p w = Some (Ok (l, w\<lparr>tpcbs := (tpcbs w)(p := None, l \<mapsto> c')\<rparr>)))) \<and>
     (\<forall>p c w. tpcbs w p = Some c \<longrightarrow>
        tcp_free T p w = Some (Ok ((), w\<lparr>tpcbs := (tpcbs w)(p := None)\<rparr>))) \<and>
     (\<forall>f w. tcp_accept T NULL f w = Some (Ok ((), w))) \<and> doc_tcp_setters T"

section \<open>The UDP socket\<close>

definition udp_socket_ready :: "'x world \<Rightarrow> addr \<Rightarrow> addr \<Rightarrow> bool" where
  "udp_socket_ready w p ca \<longleftrightarrow> (case upcbs w p of None \<Rightarrow> False | Some c \<Rightarrow>
     u_local_ip c = IP_ANY_TYPE \<and> u_local_port c = 7 \<and> u_recv c = fn_cs_udp_raw_recv \<and> u_recv_arg c = ca)"

lemma udp_init_run:
  assumes "doc_udp_setup U"
  shows "cs_udp_raw_init U ca w = Some (Ok (NULL, w)) \<or>
     (\<exists>p w'. cs_udp_raw_init U ca w = Some (Ok (p, w')) \<and> p \<noteq> NULL \<and> upcbs w p = None \<and>
        w' = w\<lparr>upcbs := (upcbs w)(p := upcbs w' p)\<rparr> \<and> udp_socket_ready w' p ca)"
proof -
  from assms consider "udp_new_ip_type U IPADDR_TYPE_ANY w = Some (Ok (NULL, w))" |
    p c where "p \<noteq> NULL" "upcbs w p = None"
      "udp_new_ip_type U IPADDR_TYPE_ANY w = Some (Ok (p, w\<lparr>upcbs := (upcbs w)(p \<mapsto> c)\<rparr>))"
    unfolding doc_udp_setup_def by blast
  then show ?thesis
  proof cases
    case 1
    then show ?thesis by (simp add: cs_udp_raw_init_def run_simps)
  next
    case 2
    let ?w = "w\<lparr>upcbs := (upcbs w)(p \<mapsto> c)\<rparr>"
    have c: "upcbs ?w p = Some c" by simp
    with assms consider e where "e \<noteq> ERR_OK" "udp_bind U p IP_ANY_TYPE 7 ?w = Some (Ok (e, ?w))" |
      "udp_bind U p IP_ANY_TYPE 7 ?w = Some (Ok (ERR_OK,
          ?w\<lparr>upcbs := (upcbs ?w)(p \<mapsto> c\<lparr>u_local_ip := IP_ANY_TYPE, u_local_port := 7\<rparr>)\<rparr>))"
      unfolding doc_udp_setup_def by blast
    then show ?thesis
    proof cases
      case bind: 1
      from assms c have "udp_remove U p ?w = Some (Ok ((), ?w\<lparr>upcbs := (upcbs ?w)(p := None)\<rparr>))"
        unfolding doc_udp_setup_def by blast
      moreover from 2 have "(upcbs w)(p := None) = upcbs w" by (simp add: fun_upd_idem)
      ultimately show ?thesis using 2 bind by (simp add: cs_udp_raw_init_def run_simps)
    next
      case bind: 2
      let ?c = "c\<lparr>u_local_ip := IP_ANY_TYPE, u_local_port := 7\<rparr>"
      let ?v = "?w\<lparr>upcbs := (upcbs ?w)(p \<mapsto> ?c)\<rparr>"
      have "upcbs ?v p = Some ?c" by simp
      with assms have "udp_recv U p fn_cs_udp_raw_recv ca ?v = Some (Ok ((),
          ?v\<lparr>upcbs := (upcbs ?v)(p \<mapsto> ?c\<lparr>u_recv := fn_cs_udp_raw_recv, u_recv_arg := ca\<rparr>)\<rparr>))"
        unfolding doc_udp_setup_def by blast
      with 2 bind show ?thesis by (simp add: cs_udp_raw_init_def run_simps udp_socket_ready_def)
    qed
  qed
qed

text \<open>
  \<open>cs_udp_raw_init\<close> returns null and leaves nothing behind, or a new socket bound to any address
  on port 7 whose receive callback is \<open>cs_udp_raw_recv\<close> with the given callback structure.
\<close>

theorem cs_udp_raw_init_cases:
  assumes "doc_udp_setup U"
  shows "\<exists>p w'. cs_udp_raw_init U ca w = Some (Ok (p, w')) \<and>
     (p = NULL \<and> w' = w \<or>
      p \<noteq> NULL \<and> upcbs w p = None \<and> w' = w\<lparr>upcbs := (upcbs w)(p := upcbs w' p)\<rparr> \<and>
        udp_socket_ready w' p ca)"
  using udp_init_run [OF assms] by blast

text \<open>A stack with room for a socket: beside the sockets \<open>us\<close> it has memory for one more, and the port can be bound.\<close>

definition udp_room :: "'x udp_api \<Rightarrow> (addr \<rightharpoonup> udp_pcb) \<Rightarrow> bool" where
  "udp_room U us \<longleftrightarrow>
     (\<forall>t w p w'. upcbs w = us \<longrightarrow> udp_new_ip_type U t w = Some (Ok (p, w')) \<longrightarrow> p \<noteq> NULL) \<and>
     (\<forall>p ip port w e w'. udp_bind U p ip port w = Some (Ok (e, w')) \<longrightarrow> e = ERR_OK)"

lemma udp_init_room:
  assumes "udp_room U (upcbs w)" and "cs_udp_raw_init U ca w = Some (Ok (p, w'))"
  shows "p \<noteq> NULL"
proof
  assume "p = NULL"
  with assms(2) have "udp_new_ip_type U IPADDR_TYPE_ANY w = Some (Ok (NULL, w')) \<or>
      (\<exists>q e u v. udp_bind U q IP_ANY_TYPE 7 u = Some (Ok (e, v)) \<and> e \<noteq> ERR_OK)"
    by (auto simp: cs_udp_raw_init_def ok_simps split: if_splits)
  with assms(1) show False unfolding udp_room_def by blast
qed

lemma ref_udp_room: "us heap_addr = None \<Longrightarrow> udp_room ref_udp us"
  by (auto simp: udp_room_def ref_udp_def heap_addr_def split: if_splits option.splits)

lemma ref_udp_setup [simp]: "doc_udp_setup ref_udp"
  unfolding doc_udp_setup_def ref_udp_def by (simp add: heap_addr_def, blast)

theorem cs_udp_raw_init_cases_witness:
  "\<exists>p w'. cs_udp_raw_init ref_udp 9 (udp_world 0 0) = Some (Ok (p, w')) \<and>
     (p = NULL \<and> w' = udp_world 0 0 \<or> udp_socket_ready w' p 9)"
  using cs_udp_raw_init_cases [OF ref_udp_setup, of 9 "udp_world 0 0"] by blast

section \<open>The TCP listener\<close>

definition tcp_listener_ready :: "tcp_pcb \<Rightarrow> addr \<Rightarrow> bool" where
  "tcp_listener_ready c ca \<longleftrightarrow> t_local_ip c = IP_ANY_TYPE \<and> t_local_port c = 7 \<and>
     t_callback_arg c = ca \<and> t_accept c = fn_cs_tcp_raw_accept"

text \<open>The three outcomes: nothing left behind, a bound control block left behind, a listener.\<close>

definition tcp_init_post :: "'x world \<Rightarrow> addr \<Rightarrow> addr \<Rightarrow> 'x world \<Rightarrow> bool" where
  "tcp_init_post w ca l w' \<longleftrightarrow>
     l = NULL \<and> w' = w \<or>
     l = NULL \<and> (\<exists>q c. tpcbs w q = None \<and> t_local_port c = 7 \<and> w' = w\<lparr>tpcbs := (tpcbs w)(q \<mapsto> c)\<rparr>) \<or>
     l \<noteq> NULL \<and> (\<exists>c. tpcbs w l = None \<and> tcp_listener_ready c ca \<and> w' = w\<lparr>tpcbs := (tpcbs w)(l \<mapsto> c)\<rparr>)"

lemma tcp_listen_run:
  assumes doc: "doc_tcp_setup T" and p: "p \<noteq> NULL" "tpcbs w p = None"
    and c: "t_local_ip c = IP_ANY_TYPE" "t_local_port c = 7" "t_callback_arg c = ca"
  defines "v \<equiv> w\<lparr>tpcbs := (tpcbs w)(p \<mapsto> c)\<rparr>"
  shows "\<exists>l w'. bnd (tcp_listen T p) (\<lambda>l. seq (tcp_accept T l fn_cs_tcp_raw_accept) (ret l)) v =
       Some (Ok (l, w')) \<and>
     tcp_init_post w ca l w' \<and> (l = NULL \<longrightarrow> w' = v)"
proof -
  from doc have sets: "doc_tcp_setters T" and null: "\<And>f w. tcp_accept T NULL f w = Some (Ok ((), w))"
    by (auto simp: doc_tcp_setup_def)
  have vp: "tpcbs v p = Some c" by (simp add: v_def)
  from doc vp consider "tcp_listen T p v = Some (Ok (NULL, v))" |
    l c' where "l \<noteq> NULL" "l = p \<or> tpcbs v l = None" "t_local_ip c' = t_local_ip c"
      "t_local_port c' = t_local_port c" "t_callback_arg c' = t_callback_arg c"
      "tcp_listen T p v = Some (Ok (l, v\<lparr>tpcbs := (tpcbs v)(p := None, l \<mapsto> c')\<rparr>))"
    unfolding doc_tcp_setup_def by blast
  then show ?thesis
  proof cases
    case 1
    then show ?thesis using p c null by (auto simp: run_simps tcp_init_post_def v_def)
  next
    case 2
    let ?u = "v\<lparr>tpcbs := (tpcbs v)(p := None, l \<mapsto> c')\<rparr>"
    let ?c = "c'\<lparr>t_accept := fn_cs_tcp_raw_accept\<rparr>"
    have "tpcbs ?u l = Some c'" by simp
    note acc = tcp_setters_run(6) [OF sets 2(1) this]
    from p have eq: "(tpcbs w)(p := None) = tpcbs w" by (simp add: fun_upd_idem)
    have free: "tpcbs w l = None" using 2(2) p by (auto simp: v_def split: if_splits)
    have "?u\<lparr>tpcbs := (tpcbs ?u)(l \<mapsto> ?c)\<rparr> = w\<lparr>tpcbs := (tpcbs w)(l \<mapsto> ?c)\<rparr>"
      using eq by (simp add: v_def)
    moreover have "tcp_listener_ready ?c ca" using 2 c by (simp add: tcp_listener_ready_def)
    ultimately have "tcp_init_post w ca l (?u\<lparr>tpcbs := (tpcbs ?u)(l \<mapsto> ?c)\<rparr>)"
      using 2(1) free unfolding tcp_init_post_def by metis
    with 2 acc show ?thesis by (simp add: run_simps)
  qed
qed

lemma tcp_init_run:
  assumes doc: "doc_tcp_setup T"
  shows "\<exists>l w'. cs_tcp_raw_init T ca w = Some (Ok (l, w')) \<and> tcp_init_post w ca l w'"
proof -
  from doc consider "tcp_new_ip_type T IPADDR_TYPE_ANY w = Some (Ok (NULL, w))" |
    p c where "p \<noteq> NULL" "tpcbs w p = None"
      "tcp_new_ip_type T IPADDR_TYPE_ANY w = Some (Ok (p, w\<lparr>tpcbs := (tpcbs w)(p \<mapsto> c)\<rparr>))"
    unfolding doc_tcp_setup_def by blast
  then show ?thesis
  proof cases
    case 1
    then show ?thesis by (simp add: cs_tcp_raw_init_def run_simps tcp_init_post_def)
  next
    case 2
    from doc have sets: "doc_tcp_setters T" by (simp add: doc_tcp_setup_def)
    let ?c = "c\<lparr>t_callback_arg := ca\<rparr>"
    let ?w = "w\<lparr>tpcbs := (tpcbs w)(p \<mapsto> ?c)\<rparr>"
    have arg: "tcp_arg T p ca (w\<lparr>tpcbs := (tpcbs w)(p \<mapsto> c)\<rparr>) = Some (Ok ((), ?w))"
      using tcp_setters_run(1) [OF sets 2(1), of "w\<lparr>tpcbs := (tpcbs w)(p \<mapsto> c)\<rparr>" c ca] by simp
    have c: "tpcbs ?w p = Some ?c" by simp
    let ?b = "?c\<lparr>t_local_ip := IP_ANY_TYPE, t_local_port := 7\<rparr>"
    from doc c consider e where "e \<noteq> ERR_OK" "tcp_bind T p IP_ANY_TYPE 7 ?w = Some (Ok (e, ?w))" |
      "tcp_bind T p IP_ANY_TYPE 7 ?w = Some (Ok (ERR_OK, ?w\<lparr>tpcbs := (tpcbs ?w)(p \<mapsto> ?b)\<rparr>))"
      unfolding doc_tcp_setup_def by blast
    then show ?thesis
    proof cases
      case bind: 1
      from doc c have "tcp_free T p ?w = Some (Ok ((), ?w\<lparr>tpcbs := (tpcbs ?w)(p := None)\<rparr>))"
        unfolding doc_tcp_setup_def by blast
      moreover from 2 have "(tpcbs w)(p := None) = tpcbs w" by (simp add: fun_upd_idem)
      ultimately show ?thesis using 2 bind arg
        by (simp add: cs_tcp_raw_init_def run_simps tcp_init_post_def)
    next
      case bind: 2
      from tcp_listen_run [OF doc 2(1,2), of ?b ca] obtain l w' where
        "bnd (tcp_listen T p) (\<lambda>l. seq (tcp_accept T l fn_cs_tcp_raw_accept) (ret l))
           (w\<lparr>tpcbs := (tpcbs w)(p \<mapsto> ?b)\<rparr>) = Some (Ok (l, w'))" "tcp_init_post w ca l w'"
        by auto
      with 2 bind arg show ?thesis by (simp add: cs_tcp_raw_init_def bnd_run seq_run)
    qed
  qed
qed

text \<open>
  \<open>cs_tcp_raw_init\<close>, on every branch. It returns a new control block that listens on port 7 of
  any address with \<open>cs_tcp_raw_accept\<close> and the callback structure registered; or null with nothing
  left behind; or, when \<open>tcp_listen\<close> has no memory, null with the bound control block still
  allocated. Nobody has a pointer to that block any more: it is leaked, and keeps the port taken.
\<close>

theorem cs_tcp_raw_init_cases:
  assumes "doc_tcp_setup T"
  shows "\<exists>l w'. cs_tcp_raw_init T ca w = Some (Ok (l, w')) \<and> tcp_init_post w ca l w'"
  using tcp_init_run [OF assms] .

text \<open>
  A stack with room for a listener: beside the control blocks \<open>ts\<close> it has memory for one more, the port can be bound, and a block
  can be exchanged for a listening one.
\<close>

definition tcp_room :: "'x tcp_api \<Rightarrow> (addr \<rightharpoonup> tcp_pcb) \<Rightarrow> bool" where
  "tcp_room T ts \<longleftrightarrow>
     (\<forall>t w p w'. tpcbs w = ts \<longrightarrow> tcp_new_ip_type T t w = Some (Ok (p, w')) \<longrightarrow> p \<noteq> NULL) \<and>
     (\<forall>p ip port w e w'. tcp_bind T p ip port w = Some (Ok (e, w')) \<longrightarrow> e = ERR_OK) \<and>
     (\<forall>p w l w'. p \<noteq> NULL \<longrightarrow> tcp_listen T p w = Some (Ok (l, w')) \<longrightarrow> l \<noteq> NULL)"

lemma tcp_init_room:
  assumes "tcp_room T (tpcbs w)" and "cs_tcp_raw_init T ca w = Some (Ok (l, w'))"
  shows "l \<noteq> NULL"
proof
  assume "l = NULL"
  with assms(2) have "(\<exists>u. tcp_new_ip_type T IPADDR_TYPE_ANY w = Some (Ok (NULL, u))) \<or>
      (\<exists>p e u v. tcp_bind T p IP_ANY_TYPE 7 u = Some (Ok (e, v)) \<and> e \<noteq> ERR_OK) \<or>
      (\<exists>p u v. p \<noteq> NULL \<and> tcp_listen T p u = Some (Ok (NULL, v)))"
    by (auto simp: cs_tcp_raw_init_def ok_simps split: if_splits) (metis less_irrefl)+
  with assms(1) show False unfolding tcp_room_def by blast
qed

text \<open>The reference stack, with a \<open>tcp_accept\<close> that does nothing on null.\<close>

definition roomy_tcp :: "'x tcp_api" where
  "roomy_tcp = ref_tcp\<lparr>tcp_accept := (\<lambda>p f. if p = NULL then ret () else tcp_accept ref_tcp p f)\<rparr>"

lemma roomy_tcp_setup: "doc_tcp_setup roomy_tcp"
  unfolding doc_tcp_setup_def
proof (intro conjI allI impI)
  show "doc_tcp_setters roomy_tcp"
    using ref_tcp_doc(1) by (simp add: roomy_tcp_def doc_tcp_setters_def pcb_setter_def)
next
  fix t and w :: "'x world"
  show "tcp_new_ip_type roomy_tcp t w = Some (Ok (NULL, w)) \<or> (\<exists>p c. p \<noteq> NULL \<and> tpcbs w p = None \<and>
      tcp_new_ip_type roomy_tcp t w = Some (Ok (p, w\<lparr>tpcbs := (tpcbs w)(p \<mapsto> c)\<rparr>)))"
    by (cases "tpcbs w heap_addr = None")
      (auto simp: roomy_tcp_def ref_tcp_def heap_addr_def intro!: exI [of _ 1000] exI [of _ blank_pcb])
next
  fix p c and w :: "'x world" assume c: "tpcbs w p = Some c"
  show "tcp_listen roomy_tcp p w = Some (Ok (NULL, w)) \<or> (\<exists>l c'. l \<noteq> NULL \<and> (l = p \<or> tpcbs w l = None) \<and>
      t_local_ip c' = t_local_ip c \<and> t_local_port c' = t_local_port c \<and> t_callback_arg c' = t_callback_arg c \<and>
      tcp_listen roomy_tcp p w = Some (Ok (l, w\<lparr>tpcbs := (tpcbs w)(p := None, l \<mapsto> c')\<rparr>)))"
  proof (cases "p = NULL")
    case False
    then show ?thesis
      by (intro disjI2 exI [of _ p] exI [of _ c]) (use c in \<open>simp add: roomy_tcp_def ref_tcp_def fun_upd_idem\<close>)
  qed (simp add: roomy_tcp_def ref_tcp_def)
qed (simp_all add: roomy_tcp_def ref_tcp_def run_simps)

lemma roomy_tcp_room: "ts heap_addr = None \<Longrightarrow> tcp_room roomy_tcp ts"
  by (auto simp: tcp_room_def roomy_tcp_def ref_tcp_def heap_addr_def split: if_splits option.splits)

text \<open>A stack that has memory for a control block, but none for a listening one.\<close>

definition tight_tcp :: "'x tcp_api" where
  "tight_tcp = ref_tcp\<lparr>tcp_listen := (\<lambda>p w. Some (Ok (NULL, w))),
     tcp_accept := (\<lambda>p f. if p = NULL then ret () else tcp_accept ref_tcp p f)\<rparr>"

lemma tight_tcp_setup: "doc_tcp_setup tight_tcp"
proof -
  have sets: "doc_tcp_setters tight_tcp"
    using ref_tcp_doc(1) by (simp add: tight_tcp_def doc_tcp_setters_def pcb_setter_def)
  show ?thesis
    unfolding doc_tcp_setup_def
    using sets by (simp add: tight_tcp_def ref_tcp_def heap_addr_def run_simps, blast)
qed

theorem cs_tcp_raw_init_cases_witness:
  "\<exists>w'. cs_tcp_raw_init tight_tcp 9 (udp_world 0 0) = Some (Ok (NULL, w')) \<and>
     tcp_init_post (udp_world 0 0) 9 NULL w' \<and> tpcbs w' heap_addr \<noteq> None"
proof -
  have "\<exists>w'. cs_tcp_raw_init tight_tcp 9 (udp_world 0 0) = Some (Ok (NULL, w')) \<and> tpcbs w' heap_addr \<noteq> None"
    by (simp add: cs_tcp_raw_init_def run_simps tight_tcp_def ref_tcp_def set_pcb_def udp_world_def
        heap_addr_def)
  with cs_tcp_raw_init_cases [OF tight_tcp_setup, of 9 "udp_world 0 0"] show ?thesis by auto
qed

end
