(* ===== verification/Cs_Netif.thy ===== *)
theory Cs_Netif
  imports Cs_Listen
begin

text \<open>
  The network interface driver and the start-up, \<open>src/cs.c\<close>: frames from the device into the stack
  and back, the set-up of the interface, the conversion of addresses for the application, and
  \<open>cs_init\<close>, which puts everything together. The argument \<open>N\<close> is lwIP's interface layer.
\<close>

section \<open>The functions of cs.c\<close>

definition update_netif :: "addr \<Rightarrow> (netif \<Rightarrow> netif) \<Rightarrow> ('x world, unit) prog" where
  "update_netif n f = bnd (deref netifs n) (\<lambda>i. modify (\<lambda>w. w\<lparr>netifs := (netifs w)(n \<mapsto> f i)\<rparr>))"

text \<open>
  The device callback stores the number of octets it read through a pointer; \<open>readlen\<close> is 0 when it
  does not.
\<close>

definition cs_low_level_input :: "'x callbacks \<Rightarrow> addr \<Rightarrow> ('x world, addr) prog" where
  "cs_low_level_input C netif =
     bnd (deref netifs netif) (\<lambda>i.
     bnd (deref_cb C (n_state i)) (\<lambda>cb.
     bnd (callp (cb_input cb) (\<lambda>f. f (cb_state cb) netif)) (\<lambda>(p, readlen).
     seq (update_netif netif (n_ifinoctets_update (\<lambda>x. x + ucast (case readlen of None \<Rightarrow> 0 | Some l \<Rightarrow> l))))
    (seq (whenc (p = NULL) (update_netif netif (n_ifindiscards_update (\<lambda>x. x + 1))))
    (ret p)))))"

definition cs_netif_input ::
  "'x pbuf_api \<Rightarrow> 'x netif_api \<Rightarrow> 'x callbacks \<Rightarrow> addr \<Rightarrow> ('x world, unit) prog" where
  "cs_netif_input P N C netif =
     bnd (cs_low_level_input C netif) (\<lambda>p.
     if p = NULL then link_stats_inc_recv N
     else
       bnd (deref netifs netif) (\<lambda>i.
       bnd (netif_call_input N (n_input i) p netif) (\<lambda>err.
       whenc (err \<noteq> ERR_OK) (ignore (pbuf_free P p)))))"

text \<open>The buffer on the stack has 1518 bytes; the device callback gets the bytes copied into it.\<close>

definition cs_low_level_output ::
  "'x pbuf_api \<Rightarrow> 'x callbacks \<Rightarrow> addr \<Rightarrow> addr \<Rightarrow> ('x world, err_t) prog" where
  "cs_low_level_output P C netif p =
     bnd (deref netifs netif) (\<lambda>i.
     bnd (deref pbufs p) (\<lambda>b.
     if unat (pb_tot_len b) > 1518 then
       seq (update_netif netif (n_ifoutdiscards_update (\<lambda>x. x + 1)))
      (ret ERR_IF)
     else
       bnd (pbuf_copy_partial P p (pb_tot_len b) 0) (\<lambda>buf.
       bnd (deref_cb C (n_state i)) (\<lambda>cb.
       bnd (callp (cb_output cb) (\<lambda>f. f (cb_state cb) netif buf (pb_tot_len b))) (\<lambda>written.
       if written < int (unat (pb_tot_len b)) then
         seq (update_netif netif (n_ifoutdiscards_update (\<lambda>x. x + 1)))
        (ret ERR_IF)
       else
         seq (update_netif netif (n_ifoutoctets_update (\<lambda>x. x + word_of_int written)))
        (ret ERR_OK))))))"

text \<open>\<open>NETIF_FLAG_BROADCAST | NETIF_FLAG_ETHARP | NETIF_FLAG_IGMP\<close>\<close>

definition cs_netif_flags :: u8 where
  "cs_netif_flags = or (or 0x02 0x08) 0x20"

definition cs_low_level_init :: "'x netif_api \<Rightarrow> addr \<Rightarrow> ('x world, unit) prog" where
  "cs_low_level_init N netif =
     block
      [update_netif netif (\<lambda>i. i\<lparr>n_hwaddr := [0x02, 0x12, 0x34, 0x56, 0x78, 0xab], n_hwaddr_len := 6\<rparr>),
       update_netif netif (n_flags_update (\<lambda>_. cs_netif_flags)),
       netif_set_link_up N netif]"

definition cs_netif_init :: "'x netif_api \<Rightarrow> addr \<Rightarrow> ('x world, err_t) prog" where
  "cs_netif_init N netif =
     seq (block
      [mib2_init_netif N netif 100000000,
       update_netif netif (n_name_update (\<lambda>_. [0x74, 0x70])),
       update_netif netif (n_output_update (\<lambda>_. fn_etharp_output)),
       update_netif netif (n_output_ip6_update (\<lambda>_. fn_ethip6_output)),
       update_netif netif (n_linkoutput_update (\<lambda>_. fn_cs_low_level_output)),
       update_netif netif (n_mtu_update (\<lambda>_. 1500)),
       cs_low_level_init N netif])
    (ret ERR_OK)"

text \<open>The assertion handler of the port prints the message and aborts.\<close>

definition cs_lwip_app_platform_assert :: "string \<Rightarrow> int \<Rightarrow> string \<Rightarrow> ('x world, unit) prog" where
  "cs_lwip_app_platform_assert msg line file = fail Aborted"

definition cs_ip_len :: "ip_addr_t \<Rightarrow> int" where
  "cs_ip_len a = (if ip_type a = IPADDR_TYPE_V6 then 16 else 4)"

text \<open>
  Bytes stored from the start of a \<open>char\<close> array, and the expression \<open>(char)x >> k\<close> as it is stored:
  the cast takes the low byte, with or without sign as \<open>char\<close> has it on the target, the shift is one of
  \<open>int\<close>.
\<close>

definition store_chars :: "u8 list \<Rightarrow> u8 list \<Rightarrow> u8 list res" where
  "store_chars bs buf = (if length bs \<le> length buf then Ok (bs @ drop (length bs) buf) else Fault OutOfBounds)"

definition char_value :: "bool \<Rightarrow> u32 \<Rightarrow> int" where
  "char_value char_signed x = (if char_signed then sint (ucast x :: u8) else uint (ucast x :: u8))"

definition char_shift :: "bool \<Rightarrow> u32 \<Rightarrow> nat \<Rightarrow> u8" where
  "char_shift char_signed x k = word_of_int (drop_bit k (char_value char_signed x))"

definition cs_ip_get :: "bool \<Rightarrow> 'x netif_api \<Rightarrow> ip_addr_t \<Rightarrow> u8 list \<Rightarrow> u8 list res" where
  "cs_ip_get char_signed N ipaddr buf =
     (if ip_type ipaddr = IPADDR_TYPE_V6 then
        store_chars
         [char_shift char_signed (lwip_htonl N (ip_w0 ipaddr)) 24,
          char_shift char_signed (lwip_htonl N (ip_w0 ipaddr)) 16,
          char_shift char_signed (lwip_htonl N (ip_w0 ipaddr)) 8,
          char_shift char_signed (lwip_htonl N (ip_w0 ipaddr)) 0,
          char_shift char_signed (lwip_htonl N (ip_w1 ipaddr)) 24,
          char_shift char_signed (lwip_htonl N (ip_w1 ipaddr)) 16,
          char_shift char_signed (lwip_htonl N (ip_w1 ipaddr)) 8,
          char_shift char_signed (lwip_htonl N (ip_w1 ipaddr)) 0,
          char_shift char_signed (lwip_htonl N (ip_w2 ipaddr)) 24,
          char_shift char_signed (lwip_htonl N (ip_w2 ipaddr)) 16,
          char_shift char_signed (lwip_htonl N (ip_w2 ipaddr)) 8,
          char_shift char_signed (lwip_htonl N (ip_w2 ipaddr)) 0,
          char_shift char_signed (lwip_htonl N (ip_w3 ipaddr)) 24,
          char_shift char_signed (lwip_htonl N (ip_w3 ipaddr)) 16,
          char_shift char_signed (lwip_htonl N (ip_w3 ipaddr)) 8,
          char_shift char_signed (lwip_htonl N (ip_w3 ipaddr)) 0] buf
      else
        store_chars
         [ip4_addr_byte N 0 (ip_w0 ipaddr), ip4_addr_byte N 1 (ip_w0 ipaddr),
          ip4_addr_byte N 2 (ip_w0 ipaddr), ip4_addr_byte N 3 (ip_w0 ipaddr)] buf)"

definition cs_init ::
  "'x tcp_api \<Rightarrow> 'x udp_api \<Rightarrow> 'x netif_api \<Rightarrow> 'x callbacks \<Rightarrow> addr \<Rightarrow> ('x world, int) prog" where
  "cs_init T U N C cb_addr =
     seq (lwip_init N)
    (bnd (deref_cb C cb_addr) (\<lambda>cb.
     let gw = IP4_ADDR N 192 168 100 1;
         ipaddr = IP4_ADDR N 192 168 100 200;
         netmask = IP4_ADDR N 255 255 255 0;
         netif = cb_netif cb in
     bnd (netif_add N netif ipaddr netmask gw cb_addr (cs_netif_init N) fn_netif_input) (\<lambda>added.
     if added = NULL then ret (- 1)
     else
       seq (block
        [callp (cb_init cb) (\<lambda>f. f (cb_state cb) netif),
         netif_set_up N netif,
         netif_set_link_up N netif,
         netif_set_default N netif,
         ignore (cs_tcp_raw_init T cb_addr),
         ignore (cs_udp_raw_init U cb_addr)])
      (ret 0))))"

definition cs_netif_proc ::
  "'x pbuf_api \<Rightarrow> 'x netif_api \<Rightarrow> 'x callbacks \<Rightarrow> addr \<Rightarrow> ('x world, unit) prog" where
  "cs_netif_proc P N C netif = block [cs_netif_input P N C netif, netif_poll_all N]"

lemma update_netif_run [run_simps]:
  "update_netif n f w = (if n = NULL then Some (Fault NullDeref) else (case netifs w n of
       None \<Rightarrow> Some (Fault UseAfterFree)
     | Some i \<Rightarrow> Some (Ok ((), w\<lparr>netifs := (netifs w)(n \<mapsto> f i)\<rparr>))))"
  by (simp add: update_netif_def run_simps split: option.split)

section \<open>The contract of the device callbacks\<close>

text \<open>
  What \<open>cs.c\<close> needs from the callbacks behind an interface: \<open>output\<close> only talks to the device, and
  \<open>input\<close> returns null or a new chain it has no further interest in.
\<close>

locale cs_device =
  fixes C :: "'x callbacks" and ca :: addr and cb :: "'x cs_callback"
  assumes dev_at: "ca \<noteq> NULL" "C ca = Some cb"
    and output_cb: "\<exists>f. cb_output cb = Some f \<and> (\<forall>s n d l. app_only (f s n d l))"
    and input_cb: "\<exists>f. cb_input cb = Some f \<and> (\<forall>s n w.
       (\<exists>l a. f s n w = Some (Ok ((NULL, l), w\<lparr>app := a\<rparr>))) \<or>
       (\<exists>p qs m l h a. f s n w = Some (Ok ((p, l), w\<lparr>pbufs := h, app := a\<rparr>)) \<and>
          fresh_chain (pbufs w) h p qs m))"
begin

lemma deref_dev [simp]: "deref_cb C ca w = Some (Ok (cb, w))"
  using dev_at by (simp add: deref_cb_def run_simps)

lemma call_output:
  "\<exists>r a. callp (cb_output cb) (\<lambda>f. f (cb_state cb) n d l) w = Some (Ok (r, w\<lparr>app := a\<rparr>))"
proof -
  from output_cb obtain f where f: "cb_output cb = Some f" "app_only (f (cb_state cb) n d l)" by blast
  from f(2) obtain r a where "f (cb_state cb) n d l w = Some (Ok (r, w\<lparr>app := a\<rparr>))"
    unfolding app_only_def by blast
  with f(1) show ?thesis by (simp add: run_simps) blast
qed

lemma call_input:
  "(\<exists>l a. callp (cb_input cb) (\<lambda>f. f (cb_state cb) n) w = Some (Ok ((NULL, l), w\<lparr>app := a\<rparr>))) \<or>
   (\<exists>p qs m l h a. callp (cb_input cb) (\<lambda>f. f (cb_state cb) n) w =
        Some (Ok ((p, l), w\<lparr>pbufs := h, app := a\<rparr>)) \<and> fresh_chain (pbufs w) h p qs m)"
proof -
  from input_cb obtain f where f: "cb_input cb = Some f" "\<forall>s n w.
      (\<exists>l a. f s n w = Some (Ok ((NULL, l), w\<lparr>app := a\<rparr>))) \<or>
      (\<exists>p qs m l h a. f s n w = Some (Ok ((p, l), w\<lparr>pbufs := h, app := a\<rparr>)) \<and>
         fresh_chain (pbufs w) h p qs m)"
    by blast
  then show ?thesis by (simp add: run_simps)
qed

end

section \<open>Sending a frame\<close>

text \<open>The interface with one of its counters changed.\<close>

definition count_netif :: "addr \<Rightarrow> (netif \<Rightarrow> netif) \<Rightarrow> 'x world \<Rightarrow> 'x world" where
  "count_netif n f w = w\<lparr>netifs := (netifs w)(n := map_option f (netifs w n))\<rparr>"

lemma output_run:
  assumes "doc_pbuf_copy P" and n: "n \<noteq> NULL" "netifs w n = Some i"
    and p: "p \<noteq> NULL" "is_chain (pbufs w) p qs" "pbufs w p = Some b"
    and ca: "n_state i = ca" "ca \<noteq> NULL" "C ca = Some cb"
    and len: "unat (pb_tot_len b) \<le> 1518"
    and f: "callp (cb_output cb) (\<lambda>f. f (cb_state cb) n
        (take (unat (pb_tot_len b)) (chain_bytes (pbufs w) qs)) (pb_tot_len b)) w = Some (Ok (r, w\<lparr>app := a\<rparr>))"
  shows "cs_low_level_output P C n p w = Some (Ok (
     if r < int (unat (pb_tot_len b)) then (ERR_IF, count_netif n (n_ifoutdiscards_update (\<lambda>x. x + 1)) (w\<lparr>app := a\<rparr>))
     else (ERR_OK, count_netif n (n_ifoutoctets_update (\<lambda>x. x + word_of_int r)) (w\<lparr>app := a\<rparr>))))"
proof -
  from assms(1) p have "pbuf_copy_partial P p (pb_tot_len b) 0 w =
      Some (Ok (take (unat (pb_tot_len b)) (chain_bytes (pbufs w) qs), w))"
    unfolding doc_pbuf_copy_def by blast
  with n p ca len f show ?thesis
    by (simp add: cs_low_level_output_def deref_cb_def deref_run bnd_run seq_run ret_run if_run
        update_netif_run count_netif_def)
qed

text \<open>
  C17. \<open>cs_low_level_output\<close>, on every branch. A frame longer than the 1518 byte buffer is counted as
  discarded and never reaches the device, so the buffer cannot overflow. Any other frame is handed to
  the output callback once, all of its bytes in order; a short write is counted as discarded and
  reported, otherwise the octets are counted. Nothing but that counter and the device changes: the
  chain stays with the caller.
\<close>

theorem cs_low_level_output_cases:
  assumes "cs_device C ca cb" and "doc_pbuf_copy P" and "n \<noteq> NULL" and "netifs w n = Some i"
    and "n_state i = ca" and "p \<noteq> NULL" and "is_chain (pbufs w) p qs" and "pbufs w p = Some b"
    and "length (chain_bytes (pbufs w) qs) = unat (pb_tot_len b)"
  shows "(1518 < unat (pb_tot_len b) \<longrightarrow> cs_low_level_output P C n p w =
       Some (Ok (ERR_IF, count_netif n (n_ifoutdiscards_update (\<lambda>x. x + 1)) w))) \<and>
     (unat (pb_tot_len b) \<le> 1518 \<longrightarrow>
        (\<exists>r a. callp (cb_output cb) (\<lambda>f. f (cb_state cb) n (chain_bytes (pbufs w) qs) (pb_tot_len b)) w =
             Some (Ok (r, w\<lparr>app := a\<rparr>)) \<and>
           cs_low_level_output P C n p w = Some (Ok (
             if r < int (unat (pb_tot_len b)) then (ERR_IF, count_netif n (n_ifoutdiscards_update (\<lambda>x. x + 1)) (w\<lparr>app := a\<rparr>))
             else (ERR_OK, count_netif n (n_ifoutoctets_update (\<lambda>x. x + word_of_int r)) (w\<lparr>app := a\<rparr>))))))"
proof (intro conjI impI)
  assume "1518 < unat (pb_tot_len b)"
  with assms(3,4,6,8) show "cs_low_level_output P C n p w =
       Some (Ok (ERR_IF, count_netif n (n_ifoutdiscards_update (\<lambda>x. x + 1)) w))"
    by (simp add: cs_low_level_output_def run_simps count_netif_def)
next
  assume len: "unat (pb_tot_len b) \<le> 1518"
  from cs_device.dev_at [OF assms(1)] have ca: "ca \<noteq> NULL" "C ca = Some cb" by auto
  from cs_device.call_output [OF assms(1)] obtain r a where
    f: "callp (cb_output cb) (\<lambda>f. f (cb_state cb) n (chain_bytes (pbufs w) qs) (pb_tot_len b)) w =
      Some (Ok (r, w\<lparr>app := a\<rparr>))" by blast
  then have "callp (cb_output cb) (\<lambda>f. f (cb_state cb) n
      (take (unat (pb_tot_len b)) (chain_bytes (pbufs w) qs)) (pb_tot_len b)) w = Some (Ok (r, w\<lparr>app := a\<rparr>))"
    using assms(9) by simp
  from output_run [where C = C and a = a, OF assms(2-4,6-8,5) ca len this] f show "\<exists>r a. callp (cb_output cb) (\<lambda>f. f (cb_state cb) n (chain_bytes (pbufs w) qs) (pb_tot_len b)) w =
             Some (Ok (r, w\<lparr>app := a\<rparr>)) \<and>
           cs_low_level_output P C n p w = Some (Ok (
             if r < int (unat (pb_tot_len b)) then (ERR_IF, count_netif n (n_ifoutdiscards_update (\<lambda>x. x + 1)) (w\<lparr>app := a\<rparr>))
             else (ERR_OK, count_netif n (n_ifoutoctets_update (\<lambda>x. x + word_of_int r)) (w\<lparr>app := a\<rparr>))))"
    by blast
qed

section \<open>Receiving a frame\<close>

text \<open>
  The input function of an interface: it takes the chain over and returns \<open>ERR_OK\<close>, or refuses it,
  and the chain stays as it is with the caller.
\<close>

definition doc_netif_input :: "'x netif_api \<Rightarrow> bool" where
  "doc_netif_input N \<longleftrightarrow> (\<forall>f p n qs w. p \<noteq> NULL \<and> sole_chain (pbufs w) p qs \<longrightarrow>
     (\<exists>w'. netif_call_input N f p n w = Some (Ok (ERR_OK, w'))) \<or>
     (\<exists>e a. e \<noteq> ERR_OK \<and> netif_call_input N f p n w = Some (Ok (e, w\<lparr>app := a\<rparr>)))) \<and>
     (\<forall>w. \<exists>a. link_stats_inc_recv N w = Some (Ok ((), w\<lparr>app := a\<rparr>)))"

text \<open>The octets counted for a frame.\<close>

definition octets :: "u16 option \<Rightarrow> u32" where
  "octets l = ucast (case l of None \<Rightarrow> 0 | Some l \<Rightarrow> l)"

definition count_in :: "addr \<Rightarrow> u16 option \<Rightarrow> 'x world \<Rightarrow> 'x world" where
  "count_in n l = count_netif n (n_ifinoctets_update (\<lambda>x. x + octets l))"

definition discard_in :: "addr \<Rightarrow> 'x world \<Rightarrow> 'x world" where
  "discard_in n = count_netif n (n_ifindiscards_update (\<lambda>x. x + 1))"

text \<open>
  C18. \<open>cs_netif_input\<close> leaks no frame. It returns without a fault, and either the device had nothing:
  a discard is counted and no buffer has appeared; or the frame went to the input function of the
  interface, which took it over; or that function refused it, and the chain has been freed, so that
  the buffers are what they were before the frame came in.
\<close>

theorem cs_netif_input_cases:
  assumes "cs_device C ca cb" and "doc_netif_input N" and "doc_pbuf_free P"
    and "n \<noteq> NULL" and "netifs w n = Some i" and "n_state i = ca"
  shows "\<exists>w'. cs_netif_input P N C n w = Some (Ok ((), w')) \<and>
     ((\<exists>l a a'. callp (cb_input cb) (\<lambda>f. f (cb_state cb) n) w = Some (Ok ((NULL, l), w\<lparr>app := a\<rparr>)) \<and>
         w' = (discard_in n (count_in n l w))\<lparr>app := a'\<rparr>) \<or>
      (\<exists>p qs l h a. p \<noteq> NULL \<and> sole_chain h p qs \<and>
         callp (cb_input cb) (\<lambda>f. f (cb_state cb) n) w = Some (Ok ((p, l), w\<lparr>pbufs := h, app := a\<rparr>)) \<and>
         (netif_call_input N (n_input i) p n ((count_in n l w)\<lparr>pbufs := h, app := a\<rparr>) = Some (Ok (ERR_OK, w')) \<or>
          (\<exists>e a'. e \<noteq> ERR_OK \<and> netif_call_input N (n_input i) p n ((count_in n l w)\<lparr>pbufs := h, app := a\<rparr>) =
               Some (Ok (e, (count_in n l w)\<lparr>pbufs := h, app := a'\<rparr>)) \<and>
             w' = (count_in n l w)\<lparr>app := a'\<rparr>))))"
proof -
  from cs_device.dev_at [OF assms(1)] have ca: "ca \<noteq> NULL" "C ca = Some cb" by auto
  from cs_device.call_input [OF assms(1)] consider
    l a where "callp (cb_input cb) (\<lambda>f. f (cb_state cb) n) w = Some (Ok ((NULL, l), w\<lparr>app := a\<rparr>))" |
    p qs m l h a where "callp (cb_input cb) (\<lambda>f. f (cb_state cb) n) w =
        Some (Ok ((p, l), w\<lparr>pbufs := h, app := a\<rparr>))" "fresh_chain (pbufs w) h p qs m"
    by blast
  then show ?thesis
  proof cases
    case 1
    let ?w = "(discard_in n (count_in n l w))\<lparr>app := a\<rparr>"
    from 1 ca assms(4-6) have low: "cs_low_level_input C n w = Some (Ok (NULL, ?w))"
      by (simp add: cs_low_level_input_def deref_cb_def deref_run bnd_run seq_run whenc_run ret_run
          update_netif_run discard_in_def count_in_def count_netif_def octets_def)
    from assms(2) obtain a' where "link_stats_inc_recv N ?w = Some (Ok ((), ?w\<lparr>app := a'\<rparr>))"
      unfolding doc_netif_input_def by blast
    with low have "cs_netif_input P N C n w = Some (Ok ((), ?w\<lparr>app := a'\<rparr>))"
      by (simp add: cs_netif_input_def run_simps)
    moreover have "?w\<lparr>app := a'\<rparr> = (discard_in n (count_in n l w))\<lparr>app := a'\<rparr>" by simp
    ultimately show ?thesis using 1 by metis
  next
    case 2
    let ?w = "(count_in n l w)\<lparr>pbufs := h, app := a\<rparr>"
    from 2(2) have p: "p \<noteq> NULL" "sole_chain h p qs" and fr: "\<forall>q \<in> set qs. pbufs w q = None"
      "\<forall>q. q \<notin> set qs \<longrightarrow> h q = pbufs w q" by (auto simp: fresh_chain_def)
    from 2 p ca assms(4-6) have low: "cs_low_level_input C n w = Some (Ok (p, ?w))"
      by (simp add: cs_low_level_input_def deref_cb_def deref_run bnd_run seq_run whenc_run ret_run
          update_netif_run count_in_def count_netif_def octets_def)
    have i: "\<exists>j. netifs ?w n = Some j \<and> n_input j = n_input i"
      using assms(5) by (simp add: count_in_def count_netif_def)
    from p have ch: "sole_chain (pbufs ?w) p qs" by simp
    with assms(2) p(1) consider
      w' where "netif_call_input N (n_input i) p n ?w = Some (Ok (ERR_OK, w'))" |
      e a' where "e \<noteq> ERR_OK" "netif_call_input N (n_input i) p n ?w = Some (Ok (e, ?w\<lparr>app := a'\<rparr>))"
      unfolding doc_netif_input_def by blast
    then show ?thesis
    proof cases
      case acc: 1
      with low i assms(4) p have "cs_netif_input P N C n w = Some (Ok ((), w'))"
        by (auto simp: cs_netif_input_def run_simps)
      with acc p 2(1) show ?thesis by blast
    next
      case rej: 2
      let ?v = "?w\<lparr>app := a'\<rparr>"
      from sole_chain_is_chain [OF p(2)] have "is_chain (pbufs ?v) p qs" by simp
      with assms(3) p(1) obtain k where
        "pbuf_free P p ?v = Some (Ok (k, ?v\<lparr>pbufs := free_chain qs (pbufs ?v)\<rparr>))"
        unfolding doc_pbuf_free_def by blast
      moreover have "h |` (- set qs) = pbufs w" using fr by (auto simp: restrict_map_def fun_eq_iff)
      with free_chain_sole [OF p(2)] have "free_chain qs (pbufs ?v) = pbufs w" by simp
      ultimately have "cs_netif_input P N C n w = Some (Ok ((), (count_in n l w)\<lparr>app := a'\<rparr>))"
        using low i assms(4) p rej by (auto simp: cs_netif_input_def run_simps count_in_def count_netif_def)
      moreover from rej have "netif_call_input N (n_input i) p n ?w =
          Some (Ok (e, (count_in n l w)\<lparr>pbufs := h, app := a'\<rparr>))" by simp
      ultimately show ?thesis using 2(1) p rej(1) by blast
    qed
  qed
qed

text \<open>An interface layer and a world with one interface, for the witnesses.\<close>

definition set_netif :: "addr \<Rightarrow> (netif \<Rightarrow> netif) \<Rightarrow> ('x world, unit) prog" where
  "set_netif n f = (\<lambda>w. case netifs w n of
       None \<Rightarrow> Some (Fault UseAfterFree)
     | Some i \<Rightarrow> Some (Ok ((), w\<lparr>netifs := (netifs w)(n \<mapsto> f i)\<rparr>)))"

definition ref_netif :: "'x netif_api" where
  "ref_netif = \<lparr>
     lwip_init = ret (),
     netif_add = (\<lambda>n ip nm gw st init inp.
       seq (set_netif n (\<lambda>i. i\<lparr>n_state := st, n_input := inp\<rparr>))
      (bnd (init n) (\<lambda>err. ret (if err = ERR_OK then n else NULL)))),
     netif_set_up = (\<lambda>n. set_netif n (n_flags_update (or 0x01))),
     netif_set_link_up = (\<lambda>n. set_netif n (n_flags_update (or 0x04))),
     netif_set_default = (\<lambda>n. set_netif n (n_flags_update id)),
     netif_poll_all = ret (),
     netif_call_input = (\<lambda>f p n. ret ERR_VAL),
     mib2_init_netif = (\<lambda>n speed. set_netif n (\<lambda>i. i\<lparr>n_ifinoctets := 0, n_ifindiscards := 0,
       n_ifoutoctets := 0, n_ifoutdiscards := 0\<rparr>)),
     link_stats_inc_recv = ret (),
     IP4_ADDR = (\<lambda>a b c d. or (ucast a) (or (push_bit 8 (ucast b)) (or (push_bit 16 (ucast c))
       (push_bit 24 (ucast d))))),
     lwip_htonl = (\<lambda>x. or (push_bit 24 x) (or (push_bit 16 (take_bit 8 (drop_bit 8 x)))
       (or (push_bit 8 (take_bit 8 (drop_bit 16 x))) (drop_bit 24 x)))),
     ip4_addr_byte = (\<lambda>k x. ucast (drop_bit (8 * k) x))\<rparr>"

definition blank_netif :: netif where
  "blank_netif = \<lparr>n_state = 9, n_name = [], n_output = fn_NULL, n_output_ip6 = fn_NULL,
     n_linkoutput = fn_NULL, n_input = fn_netif_input, n_mtu = 0, n_hwaddr = [], n_hwaddr_len = 0,
     n_flags = 0, n_ifinoctets = 0, n_ifindiscards = 0, n_ifoutoctets = 0, n_ifoutdiscards = 0\<rparr>"

definition net_world :: "unit world" where
  "net_world = \<lparr>pbufs = [2 \<mapsto> demo_buf NULL [10, 20]], ess = Map.empty, tpcbs = Map.empty,
     upcbs = Map.empty, netifs = [4 \<mapsto> blank_netif], app = ()\<rparr>"

lemma quiet_device [simp]: "cs_device [9 \<mapsto> quiet_cb] 9 quiet_cb"
proof
  have "cb_input quiet_cb = Some (\<lambda>s n. ret (NULL, Some 0))" by (simp add: quiet_cb_def)
  moreover have "ret (NULL, Some 0) w = Some (Ok ((NULL, Some 0), w\<lparr>app := app w\<rparr>))" for w :: "'a world"
    by (simp add: run_simps)
  ultimately show "\<exists>f. cb_input (quiet_cb :: 'a cs_callback) = Some f \<and> (\<forall>s n w.
       (\<exists>l a. f s n w = Some (Ok ((NULL, l), w\<lparr>app := a\<rparr>))) \<or>
       (\<exists>p qs m l h a. f s n w = Some (Ok ((p, l), w\<lparr>pbufs := h, app := a\<rparr>)) \<and>
          fresh_chain (pbufs w) h p qs m))"
    by blast
qed (simp_all add: quiet_cb_def)

lemma ref_netif_input [simp]: "doc_netif_input ref_netif"
proof -
  have "netif_call_input ref_netif f p n w = Some (Ok (ERR_VAL, w\<lparr>app := app w\<rparr>))"
    and "link_stats_inc_recv ref_netif w = Some (Ok ((), w\<lparr>app := app w\<rparr>))"
    for f p n and w :: "'a world"
    by (simp_all add: ref_netif_def run_simps)
  moreover have "ERR_VAL \<noteq> ERR_OK" by simp
  ultimately show ?thesis unfolding doc_netif_input_def by blast
qed

lemma net_world_at:
  "netifs net_world 4 = Some blank_netif" "n_state blank_netif = 9"
  "pbufs net_world 2 = Some (demo_buf NULL [10, 20])" "net_world\<lparr>app := a\<rparr> = net_world"
  by (simp_all add: net_world_def blank_netif_def)

theorem cs_low_level_output_cases_witness:
  "cs_low_level_output ref_pbuf [9 \<mapsto> quiet_cb] 4 2 net_world =
     Some (Ok (ERR_OK, count_netif 4 (n_ifoutoctets_update (\<lambda>x. x + 2)) net_world))"
  using cs_low_level_output_cases [OF quiet_device ref_pbuf_doc(3) _ net_world_at(1,2) _ _ net_world_at(3),
      of "[2]"]
  by (simp add: net_world_at demo_buf_def bytes_at_def quiet_cb_def run_simps)

theorem cs_netif_input_cases_witness:
  "\<exists>w'. cs_netif_input ref_pbuf ref_netif [9 \<mapsto> quiet_cb] 4 net_world = Some (Ok ((), w')) \<and>
     pbufs w' = pbufs net_world \<and> map_option n_ifindiscards (netifs w' 4) = Some 1"
  using cs_netif_input_cases [OF quiet_device ref_netif_input ref_pbuf_doc(2) _ net_world_at(1,2)]
  by (auto simp: quiet_cb_def run_simps discard_in_def count_in_def count_netif_def net_world_at blank_netif_def)

section \<open>Addresses for the application\<close>

lemma cs_ip_get_stores:
  "\<exists>bs. (\<forall>buf. cs_ip_get sg N x buf = store_chars bs buf) \<and> length bs = nat (cs_ip_len x)"
proof (cases "ip_type x = IPADDR_TYPE_V6")
  case True
  show ?thesis
    unfolding cs_ip_get_def cs_ip_len_def if_P [OF True] by (rule exI, rule conjI, rule allI, rule refl, simp)
next
  case False
  show ?thesis
    unfolding cs_ip_get_def cs_ip_len_def if_not_P [OF False] by (rule exI, rule conjI, rule allI, rule refl, simp)
qed

text \<open>
  \<open>cs_ip_get\<close> writes as many bytes as \<open>cs_ip_len\<close> says and no more: it stays inside the
  caller's array exactly when the array has that many bytes, and leaves the rest of it alone.
\<close>

theorem cs_ip_get_fills_cs_ip_len:
  "case cs_ip_get sg N x buf of
     Fault e \<Rightarrow> e = OutOfBounds \<and> length buf < nat (cs_ip_len x)
   | Ok buf' \<Rightarrow> nat (cs_ip_len x) \<le> length buf \<and> length buf' = length buf \<and>
       drop (nat (cs_ip_len x)) buf' = drop (nat (cs_ip_len x)) buf"
proof -
  obtain bs where bs: "cs_ip_get sg N x buf = store_chars bs buf" "length bs = nat (cs_ip_len x)"
    using cs_ip_get_stores by blast
  show ?thesis unfolding bs(2) [symmetric] by (simp add: bs(1) store_chars_def)
qed

definition doc_ip4_bytes :: "'x netif_api \<Rightarrow> bool" where
  "doc_ip4_bytes N \<longleftrightarrow> (\<forall>a b c d.
     map (\<lambda>k. ip4_addr_byte N k (IP4_ADDR N a b c d)) [0, 1, 2, 3] = [a, b, c, d])"

text \<open>
  For an IPv4 address \<open>cs_ip_get\<close> gives back the four bytes the address was made of, in order.
\<close>

theorem cs_ip_get_v4_roundtrip:
  assumes "doc_ip4_bytes N" and "ip_type x \<noteq> IPADDR_TYPE_V6" and "ip_w0 x = IP4_ADDR N a b c d"
    and "4 \<le> length buf"
  shows "cs_ip_get sg N x buf = Ok ([a, b, c, d] @ drop 4 buf)"
  using assms by (simp add: cs_ip_get_def store_chars_def doc_ip4_bytes_def eval_nat_numeral)

lemma ref_ip4_bytes [simp]: "doc_ip4_bytes ref_netif"
proof -
  have "ucast (or (ucast a) (or (push_bit 8 (ucast b)) (or (push_bit 16 (ucast c)) (push_bit 24 (ucast d)))) :: u32) = a"
    and "ucast (drop_bit 8 (or (ucast a) (or (push_bit 8 (ucast b)) (or (push_bit 16 (ucast c)) (push_bit 24 (ucast d)))) :: u32)) = b"
    and "ucast (drop_bit 16 (or (ucast a) (or (push_bit 8 (ucast b)) (or (push_bit 16 (ucast c)) (push_bit 24 (ucast d)))) :: u32)) = c"
    and "ucast (drop_bit 24 (or (ucast a) (or (push_bit 8 (ucast b)) (or (push_bit 16 (ucast c)) (push_bit 24 (ucast d)))) :: u32)) = d"
    for a b c d :: u8
    by (rule bit_word_eqI; auto simp: bit_simps not_le dest: bit_imp_le_length)+
  then show ?thesis by (simp add: doc_ip4_bytes_def ref_netif_def)
qed

theorem cs_ip_get_v4_roundtrip_witness:
  "cs_ip_get True (ref_netif :: unit netif_api)
     \<lparr>ip_w0 = IP4_ADDR (ref_netif :: unit netif_api) 192 168 100 200, ip_w1 = 0, ip_w2 = 0, ip_w3 = 0,
      ip_type = IPADDR_TYPE_V4\<rparr> [0, 0, 0, 0] = Ok [192, 168, 100, 200]"
proof -
  have "cs_ip_get True (ref_netif :: unit netif_api)
      \<lparr>ip_w0 = IP4_ADDR (ref_netif :: unit netif_api) 192 168 100 200, ip_w1 = 0, ip_w2 = 0, ip_w3 = 0,
       ip_type = IPADDR_TYPE_V4\<rparr> [0, 0, 0, 0] = Ok ([192, 168, 100, 200] @ drop 4 [0, 0, 0, 0])"
    by (rule cs_ip_get_v4_roundtrip [OF ref_ip4_bytes]) simp_all
  then show ?thesis by simp
qed

lemma char_value_range: "- 128 \<le> char_value sg x" "char_value sg x < 256"
proof -
  have "sint (ucast x :: u8) < 2 ^ (LENGTH(8) - 1)" and "- (2 ^ (LENGTH(8) - 1)) \<le> sint (ucast x :: u8)"
    by (rule sint_lt, rule sint_ge)
  moreover have "uint (ucast x :: u8) < 2 ^ LENGTH(8)" and "0 \<le> uint (ucast x :: u8)"
    by (rule uint_lt2p, rule uint_ge_0)
  ultimately show "- 128 \<le> char_value sg x" "char_value sg x < 256"
    by (auto simp: char_value_def intro: order_trans [OF _ uint_ge_0])
qed

lemma char_shift_high:
  assumes "8 \<le> k"
  shows "char_shift sg x k \<in> {0, 255}"
proof -
  have "(2 :: int) ^ 8 \<le> 2 ^ k" using assms by (rule power_increasing) simp
  then have k: "256 \<le> (2 :: int) ^ k" by simp
  have "drop_bit k (char_value sg x) \<in> {0, - 1}"
  proof (cases "0 \<le> char_value sg x")
    case True
    with k char_value_range(2) [of sg x] show ?thesis
      by (simp add: drop_bit_eq_div div_pos_pos_trivial)
  next
    case False
    with k char_value_range(1) [of sg x] have "char_value sg x div 2 ^ k = - 1"
      by (intro int_div_pos_eq [where r = "char_value sg x + 2 ^ k"]) auto
    then show ?thesis by (simp add: drop_bit_eq_div)
  qed
  then show ?thesis by (auto simp: char_shift_def)
qed

text \<open>
  C38. For an IPv6 address three of every four bytes are wrong. The cast to \<open>char\<close> binds before the
  shift, so each of these bytes is 0 or 255, whatever the address is, with signed and with unsigned
  \<open>char\<close>: the application cannot tell IPv6 peers apart by them.
\<close>

theorem cs_ip_get_v6_garbled:
  assumes "ip_type x = IPADDR_TYPE_V6" and "16 \<le> length buf" and "k < 16" and "k mod 4 \<noteq> 3"
  shows "\<exists>bs. cs_ip_get sg N x buf = Ok bs \<and> bs ! k \<in> {0, 255}"
proof -
  have "k = 0 \<or> k = 1 \<or> k = 2 \<or> k = 4 \<or> k = 5 \<or> k = 6 \<or> k = 8 \<or> k = 9 \<or> k = 10 \<or> k = 12 \<or>
      k = 13 \<or> k = 14"
    using assms(3,4) by presburger
  then show ?thesis
    using assms(1,2)
    by (elim disjE) (simp_all add: cs_ip_get_def store_chars_def char_shift_high [simplified])
qed

text \<open>The address 2001:db8::1 on a little-endian target.\<close>

definition demo_v6 :: ip_addr_t where
  "demo_v6 = \<lparr>ip_w0 = 0xb80d0120, ip_w1 = 0, ip_w2 = 0, ip_w3 = 0x01000000, ip_type = IPADDR_TYPE_V6\<rparr>"

theorem cs_ip_get_v6_garbled_witness:
  "\<exists>bs. cs_ip_get True (ref_netif :: unit netif_api) demo_v6 (replicate 16 0) = Ok bs \<and> bs ! 0 \<noteq> 0x20 \<and>
     bs ! 0 \<in> {0, 255}"
proof -
  have "ip_type demo_v6 = IPADDR_TYPE_V6" by (simp add: demo_v6_def)
  then have "\<exists>bs. cs_ip_get True (ref_netif :: unit netif_api) demo_v6 (replicate 16 0) = Ok bs \<and> bs ! 0 \<in> {0, 255}"
    by (rule cs_ip_get_v6_garbled) simp_all
  then show ?thesis by auto
qed

section \<open>Start-up\<close>

text \<open>An interface function that changes the flags of the interface and nothing else the sources see.\<close>

definition flags_only :: "(addr \<Rightarrow> ('x world, unit) prog) \<Rightarrow> bool" where
  "flags_only m \<longleftrightarrow> (\<forall>n w i. n \<noteq> NULL \<and> netifs w n = Some i \<longrightarrow>
     (\<exists>fl a. m n w = Some (Ok ((), w\<lparr>netifs := (netifs w)(n \<mapsto> i\<lparr>n_flags := fl\<rparr>), app := a\<rparr>))))"

text \<open>
  \<open>netif_add\<close>: stores the driver's state and input function, calls the set-up function of the driver
  and adds the interface to lwIP's list, or returns null.
\<close>

definition doc_netif_add :: "'x netif_api \<Rightarrow> bool" where
  "doc_netif_add N \<longleftrightarrow> (\<forall>n ip nm gw st init inp w i. n \<noteq> NULL \<and> netifs w n = Some i \<longrightarrow>
     (\<exists>i'. n_state i' = st \<and> n_input i' = inp \<and>
        (\<forall>e w2. init n (w\<lparr>netifs := (netifs w)(n \<mapsto> i')\<rparr>) = Some (Ok (e, w2)) \<longrightarrow>
           (\<exists>a r. netif_add N n ip nm gw st init inp w = Some (Ok (r, w2\<lparr>app := a\<rparr>)) \<and>
              (r = n \<or> r = NULL) \<and> (e \<noteq> ERR_OK \<longrightarrow> r = NULL)))))"

definition doc_netif :: "'x netif_api \<Rightarrow> bool" where
  "doc_netif N \<longleftrightarrow> (\<forall>w. \<exists>a. lwip_init N w = Some (Ok ((), w\<lparr>app := a\<rparr>))) \<and>
     flags_only (netif_set_up N) \<and> flags_only (netif_set_link_up N) \<and> flags_only (netif_set_default N) \<and>
     (\<forall>n sp w i. netifs w n = Some i \<longrightarrow>
        (\<exists>a. mib2_init_netif N n sp w = Some (Ok ((), w\<lparr>netifs := (netifs w)(n \<mapsto> i\<lparr>n_ifinoctets := 0,
           n_ifindiscards := 0, n_ifoutoctets := 0, n_ifoutdiscards := 0\<rparr>), app := a\<rparr>)))) \<and>
     doc_netif_add N"

lemma flags_onlyD:
  "flags_only m \<Longrightarrow> n \<noteq> NULL \<Longrightarrow> netifs w n = Some i \<Longrightarrow>
     \<exists>fl a. m n w = Some (Ok ((), w\<lparr>netifs := (netifs w)(n \<mapsto> i\<lparr>n_flags := fl\<rparr>), app := a\<rparr>))"
  unfolding flags_only_def by blast

lemma doc_netifD:
  assumes "doc_netif N"
  shows "\<exists>a. lwip_init N w = Some (Ok ((), w\<lparr>app := a\<rparr>))"
    and "flags_only (netif_set_up N)" "flags_only (netif_set_link_up N)" "flags_only (netif_set_default N)"
    and "netifs w n = Some i \<Longrightarrow>
      \<exists>a. mib2_init_netif N n sp w = Some (Ok ((), w\<lparr>netifs := (netifs w)(n \<mapsto> i\<lparr>n_ifinoctets := 0,
         n_ifindiscards := 0, n_ifoutoctets := 0, n_ifoutdiscards := 0\<rparr>), app := a\<rparr>))"
    and "doc_netif_add N"
  using assms unfolding doc_netif_def by simp_all

text \<open>The interface is wired to the driver and to the callback structure at \<open>ca\<close>.\<close>

definition netif_wired :: "netif \<Rightarrow> addr \<Rightarrow> bool" where
  "netif_wired i ca \<longleftrightarrow> n_state i = ca \<and> n_input i = fn_netif_input \<and>
     n_linkoutput i = fn_cs_low_level_output \<and> n_output i = fn_etharp_output \<and>
     n_output_ip6 i = fn_ethip6_output \<and> n_mtu i = 1500 \<and>
     n_hwaddr i = [0x02, 0x12, 0x34, 0x56, 0x78, 0xab] \<and> n_hwaddr_len i = 6"

lemma netif_wired_flags [simp]: "netif_wired (i\<lparr>n_flags := fl\<rparr>) ca = netif_wired i ca"
  by (simp add: netif_wired_def)

lemma netif_init_run:
  assumes doc: "doc_netif N" and n: "n \<noteq> NULL" "netifs w n = Some i"
    and i: "n_state i = ca" "n_input i = fn_netif_input"
  shows "\<exists>i' a. cs_netif_init N n w = Some (Ok (ERR_OK, w\<lparr>netifs := (netifs w)(n \<mapsto> i'), app := a\<rparr>)) \<and>
     netif_wired i' ca"
proof -
  from doc_netifD(5) [OF doc n(2)] obtain a where mib: "mib2_init_netif N n 100000000 w = Some (Ok ((),
      w\<lparr>netifs := (netifs w)(n \<mapsto> i\<lparr>n_ifinoctets := 0, n_ifindiscards := 0, n_ifoutoctets := 0,
        n_ifoutdiscards := 0\<rparr>), app := a\<rparr>))"
    by blast
  define j where "j = i\<lparr>n_ifinoctets := 0, n_ifindiscards := 0, n_ifoutoctets := 0, n_ifoutdiscards := 0,
    n_name := [0x74, 0x70], n_output := fn_etharp_output, n_output_ip6 := fn_ethip6_output,
    n_linkoutput := fn_cs_low_level_output, n_mtu := 1500,
    n_hwaddr := [0x02, 0x12, 0x34, 0x56, 0x78, 0xab], n_hwaddr_len := 6, n_flags := cs_netif_flags\<rparr>"
  let ?v = "w\<lparr>app := a, netifs := (netifs w)(n \<mapsto> j)\<rparr>"
  have "netifs ?v n = Some j" by simp
  from flags_onlyD [OF doc_netifD(3) [OF doc] n(1) this] obtain fl b where up: "netif_set_link_up N n ?v =
      Some (Ok ((), ?v\<lparr>netifs := (netifs ?v)(n \<mapsto> j\<lparr>n_flags := fl\<rparr>), app := b\<rparr>))"
    by blast
  have "cs_netif_init N n w =
      Some (Ok (ERR_OK, w\<lparr>netifs := (netifs w)(n \<mapsto> j\<lparr>n_flags := fl\<rparr>), app := b\<rparr>))"
    using n mib up by (simp add: cs_netif_init_def cs_low_level_init_def run_simps j_def)
  moreover have "netif_wired (j\<lparr>n_flags := fl\<rparr>) ca" using i by (simp add: netif_wired_def j_def)
  ultimately show ?thesis by blast
qed

lemma flags_chain:
  assumes "flags_only m" and "n \<noteq> NULL" and "netifs w n = Some i" and "netif_wired i ca"
  shows "\<exists>i' a. m n w = Some (Ok ((), w\<lparr>netifs := (netifs w)(n \<mapsto> i'), app := a\<rparr>)) \<and> netif_wired i' ca"
proof -
  from flags_onlyD [OF assms(1-3)] obtain fl a where
    "m n w = Some (Ok ((), w\<lparr>netifs := (netifs w)(n \<mapsto> i\<lparr>n_flags := fl\<rparr>), app := a\<rparr>))"
    by blast
  with assms(4) show ?thesis
    by (intro exI [of _ "i\<lparr>n_flags := fl\<rparr>"] exI [of _ a]) simp
qed

text \<open>The four steps between \<open>netif_add\<close> and the listeners.\<close>

lemma bring_up:
  assumes "flags_only m1" "flags_only m2" "flags_only m3" "flags_only m4"
    and n: "n \<noteq> NULL" "netifs w n = Some i" "netif_wired i ca"
  shows "\<exists>i' a. block [m1 n, m2 n, m3 n, m4 n] w =
       Some (Ok ((), w\<lparr>netifs := (netifs w)(n \<mapsto> i'), app := a\<rparr>)) \<and> netif_wired i' ca"
proof -
  from flags_chain [OF assms(1) n] obtain i1 a1 where 1: "netif_wired i1 ca"
    "m1 n w = Some (Ok ((), w\<lparr>netifs := (netifs w)(n \<mapsto> i1), app := a1\<rparr>))" by blast
  let ?w1 = "w\<lparr>netifs := (netifs w)(n \<mapsto> i1), app := a1\<rparr>"
  from flags_chain [OF assms(2) n(1), of ?w1 i1 ca] 1 obtain i2 a2 where 2: "netif_wired i2 ca"
    "m2 n ?w1 = Some (Ok ((), w\<lparr>netifs := (netifs w)(n \<mapsto> i2), app := a2\<rparr>))" by auto
  let ?w2 = "w\<lparr>netifs := (netifs w)(n \<mapsto> i2), app := a2\<rparr>"
  from flags_chain [OF assms(3) n(1), of ?w2 i2 ca] 2 obtain i3 a3 where 3: "netif_wired i3 ca"
    "m3 n ?w2 = Some (Ok ((), w\<lparr>netifs := (netifs w)(n \<mapsto> i3), app := a3\<rparr>))" by auto
  let ?w3 = "w\<lparr>netifs := (netifs w)(n \<mapsto> i3), app := a3\<rparr>"
  from flags_chain [OF assms(4) n(1), of ?w3 i3 ca] 3 obtain i4 a4 where 4: "netif_wired i4 ca"
    "m4 n ?w3 = Some (Ok ((), w\<lparr>netifs := (netifs w)(n \<mapsto> i4), app := a4\<rparr>))" by auto
  from 1 2 3 4 show ?thesis by (auto simp: run_simps)
qed

text \<open>The first two steps of \<open>cs_init\<close>.\<close>

lemma netif_add_run:
  assumes doc: "doc_netif N" and n: "n \<noteq> NULL" "netifs w n = Some i"
  shows "\<exists>i' a r. netif_add N n ip nm gw ca (cs_netif_init N) fn_netif_input w =
       Some (Ok (r, w\<lparr>netifs := (netifs w)(n \<mapsto> i'), app := a\<rparr>)) \<and> netif_wired i' ca \<and> (r = n \<or> r = NULL)"
proof -
  from doc_netifD(6) [OF doc] n obtain i1 where i1: "n_state i1 = ca" "n_input i1 = fn_netif_input" and
    add: "\<And>e w2. cs_netif_init N n (w\<lparr>netifs := (netifs w)(n \<mapsto> i1)\<rparr>) = Some (Ok (e, w2)) \<Longrightarrow>
      \<exists>a r. netif_add N n ip nm gw ca (cs_netif_init N) fn_netif_input w = Some (Ok (r, w2\<lparr>app := a\<rparr>)) \<and>
        (r = n \<or> r = NULL) \<and> (e \<noteq> ERR_OK \<longrightarrow> r = NULL)"
    unfolding doc_netif_add_def by blast
  let ?w1 = "w\<lparr>netifs := (netifs w)(n \<mapsto> i1)\<rparr>"
  have "netifs ?w1 n = Some i1" by simp
  from netif_init_run [OF doc n(1) this i1] obtain i2 a where
    "cs_netif_init N n ?w1 = Some (Ok (ERR_OK, ?w1\<lparr>netifs := (netifs ?w1)(n \<mapsto> i2), app := a\<rparr>))"
    and w2: "netif_wired i2 ca" by blast
  from add [OF this(1)] w2 show ?thesis by auto
qed

lemma tcp_init_post_frame:
  assumes "tcp_init_post v ca l v'" and "tpcbs v = tpcbs w"
  shows "tcp_init_post w ca l (w\<lparr>tpcbs := tpcbs v'\<rparr>)" "v' = v\<lparr>tpcbs := tpcbs v'\<rparr>"
proof -
  have same: "w\<lparr>tpcbs := tpcbs w\<rparr> = w" by simp
  from assms same show "tcp_init_post w ca l (w\<lparr>tpcbs := tpcbs v'\<rparr>)"
    unfolding tcp_init_post_def by (elim disjE conjE exE) auto
  from assms(1) show "v' = v\<lparr>tpcbs := tpcbs v'\<rparr>"
    unfolding tcp_init_post_def by (elim disjE conjE exE) auto
qed

text \<open>A stack that takes the interface \<open>n\<close> with the driver.\<close>

definition netif_takes :: "'x netif_api \<Rightarrow> addr \<Rightarrow> addr \<Rightarrow> bool" where
  "netif_takes N n ca \<longleftrightarrow> (\<forall>ip nm gw w r w'.
     netif_add N n ip nm gw ca (cs_netif_init N) fn_netif_input w = Some (Ok (r, w')) \<longrightarrow> r = n)"

text \<open>
  C36. \<open>cs_init\<close>. It returns -1 or 0. With -1, which a stack that takes the interface excludes, there is neither a listener nor
  a socket. With 0 the interface is wired to the driver, so that frames reach the callbacks given. A stack with room for one more control block then
  has a new listener on port 7 of any address, with \<open>cs_tcp_raw_accept\<close> and the callback structure registered, and one with room for one more
  socket a new socket on port 7 with \<open>cs_udp_raw_recv\<close> registered. Without room the result is 0 too: the failure is not reported, and what is
  left behind is nothing, or for TCP a bound control block that does not listen.
\<close>

theorem cs_init_cases:
  assumes "doc_netif N" and "doc_tcp_setup T" and "doc_udp_setup U"
    and "ca \<noteq> NULL" and "C ca = Some cb" and "cb_init cb = Some f" and "flags_only (f (cb_state cb))"
    and "cb_netif cb = n" and "n \<noteq> NULL" and "netifs w n = Some i"
  shows "\<exists>r w'. cs_init T U N C ca w = Some (Ok (r, w')) \<and> pbufs w' = pbufs w \<and> ess w' = ess w \<and>
     (r = - 1 \<and> \<not> netif_takes N n ca \<and> tpcbs w' = tpcbs w \<and> upcbs w' = upcbs w \<or>
      r = 0 \<and> (\<exists>i'. netifs w' n = Some i' \<and> netif_wired i' ca) \<and>
        (tcp_room T (tpcbs w) \<longrightarrow> (\<exists>l c. tpcbs w l = None \<and> tpcbs w' l = Some c \<and> tcp_listener_ready c ca)) \<and>
        (udp_room U (upcbs w) \<longrightarrow> (\<exists>p. upcbs w p = None \<and> udp_socket_ready w' p ca)) \<and>
        (\<exists>l. tcp_init_post w ca l (w\<lparr>tpcbs := tpcbs w'\<rparr>)) \<and>
        (upcbs w' = upcbs w \<or> (\<exists>p. upcbs w p = None \<and> udp_socket_ready w' p ca)))"
proof -
  from doc_netifD(1) [OF assms(1)] obtain a0 where in0: "lwip_init N w = Some (Ok ((), w\<lparr>app := a0\<rparr>))"
    by blast
  note fl = doc_netifD(2-4) [OF assms(1)]
  let ?w0 = "w\<lparr>app := a0\<rparr>"
  let ?add = "netif_add N n (IP4_ADDR N 192 168 100 200) (IP4_ADDR N 255 255 255 0)
    (IP4_ADDR N 192 168 100 1) ca (cs_netif_init N) fn_netif_input"
  have "netifs ?w0 n = Some i" using assms(10) by simp
  from netif_add_run [OF assms(1,9) this] obtain i1 a1 r where i1: "netif_wired i1 ca" and
    add: "?add ?w0 = Some (Ok (r, ?w0\<lparr>netifs := (netifs ?w0)(n \<mapsto> i1), app := a1\<rparr>))" and r: "r = n \<or> r = NULL"
    by blast
  let ?w1 = "?w0\<lparr>netifs := (netifs ?w0)(n \<mapsto> i1), app := a1\<rparr>"
  have start: "cs_init T U N C ca w = (if r = NULL then ret (- 1) else
      seq (block [f (cb_state cb) n, netif_set_up N n, netif_set_link_up N n, netif_set_default N n])
     (seq (ignore (cs_tcp_raw_init T ca)) (seq (ignore (cs_udp_raw_init U ca)) (ret 0)))) ?w1"
    using in0 add assms(4,5,6,8)
    by (simp add: cs_init_def seq_run bnd_run deref_cb_def deref_run Let_def callp_def block_run ret_run
        split: option.split res.split)
  show ?thesis
  proof (cases "r = NULL")
    case True
    with add assms(9) have "\<not> netif_takes N n ca" unfolding netif_takes_def by metis
    with True start show ?thesis by (simp add: ret_run)
  next
    case False
    have "netifs ?w1 n = Some i1" by simp
    from bring_up [OF assms(7) fl assms(9) this i1] obtain i2 a2 where i2: "netif_wired i2 ca" and
      up: "block [f (cb_state cb) n, netif_set_up N n, netif_set_link_up N n, netif_set_default N n] ?w1 =
        Some (Ok ((), ?w1\<lparr>netifs := (netifs ?w1)(n \<mapsto> i2), app := a2\<rparr>))" by blast
    let ?w2 = "?w1\<lparr>netifs := (netifs ?w1)(n \<mapsto> i2), app := a2\<rparr>"
    from tcp_init_run [OF assms(2), of ca ?w2] obtain l w3 where
      tcp: "cs_tcp_raw_init T ca ?w2 = Some (Ok (l, w3))" "tcp_init_post ?w2 ca l w3" by blast
    from tcp_init_post_frame [OF tcp(2), of w] have
      post: "tcp_init_post w ca l (w\<lparr>tpcbs := tpcbs w3\<rparr>)" and w3: "w3 = ?w2\<lparr>tpcbs := tpcbs w3\<rparr>" by simp_all
    have listens: "\<exists>l c. tpcbs w l = None \<and> tpcbs w3 l = Some c \<and> tcp_listener_ready c ca" if "tcp_room T (tpcbs w)"
      using tcp_init_room [OF _ tcp(1)] that tcp(2) by (auto simp: tcp_init_post_def)
    from udp_init_run [OF assms(3), of ca w3] obtain p w4 where
      udp: "cs_udp_raw_init U ca w3 = Some (Ok (p, w4))" and w4: "w4 = w3\<lparr>upcbs := upcbs w4\<rparr>"
      and sock: "upcbs w4 = upcbs w3 \<or> (\<exists>p. upcbs w3 p = None \<and> udp_socket_ready w4 p ca)"
      and bound: "p \<noteq> NULL \<Longrightarrow> \<exists>p. upcbs w3 p = None \<and> udp_socket_ready w4 p ca"
    proof (elim disjE exE conjE)
      assume "cs_udp_raw_init U ca w3 = Some (Ok (NULL, w3))"
      then show ?thesis using that [of NULL w3] by simp
    next
      fix p w'
      assume *: "cs_udp_raw_init U ca w3 = Some (Ok (p, w'))" "upcbs w3 p = None"
        "w' = w3\<lparr>upcbs := (upcbs w3)(p := upcbs w' p)\<rparr>" "udp_socket_ready w' p ca"
      from *(3) have "upcbs w' = (upcbs w3)(p := upcbs w' p)"
        by (metis world.select_convs(4) world.surjective world.update_convs(4))
      with *(3) have "w' = w3\<lparr>upcbs := upcbs w'\<rparr>" by simp
      with * show ?thesis using that [of p w'] by blast
    qed
    have run: "cs_init T U N C ca w = Some (Ok (0, w4))"
      using start False up tcp(1) udp by (simp add: seq_run ignore_run ret_run)
    have p4: "pbufs w4 = pbufs w3" "ess w4 = ess w3" "tpcbs w4 = tpcbs w3" "netifs w4 = netifs w3"
      by (subst w4, simp)+
    have p3: "pbufs w3 = pbufs w" "ess w3 = ess w" "upcbs w3 = upcbs w" "netifs w3 n = Some i2"
      by (subst w3, simp)+
    have "\<exists>p. upcbs w p = None \<and> udp_socket_ready w4 p ca" if "udp_room U (upcbs w)"
      using bound udp_init_room [OF _ udp] that p3(3) by simp
    then show ?thesis using run p4 p3 i2 post sock listens by auto
  qed
qed

lemma set_netif_flags: "flags_only (\<lambda>n. set_netif n (n_flags_update g))"
  unfolding flags_only_def
proof (intro allI impI, elim conjE)
  fix n and w :: "'a world" and i
  assume i: "netifs w n = Some i"
  have eq: "n_flags_update g i = i\<lparr>n_flags := g (n_flags i)\<rparr>" by (cases i) simp
  have "set_netif n (n_flags_update g) w =
      Some (Ok ((), w\<lparr>netifs := (netifs w)(n \<mapsto> i\<lparr>n_flags := g (n_flags i)\<rparr>), app := app w\<rparr>))"
    unfolding eq [symmetric] using i by (simp add: set_netif_def)
  then show "\<exists>fl a. set_netif n (n_flags_update g) w =
      Some (Ok ((), w\<lparr>netifs := (netifs w)(n \<mapsto> i\<lparr>n_flags := fl\<rparr>), app := a\<rparr>))" by blast
qed

lemma ret_flags: "flags_only (\<lambda>n. ret ())"
  unfolding flags_only_def
proof (intro allI impI, elim conjE)
  fix n and w :: "'a world" and i
  assume "netifs w n = Some i"
  then have "ret () w = Some (Ok ((), w\<lparr>netifs := (netifs w)(n \<mapsto> i\<lparr>n_flags := n_flags i\<rparr>), app := app w\<rparr>))"
    by (simp add: run_simps fun_upd_idem)
  then show "\<exists>fl a. ret () w =
      Some (Ok ((), w\<lparr>netifs := (netifs w)(n \<mapsto> i\<lparr>n_flags := fl\<rparr>), app := a\<rparr>))" by blast
qed

lemma ref_netif_add: "doc_netif_add ref_netif"
  unfolding doc_netif_add_def
proof (intro allI impI, elim conjE)
  fix n ip nm gw st inp i and init :: "addr \<Rightarrow> ('a world, err_t) prog" and w :: "'a world"
  assume i: "netifs w n = Some i"
  let ?i = "i\<lparr>n_state := st, n_input := inp\<rparr>"
  have "\<exists>a r. netif_add ref_netif n ip nm gw st init inp w = Some (Ok (r, w2\<lparr>app := a\<rparr>)) \<and>
      (r = n \<or> r = NULL) \<and> (e \<noteq> ERR_OK \<longrightarrow> r = NULL)"
    if "init n (w\<lparr>netifs := (netifs w)(n \<mapsto> ?i)\<rparr>) = Some (Ok (e, w2))" for e w2
    using that i
    by (intro exI [of _ "app w2"] exI [of _ "if e = ERR_OK then n else NULL"])
      (simp add: ref_netif_def set_netif_def run_simps)
  then show "\<exists>i'. n_state i' = st \<and> n_input i' = inp \<and>
      (\<forall>e w2. init n (w\<lparr>netifs := (netifs w)(n \<mapsto> i')\<rparr>) = Some (Ok (e, w2)) \<longrightarrow>
         (\<exists>a r. netif_add ref_netif n ip nm gw st init inp w = Some (Ok (r, w2\<lparr>app := a\<rparr>)) \<and>
            (r = n \<or> r = NULL) \<and> (e \<noteq> ERR_OK \<longrightarrow> r = NULL)))"
    by (intro exI [of _ ?i]) simp
qed

lemma ref_doc_netif [simp]: "doc_netif (ref_netif :: 'x netif_api)"
proof -
  have init: "\<exists>a. lwip_init ref_netif w = Some (Ok ((), w\<lparr>app := a\<rparr>))" for w :: "'x world"
    by (rule exI [of _ "app w"]) (simp add: ref_netif_def run_simps)
  have mib: "\<exists>a. mib2_init_netif ref_netif n sp w = Some (Ok ((), w\<lparr>netifs := (netifs w)(n \<mapsto> i\<lparr>n_ifinoctets := 0,
      n_ifindiscards := 0, n_ifoutoctets := 0, n_ifoutdiscards := 0\<rparr>), app := a\<rparr>))"
    if "netifs w n = Some i" for n sp i and w :: "'x world"
    by (rule exI [of _ "app w"]) (simp add: ref_netif_def set_netif_def that)
  have "netif_set_up ref_netif = (\<lambda>n. set_netif n (n_flags_update (or 0x01)) :: ('x world, unit) prog)"
    "netif_set_link_up ref_netif = (\<lambda>n. set_netif n (n_flags_update (or 0x04)) :: ('x world, unit) prog)"
    "netif_set_default ref_netif = (\<lambda>n. set_netif n (n_flags_update id) :: ('x world, unit) prog)"
    by (simp_all add: ref_netif_def)
  then show ?thesis unfolding doc_netif_def using init mib ref_netif_add set_netif_flags by metis
qed

lemma quiet_cb_netif: "cb_netif quiet_cb = 4" "cb_init quiet_cb = Some (\<lambda>s n. ret ())"
  by (simp_all add: quiet_cb_def)

lemma ref_netif_adds:
  "netif_add ref_netif 4 ip nm gw ca (cs_netif_init ref_netif) fn_netif_input w = Some (Ok (r, w2)) \<Longrightarrow> r = 4"
  by (auto simp: ref_netif_def set_netif_def cs_netif_init_def cs_low_level_init_def run_simps
      split: option.splits res.splits if_splits)

theorem cs_init_cases_witness:
  "\<exists>w'. cs_init roomy_tcp ref_udp ref_netif [9 \<mapsto> quiet_cb] 9 net_world = Some (Ok (0, w')) \<and>
     (\<exists>i'. netifs w' 4 = Some i' \<and> netif_wired i' 9) \<and>
     (\<exists>l c. tpcbs w' l = Some c \<and> tcp_listener_ready c 9) \<and> (\<exists>p. udp_socket_ready w' p 9)"
proof -
  have "netif_takes ref_netif 4 9" unfolding netif_takes_def using ref_netif_adds by blast
  moreover have "tcp_room roomy_tcp (tpcbs net_world)" "udp_room ref_udp (upcbs net_world)"
    by (simp_all add: roomy_tcp_room ref_udp_room net_world_def heap_addr_def)
  ultimately show ?thesis
    using cs_init_cases [OF ref_doc_netif roomy_tcp_setup ref_udp_setup, of 9 "[9 \<mapsto> quiet_cb]" quiet_cb,
        OF _ _ quiet_cb_netif(2) ret_flags quiet_cb_netif(1) _ net_world_at(1)]
    by auto
qed

text \<open>
  \<open>cs_init\<close> calls the \<open>init\<close> callback without looking: a callback structure that does not have one
  (\<open>go_cs_init_handle\<close> does not set it) makes \<open>cs_init\<close> call through a pointer nobody has set, as soon
  as the interface has been added.
\<close>

theorem cs_init_calls_unset_init:
  assumes "doc_netif N" and "ca \<noteq> NULL" and "C ca = Some cb" and "cb_init cb = None"
    and "cb_netif cb = n" and "n \<noteq> NULL" and "netifs w n = Some i"
    and "\<And>w' ip nm gw r w2. netif_add N n ip nm gw ca (cs_netif_init N) fn_netif_input w' = Some (Ok (r, w2)) \<Longrightarrow> r = n"
  shows "cs_init T U N C ca w = Some (Fault UnsetFunction)"
proof -
  from doc_netifD(1) [OF assms(1)] obtain a0 where in0: "lwip_init N w = Some (Ok ((), w\<lparr>app := a0\<rparr>))"
    by blast
  let ?w0 = "w\<lparr>app := a0\<rparr>"
  have "netifs ?w0 n = Some i" using assms(7) by simp
  from netif_add_run [OF assms(1,6) this] assms(8) obtain w1 where
    "netif_add N n (IP4_ADDR N 192 168 100 200) (IP4_ADDR N 255 255 255 0)
      (IP4_ADDR N 192 168 100 1) ca (cs_netif_init N) fn_netif_input ?w0 = Some (Ok (n, w1))"
    by metis
  with in0 assms(2-6) show ?thesis
    by (simp add: cs_init_def seq_run bnd_run deref_cb_def deref_run Let_def callp_run block_run)
qed

theorem cs_init_calls_unset_init_witness:
  "cs_init tight_tcp ref_udp ref_netif [9 \<mapsto> quiet_cb\<lparr>cb_init := None\<rparr>] 9 net_world = Some (Fault UnsetFunction)"
  by (rule cs_init_calls_unset_init [where cb = "quiet_cb\<lparr>cb_init := None\<rparr>", OF ref_doc_netif _ _ _ _ _ net_world_at(1) ref_netif_adds])
    (simp_all add: quiet_cb_def)

end
