(* ===== verification/Cs_Echo.thy ===== *)
theory Cs_Echo
  imports Cs_Tcp_System Cs_Netif
begin

text \<open>
  The echo program, \<open>src/test.c\<close>: the callbacks it registers, and that they keep the contracts the
  TCP side and the interface driver rely on. Its functions of the operating system are the fields of
  \<open>os_api\<close>; the set-up of the tap device is the argument \<open>tap_init\<close>.
\<close>

section \<open>The callbacks of test.c\<close>

record 'x os_api =
  os_printf :: "string \<Rightarrow> ('x world, unit) prog"
  os_write :: "u8 list \<Rightarrow> u16 \<Rightarrow> ('x world, int) prog"
  os_read :: "nat \<Rightarrow> ('x world, int \<times> u8 list) prog"

definition cs_tcp_accept :: "'x os_api \<Rightarrow> addr \<Rightarrow> addr \<Rightarrow> addr \<Rightarrow> ('x world, err_t) prog" where
  "cs_tcp_accept Os arg newpcb state = seq (os_printf Os ''---->cs_tcp_accept'') (ret ERR_OK)"

definition cs_tcp_recv ::
  "'x pbuf_api \<Rightarrow> 'x tcp_api \<Rightarrow> addr \<Rightarrow> addr \<Rightarrow> addr \<Rightarrow> addr \<Rightarrow> ('x world, err_t) prog" where
  "cs_tcp_recv P T arg tpcb p state =
     bnd (deref ess state) (\<lambda>e.
     seq (if es_p e = NULL then
            seq (update_es state (es_p_update (\<lambda>_. p)))
                (cs_tcp_raw_send P T tpcb state)
          else
            pbuf_cat P (es_p e) p)
         (ret ERR_OK))"

definition cs_tcp_send_done :: "addr \<Rightarrow> addr \<Rightarrow> addr \<Rightarrow> ('x world, unit) prog" where
  "cs_tcp_send_done arg tpcb state = ret ()"

definition cs_tcp_close :: "'x os_api \<Rightarrow> addr \<Rightarrow> addr \<Rightarrow> addr \<Rightarrow> ('x world, unit) prog" where
  "cs_tcp_close Os arg tpcb state = os_printf Os ''---->cs_tcp_close''"

definition cs_udp_recv ::
  "'x pbuf_api \<Rightarrow> 'x udp_api \<Rightarrow> addr \<Rightarrow> addr \<Rightarrow> addr \<Rightarrow> ip_addr_t \<Rightarrow> u16 \<Rightarrow> ('x world, err_t) prog" where
  "cs_udp_recv P U arg upcb p ipaddr port =
     seq (ignore (cs_udp_sendto U upcb p ipaddr port))
    (seq (ignore (pbuf_free P p))
    (ret ERR_OK))"

definition cs_output :: "'x os_api \<Rightarrow> addr \<Rightarrow> addr \<Rightarrow> u8 list \<Rightarrow> u16 \<Rightarrow> ('x world, int) prog" where
  "cs_output Os arg netif buf len = os_write Os buf len"

text \<open>
  \<open>read\<close> gives its result and the bytes it stored in the 1518 byte buffer. \<open>*readlen\<close> is assigned on
  one branch only.
\<close>

definition cs_input ::
  "'x pbuf_api \<Rightarrow> 'x os_api \<Rightarrow> addr \<Rightarrow> addr \<Rightarrow> ('x world, addr \<times> u16 option) prog" where
  "cs_input P Os arg netif =
     bnd (os_read Os 1518) (\<lambda>(len, buf).
     if len < 1 then ret (NULL, Some 0)
     else
       bnd (pbuf_alloc P PBUF_RAW (word_of_int len) PBUF_POOL) (\<lambda>p.
       seq (whenc (p \<noteq> NULL) (ignore (pbuf_take P p buf (word_of_int len))))
      (ret (p, None))))"

text \<open>The callback structure \<open>main\<close> fills. Its member \<open>state\<close> is never assigned.\<close>

definition echo_back ::
  "'x pbuf_api \<Rightarrow> 'x tcp_api \<Rightarrow> 'x udp_api \<Rightarrow> 'x os_api \<Rightarrow> (addr \<Rightarrow> addr \<Rightarrow> ('x world, unit) prog) \<Rightarrow>
   addr \<Rightarrow> addr \<Rightarrow> 'x cs_callback" where
  "echo_back P T U Os tap_init garbage netif = \<lparr>
     cb_state = garbage,
     cb_netif = netif,
     cb_tcp_accept = Some (cs_tcp_accept Os),
     cb_tcp_recv = Some (cs_tcp_recv P T),
     cb_tcp_send_done = Some cs_tcp_send_done,
     cb_tcp_close = Some (cs_tcp_close Os),
     cb_udp_recv = Some (cs_udp_recv P U),
     cb_output = Some (cs_output Os),
     cb_input = Some (cs_input P Os),
     cb_init = Some tap_init\<rparr>"

section \<open>Echoing\<close>

definition doc_echo :: "'x pbuf_api \<Rightarrow> 'x tcp_api \<Rightarrow> bool" where
  "doc_echo P T \<longleftrightarrow> doc_send P T \<and> doc_pbuf_cat P"

lemma echo_recv:
  assumes doc: "doc_echo P T" and conn: "conn w tpcb es qs" and e: "ess w es = Some e"
    and p: "p \<noteq> NULL" "sole_chain (pbufs w) p ps" "set ps \<inter> set qs = {}"
  shows "\<exists>w' rs. cs_tcp_recv P T s tpcb p es w = Some (Ok (ERR_OK, w')) \<and>
     local_change w w' es (es_state e) (set qs \<union> set ps) rs \<and>
     stream w' tpcb rs = stream w tpcb (qs @ ps) \<and> same_streams w w' tpcb"
proof (cases "qs = []")
  case True
  with conn e have p0: "es_p e = NULL" and nn: "es \<noteq> NULL" by (auto simp: conn_def)
  let ?e = "e\<lparr>es_p := p\<rparr>"
  let ?w = "w\<lparr>ess := (ess w)(es \<mapsto> ?e)\<rparr>"
  from conn p have conn': "conn ?w tpcb es ps" by (auto simp: conn_def)
  have e': "ess ?w es = Some ?e" by simp
  from doc have "doc_send P T" by (simp add: doc_echo_def)
  from send_local [OF this conn' e'] obtain w' rs where
    run: "cs_tcp_raw_send P T tpcb es ?w = Some (Ok ((), w'))" and
    lc: "local_change ?w w' es (es_state ?e) (set ps) rs" and
    st: "stream w' tpcb rs = stream w tpcb ps" "same_streams w w' tpcb"
    by auto
  from local_change_pre [OF lc e] have "local_change w w' es (es_state e) (set qs \<union> set ps) rs"
    using True by simp
  moreover have "cs_tcp_recv P T s tpcb p es w = Some (Ok (ERR_OK, w'))"
    using p0 nn e run by (simp add: cs_tcp_recv_def update_es_def run_simps)
  ultimately show ?thesis using st True by auto
next
  case False
  with conn e have q: "es_p e \<noteq> NULL" and nn: "es \<noteq> NULL" and ch: "sole_chain (pbufs w) (es_p e) qs"
    by (cases qs; auto simp: conn_def sole_chain_Cons)+
  from doc have "doc_pbuf_cat P" by (simp add: doc_echo_def)
  with ch p q obtain h where
    cat: "pbuf_cat P (es_p e) p w = Some (Ok ((), w\<lparr>pbufs := h\<rparr>))" and
    h: "sole_chain h (es_p e) (qs @ ps)" "\<forall>r. r \<notin> set (qs @ ps) \<longrightarrow> h r = pbufs w r"
      "chain_bytes h (qs @ ps) = chain_bytes (pbufs w) (qs @ ps)"
    unfolding doc_pbuf_cat_def by (metis Int_commute)
  have "cs_tcp_recv P T s tpcb p es w = Some (Ok (ERR_OK, w\<lparr>pbufs := h\<rparr>))"
    using q nn e cat by (simp add: cs_tcp_recv_def run_simps)
  moreover have "local_change w (w\<lparr>pbufs := h\<rparr>) es (es_state e) (set qs \<union> set ps) (qs @ ps)"
    by (rule local_changeI [where e = e and e' = e]) (use e h in \<open>auto simp: same_slots_def\<close>)
  moreover have "stream (w\<lparr>pbufs := h\<rparr>) tpcb (qs @ ps) = stream w tpcb (qs @ ps)"
    using h(3) by (simp add: stream_def enqueued_def)
  ultimately show ?thesis by fastforce
qed

section \<open>The echo program keeps the contracts\<close>

text \<open>The operating system: printing and writing only affect the outside world, as does reading.\<close>

definition doc_os :: "'x os_api \<Rightarrow> bool" where
  "doc_os Os \<longleftrightarrow> (\<forall>m. app_only (os_printf Os m)) \<and> (\<forall>d l. app_only (os_write Os d l)) \<and>
     (\<forall>n w. \<exists>len d a. os_read Os n w = Some (Ok ((len, d), w\<lparr>app := a\<rparr>)) \<and>
        len \<le> int n \<and> len \<le> int (length d))"

lemma app_only_seq_ret:
  assumes "app_only m"
  shows "app_only (seq m (ret r))"
  unfolding app_only_def
proof
  fix w
  from assms obtain x a where "m w = Some (Ok (x, w\<lparr>app := a\<rparr>))" unfolding app_only_def by blast
  then show "\<exists>x a. seq m (ret r) w = Some (Ok (x, w\<lparr>app := a\<rparr>))" by (auto simp: run_simps)
qed

lemma echo_input:
  assumes os: "doc_os Os" and doc: "doc_pbuf_alloc P" "doc_pbuf_take P"
  shows "(\<exists>l a. cs_input P Os s n w = Some (Ok ((NULL, l), w\<lparr>app := a\<rparr>))) \<or>
     (\<exists>p qs m l h a. cs_input P Os s n w = Some (Ok ((p, l), w\<lparr>pbufs := h, app := a\<rparr>)) \<and>
        fresh_chain (pbufs w) h p qs m)"
proof -
  from os obtain len d a where
    rd: "os_read Os 1518 w = Some (Ok ((len, d), w\<lparr>app := a\<rparr>))" and len: "len \<le> int (length d)"
    unfolding doc_os_def by blast
  show ?thesis
  proof (cases "len < 1")
    case True
    with rd show ?thesis by (auto simp: cs_input_def run_simps)
  next
    case False
    then have "0 \<le> len" by simp
    from udp_alloc_take [OF doc this len, of "w\<lparr>app := a\<rparr>"] show ?thesis
    proof (elim disjE exE conjE)
      assume "pbuf_alloc P PBUF_RAW (word_of_int len) PBUF_POOL (w\<lparr>app := a\<rparr>) = Some (Ok (NULL, w\<lparr>app := a\<rparr>))"
      with rd False show ?thesis by (auto simp: cs_input_def run_simps)
    next
      fix p ps h h'
      assume "pbuf_alloc P PBUF_RAW (word_of_int len) PBUF_POOL (w\<lparr>app := a\<rparr>) =
          Some (Ok (p, w\<lparr>app := a, pbufs := h\<rparr>))"
        and p: "p \<noteq> NULL" "\<forall>q \<in> set ps. pbufs (w\<lparr>app := a\<rparr>) q = None"
        and "pbuf_take P p d (word_of_int len) (w\<lparr>app := a, pbufs := h\<rparr>) =
          Some (Ok (ERR_OK, w\<lparr>app := a, pbufs := h'\<rparr>))"
        and ch: "sole_chain h' p ps" "\<forall>q. q \<notin> set ps \<longrightarrow> h' q = pbufs (w\<lparr>app := a\<rparr>) q"
      with rd False have "cs_input P Os s n w = Some (Ok ((p, None), w\<lparr>pbufs := h', app := a\<rparr>))"
        by (simp add: cs_input_def run_simps)
      moreover have "fresh_chain (pbufs w) h' p ps (length (chain_bytes h' ps))"
        using p ch by (simp add: fresh_chain_def)
      ultimately show ?thesis by blast
    qed
  qed
qed

text \<open>
  The echo program on a stack that behaves as documented. It is an application as \<open>tcp.c\<close> needs it
  and a device as \<open>cs.c\<close> needs it.
\<close>

locale echo_host =
  fixes P :: "'x pbuf_api" and T :: "'x tcp_api" and U :: "'x udp_api" and Os :: "'x os_api"
    and tap_init :: "addr \<Rightarrow> addr \<Rightarrow> ('x world, unit) prog" and garbage :: addr and netif :: addr and ca :: addr
  assumes stack: "doc_echo P T" "doc_pbuf_alloc P" "doc_pbuf_take P"
    and os: "doc_os Os"
    and ca: "ca \<noteq> NULL"
begin

lemma accept_done_close:
  "app_only (cs_tcp_accept Os s p e)" "app_only (cs_tcp_send_done s p e :: ('x world, unit) prog)" "app_only (cs_tcp_close Os s p e)"
  "app_only (cs_output Os s n d l)"
  using os
  by (simp_all add: doc_os_def cs_tcp_accept_def cs_tcp_send_done_def cs_tcp_close_def cs_output_def
      app_only_seq_ret)

end

sublocale echo_host \<subseteq> tcp_side: cs_recv_app "[ca \<mapsto> echo_back P T U Os tap_init garbage netif]" ca
  "echo_back P T U Os tap_init garbage netif"
proof unfold_locales
  show "\<exists>f. cb_tcp_recv (echo_back P T U Os tap_init garbage netif) = Some f \<and>
     (\<forall>s tpcb p es w qs ps e. conn w tpcb es qs \<longrightarrow> ess w es = Some e \<longrightarrow> es_callback e = ca \<longrightarrow>
        p \<noteq> NULL \<longrightarrow> sole_chain (pbufs w) p ps \<longrightarrow> set ps \<inter> set qs = {} \<longrightarrow>
        (\<exists>w' qs'. f s tpcb p es w = Some (Ok (ERR_OK, w')) \<and>
           local_change w w' es (es_state e) (set qs \<union> set ps) qs' \<and> same_streams w w' tpcb))"
  proof (intro exI [of _ "cs_tcp_recv P T"] conjI allI impI)
    fix s tpcb p es qs ps e and w :: "'x world"
    assume "conn w tpcb es qs" "ess w es = Some e" "p \<noteq> NULL" "sole_chain (pbufs w) p ps" "set ps \<inter> set qs = {}"
    from echo_recv [OF stack(1) this, of s]
    show "\<exists>w' qs'. cs_tcp_recv P T s tpcb p es w = Some (Ok (ERR_OK, w')) \<and>
           local_change w w' es (es_state e) (set qs \<union> set ps) qs' \<and> same_streams w w' tpcb" by blast
  qed (simp add: echo_back_def)
qed (use ca accept_done_close in \<open>simp_all add: echo_back_def\<close>)

sublocale echo_host \<subseteq> driver_side: cs_device "[ca \<mapsto> echo_back P T U Os tap_init garbage netif]" ca
  "echo_back P T U Os tap_init garbage netif"
proof unfold_locales
  show "\<exists>f. cb_input (echo_back P T U Os tap_init garbage netif) = Some f \<and> (\<forall>s n w.
       (\<exists>l a. f s n w = Some (Ok ((NULL, l), w\<lparr>app := a\<rparr>))) \<or>
       (\<exists>p qs m l h a. f s n w = Some (Ok ((p, l), w\<lparr>pbufs := h, app := a\<rparr>)) \<and>
          fresh_chain (pbufs w) h p qs m))"
  proof (intro exI [of _ "cs_input P Os"] conjI allI)
    fix s n and w :: "'x world"
    show "(\<exists>l a. cs_input P Os s n w = Some (Ok ((NULL, l), w\<lparr>app := a\<rparr>))) \<or>
       (\<exists>p qs m l h a. cs_input P Os s n w = Some (Ok ((p, l), w\<lparr>pbufs := h, app := a\<rparr>)) \<and>
          fresh_chain (pbufs w) h p qs m)"
      by (rule echo_input [OF os stack(2,3)])
  qed (simp add: echo_back_def)
qed (use ca accept_done_close in \<open>simp_all add: echo_back_def\<close>)

text \<open>The reference stack with an operating system that records what is printed.\<close>

definition ref_os :: "string list os_api" where
  "ref_os = \<lparr>os_printf = (\<lambda>m. modify (\<lambda>w. w\<lparr>app := app w @ [m]\<rparr>)), os_write = (\<lambda>d l. ret (uint l)),
     os_read = (\<lambda>n. ret (- 1, []))\<rparr>"

definition echo_ref :: "string list cs_callback" where
  "echo_ref = echo_back ref_pbuf ref_tcp ref_udp ref_os (\<lambda>s n. ret ()) 3 4"

lemma ref_os_doc: "doc_os ref_os"
proof -
  have "app_only (modify (\<lambda>w. w\<lparr>app := app w @ [m]\<rparr>) :: (string list world, unit) prog)" for m
    unfolding app_only_def modify_def by blast
  moreover have "ret (- 1, []) w = Some (Ok ((- 1, []), w\<lparr>app := app w\<rparr>))" for w :: "string list world"
    by (simp add: run_simps)
  then have "\<exists>len d a. os_read ref_os n w = Some (Ok ((len, d), w\<lparr>app := a\<rparr>)) \<and> len \<le> int n \<and> len \<le> int (length d)"
    for n w
    by (intro exI [of _ "- 1"] exI [of _ "[]"] exI [of _ "app w"]) (simp add: ref_os_def run_simps)
  ultimately show ?thesis unfolding doc_os_def by (simp add: ref_os_def)
qed

interpretation ref_echo: echo_host ref_pbuf ref_tcp ref_udp ref_os "\<lambda>s n. ret ()" 3 4 9
  by unfold_locales (simp_all add: doc_echo_def ref_os_doc)

section \<open>Properties of the echo program\<close>

lemma local_change_conn:
  assumes "local_change w w' es st mine rs" and "conn w tpcb es qs"
  shows "conn w' tpcb es rs"
proof -
  from assms(1) obtain e e' where "ess w es = Some e" "ess w' = (ess w)(es \<mapsto> e')"
    "sole_chain (pbufs w') (es_p e') rs" and sl: "same_slots w w'"
    by (rule local_changeE)
  moreover from sl assms(2) have "tpcbs w' tpcb \<noteq> None"
    unfolding same_slots_def conn_def by (metis map_option_is_None)
  ultimately show ?thesis using assms(2) by (simp add: conn_def)
qed

text \<open>
  The echo server echoes. When a chain arrives on an open connection, the receive callback of
  \<open>tcp.c\<close> with the application of \<open>test.c\<close> behind it returns \<open>ERR_OK\<close>, and what has been enqueued for
  the peer, followed by what is pending, has grown by exactly the received bytes, in order, however
  much of it lwIP took at once.
\<close>

theorem echo_returns_received_bytes:
  assumes "doc_echo P T" and "ca \<noteq> NULL" and "conn w tpcb es qs" and "ess w es = Some e"
    and "es_callback e = ca" and "es_state e \<in> {ES_ACCEPTED, ES_RECEIVED}"
    and "p \<noteq> NULL" and "sole_chain (pbufs w) p ps" and "set ps \<inter> set qs = {}"
  shows "\<exists>w' rs. cs_tcp_raw_recv P T [ca \<mapsto> echo_back P T U Os ti g n] es tpcb p ERR_OK w = Some (Ok (ERR_OK, w')) \<and>
     conn w' tpcb es rs \<and>
     enqueued w' tpcb @ chain_bytes (pbufs w') rs =
       enqueued w tpcb @ chain_bytes (pbufs w) qs @ chain_bytes (pbufs w) ps"
proof -
  let ?C = "[ca \<mapsto> echo_back P T U Os ti g n]"
  let ?e = "e\<lparr>es_state := ES_RECEIVED\<rparr>"
  let ?w = "w\<lparr>ess := (ess w)(es \<mapsto> ?e)\<rparr>"
  from assms(3) have nn: "es \<noteq> NULL" by (simp add: conn_def)
  from assms(3,4) have conn: "conn ?w tpcb es qs" by (simp add: conn_def)
  have e: "ess ?w es = Some ?e" and ps: "sole_chain (pbufs ?w) p ps" using assms(8) by simp_all
  from echo_recv [OF assms(1) conn e assms(7) ps assms(9), of g] obtain w' rs where
    run: "cs_tcp_recv P T g tpcb p es ?w = Some (Ok (ERR_OK, w'))" and
    lc: "local_change ?w w' es (es_state ?e) (set qs \<union> set ps) rs" and
    st: "enqueued w' tpcb @ chain_bytes (pbufs w') rs = enqueued w tpcb @ chain_bytes (pbufs w) (qs @ ps)"
    by (auto simp: stream_def enqueued_def)
  from raw_recv_open [OF nn assms(4,5,2) _ assms(6,7), of ?C "echo_back P T U Os ti g n"] run
  have "cs_tcp_raw_recv P T ?C es tpcb p ERR_OK w = Some (Ok (ERR_OK, w'))" by (simp add: echo_back_def)
  with local_change_conn [OF lc conn] st show ?thesis by auto
qed

text \<open>A connection with a send buffer of two bytes, on which three bytes arrive in one buffer.\<close>

definition echo_world :: "string list world" where
  "echo_world = \<lparr>pbufs = [8 \<mapsto> demo_buf NULL [10, 20, 30]], ess = [7 \<mapsto> demo_es NULL],
     tpcbs = [5 \<mapsto> blank_pcb\<lparr>t_snd_buf := 2\<rparr>], upcbs = Map.empty, netifs = Map.empty, app = []\<rparr>"

lemma ref_doc_echo: "doc_echo ref_pbuf ref_tcp"
  by (simp add: doc_echo_def)

theorem echo_returns_received_bytes_witness:
  "\<exists>w' rs. cs_tcp_raw_recv ref_pbuf ref_tcp [9 \<mapsto> echo_ref] 7 5 8 ERR_OK echo_world = Some (Ok (ERR_OK, w')) \<and>
     conn w' 5 7 rs \<and> enqueued w' 5 @ chain_bytes (pbufs w') rs = [10, 20, 30]"
proof -
  have "conn echo_world 5 7 []" "ess echo_world 7 = Some (demo_es NULL)"
    "sole_chain (pbufs echo_world) 8 [8]" "enqueued echo_world 5 = []"
    "chain_bytes (pbufs echo_world) [8] = [10, 20, 30]"
    by (simp_all add: conn_def echo_world_def demo_es_def demo_buf_def sole_chain_Cons sole_pbuf_def
        enqueued_def blank_pcb_def bytes_at_def)
  with echo_returns_received_bytes [OF ref_doc_echo, of 9 echo_world 5 7 "[]" "demo_es NULL" 8 "[8]"
      ref_udp ref_os "\<lambda>s n. ret ()" 3 4]
  show ?thesis by (simp add: demo_es_def echo_ref_def)
qed

text \<open>
  C21. Datagrams are echoed too, and none leaks. When a datagram arrives, the receive callback of
  \<open>udp.c\<close> with the application of \<open>test.c\<close> behind it sends the chain as it came to the address and port
  it came from, through the interface of the specification, and then frees it; a call without a
  datagram does nothing.
\<close>

theorem echo_answers_datagram:
  assumes "doc_udp P U" and "doc_route U g r s" and "ca \<noteq> NULL" and "upcb \<noteq> NULL"
    and "upcbs w upcb = Some c" and "p \<noteq> NULL" and "sole_chain (pbufs w) p ps"
  shows "\<exists>h e a. udp_sendto_if_src U upcb p ipaddr port
         (udp_netif g r s (ip_addr_ismulticast U) c ipaddr) (u_local_ip c) w =
       Some (Ok (e, w\<lparr>pbufs := h, app := a\<rparr>)) \<and>
     cs_udp_raw_recv [ca \<mapsto> echo_back P T U Os ti gb n] ca upcb p ipaddr port w =
       Some (Ok ((), w\<lparr>pbufs := pbufs w |` (- set ps), app := a\<rparr>)) \<and>
     cs_udp_raw_recv [ca \<mapsto> echo_back P T U Os ti gb n] ca upcb NULL ipaddr port w = Some (Ok ((), w))"
proof -
  from assms(1) have doc: "doc_pbuf_free P" "doc_udp_send U" by (auto simp: doc_udp_def)
  from udp_send_run [OF doc(2) assms(2,4-7)] obtain e h a where
    call: "cs_udp_sendto U upcb p ipaddr port w = udp_sendto_if_src U upcb p ipaddr port
      (udp_netif g r s (ip_addr_ismulticast U) c ipaddr) (u_local_ip c) w" and
    snd: "cs_udp_sendto U upcb p ipaddr port w = Some (Ok (e, w\<lparr>pbufs := h, app := a\<rparr>))" and
    h: "sole_chain h p ps" "\<forall>q. q \<notin> set ps \<longrightarrow> h q = pbufs w q"
    by blast
  let ?w = "w\<lparr>pbufs := h, app := a\<rparr>"
  from sole_chain_is_chain [OF h(1)] have "is_chain (pbufs ?w) p ps" by simp
  with doc(1) assms(6) obtain k where
    fre: "pbuf_free P p ?w = Some (Ok (k, ?w\<lparr>pbufs := free_chain ps (pbufs ?w)\<rparr>))"
    unfolding doc_pbuf_free_def by blast
  have "h |` (- set ps) = pbufs w |` (- set ps)" using h(2) by (auto simp: restrict_map_def fun_eq_iff)
  with free_chain_sole [OF h(1)] have "free_chain ps h = pbufs w |` (- set ps)" by simp
  with fre snd assms(3,6) have "cs_udp_raw_recv [ca \<mapsto> echo_back P T U Os ti gb n] ca upcb p ipaddr port w =
      Some (Ok ((), w\<lparr>pbufs := pbufs w |` (- set ps), app := a\<rparr>))"
    by (simp add: cs_udp_raw_recv_def deref_cb_def run_simps echo_back_def cs_udp_recv_def)
  moreover from call snd have "udp_sendto_if_src U upcb p ipaddr port
      (udp_netif g r s (ip_addr_ismulticast U) c ipaddr) (u_local_ip c) w = Some (Ok (e, ?w))" by simp
  moreover have "cs_udp_raw_recv [ca \<mapsto> echo_back P T U Os ti gb n] ca upcb NULL ipaddr port w = Some (Ok ((), w))"
    by (simp add: cs_udp_raw_recv_def run_simps)
  ultimately show ?thesis by blast
qed

text \<open>An empty stack, and one with a UDP socket and a datagram of two bytes.\<close>

definition echo_start :: "string list world" where
  "echo_start = \<lparr>pbufs = Map.empty, ess = Map.empty, tpcbs = Map.empty, upcbs = Map.empty,
     netifs = Map.empty, app = []\<rparr>"

definition datagram_world :: "string list world" where
  "datagram_world = echo_start\<lparr>pbufs := [8 \<mapsto> demo_buf NULL [10, 20]], upcbs := upcbs (udp_world 0 0)\<rparr>"

theorem echo_answers_datagram_witness:
  "\<exists>w'. cs_udp_raw_recv [9 \<mapsto> echo_ref] 9 6 8 IP_ANY_TYPE 53 datagram_world = Some (Ok ((), w')) \<and>
     pbufs w' = Map.empty \<and> upcbs w' = upcbs datagram_world"
proof -
  have u: "upcbs datagram_world 6 = Some \<lparr>u_local_ip = IP_ANY_TYPE, u_local_port = 7, u_netif_idx = 0,
      u_mcast_ifindex = 0, u_mcast_ip4 = 0, u_recv = fn_cs_udp_raw_recv, u_recv_arg = 9\<rparr>"
    and ch: "sole_chain (pbufs datagram_world) 8 [8]" and fr: "pbufs datagram_world |` (- set [8]) = Map.empty"
    by (auto simp: datagram_world_def udp_world_def sole_chain_Cons sole_pbuf_def demo_buf_def restrict_map_def)
  from echo_answers_datagram [OF ref_doc_udp ref_udp_route _ _ u _ ch, of 9 IP_ANY_TYPE 53 ref_tcp ref_os
      "\<lambda>s n. ret ()" 3 4]
  show ?thesis unfolding fr echo_ref_def by auto
qed

section \<open>Runs of the echo program\<close>

text \<open>The state after the first connection to an empty stack.\<close>

definition echo_one :: "string list world" where
  "echo_one = echo_start\<lparr>ess := [heap_addr \<mapsto> fresh_es blank_es 5 9], tpcbs := [5 \<mapsto> attach heap_addr blank_pcb],
     app := [''---->cs_tcp_accept'']\<rparr>"

lemma echo_app [simp]: "cs_recv_app [9 \<mapsto> echo_ref] 9 echo_ref"
  unfolding echo_ref_def by (rule ref_echo.tcp_side.cs_recv_app_axioms)

lemma ref_doc_stack [simp]: "doc_stack ref_pbuf ref_tcp"
  by (simp add: doc_stack_def)

lemma echo_accept_event:
  "tcp_event_run ref_pbuf ref_tcp [9 \<mapsto> echo_ref] 9 (EvAccept 5 blank_pcb) echo_start = Some (Ok ((), echo_one))"
  by (simp add: put_pcb_def run_simps cs_tcp_raw_accept_def ref_tcp_def ref_pbuf_def set_pcb_def echo_start_def
      update_es_def heap_addr_def deref_cb_def echo_ref_def echo_back_def cs_tcp_accept_def ref_os_def
      echo_one_def fresh_es_def attach_def)

lemma echo_start_reach: "tcp_reach ref_pbuf ref_tcp [9 \<mapsto> echo_ref] 9 echo_start"
  by (rule tcp_reach.start) (simp add: tcp_init_world_def echo_start_def)

lemma blank_idle: "idle_slots blank_pcb"
  by (simp add: idle_slots_def blank_pcb_def)

lemma echo_one_reach: "tcp_reach ref_pbuf ref_tcp [9 \<mapsto> echo_ref] 9 echo_one"
  by (rule tcp_reach.event [OF echo_start_reach _ echo_accept_event]) (simp add: echo_start_def blank_idle)

lemma echo_one_conn: "ess echo_one heap_addr = Some (fresh_es blank_es 5 9)" "es_pcb (fresh_es blank_es 5 9) = 5"
  by (simp_all add: echo_one_def fresh_es_def)

theorem tcp_run_never_faults_witness:
  "\<exists>w'. tcp_event_run ref_pbuf ref_tcp [9 \<mapsto> echo_ref] 9 (EvFin 5) echo_one = Some (Ok ((), w'))"
  by (rule tcp_run_never_faults [OF echo_app ref_doc_stack echo_one_reach])
    (simp_all add: echo_one_def is_reset_def)

theorem tcp_run_never_leaks_witness:
  "\<exists>ch. \<forall>q. pbufs echo_one q \<noteq> None \<longrightarrow> (\<exists>es. ess echo_one es \<noteq> None \<and> q \<in> set (ch es))"
  using tcp_run_never_leaks [OF echo_app ref_doc_stack echo_one_reach] by blast

theorem tcp_run_connections_wired_witness:
  "es_state (fresh_es blank_es 5 9) \<in> {ES_ACCEPTED, ES_RECEIVED} \<and>
   (\<exists>c. tpcbs echo_one 5 = Some c \<and> t_callback_arg c = heap_addr \<and> t_recv c = fn_cs_tcp_raw_recv)"
  using tcp_run_connections_wired [OF echo_app ref_doc_stack echo_one_reach echo_one_conn(1)] echo_one_conn(2)
  by auto

theorem tcp_run_reset_faults_witness:
  "tcp_event_run ref_pbuf ref_tcp [9 \<mapsto> echo_ref] 9 (EvReset 5 ERR_ABRT) echo_one = Some (Fault UseAfterFree)"
  using tcp_run_reset_faults [OF echo_app ref_doc_stack echo_one_reach echo_one_conn(1)] echo_one_conn(2)
  by simp

end
