(* ===== verification/Lwipcs.thy ===== *)
theory Lwipcs
  imports Cs_Echo
begin

text \<open>
  The bridge to Go, \<open>lwipcs.c\<close>: the callbacks that forward events of the stack to handlers exported
  by Go, and the functions Go calls, which go through the structure \<open>go_cs_callback\<close> of function
  pointers registered with \<open>go_cs_init\<close>. The Go handlers are the fields of \<open>go_api\<close>; \<open>G\<close> is the
  value of the global pointer \<open>go_cs_\<close>.
\<close>

section \<open>Data\<close>

text \<open>\<open>go_cs_callback\<close> of \<open>lwipcs.h\<close>. Function pointers nobody has assigned are \<open>None\<close>.\<close>

record 'x go_cs_callback =
  g_state :: addr
  g_netif :: addr
  g_tcp_recved :: "(addr \<Rightarrow> u16 \<Rightarrow> ('x world, unit) prog) option"
  g_tcp_send :: "(addr \<Rightarrow> addr \<Rightarrow> u8 list \<Rightarrow> int \<Rightarrow> ('x world, int) prog) option"
  g_tcp_close :: "(addr \<Rightarrow> ('x world, err_t) prog) option"
  g_udp_send ::
    "(addr \<Rightarrow> ip_addr_t \<Rightarrow> u16 \<Rightarrow> ip_addr_t \<Rightarrow> u16 \<Rightarrow> u8 list \<Rightarrow> int \<Rightarrow> ('x world, int) prog) option"
  g_ip_get :: "(ip_addr_t \<Rightarrow> u8 list \<Rightarrow> u8 list res) option"
  g_pbuf_alloc :: "(pbuf_layer \<Rightarrow> u16 \<Rightarrow> pbuf_type \<Rightarrow> ('x world, addr) prog) option"
  g_pbuf_take :: "(addr \<Rightarrow> u8 list \<Rightarrow> u16 \<Rightarrow> ('x world, err_t) prog) option"
  g_pbuf_copy :: "(addr \<Rightarrow> u16 \<Rightarrow> u16 \<Rightarrow> ('x world, u8 list) prog) option"
  g_pbuf_free :: "(addr \<Rightarrow> ('x world, u8) prog) option"
  g_netif_proc :: "(addr \<Rightarrow> ('x world, unit) prog) option"
  g_input :: "(addr \<Rightarrow> u16 \<Rightarrow> ('x world, int \<times> u8 list) prog) option"
  g_output :: "(addr \<Rightarrow> u8 list \<Rightarrow> u16 \<Rightarrow> ('x world, int) prog) option"

text \<open>The handlers Go exports.\<close>

record 'x go_api =
  go_tcp_accept_h :: "addr \<Rightarrow> addr \<Rightarrow> addr \<Rightarrow> ('x world, int) prog"
  go_tcp_recv_h :: "addr \<Rightarrow> addr \<Rightarrow> addr \<Rightarrow> addr \<Rightarrow> ('x world, int) prog"
  go_tcp_send_done_h :: "addr \<Rightarrow> addr \<Rightarrow> addr \<Rightarrow> ('x world, int) prog"
  go_tcp_close_h :: "addr \<Rightarrow> addr \<Rightarrow> addr \<Rightarrow> ('x world, int) prog"
  go_udp_recv_h :: "addr \<Rightarrow> addr \<Rightarrow> ip_addr_t \<Rightarrow> int \<Rightarrow> addr \<Rightarrow> ('x world, int) prog"
  go_input_h :: "addr \<Rightarrow> addr \<Rightarrow> ('x world, addr \<times> u16 option) prog"

text \<open>The global \<open>go_cs_\<close>: null until \<open>go_cs_init\<close> assigns it.\<close>

type_synonym 'x go_cs = "'x go_cs_callback option"

definition go_cs_init :: "'x go_cs_callback \<Rightarrow> 'x go_cs" where
  "go_cs_init cb = Some cb"

text \<open>\<open>go_cs_->f\<close>: the pointer and the function pointer both have to be set.\<close>

definition via :: "'x go_cs \<Rightarrow> ('x go_cs_callback \<Rightarrow> 'f option) \<Rightarrow> ('f \<Rightarrow> ('x world, 'a) prog) \<Rightarrow> ('x world, 'a) prog" where
  "via G sel k = (case G of None \<Rightarrow> fail NullDeref | Some cb \<Rightarrow> callp (sel cb) k)"

section \<open>Events of the stack, forwarded to Go\<close>

definition go_cs_tcp_accept_h :: "'x go_api \<Rightarrow> addr \<Rightarrow> addr \<Rightarrow> addr \<Rightarrow> ('x world, err_t) prog" where
  "go_cs_tcp_accept_h H arg newpcb state =
     bnd (go_tcp_accept_h H arg newpcb state) (\<lambda>r. ret (s8_of_int r))"

definition go_cs_tcp_recv_h ::
  "'x go_api \<Rightarrow> 'x go_cs \<Rightarrow> addr \<Rightarrow> addr \<Rightarrow> addr \<Rightarrow> addr \<Rightarrow> ('x world, err_t) prog" where
  "go_cs_tcp_recv_h H G arg tpcb p state =
     bnd (go_tcp_recv_h H arg tpcb state p) (\<lambda>r.
     seq (ignore (via G g_pbuf_free (\<lambda>f. f p)))
    (ret (s8_of_int r)))"

definition go_cs_tcp_send_done_h :: "'x go_api \<Rightarrow> addr \<Rightarrow> addr \<Rightarrow> addr \<Rightarrow> ('x world, unit) prog" where
  "go_cs_tcp_send_done_h H arg tpcb state = ignore (go_tcp_send_done_h H arg tpcb state)"

definition go_cs_tcp_close_h :: "'x go_api \<Rightarrow> addr \<Rightarrow> addr \<Rightarrow> addr \<Rightarrow> ('x world, unit) prog" where
  "go_cs_tcp_close_h H arg tpcb state = ignore (go_tcp_close_h H arg tpcb state)"

definition go_cs_udp_recv_h ::
  "'x go_api \<Rightarrow> 'x go_cs \<Rightarrow> addr \<Rightarrow> addr \<Rightarrow> addr \<Rightarrow> ip_addr_t \<Rightarrow> u16 \<Rightarrow> ('x world, err_t) prog" where
  "go_cs_udp_recv_h H G arg upcb p ipaddr port =
     bnd (go_udp_recv_h H arg upcb ipaddr (uint port) p) (\<lambda>r.
     seq (ignore (via G g_pbuf_free (\<lambda>f. f p)))
    (ret (s8_of_int r)))"

definition go_cs_output_h ::
  "'x go_cs \<Rightarrow> addr \<Rightarrow> addr \<Rightarrow> u8 list \<Rightarrow> u16 \<Rightarrow> ('x world, int) prog" where
  "go_cs_output_h G arg netif buf len =
     (case G of None \<Rightarrow> fail NullDeref | Some cb \<Rightarrow> callp (g_output cb) (\<lambda>f. f (g_state cb) buf len))"

definition go_cs_input_h :: "'x go_api \<Rightarrow> addr \<Rightarrow> addr \<Rightarrow> ('x world, addr \<times> u16 option) prog" where
  "go_cs_input_h H arg netif = go_input_h H arg netif"

text \<open>\<open>go_cs_init_handle\<close> fills the callback structure of \<open>cs.h\<close>, all but \<open>state\<close>, \<open>netif\<close> and \<open>init\<close>.\<close>

definition go_cs_init_handle :: "'x go_api \<Rightarrow> 'x go_cs \<Rightarrow> 'x cs_callback \<Rightarrow> 'x cs_callback" where
  "go_cs_init_handle H G cb = cb\<lparr>
     cb_tcp_accept := Some (go_cs_tcp_accept_h H),
     cb_tcp_recv := Some (go_cs_tcp_recv_h H G),
     cb_tcp_send_done := Some (go_cs_tcp_send_done_h H),
     cb_tcp_close := Some (go_cs_tcp_close_h H),
     cb_udp_recv := Some (go_cs_udp_recv_h H G),
     cb_output := Some (go_cs_output_h G),
     cb_input := Some (go_cs_input_h H)\<rparr>"

section \<open>Calls from Go\<close>

definition go_cs_tcp_recved :: "'x go_cs \<Rightarrow> addr \<Rightarrow> u16 \<Rightarrow> ('x world, unit) prog" where
  "go_cs_tcp_recved G tpcb len = via G g_tcp_recved (\<lambda>f. f tpcb len)"

definition go_cs_tcp_send :: "'x go_cs \<Rightarrow> addr \<Rightarrow> addr \<Rightarrow> u8 list \<Rightarrow> int \<Rightarrow> ('x world, int) prog" where
  "go_cs_tcp_send G tpcb state buf buf_len = via G g_tcp_send (\<lambda>f. f tpcb state buf buf_len)"

definition go_cs_tcp_close :: "'x go_cs \<Rightarrow> addr \<Rightarrow> addr \<Rightarrow> ('x world, int) prog" where
  "go_cs_tcp_close G tpcb state = via G g_tcp_close (\<lambda>f. f tpcb)"

definition go_cs_udp_send ::
  "'x go_cs \<Rightarrow> addr \<Rightarrow> ip_addr_t \<Rightarrow> u16 \<Rightarrow> ip_addr_t \<Rightarrow> u16 \<Rightarrow> u8 list \<Rightarrow> int \<Rightarrow> ('x world, int) prog" where
  "go_cs_udp_send G upcb laddr lport raddr rport buf buf_len =
     via G g_udp_send (\<lambda>f. f upcb laddr lport raddr rport buf buf_len)"

definition go_cs_tcp_local_ip :: "addr \<Rightarrow> ('x world, ip_addr_t) prog" where
  "go_cs_tcp_local_ip tpcb = bnd (deref tpcbs tpcb) (\<lambda>c. ret (t_local_ip c))"

definition go_cs_tcp_local_port :: "addr \<Rightarrow> ('x world, int) prog" where
  "go_cs_tcp_local_port tpcb = bnd (deref tpcbs tpcb) (\<lambda>c. ret (uint (t_local_port c)))"

definition go_cs_tcp_remote_ip :: "addr \<Rightarrow> ('x world, ip_addr_t) prog" where
  "go_cs_tcp_remote_ip tpcb = bnd (deref tpcbs tpcb) (\<lambda>c. ret (t_remote_ip c))"

definition go_cs_tcp_remote_port :: "addr \<Rightarrow> ('x world, int) prog" where
  "go_cs_tcp_remote_port tpcb = bnd (deref tpcbs tpcb) (\<lambda>c. ret (uint (t_remote_port c)))"

definition go_cs_udp_local_ip :: "addr \<Rightarrow> ('x world, ip_addr_t) prog" where
  "go_cs_udp_local_ip upcb = bnd (deref upcbs upcb) (\<lambda>c. ret (u_local_ip c))"

definition go_cs_udp_local_port :: "addr \<Rightarrow> ('x world, int) prog" where
  "go_cs_udp_local_port upcb = bnd (deref upcbs upcb) (\<lambda>c. ret (uint (u_local_port c)))"

definition go_cs_ip_len :: "ip_addr_t \<Rightarrow> int" where
  "go_cs_ip_len a = (if ip_type a = IPADDR_TYPE_V6 then 16 else 4)"

definition go_cs_ip_get :: "'x go_cs \<Rightarrow> ip_addr_t \<Rightarrow> u8 list \<Rightarrow> u8 list res" where
  "go_cs_ip_get G a buf = (case G of None \<Rightarrow> Fault NullDeref | Some cb \<Rightarrow>
     (case g_ip_get cb of None \<Rightarrow> Fault UnsetFunction | Some f \<Rightarrow> f a buf))"

definition go_cs_pbuf_len :: "addr \<Rightarrow> ('x world, int) prog" where
  "go_cs_pbuf_len p = bnd (deref pbufs p) (\<lambda>b. ret (uint (pb_tot_len b)))"

definition go_cs_pbuf_alloc :: "'x go_cs \<Rightarrow> u16 \<Rightarrow> ('x world, addr) prog" where
  "go_cs_pbuf_alloc G len = via G g_pbuf_alloc (\<lambda>f. f PBUF_RAW len PBUF_POOL)"

definition go_cs_pbuf_take :: "'x go_cs \<Rightarrow> addr \<Rightarrow> u8 list \<Rightarrow> ('x world, unit) prog" where
  "go_cs_pbuf_take G p buf =
     bnd (deref pbufs p) (\<lambda>b. ignore (via G g_pbuf_take (\<lambda>f. f p buf (pb_tot_len b))))"

text \<open>The bytes \<open>go_cs_pbuf_copy\<close> stores at the start of the caller's array.\<close>

definition go_cs_pbuf_copy :: "'x go_cs \<Rightarrow> addr \<Rightarrow> ('x world, u8 list) prog" where
  "go_cs_pbuf_copy G p = bnd (deref pbufs p) (\<lambda>b. via G g_pbuf_copy (\<lambda>f. f p (pb_tot_len b) 0))"

definition go_cs_pbuf_free :: "'x go_cs \<Rightarrow> addr \<Rightarrow> ('x world, unit) prog" where
  "go_cs_pbuf_free G p = ignore (via G g_pbuf_free (\<lambda>f. f p))"

definition go_cs_netif_get :: "'x go_cs \<Rightarrow> ('x world, addr) prog" where
  "go_cs_netif_get G = (case G of None \<Rightarrow> fail NullDeref | Some cb \<Rightarrow> ret (g_netif cb))"

definition go_cs_netif_proc :: "'x go_cs \<Rightarrow> addr \<Rightarrow> ('x world, unit) prog" where
  "go_cs_netif_proc G netif = via G g_netif_proc (\<lambda>f. f netif)"

definition go_cs_input :: "'x go_cs \<Rightarrow> u16 \<Rightarrow> ('x world, int \<times> u8 list) prog" where
  "go_cs_input G buflen = (case G of None \<Rightarrow> fail NullDeref | Some cb \<Rightarrow>
     callp (g_input cb) (\<lambda>f. f (g_state cb) buflen))"

section \<open>The programs that host Go\<close>

text \<open>
  The structure the main program of \<open>csocks/pc/test/test.c\<close> (and the one of \<open>echo/test/test.c\<close>)
  registers: lwIP's own functions and those of this repository. \<open>inp\<close> and \<open>outp\<close> read and write the
  tap device.
\<close>

definition go_back ::
  "'x pbuf_api \<Rightarrow> 'x tcp_api \<Rightarrow> 'x udp_api \<Rightarrow> 'x netif_api \<Rightarrow> bool \<Rightarrow> 'x callbacks \<Rightarrow>
   (addr \<Rightarrow> u16 \<Rightarrow> ('x world, int \<times> u8 list) prog) \<Rightarrow> (addr \<Rightarrow> u8 list \<Rightarrow> u16 \<Rightarrow> ('x world, int) prog) \<Rightarrow>
   addr \<Rightarrow> addr \<Rightarrow> 'x go_cs_callback" where
  "go_back P T U N char_signed C inp outp cb_addr netif = \<lparr>
     g_state = cb_addr,
     g_netif = netif,
     g_tcp_recved = Some (tcp_recved T),
     g_tcp_send = Some (cs_tcp_char_send P T),
     g_tcp_close = Some (tcp_close T),
     g_udp_send = Some (cs_udp_char_sendto P U),
     g_ip_get = Some (cs_ip_get char_signed N),
     g_pbuf_alloc = Some (pbuf_alloc P),
     g_pbuf_take = Some (pbuf_take P),
     g_pbuf_copy = Some (pbuf_copy_partial P),
     g_pbuf_free = Some (pbuf_free P),
     g_netif_proc = Some (cs_netif_proc P N C),
     g_input = Some inp,
     g_output = Some outp\<rparr>"

section \<open>Properties of the bridge\<close>

text \<open>A handler that looks at the event, keeps what it wants in Go's own memory and returns \<open>r\<close>.\<close>

definition go_reads :: "('x world, int) prog \<Rightarrow> int \<Rightarrow> bool" where
  "go_reads m r \<longleftrightarrow> (\<forall>w. \<exists>a. m w = Some (Ok (r, w\<lparr>app := a\<rparr>)))"

lemma go_recv_run:
  assumes "doc_pbuf_free P" and "go_reads (go_tcp_recv_h H arg tpcb es p) r"
    and p: "p \<noteq> NULL" "sole_chain (pbufs w) p ps"
  shows "\<exists>a. go_cs_tcp_recv_h H (go_cs_init (go_back P T U N cs C inp outp ba ni)) arg tpcb p es w =
     Some (Ok (s8_of_int r, w\<lparr>pbufs := pbufs w |` (- set ps), app := a\<rparr>))"
proof -
  from assms(2) obtain a where go: "go_tcp_recv_h H arg tpcb es p w = Some (Ok (r, w\<lparr>app := a\<rparr>))"
    unfolding go_reads_def by blast
  let ?w = "w\<lparr>app := a\<rparr>"
  from sole_chain_is_chain [OF p(2)] have "is_chain (pbufs ?w) p ps" by simp
  with assms(1) p(1) obtain k where
    "pbuf_free P p ?w = Some (Ok (k, ?w\<lparr>pbufs := free_chain ps (pbufs ?w)\<rparr>))"
    unfolding doc_pbuf_free_def by blast
  with go free_chain_sole [OF p(2)] show ?thesis
    by (intro exI [of _ a])
      (simp add: go_cs_tcp_recv_h_def via_def go_cs_init_def go_back_def run_simps)
qed

text \<open>
  The receive callback of the Go bridge frees what it is given. Whatever the Go handler returns,
  the received chain is freed once when the callback returns, no other buffer is touched, and the
  result is the one of the handler, cut to the eight bits of \<open>err_t\<close>.
\<close>

theorem go_cs_tcp_recv_h_frees:
  assumes "doc_pbuf_free P" and "go_reads (go_tcp_recv_h H arg tpcb es p) r"
    and "p \<noteq> NULL" and "sole_chain (pbufs w) p ps"
  shows "\<exists>a. go_cs_tcp_recv_h H (go_cs_init (go_back P T U N cs C inp outp ba ni)) arg tpcb p es w =
     Some (Ok ((r + 128) mod 256 - 128, w\<lparr>pbufs := pbufs w |` (- set ps), app := a\<rparr>))"
  using go_recv_run [OF assms] by (simp add: s8_of_int_def)

text \<open>Handlers for the witnesses: they return \<open>r\<close> for received data and 0 for everything else.\<close>

definition go_const :: "int \<Rightarrow> 'x go_api" where
  "go_const r = \<lparr>go_tcp_accept_h = (\<lambda>a p s. ret 0), go_tcp_recv_h = (\<lambda>a t s p. ret r),
     go_tcp_send_done_h = (\<lambda>a t s. ret 0), go_tcp_close_h = (\<lambda>a t s. ret 0),
     go_udp_recv_h = (\<lambda>a u i n p. ret 0), go_input_h = (\<lambda>a n. ret (NULL, Some 0))\<rparr>"

lemma go_const_reads: "go_reads (go_tcp_recv_h (go_const r) a t s p) r"
proof -
  have "ret r w = Some (Ok (r, w\<lparr>app := app w\<rparr>))" for w :: "'a world" by (simp add: run_simps)
  then show ?thesis unfolding go_reads_def go_const_def by (metis select_convs(2))
qed

definition go_ref :: "unit go_cs" where
  "go_ref = go_cs_init (go_back ref_pbuf ref_tcp ref_udp ref_netif True [9 \<mapsto> quiet_cb]
     (\<lambda>s n. ret (- 1, [])) (\<lambda>s d l. ret (uint l)) 9 4)"

text \<open>A connection on which one buffer has just arrived.\<close>

definition go_world :: "unit world" where
  "go_world = idle_world\<lparr>pbufs := [8 \<mapsto> demo_buf NULL [10, 20]]\<rparr>"

lemma go_world_chain: "sole_chain (pbufs go_world) 8 [8]" "pbufs go_world |` (- set [8]) = Map.empty"
  by (auto simp: go_world_def sole_chain_Cons sole_pbuf_def demo_buf_def restrict_map_def)

theorem go_cs_tcp_recv_h_frees_witness:
  "\<exists>w'. go_cs_tcp_recv_h (go_const 257) go_ref 3 5 8 7 go_world = Some (Ok (1, w')) \<and> pbufs w' = Map.empty"
  using go_cs_tcp_recv_h_frees [OF ref_pbuf_doc(2) go_const_reads _ go_world_chain(1), where r = 257 and arg = 3
      and tpcb = 5 and es = 7 and T = ref_tcp and U = ref_udp and N = ref_netif and cs = True
      and C = "[9 \<mapsto> quiet_cb]" and inp = "\<lambda>s n. ret (- 1, [])" and outp = "\<lambda>s d l. ret (uint l)"
      and ba = 9 and ni = 4]
  unfolding go_world_chain(2) go_ref_def by auto

text \<open>
  Data the Go side refuses is freed and yet handed back. When the Go handler returns non-zero
  (\<open>go_tcp_recv_h\<close> returns 1 for a connection the application has closed already), the receive callback
  of \<open>tcp.c\<close> returns this to lwIP, which then keeps the chain to deliver it again, as documented; but
  the bridge has freed it.
\<close>

theorem go_refused_data_is_freed:
  assumes "doc_pbuf_free P" and "\<And>arg. go_reads (go_tcp_recv_h H arg tpcb es p) r" and "s8_of_int r \<noteq> ERR_OK"
    and "G = go_cs_init (go_back P T U N cs C' inp outp ba ni)" and "C ca = Some (go_cs_init_handle H G cb)"
    and "ca \<noteq> NULL" and "es \<noteq> NULL" and "ess w es = Some e" and "es_callback e = ca"
    and "es_state e \<in> {ES_ACCEPTED, ES_RECEIVED}" and "p \<noteq> NULL" and "sole_chain (pbufs w) p ps"
  shows "\<exists>err w'. cs_tcp_raw_recv P T C es tpcb p ERR_OK w = Some (Ok (err, w')) \<and> err \<noteq> ERR_OK \<and>
     pbufs w' p = None"
proof -
  let ?e = "e\<lparr>es_state := ES_RECEIVED\<rparr>"
  let ?w = "w\<lparr>ess := (ess w)(es \<mapsto> ?e)\<rparr>"
  have ps: "sole_chain (pbufs ?w) p ps" using assms(12) by simp
  have head: "p \<in> set ps" using assms(11,12) by (cases ps) (auto simp: sole_chain_Cons)
  from go_recv_run [OF assms(1,2,11) ps, where arg = "cb_state cb"] obtain a where
    "go_cs_tcp_recv_h H G (cb_state cb) tpcb p es ?w =
      Some (Ok (s8_of_int r, ?w\<lparr>pbufs := pbufs ?w |` (- set ps), app := a\<rparr>))"
    unfolding assms(4) by blast
  with raw_recv_open [where C = C and cb = "go_cs_init_handle H G cb" and P = P and T = T and tpcb = tpcb,
      OF assms(7,8,9,6,5,10,11)]
  have "cs_tcp_raw_recv P T C es tpcb p ERR_OK w =
      Some (Ok (s8_of_int r, ?w\<lparr>pbufs := pbufs ?w |` (- set ps), app := a\<rparr>))"
    by (simp add: go_cs_init_handle_def)
  with assms(3) head show ?thesis by (simp add: restrict_map_def)
qed

theorem go_refused_data_is_freed_witness:
  "\<exists>err w'. cs_tcp_raw_recv ref_pbuf ref_tcp [9 \<mapsto> go_cs_init_handle (go_const 1) go_ref quiet_cb] 7 5 8 ERR_OK
       go_world = Some (Ok (err, w')) \<and> err \<noteq> ERR_OK \<and> pbufs w' 8 = None"
  by (rule go_refused_data_is_freed [OF ref_pbuf_doc(2) go_const_reads _ go_ref_def _ _ _ _ _ _ _ go_world_chain(1),
      where e = "demo_es NULL"])
    (simp_all add: s8_of_int_def go_world_def demo_es_def)

text \<open>
  Closing from Go leaves the connection dangling. \<open>go_cs_tcp_close\<close> calls lwIP's \<open>tcp_close\<close>
  directly: when it succeeds, the control block is gone, but the connection state is still allocated
  and points to it, its pending buffers are still allocated, and no event will release them. The
  invariant of the TCP side is broken.
\<close>

theorem go_cs_tcp_close_strands_state:
  assumes "tcp_inv ca w" and "ess w es = Some e"
    and "tcp_close T (es_pcb e) w = Some (Ok (ERR_OK, w\<lparr>tpcbs := (tpcbs w)(es_pcb e := None), app := a\<rparr>))"
  shows "\<exists>w'. go_cs_tcp_close (go_cs_init (go_back P T U N cs C inp outp ba ni)) (es_pcb e) es w = Some (Ok (0, w')) \<and>
     ess w' es = Some e \<and> tpcbs w' (es_pcb e) = None \<and> pbufs w' = pbufs w \<and> \<not> tcp_inv ca w'"
proof -
  let ?w = "w\<lparr>tpcbs := (tpcbs w)(es_pcb e := None), app := a\<rparr>"
  have "\<not> tcp_inv ca ?w"
  proof
    assume "tcp_inv ca ?w"
    then obtain ch where "tcp_inv_at ca ?w ch" unfolding tcp_inv_def by blast
    from tcp_inv_atD(1) [OF this, of es e] assms(2) show False by (simp add: conn_at_def)
  qed
  with assms(2,3) show ?thesis by (simp add: go_cs_tcp_close_def via_def go_cs_init_def go_back_def run_simps)
qed

lemma echo_one_inv: "tcp_inv 9 echo_one"
  by (rule ref_echo.tcp_side.reach_inv [OF ref_doc_stack echo_one_reach [unfolded echo_ref_def]])

theorem go_cs_tcp_close_strands_state_witness:
  "\<exists>w'. go_cs_tcp_close (go_cs_init (go_back ref_pbuf ref_tcp ref_udp ref_netif True [9 \<mapsto> echo_ref]
       (\<lambda>s n. ret (- 1, [])) (\<lambda>s d l. ret (uint l)) 9 4)) 5 heap_addr echo_one = Some (Ok (0, w')) \<and>
     ess w' heap_addr \<noteq> None \<and> tpcbs w' 5 = None \<and> \<not> tcp_inv 9 w'"
proof -
  have "tcp_close ref_tcp (es_pcb (fresh_es blank_es 5 9)) echo_one = Some (Ok (ERR_OK,
      echo_one\<lparr>tpcbs := (tpcbs echo_one)(es_pcb (fresh_es blank_es 5 9) := None), app := app echo_one\<rparr>))"
    by (simp add: ref_tcp_def echo_one_def fresh_es_def)
  from go_cs_tcp_close_strands_state [OF echo_one_inv echo_one_conn(1) this] show ?thesis
    unfolding echo_one_conn(2) by blast
qed

text \<open>
  The buffer Go allocates for an address is exactly filled: \<open>go_cs_ip_len\<close> agrees with
  \<open>cs_ip_len\<close>, and \<open>go_cs_ip_get\<close> into an array of that length neither overruns it nor leaves a part of
  it unwritten.
\<close>

theorem go_cs_ip_get_fills:
  "go_cs_ip_len x = cs_ip_len x \<and>
   (\<exists>bs. length bs = nat (go_cs_ip_len x) \<and>
      (\<forall>buf. length buf = nat (go_cs_ip_len x) \<longrightarrow>
         go_cs_ip_get (go_cs_init (go_back P T U N cs C inp outp ba ni)) x buf = Ok bs))"
proof -
  have len: "go_cs_ip_len x = cs_ip_len x" by (simp add: go_cs_ip_len_def cs_ip_len_def)
  obtain bs where bs: "\<And>buf. cs_ip_get cs N x buf = store_chars bs buf" "length bs = nat (cs_ip_len x)"
    using cs_ip_get_stores by blast
  then show ?thesis using len
    by (auto simp: go_cs_ip_get_def go_cs_init_def go_back_def store_chars_def)
qed

theorem go_cs_ip_get_fills_witness:
  "\<exists>bs. length bs = 16 \<and> go_cs_ip_get go_ref demo_v6 (replicate 16 7) = Ok bs"
proof -
  have len: "go_cs_ip_len demo_v6 = 16" by (simp add: go_cs_ip_len_def demo_v6_def)
  from go_cs_ip_get_fills [of demo_v6 ref_pbuf ref_tcp ref_udp ref_netif True "[9 \<mapsto> quiet_cb]"
      "\<lambda>s n. ret (- 1, [])" "\<lambda>s d l. ret (uint l)" 9 4] obtain bs where
    "length bs = 16" and "\<And>buf. length buf = 16 \<Longrightarrow> go_cs_ip_get go_ref demo_v6 buf = Ok bs"
    unfolding len go_ref_def by auto
  moreover have "length (replicate 16 (7 :: u8)) = 16" by (simp only: length_replicate)
  ultimately show ?thesis by blast
qed

end
