(* ===== verification/Go_Bridge.thy ===== *)
theory Go_Bridge
  imports Go_Chan Lwipcs
begin

text \<open>
  The Go side, \<open>lwipcs.go\<close>: connections (\<open>PCB\<close>), the registries of connections, the queues between the
  application's goroutines and the loop that runs the stack, the handlers exported to C and the loop itself.
  Go's memory is the \<open>app\<close> part of the world. One definition is what a goroutine does between two points where it
  may have to wait; a wait that is not over is \<open>None\<close>. Prints are left out, and reads and writes of a
  field by different goroutines are taken in the order they happen.
\<close>

section \<open>Data\<close>

datatype ptype = TCP | UDP

text \<open>
  \<open>PCB\<close>. A channel of byte slices is a reference, since \<open>Intercept\<close> exchanges it; \<open>sendWait\<close> is nil for UDP. \<open>lck\<close>
  says whether the mutex is held.
\<close>

record go_pcb =
  gp_type :: ptype
  gp_arg :: addr
  gp_pcb :: addr
  gp_state :: addr
  gp_localIP :: ip_addr_t
  gp_localPort :: int
  gp_remoteIP :: ip_addr_t
  gp_remotePort :: int
  gp_err :: "string option"
  gp_recvInter :: bool
  gp_recvQueued :: nat
  gp_sendWait :: "int chan option"
  gp_sendCount :: int
  gp_lck :: bool

text \<open>
  A slice of bytes that the application passes to \<open>Write\<close>: an array of its memory, the place of the first byte and the
  length. Slices that Go code makes and hands on without keeping them are lists of bytes.
\<close>

datatype slice = Slice (sl_array: nat) (sl_off: nat) (sl_len: nat)

text \<open>Go's memory: the objects by reference, the next free reference, and the variables of the package.\<close>

record go_state =
  go_pcbs :: "nat \<rightharpoonup> go_pcb"
  go_chans :: "nat \<rightharpoonup> u8 list chan"
  go_arrays :: "nat \<rightharpoonup> u8 list"
  go_next :: nat
  tcpPcbs :: "addr \<rightharpoonup> nat"
  udpPcbs :: "string \<rightharpoonup> nat"
  inputQueue :: "u8 list chan"
  inputQueue2 :: "u8 list chan"
  recvedQueue :: "(nat \<times> int) chan"
  sendQueue :: "(nat \<times> slice) chan"
  closeQueue :: "nat chan"

definition go_start :: go_state where
  "go_start = \<lparr>go_pcbs = Map.empty, go_chans = Map.empty, go_arrays = Map.empty, go_next = 2, tcpPcbs = Map.empty, udpPcbs = Map.empty,
     inputQueue = make_chan 1024, inputQueue2 = make_chan 1024, recvedQueue = make_chan 1024,
     sendQueue = make_chan 1024, closeQueue = make_chan 1024\<rparr>"

text \<open>The \<open>Handler\<close> the application installs as \<open>Event\<close>.\<close>

record 'a go_handler =
  on_accept :: "nat \<Rightarrow> ('a go_state_scheme world, unit) prog"
  on_close :: "nat \<Rightarrow> ('a go_state_scheme world, unit) prog"

section \<open>Access\<close>

text \<open>Go's part of the world.\<close>

definition in_go :: "('g, 'r) prog \<Rightarrow> ('g world, 'r) prog" where
  "in_go m = zoom app (\<lambda>g w. w\<lparr>app := g\<rparr>) m"

definition go_deref :: "('s \<Rightarrow> nat \<rightharpoonup> 'v) \<Rightarrow> nat \<Rightarrow> ('s, 'v) prog" where
  "go_deref h i = (\<lambda>s. case h s i of
       None \<Rightarrow> Some (Fault (GoPanic ''nil pointer dereference''))
     | Some v \<Rightarrow> Some (Ok (v, s)))"

definition slice_bytes :: "slice \<Rightarrow> ('a go_state_scheme, u8 list) prog" where
  "slice_bytes s = bnd (go_deref go_arrays (sl_array s)) (\<lambda>d. ret (take (sl_len s) (drop (sl_off s) d)))"

definition set_pcb_field :: "nat \<Rightarrow> (go_pcb \<Rightarrow> go_pcb) \<Rightarrow> ('a go_state_scheme, unit) prog" where
  "set_pcb_field i f = bnd (go_deref go_pcbs i) (\<lambda>p. modify (\<lambda>g. g\<lparr>go_pcbs := (go_pcbs g)(i \<mapsto> f p)\<rparr>))"

definition on_chan :: "nat \<Rightarrow> (u8 list chan, 'r) prog \<Rightarrow> ('a go_state_scheme, 'r) prog" where
  "on_chan k m = bnd (go_deref go_chans k) (\<lambda>_.
     zoom (\<lambda>g. the (go_chans g k)) (\<lambda>c g. g\<lparr>go_chans := (go_chans g)(k \<mapsto> c)\<rparr>) m)"

text \<open>An operation on \<open>sendWait\<close>; sending to and receiving from a nil channel waits for ever.\<close>

definition on_sendWait :: "nat \<Rightarrow> (int chan, 'r) prog \<Rightarrow> ('a go_state_scheme, 'r) prog" where
  "on_sendWait i m = bnd (go_deref go_pcbs i) (\<lambda>p. case gp_sendWait p of
       None \<Rightarrow> (\<lambda>_. None)
     | Some c \<Rightarrow> zoom (\<lambda>_. c) (\<lambda>c' g. g\<lparr>go_pcbs := (go_pcbs g)(i \<mapsto> p\<lparr>gp_sendWait := Some c'\<rparr>)\<rparr>) m)"

section \<open>Connections\<close>

definition newPCB ::
  "ptype \<Rightarrow> addr \<Rightarrow> addr \<Rightarrow> addr \<Rightarrow> ip_addr_t \<Rightarrow> ip_addr_t \<Rightarrow> int \<Rightarrow> int \<Rightarrow> ('a go_state_scheme, nat) prog" where
  "newPCB ptype arg pcb state laddr raddr lport rport = (\<lambda>g. let i = go_next g in
     Some (Ok (i, g\<lparr>go_next := i + 2, go_chans := (go_chans g)(i + 1 \<mapsto> make_chan 1024),
       go_pcbs := (go_pcbs g)(i \<mapsto> \<lparr>gp_type = ptype, gp_arg = arg, gp_pcb = pcb, gp_state = state,
         gp_localIP = laddr, gp_localPort = lport, gp_remoteIP = raddr, gp_remotePort = rport, gp_err = None,
         gp_recvInter = False, gp_recvQueued = i + 1,
         gp_sendWait = (if ptype = TCP then Some (make_chan 1) else None), gp_sendCount = 0, gp_lck = False\<rparr>)\<rparr>)))"

text \<open>\<open>p.lck.Lock()\<close> and \<open>p.lck.Unlock()\<close>; to unlock what is not locked ends the program.\<close>

definition pcb_lock :: "nat \<Rightarrow> ('a go_state_scheme, unit) prog" where
  "pcb_lock i = bnd (go_deref go_pcbs i) (\<lambda>p.
     if gp_lck p then (\<lambda>_. None) else set_pcb_field i (gp_lck_update (\<lambda>_. True)))"

definition pcb_unlock :: "nat \<Rightarrow> ('a go_state_scheme, unit) prog" where
  "pcb_unlock i = bnd (go_deref go_pcbs i) (\<lambda>p.
     if gp_lck p then set_pcb_field i (gp_lck_update (\<lambda>_. False)) else fail (GoPanic ''unlock of unlocked mutex''))"

definition pcb_close :: "nat \<Rightarrow> ('a go_state_scheme, string option) prog" where
  "pcb_close i = seq (pcb_lock i) (bnd (go_deref go_pcbs i) (\<lambda>p.
     if gp_err p \<noteq> None then seq (pcb_unlock i) (ret (gp_err p))
     else
       seq (set_pcb_field i (gp_err_update (\<lambda>_. Some ''closed'')))
      (seq (whenc (\<not> gp_recvInter p) (on_chan (gp_recvQueued p) chan_close))
      (seq (whenc (gp_type p = TCP) (on_sendWait i chan_close))
      (seq (pcb_unlock i)
      (ret None))))))"

text \<open>\<open>Close\<close>: the error of \<open>close\<close> is returned, and the request is queued in any case.\<close>

definition pcb_Close :: "nat \<Rightarrow> ('a go_state_scheme, string option) prog" where
  "pcb_Close i = bnd (pcb_close i) (\<lambda>err.
     seq (zoom closeQueue (\<lambda>c g. g\<lparr>closeQueue := c\<rparr>) (chan_send i)) (ret err))"

definition pcb_Intercept :: "nat \<Rightarrow> nat \<Rightarrow> ('a go_state_scheme, unit) prog" where
  "pcb_Intercept i c = seq (pcb_lock i) (bnd (go_deref go_pcbs i) (\<lambda>p.
     if gp_recvInter p then seq (pcb_unlock i) (fail (GoPanic ''intercepted''))
     else
       seq (set_pcb_field i (gp_recvInter_update (\<lambda>_. True)))
      (seq (on_chan (gp_recvQueued p) chan_close)
      (seq (set_pcb_field i (gp_recvQueued_update (\<lambda>_. c)))
      (pcb_unlock i)))))"

text \<open>
  \<open>Read\<close> into a buffer of \<open>n\<close> bytes: the bytes stored and the error. It looks at the connection, waits for data, and
  then for room in the queue of acknowledgements; these are the three parts. \<open>pcb_Read_data\<close> is the first two
  with nothing in between.
\<close>

definition pcb_Read_check :: "nat \<Rightarrow> ('a go_state_scheme, string option) prog" where
  "pcb_Read_check i = bnd (go_deref go_pcbs i) (\<lambda>p.
     if gp_recvInter p then fail (GoPanic ''Intercepted'') else ret (gp_err p))"

definition pcb_Read_take :: "nat \<Rightarrow> nat \<Rightarrow> ('a go_state_scheme, u8 list \<times> string option) prog" where
  "pcb_Read_take i n = bnd (go_deref go_pcbs i) (\<lambda>p.
     bnd (on_chan (gp_recvQueued p) chan_recv) (\<lambda>r.
       case r of
         None \<Rightarrow> bnd (go_deref go_pcbs i) (\<lambda>p'. ret ([], gp_err p'))
       | Some received \<Rightarrow>
           if length received < 1 then bnd (go_deref go_pcbs i) (\<lambda>p'. ret ([], gp_err p'))
           else if n < length received then fail (GoPanic ''the read buffer is too small'')
           else ret (received, None)))"

definition pcb_Read_data :: "nat \<Rightarrow> nat \<Rightarrow> ('a go_state_scheme, u8 list \<times> string option) prog" where
  "pcb_Read_data i n = bnd (pcb_Read_check i) (\<lambda>err. if err \<noteq> None then ret ([], err) else pcb_Read_take i n)"

definition pcb_Read_ack :: "nat \<Rightarrow> int \<Rightarrow> ('a go_state_scheme, unit) prog" where
  "pcb_Read_ack i l = bnd (go_deref go_pcbs i) (\<lambda>p.
     whenc (gp_type p = TCP) (zoom recvedQueue (\<lambda>c g. g\<lparr>recvedQueue := c\<rparr>) (chan_send (i, l))))"

text \<open>
  \<open>Write\<close> in its parts: the checks, the lock, the request, the wait for the notice that the data was sent, the
  unlock. The result of the checks is what \<open>Write\<close> returns at once, if it does.
\<close>

definition pcb_Write_check :: "nat \<Rightarrow> slice \<Rightarrow> ('a go_state_scheme, (int \<times> string option) option) prog" where
  "pcb_Write_check i b = (if sl_len b < 1 then ret (Some (0, Some ''data is empty'')) else
     bnd (go_deref go_pcbs i) (\<lambda>p.
       ret (if gp_err p = None then None else Some (int (sl_len b), gp_err p))))"

definition pcb_Write_lock :: "nat \<Rightarrow> ('a go_state_scheme, unit) prog" where
  "pcb_Write_lock i = bnd (go_deref go_pcbs i) (\<lambda>p. whenc (gp_type p = TCP) (pcb_lock i))"

definition pcb_Write_queue :: "nat \<Rightarrow> slice \<Rightarrow> ('a go_state_scheme, unit) prog" where
  "pcb_Write_queue i b = zoom sendQueue (\<lambda>c g. g\<lparr>sendQueue := c\<rparr>) (chan_send (i, b))"

definition pcb_Write_wait :: "nat \<Rightarrow> ('a go_state_scheme, unit) prog" where
  "pcb_Write_wait i = bnd (go_deref go_pcbs i) (\<lambda>p. whenc (gp_type p = TCP) (ignore (on_sendWait i chan_recv)))"

definition pcb_Write_end :: "nat \<Rightarrow> slice \<Rightarrow> ('a go_state_scheme, int \<times> string option) prog" where
  "pcb_Write_end i b = bnd (go_deref go_pcbs i) (\<lambda>p.
     seq (whenc (gp_type p = TCP) (pcb_unlock i)) (ret (int (sl_len b), gp_err p)))"

text \<open>The whole \<open>Write\<close>, when nothing happens in between.\<close>

definition pcb_Write :: "nat \<Rightarrow> slice \<Rightarrow> ('a go_state_scheme, int \<times> string option) prog" where
  "pcb_Write i b = bnd (pcb_Write_check i b) (\<lambda>r. case r of
       Some x \<Rightarrow> ret x
     | None \<Rightarrow> seq (pcb_Write_lock i) (seq (pcb_Write_queue i b) (seq (pcb_Write_wait i) (pcb_Write_end i b))))"

section \<open>Handlers called from C\<close>

text \<open>The bytes of an address, in an array of the length \<open>go_cs_ip_len\<close> gives.\<close>

definition go_ip_bytes :: "'x go_cs \<Rightarrow> ip_addr_t \<Rightarrow> ('x world, u8 list) prog" where
  "go_ip_bytes G a = (\<lambda>w. case go_cs_ip_get G a (replicate (nat (go_cs_ip_len a)) 0) of
       Fault f \<Rightarrow> Some (Fault f)
     | Ok bs \<Rightarrow> Some (Ok (bs, w)))"

text \<open>A new slice with the bytes of a chain of buffers. The address of its first byte has to exist.\<close>

definition go_copy :: "'x go_cs \<Rightarrow> addr \<Rightarrow> ('x world, u8 list) prog" where
  "go_copy G buf = bnd (go_cs_pbuf_len buf) (\<lambda>n.
     if n < 1 then fail (GoPanic ''index out of range'')
     else bnd (go_cs_pbuf_copy G buf) (\<lambda>d. ret (d @ replicate (nat n - length d) 0)))"

definition notify :: "('a go_state_scheme world, unit) prog option \<Rightarrow> ('a go_state_scheme world, unit) prog" where
  "notify m = (case m of None \<Rightarrow> ret () | Some f \<Rightarrow> f)"

definition go_accept ::
  "'a go_handler option \<Rightarrow> addr \<Rightarrow> addr \<Rightarrow> addr \<Rightarrow> ('a go_state_scheme world, int) prog" where
  "go_accept Ev arg newpcb state = (if newpcb = NULL then ret 1 else
     bnd (gets (\<lambda>w. tcpPcbs (app w) state)) (\<lambda>old.
     if old \<noteq> None then ret 1
     else
       bnd (go_cs_tcp_local_ip newpcb) (\<lambda>laddr.
       bnd (go_cs_tcp_remote_ip newpcb) (\<lambda>raddr.
       bnd (go_cs_tcp_local_port newpcb) (\<lambda>lport.
       bnd (go_cs_tcp_remote_port newpcb) (\<lambda>rport.
       bnd (in_go (newPCB TCP arg newpcb state laddr raddr lport rport)) (\<lambda>i.
       seq (in_go (modify (\<lambda>g. g\<lparr>tcpPcbs := (tcpPcbs g)(state \<mapsto> i)\<rparr>)))
      (seq (notify (map_option (\<lambda>E. on_accept E i) Ev))
      (ret 0)))))))))"

text \<open>
  \<open>go_tcp_recv_h\<close> in two parts: the checks and the copy, with the queue and the data for it unless the data is refused; and the
  send. A goroutine may do anything in between, and the send may have to wait. \<open>go_recv\<close> is the whole with nothing in between.
\<close>

definition go_recv_data ::
  "'a go_state_scheme go_cs \<Rightarrow> addr \<Rightarrow> addr \<Rightarrow> addr \<Rightarrow> ('a go_state_scheme world, (nat \<times> u8 list) option) prog" where
  "go_recv_data G tpcb state buf = (if tpcb = NULL \<or> buf = NULL then ret None else
     bnd (gets (\<lambda>w. tcpPcbs (app w) state)) (\<lambda>old. case old of
       None \<Rightarrow> ret None
     | Some i \<Rightarrow> bnd (in_go (go_deref go_pcbs i)) (\<lambda>p.
         if gp_err p \<noteq> None then ret None
         else bnd (go_copy G buf) (\<lambda>data. ret (Some (gp_recvQueued p, data))))))"

definition go_recv_send :: "nat \<Rightarrow> u8 list \<Rightarrow> ('a go_state_scheme world, int) prog" where
  "go_recv_send q data = seq (in_go (on_chan q (chan_send data))) (ret 0)"

definition go_recv ::
  "'a go_state_scheme go_cs \<Rightarrow> addr \<Rightarrow> addr \<Rightarrow> addr \<Rightarrow> addr \<Rightarrow> ('a go_state_scheme world, int) prog" where
  "go_recv G arg tpcb state buf = bnd (go_recv_data G tpcb state buf) (\<lambda>r. case r of
       None \<Rightarrow> ret 1
     | Some (q, data) \<Rightarrow> go_recv_send q data)"

text \<open>\<open>go_tcp_send_done_h\<close>, with the notice it gives to a \<open>Write\<close> after its checks.\<close>

definition go_send_notice :: "nat \<Rightarrow> ('a go_state_scheme world, unit) prog" where
  "go_send_notice i = in_go (
     seq (set_pcb_field i (gp_sendCount_update (\<lambda>n. n - 1)))
         (on_sendWait i (chan_send 1)))"

definition go_send_done :: "addr \<Rightarrow> addr \<Rightarrow> addr \<Rightarrow> ('a go_state_scheme world, int) prog" where
  "go_send_done arg tpcb state = (if tpcb = NULL then ret 1 else
     bnd (gets (\<lambda>w. tcpPcbs (app w) state)) (\<lambda>old. case old of
       None \<Rightarrow> ret 1
     | Some i \<Rightarrow> bnd (in_go (go_deref go_pcbs i)) (\<lambda>p.
         if gp_err p \<noteq> None then ret 1
         else
           seq (whenc (gp_sendCount p > 0) (go_send_notice i))
          (ret 0))))"

definition go_close ::
  "'a go_handler option \<Rightarrow> addr \<Rightarrow> addr \<Rightarrow> addr \<Rightarrow> ('a go_state_scheme world, int) prog" where
  "go_close Ev arg tpcb state = (if tpcb = NULL then ret 1 else
     bnd (gets (\<lambda>w. tcpPcbs (app w) state)) (\<lambda>old. case old of
       None \<Rightarrow> ret 1
     | Some i \<Rightarrow>
         seq (in_go (modify (\<lambda>g. g\<lparr>tcpPcbs := (tcpPcbs g)(state := None)\<rparr>)))
        (seq (ignore (in_go (pcb_close i)))
        (seq (notify (map_option (\<lambda>E. on_close E i) Ev))
        (ret 0)))))"

text \<open>
  \<open>go_udp_recv_h\<close>, likewise in two parts: the copy and the connection, which may be new, and the send. \<open>addr_string\<close> is \<open>String\<close>
  of \<open>net.UDPAddr\<close>.
\<close>

definition go_udp_recv_data ::
  "'a go_state_scheme go_cs \<Rightarrow> (u8 list \<Rightarrow> int \<Rightarrow> string) \<Rightarrow> 'a go_handler option \<Rightarrow>
   addr \<Rightarrow> addr \<Rightarrow> ip_addr_t \<Rightarrow> int \<Rightarrow> addr \<Rightarrow> ('a go_state_scheme world, nat \<times> u8 list) prog" where
  "go_udp_recv_data G addr_string Ev arg upcb ipaddr port buf =
     bnd (go_copy G buf) (\<lambda>data.
     bnd (go_ip_bytes G ipaddr) (\<lambda>ip.
     let key = addr_string ip port in
     bnd (gets (\<lambda>w. udpPcbs (app w) key)) (\<lambda>old.
     bnd (case old of
            Some i \<Rightarrow> ret i
          | None \<Rightarrow>
              bnd (go_cs_udp_local_ip upcb) (\<lambda>laddr.
              bnd (go_cs_udp_local_port upcb) (\<lambda>lport.
              bnd (in_go (newPCB UDP arg upcb NULL laddr ipaddr lport port)) (\<lambda>i.
              seq (in_go (modify (\<lambda>g. g\<lparr>udpPcbs := (udpPcbs g)(key \<mapsto> i)\<rparr>)))
             (seq (notify (map_option (\<lambda>E. on_accept E i) Ev))
             (ret i)))))) (\<lambda>i.
     bnd (in_go (go_deref go_pcbs i)) (\<lambda>p.
     ret (gp_recvQueued p, data))))))"

definition go_udp_recv ::
  "'a go_state_scheme go_cs \<Rightarrow> (u8 list \<Rightarrow> int \<Rightarrow> string) \<Rightarrow> 'a go_handler option \<Rightarrow>
   addr \<Rightarrow> addr \<Rightarrow> ip_addr_t \<Rightarrow> int \<Rightarrow> addr \<Rightarrow> ('a go_state_scheme world, int) prog" where
  "go_udp_recv G addr_string Ev arg upcb ipaddr port buf =
     bnd (go_udp_recv_data G addr_string Ev arg upcb ipaddr port buf) (\<lambda>(q, data). go_recv_send q data)"

text \<open>A frame for the stack; \<open>*readlen\<close> is assigned only when there is one.\<close>

definition go_input ::
  "'a go_state_scheme go_cs \<Rightarrow> addr \<Rightarrow> addr \<Rightarrow> ('a go_state_scheme world, addr \<times> u16 option) prog" where
  "go_input G arg netif =
     bnd (in_go (zoom inputQueue2 (\<lambda>c g. g\<lparr>inputQueue2 := c\<rparr>) chan_poll)) (\<lambda>r.
     case r of
       Some (Some i) \<Rightarrow>
         if length i < 1 then ret (NULL, None)
         else
           let readlen = word_of_int (int (length i)) in
           bnd (go_cs_pbuf_alloc G readlen) (\<lambda>p.
           seq (whenc (p \<noteq> NULL) (go_cs_pbuf_take G p i))
          (ret (p, Some readlen)))
     | _ \<Rightarrow> ret (NULL, None))"

definition go_handlers ::
  "'a go_state_scheme go_cs \<Rightarrow> (u8 list \<Rightarrow> int \<Rightarrow> string) \<Rightarrow> 'a go_handler option \<Rightarrow> 'a go_state_scheme go_api" where
  "go_handlers G addr_string Ev = \<lparr>
     go_tcp_accept_h = go_accept Ev,
     go_tcp_recv_h = go_recv G,
     go_tcp_send_done_h = go_send_done,
     go_tcp_close_h = go_close Ev,
     go_udp_recv_h = go_udp_recv G addr_string Ev,
     go_input_h = go_input G\<rparr>"

section \<open>The loop of the stack\<close>

definition tcpSend :: "'x go_cs \<Rightarrow> addr \<Rightarrow> addr \<Rightarrow> u8 list \<Rightarrow> ('x world, int) prog" where
  "tcpSend G tpcb state buf = (if buf = [] then fail (GoPanic ''index out of range'')
     else go_cs_tcp_send G tpcb state buf (int (length buf)))"

definition tcpClose :: "'x go_cs \<Rightarrow> addr \<Rightarrow> addr \<Rightarrow> ('x world, int) prog" where
  "tcpClose G tpcb state = go_cs_tcp_close G tpcb state"

definition udpSend ::
  "'x go_cs \<Rightarrow> addr \<Rightarrow> ip_addr_t \<Rightarrow> int \<Rightarrow> ip_addr_t \<Rightarrow> int \<Rightarrow> u8 list \<Rightarrow> ('x world, int) prog" where
  "udpSend G upcb laddr lport raddr rport buf = (if buf = [] then fail (GoPanic ''index out of range'')
     else go_cs_udp_send G upcb laddr (word_of_int lport) raddr (word_of_int rport) buf (int (length buf)))"

text \<open>\<open>Send\<close>. The bytes are the ones the array has now.\<close>

definition sendEntry_Send :: "'a go_state_scheme go_cs \<Rightarrow> nat \<times> slice \<Rightarrow> ('a go_state_scheme world, unit) prog" where
  "sendEntry_Send G s = (case s of (i, b) \<Rightarrow> bnd (in_go (go_deref go_pcbs i)) (\<lambda>p.
     if gp_err p \<noteq> None then ret ()
     else if gp_type p = TCP then
       seq (in_go (set_pcb_field i (gp_sendCount_update (\<lambda>n. n + 1))))
      (bnd (in_go (slice_bytes b)) (\<lambda>data.
       ignore (tcpSend G (gp_pcb p) (gp_state p) data)))
     else
       bnd (in_go (slice_bytes b)) (\<lambda>data.
       ignore (udpSend G (gp_pcb p) (gp_localIP p) (gp_localPort p) (gp_remoteIP p) (gp_remotePort p) data))))"

text \<open>One round of \<open>go_netif_proc\<close>: the case the \<open>select\<close> takes, which has to be ready.\<close>

datatype proc_case = CaseRecved | CaseClose | CaseSend | CaseInput

definition go_netif_proc_round ::
  "'a go_state_scheme go_cs \<Rightarrow> (u8 list \<Rightarrow> int \<Rightarrow> string) \<Rightarrow> addr \<Rightarrow> proc_case \<Rightarrow> ('a go_state_scheme world, unit) prog" where
  "go_netif_proc_round G addr_string netif c = (case c of
     CaseRecved \<Rightarrow>
       bnd (in_go (zoom recvedQueue (\<lambda>c g. g\<lparr>recvedQueue := c\<rparr>) chan_recv)) (\<lambda>r. case r of
         None \<Rightarrow> fail (GoPanic ''nil pointer dereference'')
       | Some (i, l) \<Rightarrow> bnd (in_go (go_deref go_pcbs i)) (\<lambda>p.
           whenc (gp_err p = None) (go_cs_tcp_recved G (gp_pcb p) (word_of_int l))))
   | CaseClose \<Rightarrow>
       bnd (in_go (zoom closeQueue (\<lambda>c g. g\<lparr>closeQueue := c\<rparr>) chan_recv)) (\<lambda>r. case r of
         None \<Rightarrow> fail (GoPanic ''nil pointer dereference'')
       | Some i \<Rightarrow> bnd (in_go (go_deref go_pcbs i)) (\<lambda>p.
           if gp_type p = TCP then ignore (tcpClose G (gp_pcb p) (gp_state p))
           else bnd (go_ip_bytes G (gp_remoteIP p)) (\<lambda>ip.
             in_go (modify (\<lambda>g. g\<lparr>udpPcbs := (udpPcbs g)(addr_string ip (gp_remotePort p) := None)\<rparr>)))))
   | CaseSend \<Rightarrow>
       bnd (in_go (zoom sendQueue (\<lambda>c g. g\<lparr>sendQueue := c\<rparr>) chan_recv)) (\<lambda>r. case r of
         None \<Rightarrow> fail (GoPanic ''nil pointer dereference'')
       | Some s \<Rightarrow> sendEntry_Send G s)
   | CaseInput \<Rightarrow>
       bnd (in_go (zoom inputQueue (\<lambda>c g. g\<lparr>inputQueue := c\<rparr>) chan_recv)) (\<lambda>r.
         seq (in_go (zoom inputQueue2 (\<lambda>c g. g\<lparr>inputQueue2 := c\<rparr>) (chan_send (case r of None \<Rightarrow> [] | Some i \<Rightarrow> i))))
             (go_cs_netif_proc G netif)))"

text \<open>One round of \<open>go_netif_read\<close>: whether another one follows.\<close>

definition go_netif_read_round :: "'a go_state_scheme go_cs \<Rightarrow> ('a go_state_scheme world, bool) prog" where
  "go_netif_read_round G = bnd (go_cs_input G 1518) (\<lambda>(readed, buf).
     if readed < 1 then ret False
     else if readed > 1518 then fail (GoPanic ''slice bounds out of range'')
     else seq (in_go (zoom inputQueue (\<lambda>c g. g\<lparr>inputQueue := c\<rparr>) (chan_send (take (nat readed) buf)))) (ret True))"

end
