(* ===== verification/Go_Tcp.thy ===== *)
theory Go_Tcp
  imports Go_Bridge
begin

text \<open>
  TCP connections from lwIP to the Go application: what arrives is queued for the application's reads, what
  happens when the queue is full, when the peer closes while the application writes, and what a datagram for a
  closed connection does.
\<close>

section \<open>Running the handlers\<close>

lemma in_go_run [run_simps]:
  "in_go m w = (case m (app w) of
       None \<Rightarrow> None
     | Some (Fault f) \<Rightarrow> Some (Fault f)
     | Some (Ok (x, g)) \<Rightarrow> Some (Ok (x, w\<lparr>app := g\<rparr>)))"
  by (simp add: in_go_def run_simps)

lemma go_deref_run [run_simps]:
  "go_deref h i s = (case h s i of
       None \<Rightarrow> Some (Fault (GoPanic ''nil pointer dereference''))
     | Some v \<Rightarrow> Some (Ok (v, s)))"
  by (simp add: go_deref_def)

lemma in_go_Ok [ok_simps]:
  "in_go m w = Some (Ok (y, v)) \<longleftrightarrow> (\<exists>g. m (app w) = Some (Ok (y, g)) \<and> v = w\<lparr>app := g\<rparr>)"
  by (simp add: in_go_def zoom_Ok)

lemma go_deref_Ok [ok_simps]: "go_deref h i s = Some (Ok (y, t)) \<longleftrightarrow> h s i = Some y \<and> t = s"
  by (auto simp: go_deref_def split: option.splits)

lemma go_ip_bytes_Ok [ok_simps]:
  "go_ip_bytes G a w = Some (Ok (bs, v)) \<longleftrightarrow> go_cs_ip_get G a (replicate (nat (go_cs_ip_len a)) 0) = Ok bs \<and> v = w"
  by (auto simp: go_ip_bytes_def split: res.splits)

lemma slice_bytes_Ok [ok_simps]:
  "slice_bytes s g = Some (Ok (d, t)) \<longleftrightarrow>
     (\<exists>a. go_arrays g (sl_array s) = Some a \<and> d = take (sl_len s) (drop (sl_off s) a) \<and> t = g)"
  by (auto simp: slice_bytes_def ok_simps)

lemma set_pcb_field_Ok [ok_simps]:
  "set_pcb_field i f g = Some (Ok (y, t)) \<longleftrightarrow> (\<exists>p. go_pcbs g i = Some p \<and> t = g\<lparr>go_pcbs := (go_pcbs g)(i \<mapsto> f p)\<rparr>)"
  by (auto simp: set_pcb_field_def ok_simps)

lemma on_chan_Ok [ok_simps]:
  "on_chan k m g = Some (Ok (y, t)) \<longleftrightarrow>
     (\<exists>c c'. go_chans g k = Some c \<and> m c = Some (Ok (y, c')) \<and> t = g\<lparr>go_chans := (go_chans g)(k \<mapsto> c')\<rparr>)"
  by (auto simp: on_chan_def ok_simps)

lemma on_sendWait_Ok [ok_simps]:
  "on_sendWait i m g = Some (Ok (y, t)) \<longleftrightarrow>
     (\<exists>p c c'. go_pcbs g i = Some p \<and> gp_sendWait p = Some c \<and> m c = Some (Ok (y, c')) \<and>
        t = g\<lparr>go_pcbs := (go_pcbs g)(i \<mapsto> p\<lparr>gp_sendWait := Some c'\<rparr>)\<rparr>)"
  by (auto simp: on_sendWait_def ok_simps split: option.splits)

lemma pcb_unlock_Ok [ok_simps]:
  "pcb_unlock i g = Some (Ok (y, t)) \<longleftrightarrow>
     (\<exists>p. go_pcbs g i = Some p \<and> gp_lck p \<and> t = g\<lparr>go_pcbs := (go_pcbs g)(i \<mapsto> p\<lparr>gp_lck := False\<rparr>)\<rparr>)"
  by (auto simp: pcb_unlock_def ok_simps)

lemma pcb_lock_Ok [ok_simps]:
  "pcb_lock i g = Some (Ok (y, t)) \<longleftrightarrow>
     (\<exists>p. go_pcbs g i = Some p \<and> \<not> gp_lck p \<and> t = g\<lparr>go_pcbs := (go_pcbs g)(i \<mapsto> p\<lparr>gp_lck := True\<rparr>)\<rparr>)"
  by (auto simp: pcb_lock_def ok_simps)

text \<open>The application queue of a channel with one more slice.\<close>

definition queue_more :: "nat \<Rightarrow> u8 list \<Rightarrow> 'a go_state_scheme \<Rightarrow> 'a go_state_scheme" where
  "queue_more k d g = g\<lparr>go_chans := (go_chans g)(k := map_option (\<lambda>c. c\<lparr>ch_buf := ch_buf c @ [d]\<rparr>) (go_chans g k))\<rparr>"

lemma queue_send_run:
  "go_chans g k = Some c \<Longrightarrow> \<not> ch_closed c \<Longrightarrow>
   on_chan k (chan_send d) g =
     (if length (ch_buf c) < ch_cap c then Some (Ok ((), queue_more k d g)) else None)"
  by (simp add: on_chan_def run_simps chan_send_def queue_more_def)

lemma queue_send_closed:
  "go_chans g k = Some c \<Longrightarrow> ch_closed c \<Longrightarrow>
   on_chan k (chan_send d) g = Some (Fault (GoPanic ''send on closed channel''))"
  by (simp add: on_chan_def run_simps chan_send_def)

text \<open>A chain that is as long as its first buffer says, and not empty.\<close>

definition whole_chain :: "(addr \<rightharpoonup> pbuf) \<Rightarrow> addr \<Rightarrow> addr list \<Rightarrow> bool" where
  "whole_chain h p ps \<longleftrightarrow> p \<noteq> NULL \<and> sole_chain h p ps \<and>
     (\<exists>b. h p = Some b \<and> unat (pb_tot_len b) = length (chain_bytes h ps) \<and> pb_tot_len b \<noteq> 0)"

lemma whole_chain_bytes: "whole_chain h p ps \<Longrightarrow> chain_bytes h ps \<noteq> []"
  unfolding whole_chain_def by (metis length_0_conv unat_gt_0 less_irrefl)

abbreviation (input) go_of where
  "go_of P T U N sg C inp outp ba ni \<equiv> go_cs_init (go_back P T U N sg C inp outp ba ni)"

lemma go_copy_run:
  assumes "doc_pbuf_copy P" and "whole_chain (pbufs w) p ps"
  shows "go_copy (go_of P T U N sg C inp outp ba ni) p w = Some (Ok (chain_bytes (pbufs w) ps, w))"
proof -
  from assms(2) obtain b where p: "p \<noteq> NULL" and ch: "sole_chain (pbufs w) p ps" and b: "pbufs w p = Some b"
    and len: "unat (pb_tot_len b) = length (chain_bytes (pbufs w) ps)" "pb_tot_len b \<noteq> 0"
    unfolding whole_chain_def by blast
  have "0 < unat (pb_tot_len b)" using len(2) by (simp add: unat_gt_0)
  then have "\<not> uint (pb_tot_len b) < 1" unfolding unat_eq_nat_uint by linarith
  moreover from sole_chain_is_chain [OF ch] p assms(1) have
    "pbuf_copy_partial P p (pb_tot_len b) 0 w = Some (Ok (take (unat (pb_tot_len b)) (chain_bytes (pbufs w) ps), w))"
    unfolding doc_pbuf_copy_def by blast
  ultimately show ?thesis using p b len
    by (simp add: go_copy_def go_cs_pbuf_len_def go_cs_pbuf_copy_def via_def go_cs_init_def go_back_def run_simps)
qed

text \<open>A connection the application has not closed, with its receive queue.\<close>

definition go_open :: "'a go_state_scheme \<Rightarrow> addr \<Rightarrow> nat \<Rightarrow> go_pcb \<Rightarrow> u8 list chan \<Rightarrow> bool" where
  "go_open g es i p c \<longleftrightarrow> tcpPcbs g es = Some i \<and> go_pcbs g i = Some p \<and> gp_err p = None \<and>
     go_chans g (gp_recvQueued p) = Some c \<and> \<not> ch_closed c"

lemma go_recv_queues:
  assumes "doc_pbuf_copy P" and "whole_chain (pbufs w) buf ps" and "tpcb \<noteq> NULL" and "go_open (app w) es i p c"
  shows "go_recv (go_of P T U N sg C inp outp ba ni) arg tpcb es buf w =
     (if length (ch_buf c) < ch_cap c
      then Some (Ok (0, w\<lparr>app := queue_more (gp_recvQueued p) (chain_bytes (pbufs w) ps) (app w)\<rparr>))
      else None)"
proof -
  from assms(2) have "buf \<noteq> NULL" by (simp add: whole_chain_def)
  with assms(3,4) show ?thesis
    by (simp add: go_recv_def go_recv_data_def go_recv_send_def run_simps go_copy_run [OF assms(1,2)] go_open_def queue_send_run)
qed

lemma go_close_waits:
  assumes "tpcb \<noteq> NULL" and "tcpPcbs (app w) es = Some i" and "go_pcbs (app w) i = Some p" and "gp_lck p"
  shows "go_close Ev arg tpcb es w = None"
  using assms by (simp add: go_close_def run_simps pcb_close_def pcb_lock_def)

section \<open>From the stack to the application's queue\<close>

text \<open>
  C22. What lwIP delivers is queued for the Go application, byte for byte. When a chain arrives on an open
  connection, the receive callback of \<open>tcp.c\<close>, the bridge and the Go handler together append one slice with exactly
  the bytes of the chain to the queue of that connection, free the chain, and report success; nothing else changes, if no
  goroutine closes the connection between the handler's checks and its send.
  When the application is 1024 slices behind, the handler waits for it, and the loop that runs the whole stack
  with it.
\<close>

theorem go_received_bytes_queued:
  assumes "doc_pbuf_copy P" and "doc_pbuf_free P" and "G = go_of P T U N sg C' inp outp ba ni"
    and "C ca = Some (go_cs_init_handle (go_handlers G addr_string Ev) G cb)" and "ca \<noteq> NULL"
    and "es \<noteq> NULL" and "ess w es = Some e" and "es_callback e = ca" and "es_state e \<in> {ES_ACCEPTED, ES_RECEIVED}"
    and "tpcb \<noteq> NULL" and "whole_chain (pbufs w) p ps" and "go_open (app w) es i pcb c"
  shows "cs_tcp_raw_recv P T C es tpcb p ERR_OK w =
     (if length (ch_buf c) < ch_cap c
      then Some (Ok (ERR_OK, w\<lparr>ess := (ess w)(es \<mapsto> e\<lparr>es_state := ES_RECEIVED\<rparr>), pbufs := pbufs w |` (- set ps),
        app := queue_more (gp_recvQueued pcb) (chain_bytes (pbufs w) ps) (app w)\<rparr>))
      else None)"
proof -
  let ?w = "w\<lparr>ess := (ess w)(es \<mapsto> e\<lparr>es_state := ES_RECEIVED\<rparr>)\<rparr>"
  let ?v = "?w\<lparr>app := queue_more (gp_recvQueued pcb) (chain_bytes (pbufs w) ps) (app w)\<rparr>"
  from assms(11) have p: "p \<noteq> NULL" and ch: "sole_chain (pbufs w) p ps" by (simp_all add: whole_chain_def)
  from go_recv_queues [OF assms(1), of ?w p ps tpcb es i pcb c T U N sg C' inp outp ba ni "cb_state cb"] assms(10-12)
  have go: "go_recv G (cb_state cb) tpcb es p ?w =
      (if length (ch_buf c) < ch_cap c then Some (Ok (0, ?v)) else None)" unfolding assms(3) by simp
  from ch sole_chain_is_chain have "is_chain (pbufs ?v) p ps" by simp
  with assms(2) p obtain k where "pbuf_free P p ?v = Some (Ok (k, ?v\<lparr>pbufs := free_chain ps (pbufs ?v)\<rparr>))"
    unfolding doc_pbuf_free_def by blast
  with go free_chain_sole [OF ch] have "go_cs_tcp_recv_h (go_handlers G addr_string Ev) G (cb_state cb) tpcb p es ?w =
      (if length (ch_buf c) < ch_cap c then Some (Ok (ERR_OK, ?v\<lparr>pbufs := pbufs w |` (- set ps)\<rparr>)) else None)"
    unfolding assms(3)
    by (simp add: go_cs_tcp_recv_h_def go_handlers_def run_simps via_def go_cs_init_def go_back_def s8_of_int_def)
  with raw_recv_open [where C = C and cb = "go_cs_init_handle (go_handlers G addr_string Ev) G cb" and P = P and T = T
      and tpcb = tpcb, OF assms(6-8,5,4,9) p] show ?thesis by (simp add: go_cs_init_handle_def)
qed

section \<open>Reading\<close>

text \<open>\<open>k\<close> calls of \<open>Read\<close> with a buffer of \<open>n\<close> bytes each, up to the acknowledgement.\<close>

primrec pcb_reads :: "nat \<Rightarrow> nat \<Rightarrow> nat \<Rightarrow> ('a go_state_scheme, (u8 list \<times> string option) list) prog" where
  "pcb_reads i n 0 = ret []"
| "pcb_reads i n (Suc k) = bnd (pcb_Read_data i n) (\<lambda>r. bnd (pcb_reads i n k) (\<lambda>rs. ret (r # rs)))"

lemma pcb_reads_run:
  assumes "go_pcbs g i = Some p" and "gp_err p = None" and "\<not> gp_recvInter p"
    and "go_chans g (gp_recvQueued p) = Some c" and "ch_buf c = ds @ rest"
    and "\<forall>d \<in> set ds. d \<noteq> [] \<and> length d \<le> n"
  shows "pcb_reads i n (length ds) g = Some (Ok (map (\<lambda>d. (d, None)) ds,
     g\<lparr>go_chans := (go_chans g)(gp_recvQueued p \<mapsto> c\<lparr>ch_buf := rest\<rparr>)\<rparr>))"
  using assms
proof (induction ds arbitrary: g c)
  case Nil
  then have "c\<lparr>ch_buf := rest\<rparr> = c" by simp
  with Nil show ?case by (simp add: run_simps fun_upd_idem)
next
  case (Cons d ds)
  let ?g = "g\<lparr>go_chans := (go_chans g)(gp_recvQueued p \<mapsto> c\<lparr>ch_buf := ds @ rest\<rparr>)\<rparr>"
  have "pcb_Read_data i n g = Some (Ok ((d, None), ?g))"
    using Cons.prems by (auto simp: pcb_Read_data_def pcb_Read_check_def pcb_Read_take_def run_simps on_chan_def chan_recv_def Suc_le_eq)
  moreover have "pcb_reads i n (length ds) ?g = Some (Ok (map (\<lambda>d. (d, None)) ds,
      ?g\<lparr>go_chans := (go_chans ?g)(gp_recvQueued p \<mapsto> c\<lparr>ch_buf := ds @ rest\<rparr>\<lparr>ch_buf := rest\<rparr>)\<rparr>))"
    by (rule Cons.IH) (use Cons.prems in auto)
  ultimately show ?case by (simp add: bnd_run ret_run) (rule go_state.equality; simp add: fun_eq_iff)
qed

text \<open>
  C23. From the wire to \<open>Read\<close> and back. The slices queued before are read first, in the order they came, and
  then exactly the bytes of the chain that arrived last, one slice per call of \<open>Read\<close>, as long as the buffer is as
  long as the slices.
\<close>

theorem go_read_roundtrip:
  assumes "doc_pbuf_copy P" and "whole_chain (pbufs w) buf ps" and "tpcb \<noteq> NULL" and "go_open (app w) es i p c"
    and "length (ch_buf c) < ch_cap c" and "\<not> gp_recvInter p"
    and "\<forall>d \<in> set (ch_buf c). d \<noteq> [] \<and> length d \<le> n" and "length (chain_bytes (pbufs w) ps) \<le> n"
  shows "\<exists>g. bnd (go_recv (go_of P T U N sg C inp outp ba ni) arg tpcb es buf)
        (\<lambda>r. in_go (pcb_reads i n (Suc (length (ch_buf c))))) w =
     Some (Ok (map (\<lambda>d. (d, None)) (ch_buf c @ [chain_bytes (pbufs w) ps]), w\<lparr>app := g\<rparr>))"
proof -
  let ?d = "chain_bytes (pbufs w) ps"
  let ?g = "queue_more (gp_recvQueued p) ?d (app w)"
  from assms(2) have ne: "?d \<noteq> []" by (rule whole_chain_bytes)
  have "pcb_reads i n (length (ch_buf c @ [?d])) ?g = Some (Ok (map (\<lambda>d. (d, None)) (ch_buf c @ [?d]),
      ?g\<lparr>go_chans := (go_chans ?g)(gp_recvQueued p \<mapsto> c\<lparr>ch_buf := ch_buf c @ [?d]\<rparr>\<lparr>ch_buf := []\<rparr>)\<rparr>))"
    by (rule pcb_reads_run [where p = p]) (use assms(4,6-8) ne in \<open>auto simp: go_open_def queue_more_def\<close>)
  then have "\<exists>g. pcb_reads i n (Suc (length (ch_buf c))) ?g = Some (Ok (map (\<lambda>d. (d, None)) (ch_buf c @ [?d]), g))"
    by (simp only: length_append list.size add_0 add_Suc_right add_0_right) blast
  then show ?thesis using assms(5) by (auto simp: bnd_run in_go_run go_recv_queues [OF assms(1-4)] simp del: pcb_reads.simps)
qed

section \<open>Waiting for ever\<close>

text \<open>
  C35. A peer that closes in the middle of a \<open>Write\<close> stops the stack for good. While \<open>Write\<close> waits for the notice
  that its data was sent it keeps the lock of the connection. If the peer closes first, the receive callback of
  \<open>tcp.c\<close> calls the Go handler for the close, which waits for that lock: the loop that runs the stack never gets on.
  Neither does \<open>Write\<close>, since the notice would come from that loop.
\<close>

theorem go_peer_close_during_write_blocks:
  assumes "doc_tcp_setters T" and "C ca = Some (go_cs_init_handle (go_handlers G addr_string Ev) G cb)" and "ca \<noteq> NULL"
    and "es \<noteq> NULL" and "ess w es = Some e" and "es_callback e = ca" and "tpcb \<noteq> NULL" and "tpcbs w tpcb = Some c"
    and "tcpPcbs (app w) es = Some i" and "go_pcbs (app w) i = Some p" and "gp_type p = TCP" and "gp_lck p"
    and "gp_sendWait p = Some sw" and "ch_buf sw = []" and "\<not> ch_closed sw"
  shows "cs_tcp_raw_recv P T C es tpcb NULL ERR_OK w = None \<and> pcb_Write_wait i (app w) = None"
proof -
  have "go_close Ev arg tpcb es v = None" if "app v = app w" for arg and v :: "'a go_state_scheme world"
    using go_close_waits [OF assms(7), of v es i p Ev arg] that assms(9,10,12) by simp
  then have "cs_tcp_raw_recv P T C es tpcb NULL ERR_OK w = None"
    using assms(2-8)
    by (simp add: cs_tcp_raw_recv_def cs_tcp_raw_close_def update_es_def run_simps deref_cb_def go_cs_init_handle_def
        tcp_setters_run [OF assms(1,7)] go_cs_tcp_close_h_def go_handlers_def)
  moreover have "pcb_Write_wait i (app w) = None"
    using assms(10,11,13-15) by (simp add: pcb_Write_wait_def run_simps on_sendWait_def chan_recv_def)
  ultimately show ?thesis by blast
qed

section \<open>Panics\<close>

text \<open>
  An empty datagram stops the program. When a datagram without data arrives, the Go handler takes the address of
  the first byte of an empty slice, which is a panic.
\<close>

theorem go_empty_datagram_panics:
  assumes "C ca = Some (go_cs_init_handle (go_handlers G addr_string Ev) G cb)" and "ca \<noteq> NULL"
    and "p \<noteq> NULL" and "pbufs w p = Some b" and "pb_tot_len b = 0"
  shows "cs_udp_raw_recv C ca upcb p ipaddr port w = Some (Fault (GoPanic ''index out of range''))"
  using assms
  by (simp add: cs_udp_raw_recv_def deref_cb_def run_simps go_cs_init_handle_def go_cs_udp_recv_h_def go_handlers_def
      go_udp_recv_def go_udp_recv_data_def go_copy_def go_cs_pbuf_len_def)

end
