(* ===== verification/Go_Run.thy ===== *)
theory Go_Run
  imports Go_Tcp
begin

text \<open>
  The Go side as a system: the handlers the stack calls, the goroutines of the application and the loop, in any
  order. The invariant of a run, and when a handler for TCP can panic. The application does not use
  \<open>Intercept\<close>; nothing in the repository does.
\<close>

section \<open>Well-formed connections\<close>

definition pcb_wf :: "'a go_state_scheme \<Rightarrow> nat \<Rightarrow> go_pcb \<Rightarrow> bool" where
  "pcb_wf g i p \<longleftrightarrow> i < go_next g \<and> gp_recvQueued p < go_next g \<and> \<not> gp_recvInter p \<and>
     (gp_type p = TCP \<longleftrightarrow> gp_sendWait p \<noteq> None) \<and>
     (\<forall>c. gp_sendWait p = Some c \<longrightarrow> ch_cap c = 1 \<and> chan_wf c \<and> (ch_closed c \<longleftrightarrow> gp_err p \<noteq> None)) \<and>
     (\<exists>c. go_chans g (gp_recvQueued p) = Some c \<and> ch_cap c = 1024 \<and> chan_wf c \<and> (ch_closed c \<longleftrightarrow> gp_err p \<noteq> None))"

text \<open>A slice that is not empty and lies in its array, as Go sees to it.\<close>

definition slice_ok :: "'a go_state_scheme \<Rightarrow> slice \<Rightarrow> bool" where
  "slice_ok g s \<longleftrightarrow> 0 < sl_len s \<and> (\<exists>d. go_arrays g (sl_array s) = Some d \<and> sl_off s + sl_len s \<le> length d)"

text \<open>The queues of the package are open, and what is in them is about connections and arrays that exist.\<close>

definition queues_wf :: "'a go_state_scheme \<Rightarrow> bool" where
  "queues_wf g \<longleftrightarrow> open_chan 1024 (inputQueue g) \<and> open_chan 1024 (inputQueue2 g) \<and>
     open_chan 1024 (recvedQueue g) \<and> open_chan 1024 (sendQueue g) \<and> open_chan 1024 (closeQueue g) \<and>
     fst ` set (ch_buf (recvedQueue g)) \<subseteq> dom (go_pcbs g) \<and> fst ` set (ch_buf (sendQueue g)) \<subseteq> dom (go_pcbs g) \<and>
     set (ch_buf (closeQueue g)) \<subseteq> dom (go_pcbs g) \<and> (\<forall>s \<in> snd ` set (ch_buf (sendQueue g)). slice_ok g s)"

definition registry_wf :: "'a go_state_scheme \<Rightarrow> bool" where
  "registry_wf g \<longleftrightarrow>
     (\<forall>s i. tcpPcbs g s = Some i \<longrightarrow> (\<exists>p. go_pcbs g i = Some p \<and> gp_type p = TCP \<and> gp_state p = s)) \<and>
     (\<forall>k i. udpPcbs g k = Some i \<longrightarrow> (\<exists>p. go_pcbs g i = Some p \<and> gp_type p = UDP))"

definition go_wf :: "'a go_state_scheme \<Rightarrow> bool" where
  "go_wf g \<longleftrightarrow> (\<forall>i p. go_pcbs g i = Some p \<longrightarrow> pcb_wf g i p) \<and>
     (\<forall>i j p q. go_pcbs g i = Some p \<longrightarrow> go_pcbs g j = Some q \<longrightarrow> i \<noteq> j \<longrightarrow> gp_recvQueued p \<noteq> gp_recvQueued q) \<and>
     registry_wf g \<and> queues_wf g"

lemma go_wfI:
  assumes "\<And>i p. go_pcbs g i = Some p \<Longrightarrow> pcb_wf g i p"
    and "\<And>i j p q. go_pcbs g i = Some p \<Longrightarrow> go_pcbs g j = Some q \<Longrightarrow> i \<noteq> j \<Longrightarrow> gp_recvQueued p \<noteq> gp_recvQueued q"
    and "registry_wf g" and "queues_wf g"
  shows "go_wf g"
  using assms unfolding go_wf_def by blast

lemma go_wfD:
  assumes "go_wf g"
  shows "go_pcbs g i = Some p \<Longrightarrow> pcb_wf g i p"
    and "go_pcbs g i = Some p \<Longrightarrow> go_pcbs g j = Some q \<Longrightarrow> i \<noteq> j \<Longrightarrow> gp_recvQueued p \<noteq> gp_recvQueued q"
    and "registry_wf g" and "queues_wf g"
  using assms unfolding go_wf_def by blast+

text \<open>
  The memory of a program that uses \<open>lwipcs.go\<close> extends the memory of that package. At the start the package's part is
  as it is declared.
\<close>

definition starts :: "'a go_state_scheme \<Rightarrow> bool" where
  "starts g \<longleftrightarrow> go_state.truncate g = go_start"

lemma starts_fields:
  assumes "starts g"
  shows "go_pcbs g = Map.empty" "tcpPcbs g = Map.empty" "udpPcbs g = Map.empty" "inputQueue g = make_chan 1024"
    "inputQueue2 g = make_chan 1024" "recvedQueue g = make_chan 1024" "sendQueue g = make_chan 1024" "closeQueue g = make_chan 1024"
  using assms by (simp_all add: starts_def go_state.truncate_def go_start_def)

lemma starts_go_start [simp]: "starts go_start"
  by (simp add: starts_def go_state.truncate_def go_start_def)

lemma start_wf: "starts g \<Longrightarrow> go_wf g"
  by (rule go_wfI) (simp_all add: starts_fields registry_wf_def queues_wf_def open_chan_def make_chan_def chan_wf_def)

text \<open>
  A change of the program's own part, for which it may have taken new references.
\<close>

definition beside :: "'a go_state_scheme \<Rightarrow> 'a go_state_scheme \<Rightarrow> bool" where
  "beside g g' \<longleftrightarrow> go_next g \<le> go_next g' \<and> go_state.truncate g' = (go_state.truncate g)\<lparr>go_next := go_next g'\<rparr>"

lemma besideD:
  assumes "beside g g'"
  shows "go_next g \<le> go_next g'" "go_pcbs g' = go_pcbs g" "go_chans g' = go_chans g" "go_arrays g' = go_arrays g"
    "tcpPcbs g' = tcpPcbs g" "udpPcbs g' = udpPcbs g" "inputQueue g' = inputQueue g" "inputQueue2 g' = inputQueue2 g"
    "recvedQueue g' = recvedQueue g" "sendQueue g' = sendQueue g" "closeQueue g' = closeQueue g"
  using assms by (simp_all add: beside_def go_state.truncate_def)

lemma besideI:
  assumes "go_next g \<le> go_next g'" "go_pcbs g' = go_pcbs g" "go_chans g' = go_chans g" "go_arrays g' = go_arrays g"
    "tcpPcbs g' = tcpPcbs g" "udpPcbs g' = udpPcbs g" "inputQueue g' = inputQueue g" "inputQueue2 g' = inputQueue2 g"
    "recvedQueue g' = recvedQueue g" "sendQueue g' = sendQueue g" "closeQueue g' = closeQueue g"
  shows "beside g g'"
  using assms by (simp add: beside_def go_state.truncate_def)

lemma beside_refl [simp, intro]: "beside g g"
  by (rule besideI) simp_all

lemma beside_trans: "beside g g' \<Longrightarrow> beside g' g'' \<Longrightarrow> beside g g''"
  using besideD(1) [of g g'] besideD(1) [of g' g''] by (simp add: beside_def)

lemma wf_beside:
  assumes wf: "go_wf g" and "beside g g'"
  shows "go_wf g'"
proof -
  note b = besideD [OF assms(2)]
  have "pcb_wf g' i p" if "pcb_wf g i p" for i p
    using that b(1) unfolding pcb_wf_def b by auto
  with wf show ?thesis by (simp add: go_wf_def registry_wf_def queues_wf_def slice_ok_def b)
qed

section \<open>Changes that keep it\<close>

text \<open>A connection whose wiring stays as it is.\<close>

definition same_wiring :: "go_pcb \<Rightarrow> go_pcb \<Rightarrow> bool" where
  "same_wiring p q \<longleftrightarrow> gp_type q = gp_type p \<and> gp_state q = gp_state p \<and> gp_recvQueued q = gp_recvQueued p"

lemma wf_update:
  assumes wf: "go_wf g" and p: "go_pcbs g i = Some p" and w: "same_wiring p p'"
    and g': "go_pcbs g' = (go_pcbs g)(i \<mapsto> p')" "go_next g' = go_next g"
      "\<And>k. k \<noteq> gp_recvQueued p \<Longrightarrow> go_chans g' k = go_chans g k"
      "tcpPcbs g' = tcpPcbs g" "udpPcbs g' = udpPcbs g"
    and ok: "pcb_wf g' i p'" and q: "queues_wf g'"
  shows "go_wf g'"
proof (rule go_wfI)
  fix j r assume r: "go_pcbs g' j = Some r"
  show "pcb_wf g' j r"
  proof (cases "j = i")
    case True
    with r g'(1) ok show ?thesis by simp
  next
    case False
    with r g'(1) have rj: "go_pcbs g j = Some r" by simp
    from go_wfD(2) [OF wf rj p False] have "go_chans g' (gp_recvQueued r) = go_chans g (gp_recvQueued r)" by (rule g'(3))
    with go_wfD(1) [OF wf rj] g'(2) show ?thesis by (simp add: pcb_wf_def)
  qed
next
  fix j k r s assume "go_pcbs g' j = Some r" "go_pcbs g' k = Some s" "j \<noteq> k"
  then show "gp_recvQueued r \<noteq> gp_recvQueued s"
    using go_wfD(2) [OF wf] p g'(1) w by (auto simp: same_wiring_def split: if_splits)
next
  have "\<exists>r. go_pcbs g' j = Some r \<and> same_wiring q r" if "go_pcbs g j = Some q" for j q
    using that p g'(1) w by (cases "j = i") (auto simp: same_wiring_def)
  then show "registry_wf g'" using go_wfD(3) [OF wf] g'(4,5)
    unfolding registry_wf_def same_wiring_def by metis
qed (rule q)

lemma queues_same:
  "queues_wf g \<Longrightarrow> dom (go_pcbs g) \<subseteq> dom (go_pcbs g') \<Longrightarrow> go_arrays g' = go_arrays g \<Longrightarrow> inputQueue g' = inputQueue g \<Longrightarrow>
   inputQueue2 g' = inputQueue2 g \<Longrightarrow> recvedQueue g' = recvedQueue g \<Longrightarrow> sendQueue g' = sendQueue g \<Longrightarrow>
   closeQueue g' = closeQueue g \<Longrightarrow> queues_wf g'"
  by (simp add: queues_wf_def slice_ok_def subset_trans [of _ "dom (go_pcbs g)"])

text \<open>A new connection, registered under a free name.\<close>

lemma wf_new:
  assumes wf: "go_wf g" and new: "newPCB t arg pcb s la ra lp rp g = Some (Ok (i, g'))"
    and reg: "g'' = g'\<lparr>tcpPcbs := tm, udpPcbs := um\<rparr>"
    and tm: "\<And>x. tm x = tcpPcbs g x \<or> x = s \<and> tm x = Some i \<and> t = TCP"
    and um: "\<And>x. um x = udpPcbs g x \<or> um x = Some i \<and> t = UDP"
  shows "go_wf g''"
proof -
  define p where "p = \<lparr>gp_type = t, gp_arg = arg, gp_pcb = pcb, gp_state = s, gp_localIP = la, gp_localPort = lp,
    gp_remoteIP = ra, gp_remotePort = rp, gp_err = None, gp_recvInter = False, gp_recvQueued = go_next g + 1,
    gp_sendWait = (if t = TCP then Some (make_chan 1) else None), gp_sendCount = 0, gp_lck = False\<rparr>"
  from new have i: "i = go_next g" and g': "g' = g\<lparr>go_next := i + 2, go_chans := (go_chans g)(i + 1 \<mapsto> make_chan 1024),
      go_pcbs := (go_pcbs g)(i \<mapsto> p)\<rparr>" by (auto simp: newPCB_def Let_def p_def)
  have f: "go_pcbs g'' = (go_pcbs g)(i \<mapsto> p)" "go_chans g'' = (go_chans g)(i + 1 \<mapsto> make_chan 1024)" "go_next g'' = i + 2"
    "tcpPcbs g'' = tm" "udpPcbs g'' = um" "go_arrays g'' = go_arrays g" "inputQueue g'' = inputQueue g" "inputQueue2 g'' = inputQueue2 g"
    "recvedQueue g'' = recvedQueue g" "sendQueue g'' = sendQueue g" "closeQueue g'' = closeQueue g"
    by (simp_all add: reg g')
  have p: "gp_type p = t" "gp_state p = s" "gp_recvQueued p = i + 1" "pcb_wf g'' i p"
    by (simp_all add: pcb_wf_def f p_def i make_chan_def chan_wf_def)
  have old: "j < i" "gp_recvQueued q < i" if "go_pcbs g j = Some q" for j q
    using go_wfD(1) [OF wf that] i by (simp_all add: pcb_wf_def)
  have kept: "go_pcbs g'' j = Some q" if "go_pcbs g j = Some q" for j q
    using old(1) [OF that] that by (simp add: f)
  show ?thesis
  proof (rule go_wfI)
    fix j q assume q: "go_pcbs g'' j = Some q"
    show "pcb_wf g'' j q"
    proof (cases "j = i")
      case True
      with q p(4) show ?thesis by (simp add: f)
    next
      case False
      with q have "go_pcbs g j = Some q" by (simp add: f)
      from go_wfD(1) [OF wf this] old [OF this] show ?thesis by (simp add: pcb_wf_def f)
    qed
  next
    fix j k q r assume "go_pcbs g'' j = Some q" "go_pcbs g'' k = Some r" "j \<noteq> k"
    then show "gp_recvQueued q \<noteq> gp_recvQueued r"
      using go_wfD(2) [OF wf, of j q k r] old(2) [of j q] old(2) [of k r] p(3)
      by (cases "j = i"; cases "k = i") (auto simp: f)
  next
    have "\<exists>q. go_pcbs g'' j = Some q \<and> gp_type q = TCP \<and> gp_state q = x" if "tm x = Some j" for x j
      using tm [of x] that go_wfD(3) [OF wf] kept p(1,2) f(1) unfolding registry_wf_def by fastforce
    moreover have "\<exists>q. go_pcbs g'' j = Some q \<and> gp_type q = UDP" if "um x = Some j" for x j
      using um [of x] that go_wfD(3) [OF wf] kept p(1) f(1) unfolding registry_wf_def by fastforce
    ultimately show "registry_wf g''" by (simp add: registry_wf_def f(4,5))
  next
    show "queues_wf g''" by (rule queues_same [OF go_wfD(4) [OF wf]]) (simp_all add: f subset_insertI)
  qed
qed

text \<open>Taking a connection out of a registry.\<close>

lemma wf_forget:
  "go_wf g \<Longrightarrow> go_wf (g\<lparr>tcpPcbs := (tcpPcbs g)(s := None)\<rparr>)"
  "go_wf g \<Longrightarrow> go_wf (g\<lparr>udpPcbs := (udpPcbs g)(k := None)\<rparr>)"
  by (auto simp: go_wf_def pcb_wf_def registry_wf_def queues_wf_def slice_ok_def)

text \<open>A change of the buffer of a receive queue.\<close>

lemma wf_queue:
  assumes wf: "go_wf g" and p: "go_pcbs g i = Some p" and c: "go_chans g (gp_recvQueued p) = Some c"
    and c': "ch_cap c' = ch_cap c" "ch_closed c' = ch_closed c" "chan_wf c'"
  shows "go_wf (g\<lparr>go_chans := (go_chans g)(gp_recvQueued p \<mapsto> c')\<rparr>)"
proof (rule wf_update [OF wf p, of p])
  let ?g = "g\<lparr>go_chans := (go_chans g)(gp_recvQueued p \<mapsto> c')\<rparr>"
  show "pcb_wf ?g i p" using go_wfD(1) [OF wf p] c c' by (simp add: pcb_wf_def)
  show "queues_wf ?g" by (rule queues_same [OF go_wfD(4) [OF wf]]) simp_all
qed (use p in \<open>auto simp: same_wiring_def\<close>)

text \<open>A change of the counter, the lock or the buffer of \<open>sendWait\<close>.\<close>

lemma wf_fields:
  assumes wf: "go_wf g" and p: "go_pcbs g i = Some p" and w: "same_wiring p p'"
    and p': "gp_err p' = gp_err p" "gp_recvInter p' = gp_recvInter p"
    and sw: "gp_sendWait p' = gp_sendWait p \<or> (\<exists>c c'. gp_sendWait p = Some c \<and> gp_sendWait p' = Some c' \<and>
      ch_cap c' = ch_cap c \<and> ch_closed c' = ch_closed c \<and> chan_wf c')"
  shows "go_wf (g\<lparr>go_pcbs := (go_pcbs g)(i \<mapsto> p')\<rparr>)"
proof (rule wf_update [OF wf p w])
  let ?g = "g\<lparr>go_pcbs := (go_pcbs g)(i \<mapsto> p')\<rparr>"
  show "pcb_wf ?g i p'" using go_wfD(1) [OF wf p] w p' sw by (auto simp: pcb_wf_def same_wiring_def)
  show "queues_wf ?g" by (rule queues_same [OF go_wfD(4) [OF wf]]) auto
qed simp_all

text \<open>Closing a connection.\<close>

definition closed_pcb :: "go_pcb \<Rightarrow> go_pcb" where
  "closed_pcb p = p\<lparr>gp_err := Some ''closed'', gp_sendWait := map_option (ch_closed_update (\<lambda>_. True)) (gp_sendWait p),
     gp_lck := False\<rparr>"

lemma close_result:
  assumes wf: "go_wf g" and p: "go_pcbs g i = Some p" and free: "\<not> gp_lck p" and open_: "gp_err p = None"
    and c: "go_chans g (gp_recvQueued p) = Some c"
  shows "pcb_close i g = Some (Ok (None, g\<lparr>go_chans := (go_chans g)(gp_recvQueued p \<mapsto> c\<lparr>ch_closed := True\<rparr>),
     go_pcbs := (go_pcbs g)(i \<mapsto> closed_pcb p)\<rparr>))"
proof -
  from go_wfD(1) [OF wf p] open_ c have nc: "\<not> ch_closed c"
    and sw: "gp_type p = TCP \<longleftrightarrow> gp_sendWait p \<noteq> None" "\<And>d. gp_sendWait p = Some d \<Longrightarrow> \<not> ch_closed d"
    and int: "\<not> gp_recvInter p" by (auto simp: pcb_wf_def)
  show ?thesis
  proof (cases "gp_sendWait p")
    case None
    with sw have t: "gp_type p \<noteq> TCP" by simp
    have "p\<lparr>gp_err := Some ''closed'', gp_lck := False\<rparr> = closed_pcb p"
      by (rule go_pcb.equality) (simp_all add: closed_pcb_def None)
    then show ?thesis using p free open_ c nc int t None
      by (simp add: pcb_close_def pcb_lock_def pcb_unlock_def set_pcb_field_def run_simps on_chan_def chan_close_def)
  next
    case (Some d)
    with sw have t: "gp_type p = TCP" and d: "\<not> ch_closed d" by simp_all
    show ?thesis using p free open_ c nc int t d Some
      by (simp add: pcb_close_def pcb_lock_def pcb_unlock_def set_pcb_field_def run_simps on_chan_def chan_close_def
          on_sendWait_def closed_pcb_def)
  qed
qed

lemma close_cases:
  assumes wf: "go_wf g" and run: "pcb_close i g = Some (Ok (r, g'))"
  obtains p err where "go_pcbs g i = Some p" and "\<not> gp_lck p" and "gp_err p = Some err"
    and "g' = g\<lparr>go_pcbs := (go_pcbs g)(i \<mapsto> p\<lparr>gp_lck := False\<rparr>)\<rparr>"
  | p c where "go_pcbs g i = Some p" and "\<not> gp_lck p" and "gp_err p = None" and "go_chans g (gp_recvQueued p) = Some c"
    and "ch_cap c = 1024" and "chan_wf c"
    and "g' = g\<lparr>go_chans := (go_chans g)(gp_recvQueued p \<mapsto> c\<lparr>ch_closed := True\<rparr>),
      go_pcbs := (go_pcbs g)(i \<mapsto> closed_pcb p)\<rparr>"
proof -
  from run obtain p where p: "go_pcbs g i = Some p" and free: "\<not> gp_lck p"
    by (auto simp: pcb_close_def pcb_lock_def run_simps split: option.splits if_splits)
  from go_wfD(1) [OF wf p] obtain c where c: "go_chans g (gp_recvQueued p) = Some c" "ch_cap c = 1024" "chan_wf c"
    by (auto simp: pcb_wf_def)
  show ?thesis
  proof (cases "gp_err p")
    case (Some err)
    with run p free have "g' = g\<lparr>go_pcbs := (go_pcbs g)(i \<mapsto> p\<lparr>gp_lck := False\<rparr>)\<rparr>"
      by (simp add: pcb_close_def pcb_lock_def pcb_unlock_def set_pcb_field_def run_simps)
    with that(1) p free Some show ?thesis by blast
  next
    case None
    from close_result [OF wf p free None c(1)] run that(2) [OF p free None c] show ?thesis by simp
  qed
qed

lemma wf_close:
  assumes wf: "go_wf g" and run: "pcb_close i g = Some (Ok (r, g'))"
  shows "go_wf g'"
  using wf run
proof (cases rule: close_cases)
  case (1 p err)
  then show ?thesis using wf_fields [OF wf 1(1), of "p\<lparr>gp_lck := False\<rparr>"] by (simp add: same_wiring_def)
next
  case (2 p c)
  have "pcb_wf g' i (closed_pcb p)" using go_wfD(1) [OF wf 2(1)] 2(4-7) by (auto simp: pcb_wf_def closed_pcb_def chan_wf_def)
  moreover have "queues_wf g'" by (rule queues_same [OF go_wfD(4) [OF wf]]) (auto simp: 2(7))
  ultimately show ?thesis
    by (intro wf_update [OF wf 2(1), of "closed_pcb p"]) (simp_all add: same_wiring_def closed_pcb_def 2(7))
qed

section \<open>Steps\<close>

text \<open>
  What a goroutine of the application or the loop does between two waits. A goroutine only has connections that
  exist, and \<open>Write\<close> queues no empty slice. The application may write to its arrays at any time. First what has nothing to do with a \<open>Write\<close> on a TCP connection.
  \<open>deliver\<close> is the second part of the handlers for received data, the send to the queue of a connection; \<open>forget_tcp\<close> and
  \<open>close_conn\<close> are also the parts of a handler that had to wait for the lock of a connection in the middle. \<open>own\<close> is a step of the program in its own part of the memory.
\<close>

inductive side_op :: "'a go_state_scheme \<Rightarrow> ('a go_state_scheme, unit) prog \<Rightarrow> bool" for g where
  check_read: "side_op g (ignore (pcb_Read_check i))"
| read: "side_op g (ignore (pcb_Read_take i n))"
| ack: "side_op g (pcb_Read_ack i l)"
| check_write: "side_op g (ignore (pcb_Write_check i b))"
| write_udp: "go_pcbs g i = Some p \<Longrightarrow> gp_type p = UDP \<Longrightarrow> slice_ok g b \<Longrightarrow> side_op g (pcb_Write_queue i b)"
| close_conn: "side_op g (ignore (pcb_close i))"
| queue_close: "go_pcbs g i \<noteq> None \<Longrightarrow> side_op g (zoom closeQueue (\<lambda>c g. g\<lparr>closeQueue := c\<rparr>) (chan_send i))"
| take_recved: "side_op g (ignore (zoom recvedQueue (\<lambda>c g. g\<lparr>recvedQueue := c\<rparr>) chan_recv))"
| take_close: "side_op g (ignore (zoom closeQueue (\<lambda>c g. g\<lparr>closeQueue := c\<rparr>) chan_recv))"
| take_input: "side_op g (ignore (zoom inputQueue (\<lambda>c g. g\<lparr>inputQueue := c\<rparr>) chan_recv))"
| pass_input: "side_op g (zoom inputQueue2 (\<lambda>c g. g\<lparr>inputQueue2 := c\<rparr>) (chan_send d))"
| put_input: "side_op g (zoom inputQueue (\<lambda>c g. g\<lparr>inputQueue := c\<rparr>) (chan_send d))"
| forget_udp: "side_op g (modify (\<lambda>g. g\<lparr>udpPcbs := (udpPcbs g)(k := None)\<rparr>))"
| forget_tcp: "side_op g (modify (\<lambda>g. g\<lparr>tcpPcbs := (tcpPcbs g)(s := None)\<rparr>))"
| deliver: "go_pcbs g i = Some p \<Longrightarrow> side_op g (on_chan (gp_recvQueued p) (chan_send data))"
| make_array: "go_arrays g r = None \<Longrightarrow> side_op g (modify (\<lambda>g. g\<lparr>go_arrays := (go_arrays g)(r \<mapsto> d)\<rparr>))"
| own: "(\<And>g'. m g = Some (Ok ((), g')) \<Longrightarrow> beside g g') \<Longrightarrow> side_op g m"

text \<open>The steps of a \<open>Write\<close> on a TCP connection and of what the loop does about it, here in any order.\<close>

inductive go_op :: "'a go_state_scheme \<Rightarrow> ('a go_state_scheme, unit) prog \<Rightarrow> bool" for g where
  side: "side_op g m \<Longrightarrow> go_op g m"
| lock_write: "go_op g (pcb_Write_lock i)"
| queue_write: "go_pcbs g i \<noteq> None \<Longrightarrow> slice_ok g b \<Longrightarrow> go_op g (pcb_Write_queue i b)"
| wait_write: "go_op g (pcb_Write_wait i)"
| end_write: "go_op g (ignore (pcb_Write_end i b))"
| take_send: "go_op g (ignore (zoom sendQueue (\<lambda>c g. g\<lparr>sendQueue := c\<rparr>) chan_recv))"
| count_send: "go_op g (set_pcb_field i (gp_sendCount_update (\<lambda>n. n + 1)))"
| uncount: "go_op g (set_pcb_field i (gp_sendCount_update (\<lambda>n. n - 1)))"
| notice: "go_op g (on_sendWait i (chan_send 1))"
| store: "length d = length (the (go_arrays g r)) \<Longrightarrow> go_op g (modify (\<lambda>g. g\<lparr>go_arrays := (go_arrays g)(r \<mapsto> d)\<rparr>))"

text \<open>Dropping and adding entries of the queues of the package.\<close>

lemma recv_shrinks: "chan_recv c = Some (Ok (r, c')) \<Longrightarrow> open_chan n c \<Longrightarrow> open_chan n c' \<and> set (ch_buf c') \<subseteq> set (ch_buf c)"
  by (auto simp: chan_recv_def open_chan_def chan_wf_def split: list.splits if_splits)

lemma send_grows: "chan_send x c = Some (Ok ((), c')) \<Longrightarrow> open_chan n c \<Longrightarrow> open_chan n c' \<and> set (ch_buf c') = insert x (set (ch_buf c))"
  by (auto simp: chan_send_def open_chan_def chan_wf_def split: if_splits)

lemma poll_shrinks: "chan_poll c = Some (Ok (r, c')) \<Longrightarrow> open_chan n c \<Longrightarrow> open_chan n c' \<and> set (ch_buf c') \<subseteq> set (ch_buf c)"
  using recv_shrinks by (fastforce simp: chan_poll_def split: option.splits res.splits)

lemma wf_queues:
  assumes "go_wf g" and "queues_wf g'" and "go_pcbs g' = go_pcbs g" and "go_chans g' = go_chans g"
    and "go_next g' = go_next g" and "tcpPcbs g' = tcpPcbs g" and "udpPcbs g' = udpPcbs g"
  shows "go_wf g'"
  using assms unfolding go_wf_def pcb_wf_def registry_wf_def by simp

lemma wf_global:
  assumes wf: "go_wf g"
  shows "open_chan 1024 c \<Longrightarrow> go_wf (g\<lparr>inputQueue := c\<rparr>)"
    and "open_chan 1024 c \<Longrightarrow> go_wf (g\<lparr>inputQueue2 := c\<rparr>)"
    and "open_chan 1024 d \<Longrightarrow> fst ` set (ch_buf d) \<subseteq> dom (go_pcbs g) \<Longrightarrow> go_wf (g\<lparr>recvedQueue := d\<rparr>)"
    and "open_chan 1024 e \<Longrightarrow> fst ` set (ch_buf e) \<subseteq> dom (go_pcbs g) \<Longrightarrow> \<forall>s \<in> snd ` set (ch_buf e). slice_ok g s \<Longrightarrow>
      go_wf (g\<lparr>sendQueue := e\<rparr>)"
    and "open_chan 1024 f \<Longrightarrow> set (ch_buf f) \<subseteq> dom (go_pcbs g) \<Longrightarrow> go_wf (g\<lparr>closeQueue := f\<rparr>)"
  using go_wfD(4) [OF wf] by (auto intro!: wf_queues [OF wf] simp: queues_wf_def slice_ok_def)

lemma same_buffer:
  assumes "chan_recv c = Some (Ok (r, c')) \<or> chan_send x c = Some (Ok ((), c'))" and "chan_wf c"
  shows "ch_cap c' = ch_cap c" and "ch_closed c' = ch_closed c" and "chan_wf c'"
  using assms by (auto simp: chan_recv_def chan_send_def chan_wf_def split: list.splits if_splits)

lemma wf_on_queue:
  assumes "go_wf g" and "go_pcbs g i = Some p" and "go_chans g (gp_recvQueued p) = Some c"
    and "chan_recv c = Some (Ok (r, c')) \<or> chan_send x c = Some (Ok ((), c'))"
  shows "go_wf (g\<lparr>go_chans := (go_chans g)(gp_recvQueued p \<mapsto> c')\<rparr>)"
proof -
  from go_wfD(1) [OF assms(1,2)] assms(3) have "chan_wf c" by (auto simp: pcb_wf_def)
  from same_buffer [OF assms(4) this] show ?thesis by (rule wf_queue [OF assms(1-3)])
qed

lemma wf_on_sendWait:
  assumes "go_wf g" and "go_pcbs g i = Some p" and "gp_sendWait p = Some c"
    and "chan_recv c = Some (Ok (r, c')) \<or> chan_send x c = Some (Ok ((), c'))"
  shows "go_wf (g\<lparr>go_pcbs := (go_pcbs g)(i \<mapsto> p\<lparr>gp_sendWait := Some c'\<rparr>)\<rparr>)"
proof -
  from go_wfD(1) [OF assms(1,2)] assms(3) have "chan_wf c" by (auto simp: pcb_wf_def)
  from same_buffer [OF assms(4) this] assms(3) show ?thesis
    by (intro wf_fields [OF assms(1,2)]) (simp_all add: same_wiring_def)
qed

lemma wf_takes:
  assumes wf: "go_wf g"
  shows "chan_recv (recvedQueue g) = Some (Ok (r, c)) \<Longrightarrow> go_wf (g\<lparr>recvedQueue := c\<rparr>)"
    and "chan_recv (sendQueue g) = Some (Ok (s, d)) \<Longrightarrow> go_wf (g\<lparr>sendQueue := d\<rparr>)"
    and "chan_recv (closeQueue g) = Some (Ok (t, e)) \<Longrightarrow> go_wf (g\<lparr>closeQueue := e\<rparr>)"
    and "chan_recv (inputQueue g) = Some (Ok (u, f)) \<Longrightarrow> go_wf (g\<lparr>inputQueue := f\<rparr>)"
    and "chan_poll (inputQueue2 g) = Some (Ok (v, f)) \<Longrightarrow> go_wf (g\<lparr>inputQueue2 := f\<rparr>)"
proof -
  note q = go_wfD(4) [OF wf, unfolded queues_wf_def]
  show "go_wf (g\<lparr>recvedQueue := c\<rparr>)" if "chan_recv (recvedQueue g) = Some (Ok (r, c))"
    using recv_shrinks [OF that, of 1024] q by (intro wf_global(3) [OF wf]) blast+
  show "go_wf (g\<lparr>sendQueue := d\<rparr>)" if "chan_recv (sendQueue g) = Some (Ok (s, d))"
    using recv_shrinks [OF that, of 1024] q by (intro wf_global(4) [OF wf]) blast+
  show "go_wf (g\<lparr>closeQueue := e\<rparr>)" if "chan_recv (closeQueue g) = Some (Ok (t, e))"
    using recv_shrinks [OF that, of 1024] q by (intro wf_global(5) [OF wf]) blast+
  show "go_wf (g\<lparr>inputQueue := f\<rparr>)" if "chan_recv (inputQueue g) = Some (Ok (u, f))"
    using recv_shrinks [OF that, of 1024] q by (intro wf_global(1) [OF wf]) auto
  show "go_wf (g\<lparr>inputQueue2 := f\<rparr>)" if "chan_poll (inputQueue2 g) = Some (Ok (v, f))"
    using poll_shrinks [OF that, of 1024] q by (intro wf_global(2) [OF wf]) auto
qed

lemma wf_puts:
  assumes wf: "go_wf g"
  shows "chan_send (i, l) (recvedQueue g) = Some (Ok ((), c)) \<Longrightarrow> go_pcbs g i = Some p \<Longrightarrow> go_wf (g\<lparr>recvedQueue := c\<rparr>)"
    and "chan_send (i, b) (sendQueue g) = Some (Ok ((), d)) \<Longrightarrow> go_pcbs g i = Some p \<Longrightarrow> slice_ok g b \<Longrightarrow> go_wf (g\<lparr>sendQueue := d\<rparr>)"
    and "chan_send i (closeQueue g) = Some (Ok ((), e)) \<Longrightarrow> go_pcbs g i = Some p \<Longrightarrow> go_wf (g\<lparr>closeQueue := e\<rparr>)"
    and "chan_send x (inputQueue g) = Some (Ok ((), f)) \<Longrightarrow> go_wf (g\<lparr>inputQueue := f\<rparr>)"
    and "chan_send x (inputQueue2 g) = Some (Ok ((), f)) \<Longrightarrow> go_wf (g\<lparr>inputQueue2 := f\<rparr>)"
proof -
  note q = go_wfD(4) [OF wf, unfolded queues_wf_def]
  show "go_wf (g\<lparr>recvedQueue := c\<rparr>)" if "chan_send (i, l) (recvedQueue g) = Some (Ok ((), c))" "go_pcbs g i = Some p"
    using send_grows [OF that(1), of 1024] that(2) q by (intro wf_global(3) [OF wf]) (simp_all add: domI)
  show "go_wf (g\<lparr>sendQueue := d\<rparr>)" if "chan_send (i, b) (sendQueue g) = Some (Ok ((), d))" "go_pcbs g i = Some p" "slice_ok g b"
    using send_grows [OF that(1), of 1024] that(2,3) q by (intro wf_global(4) [OF wf]) (simp_all add: domI)
  show "go_wf (g\<lparr>closeQueue := e\<rparr>)" if "chan_send i (closeQueue g) = Some (Ok ((), e))" "go_pcbs g i = Some p"
    using send_grows [OF that(1), of 1024] that(2) q by (intro wf_global(5) [OF wf]) (simp_all add: domI)
  show "go_wf (g\<lparr>inputQueue := f\<rparr>)" if "chan_send x (inputQueue g) = Some (Ok ((), f))"
    using send_grows [OF that, of 1024] q by (intro wf_global(1) [OF wf]) auto
  show "go_wf (g\<lparr>inputQueue2 := f\<rparr>)" if "chan_send x (inputQueue2 g) = Some (Ok ((), f))"
    using send_grows [OF that, of 1024] q by (intro wf_global(2) [OF wf]) auto
qed

text \<open>A new array, or new contents of an old one.\<close>

lemma wf_array:
  assumes wf: "go_wf g" and d: "go_arrays g r = None \<or> length d = length (the (go_arrays g r))"
  shows "go_wf (g\<lparr>go_arrays := (go_arrays g)(r \<mapsto> d)\<rparr>)"
proof (rule wf_queues [OF wf])
  have "slice_ok (g\<lparr>go_arrays := (go_arrays g)(r \<mapsto> d)\<rparr>) s" if "slice_ok g s" for s
    using that d by (auto simp: slice_ok_def)
  with go_wfD(4) [OF wf] show "queues_wf (g\<lparr>go_arrays := (go_arrays g)(r \<mapsto> d)\<rparr>)" by (simp add: queues_wf_def)
qed simp_all

lemma wf_lock_count:
  assumes "go_wf g" and "go_pcbs g i = Some p"
  shows "go_wf (g\<lparr>go_pcbs := (go_pcbs g)(i \<mapsto> p\<lparr>gp_lck := b\<rparr>)\<rparr>)"
    and "go_wf (g\<lparr>go_pcbs := (go_pcbs g)(i \<mapsto> gp_sendCount_update f p)\<rparr>)"
  by (rule wf_fields [OF assms]; simp add: same_wiring_def)+

lemma side_op_wf:
  assumes wf: "go_wf g" and "side_op g m" and "m g = Some (Ok ((), g'))"
  shows "go_wf g'"
  using assms(2,3)
proof cases
  case (check_read i)
  with assms(3) wf show ?thesis by (auto simp: ok_simps pcb_Read_check_def split: if_splits)
next
  case (read i n)
  with assms(3) wf show ?thesis
    by (auto simp: ok_simps pcb_Read_take_def intro: wf_on_queue split: if_splits option.splits)
next
  case (ack i l)
  with assms(3) wf show ?thesis
    by (auto simp: ok_simps pcb_Read_ack_def intro: wf_puts split: if_splits)
next
  case (check_write i b)
  with assms(3) wf show ?thesis by (auto simp: ok_simps pcb_Write_check_def split: if_splits)
next
  case (write_udp i p b)
  with assms(3) wf show ?thesis by (auto simp: ok_simps pcb_Write_queue_def intro: wf_puts)
next
  case (close_conn i)
  with assms(3) wf_close [OF wf] show ?thesis by (auto simp: ok_simps)
next
  case (queue_close i)
  with assms(3) wf show ?thesis by (auto simp: ok_simps intro: wf_puts)
next
  case take_recved
  with assms(3) wf_takes(1) [OF wf] show ?thesis by (auto simp: ok_simps)
next
  case take_close
  with assms(3) wf_takes(3) [OF wf] show ?thesis by (auto simp: ok_simps)
next
  case take_input
  with assms(3) wf_takes(4) [OF wf] show ?thesis by (auto simp: ok_simps)
next
  case (pass_input d)
  with assms(3) wf_puts(5) [OF wf] show ?thesis by (auto simp: ok_simps)
next
  case (put_input d)
  with assms(3) wf_puts(4) [OF wf] show ?thesis by (auto simp: ok_simps)
next
  case (forget_udp k)
  with assms(3) wf show ?thesis by (auto simp: ok_simps wf_forget)
next
  case (forget_tcp s)
  with assms(3) wf show ?thesis by (auto simp: ok_simps wf_forget)
next
  case (deliver i p data)
  with assms(3) wf show ?thesis by (auto simp: ok_simps intro: wf_on_queue)
next
  case (make_array r d)
  with assms(3) wf_array [OF wf] show ?thesis by (auto simp: ok_simps)
next
  case own
  with assms(3) wf_beside [OF wf] show ?thesis by blast
qed

lemma op_wf:
  assumes wf: "go_wf g" and "go_op g m" and "m g = Some (Ok ((), g'))"
  shows "go_wf g'"
  using assms(2,3)
proof cases
  case side
  with assms(3) wf show ?thesis by (blast intro: side_op_wf)
next
  case (lock_write i)
  with assms(3) wf show ?thesis by (auto simp: ok_simps pcb_Write_lock_def wf_lock_count split: if_splits)
next
  case (queue_write i b)
  with assms(3) wf show ?thesis by (auto simp: ok_simps pcb_Write_queue_def intro: wf_puts)
next
  case (wait_write i)
  with assms(3) wf show ?thesis
    by (auto simp: ok_simps pcb_Write_wait_def split: if_splits intro: wf_on_sendWait)
next
  case (end_write i b)
  with assms(3) wf show ?thesis
    by (auto simp: ok_simps pcb_Write_end_def pcb_unlock_def wf_lock_count split: if_splits)
next
  case take_send
  with assms(3) wf_takes(2) [OF wf] show ?thesis by (auto simp: ok_simps)
next
  case (count_send i)
  with assms(3) wf show ?thesis by (auto simp: ok_simps wf_lock_count)
next
  case (uncount i)
  with assms(3) wf show ?thesis by (auto simp: ok_simps wf_lock_count)
next
  case (notice i)
  with assms(3) wf show ?thesis by (auto simp: ok_simps intro: wf_on_sendWait)
next
  case (store d r)
  with assms(3) wf_array [OF wf] show ?thesis by (auto simp: ok_simps)
qed

section \<open>Runs\<close>

text \<open>
  The C functions Go calls leave Go's memory alone. The application's handlers change only the part of the memory that
  is the application's, in particular they may start goroutines. They may panic.
\<close>

definition polite :: "'a go_state_scheme go_cs \<Rightarrow> bool" where
  "polite G \<longleftrightarrow> (\<forall>buf w d w'. go_cs_pbuf_copy G buf w = Some (Ok (d, w')) \<longrightarrow> app w' = app w) \<and>
     (\<forall>n w p w'. go_cs_pbuf_alloc G n w = Some (Ok (p, w')) \<longrightarrow> app w' = app w) \<and>
     (\<forall>p d w w'. go_cs_pbuf_take G p d w = Some (Ok ((), w')) \<longrightarrow> app w' = app w)"

definition quiet :: "('a go_state_scheme world, unit) prog \<Rightarrow> 'a go_state_scheme world \<Rightarrow> bool" where
  "quiet m w \<longleftrightarrow> (case m w of Some (Ok (u, w')) \<Rightarrow> beside (app w) (app w') | _ \<Rightarrow> True)"

definition calm :: "'a go_handler option \<Rightarrow> bool" where
  "calm Ev \<longleftrightarrow> (\<forall>E i w. Ev = Some E \<longrightarrow> go_pcbs (app w) i \<noteq> None \<longrightarrow> quiet (on_accept E i) w \<and> quiet (on_close E i) w)"

text \<open>
  What the stack does: something of its own, or a call of a handler. Of the handlers for received data it is the first part;
  the second is \<open>deliver\<close>, so that goroutines run in between.
\<close>

inductive handler_step ::
  "'a go_state_scheme go_cs \<Rightarrow> (u8 list \<Rightarrow> int \<Rightarrow> string) \<Rightarrow> 'a go_handler option \<Rightarrow>
   'a go_state_scheme world \<Rightarrow> 'a go_state_scheme world \<Rightarrow> bool"
  for G addr_string Ev w w' where
  stack: "app w' = app w \<Longrightarrow> handler_step G addr_string Ev w w'"
| accept: "go_accept Ev arg newpcb state w = Some (Ok (r, w')) \<Longrightarrow> handler_step G addr_string Ev w w'"
| recv: "go_recv_data G tpcb state buf w = Some (Ok (r, w')) \<Longrightarrow> handler_step G addr_string Ev w w'"
| send_done: "go_send_done arg tpcb state w = Some (Ok (r, w')) \<Longrightarrow> handler_step G addr_string Ev w w'"
| peer_close: "go_close Ev arg tpcb state w = Some (Ok (r, w')) \<Longrightarrow> handler_step G addr_string Ev w w'"
| udp: "go_udp_recv_data G addr_string Ev arg upcb ip port buf w = Some (Ok (r, w')) \<Longrightarrow> handler_step G addr_string Ev w w'"
| input: "go_input G arg netif w = Some (Ok (pl, w')) \<Longrightarrow> handler_step G addr_string Ev w w'"

inductive go_reach ::
  "'a go_state_scheme go_cs \<Rightarrow> (u8 list \<Rightarrow> int \<Rightarrow> string) \<Rightarrow> 'a go_handler option \<Rightarrow> 'a go_state_scheme world \<Rightarrow> bool"
  for G addr_string Ev where
  start: "starts (app w) \<Longrightarrow> go_reach G addr_string Ev w"
| handler: "go_reach G addr_string Ev w \<Longrightarrow> handler_step G addr_string Ev w w' \<Longrightarrow> go_reach G addr_string Ev w'"
| goroutine: "go_reach G addr_string Ev w \<Longrightarrow> go_op (app w) m \<Longrightarrow> in_go m w = Some (Ok ((), w')) \<Longrightarrow>
    go_reach G addr_string Ev w'"

lemma calm_notify:
  assumes "calm Ev" and "go_pcbs (app w) i \<noteq> None"
  shows "notify (map_option (\<lambda>E. on_accept E i) Ev) w = Some (Ok ((), w')) \<Longrightarrow> beside (app w) (app w')"
    and "notify (map_option (\<lambda>E. on_close E i) Ev) w = Some (Ok ((), w')) \<Longrightarrow> beside (app w) (app w')"
proof -
  have "quiet (notify (map_option (\<lambda>E. on_accept E i) Ev)) w \<and> quiet (notify (map_option (\<lambda>E. on_close E i) Ev)) w"
  proof (cases Ev)
    case None
    then show ?thesis by (simp add: quiet_def notify_def run_simps)
  next
    case (Some E)
    with assms show ?thesis by (simp add: calm_def notify_def)
  qed
  then show "notify (map_option (\<lambda>E. on_accept E i) Ev) w = Some (Ok ((), w')) \<Longrightarrow> beside (app w) (app w')"
    "notify (map_option (\<lambda>E. on_close E i) Ev) w = Some (Ok ((), w')) \<Longrightarrow> beside (app w) (app w')"
    by (auto simp: quiet_def)
qed

lemma copy_app: "polite G \<Longrightarrow> go_copy G buf w = Some (Ok (d, w')) \<Longrightarrow> app w' = app w"
  by (auto simp: go_copy_def polite_def ok_simps go_cs_pbuf_len_def deref_def split: if_splits option.splits)

text \<open>What each handler does to Go's memory.\<close>

lemma bridge_accept_run:
  assumes run: "go_accept Ev arg newpcb state w = Some (Ok (r, w'))"
  obtains "app w' = app w"
  | la ra lp rp i g where "newPCB TCP arg newpcb state la ra lp rp (app w) = Some (Ok (i, g))" and "go_pcbs g i \<noteq> None"
    and "notify (map_option (\<lambda>E. on_accept E i) Ev) (w\<lparr>app := g\<lparr>tcpPcbs := (tcpPcbs g)(state \<mapsto> i)\<rparr>\<rparr>) = Some (Ok ((), w'))"
proof (cases "newpcb = NULL \<or> tcpPcbs (app w) state \<noteq> None")
  case True
  with run that(1) show ?thesis by (auto simp: go_accept_def ok_simps split: if_splits)
next
  case False
  with run obtain la ra lp rp i g where new: "newPCB TCP arg newpcb state la ra lp rp (app w) = Some (Ok (i, g))"
    and call: "notify (map_option (\<lambda>E. on_accept E i) Ev) (w\<lparr>app := g\<lparr>tcpPcbs := (tcpPcbs g)(state \<mapsto> i)\<rparr>\<rparr>) = Some (Ok ((), w'))"
    by (auto simp: go_accept_def ok_simps go_cs_tcp_local_ip_def go_cs_tcp_remote_ip_def
        go_cs_tcp_local_port_def go_cs_tcp_remote_port_def deref_def split: option.splits)
  from new have "go_pcbs g i \<noteq> None" by (auto simp: newPCB_def Let_def)
  from that(2) [OF new this call] show ?thesis .
qed

lemma accept_shape:
  assumes "calm Ev" and run: "go_accept Ev arg newpcb state w = Some (Ok (r, w'))"
  obtains "app w' = app w"
  | la ra lp rp i g where "newPCB TCP arg newpcb state la ra lp rp (app w) = Some (Ok (i, g))"
    and "beside (g\<lparr>tcpPcbs := (tcpPcbs g)(state \<mapsto> i)\<rparr>) (app w')"
  using run
proof (cases rule: bridge_accept_run)
  case 1
  with that(1) show ?thesis by simp
next
  case (2 la ra lp rp i g)
  with calm_notify(1) [OF assms(1) _ 2(3)] that(2) [OF 2(1)] show ?thesis by simp
qed

lemma recv_app: "polite G \<Longrightarrow> go_recv_data G tpcb state buf w = Some (Ok (r, w')) \<Longrightarrow> app w' = app w"
  by (auto simp: go_recv_data_def ok_simps dest: copy_app split: if_splits option.splits)

lemma send_done_shape:
  assumes run: "go_send_done arg tpcb state w = Some (Ok (r, w'))"
  obtains "app w' = app w"
  | i p c where "go_pcbs (app w) i = Some p" and "gp_err p = None" and "0 < gp_sendCount p" and "gp_sendWait p = Some c"
    and "chan_send 1 c = Some (Ok ((), c\<lparr>ch_buf := ch_buf c @ [1]\<rparr>))"
    and "app w' = (app w)\<lparr>go_pcbs := (go_pcbs (app w))(i \<mapsto>
      (gp_sendCount_update (\<lambda>n. n - 1) p)\<lparr>gp_sendWait := Some (c\<lparr>ch_buf := ch_buf c @ [1]\<rparr>)\<rparr>)\<rparr>"
proof (cases "w' = w")
  case True
  with that(1) show ?thesis by simp
next
  case False
  with run that(2) show ?thesis
    by (auto simp: go_send_done_def go_send_notice_def ok_simps chan_send_def split: if_splits option.splits)
qed

lemma close_pcb: "go_wf g \<Longrightarrow> pcb_close i g = Some (Ok (e, g')) \<Longrightarrow> go_pcbs g' i \<noteq> None"
  by (erule (1) close_cases) auto

lemma peer_close_run:
  assumes wf: "go_wf (app w)" and run: "go_close Ev arg tpcb state w = Some (Ok (r, w'))"
  obtains "app w' = app w"
  | i e g where "pcb_close i ((app w)\<lparr>tcpPcbs := (tcpPcbs (app w))(state := None)\<rparr>) = Some (Ok (e, g))"
    and "go_pcbs g i \<noteq> None" and "notify (map_option (\<lambda>E. on_close E i) Ev) (w\<lparr>app := g\<rparr>) = Some (Ok ((), w'))"
proof (cases "w' = w")
  case True
  with that(1) show ?thesis by simp
next
  case False
  with run obtain i e g where close: "pcb_close i ((app w)\<lparr>tcpPcbs := (tcpPcbs (app w))(state := None)\<rparr>) = Some (Ok (e, g))"
    and call: "notify (map_option (\<lambda>E. on_close E i) Ev) (w\<lparr>app := g\<rparr>) = Some (Ok ((), w'))"
    by (auto simp: go_close_def ok_simps split: if_splits option.splits)
  from that(2) [OF close close_pcb [OF wf_forget(1) [OF wf] close] call] show ?thesis .
qed

lemma peer_close_shape:
  assumes "calm Ev" and wf: "go_wf (app w)" and run: "go_close Ev arg tpcb state w = Some (Ok (r, w'))"
  obtains "app w' = app w"
  | i e g where "pcb_close i ((app w)\<lparr>tcpPcbs := (tcpPcbs (app w))(state := None)\<rparr>) = Some (Ok (e, g))"
    and "beside g (app w')"
  using wf run
proof (cases rule: peer_close_run)
  case 1
  with that(1) show ?thesis by simp
next
  case (2 i e g)
  with calm_notify(2) [OF assms(1) _ 2(3)] that(2) [OF 2(1)] show ?thesis by simp
qed

lemma udp_run:
  assumes "polite G" and run: "go_udp_recv_data G addr_string Ev arg upcb ip port buf w = Some (Ok ((q, data), w'))"
  obtains i p where
    "app w' = app w \<and> (\<exists>k. udpPcbs (app w) k = Some i) \<or> (\<exists>w1 la lp k g'. newPCB UDP arg upcb NULL la ip lp port (app w) = Some (Ok (i, g')) \<and> go_pcbs g' i \<noteq> None \<and>
       notify (map_option (\<lambda>E. on_accept E i) Ev) (w1\<lparr>app := g'\<lparr>udpPcbs := (udpPcbs g')(k \<mapsto> i)\<rparr>\<rparr>) = Some (Ok ((), w')))"
    and "go_pcbs (app w') i = Some p" and "q = gp_recvQueued p"
proof -
  from run obtain w1 bs i p where copy: "go_copy G buf w = Some (Ok (data, w1))"
    and get: "(case udpPcbs (app w1) (addr_string bs port) of
          Some i \<Rightarrow> ret i
        | None \<Rightarrow>
            bnd (go_cs_udp_local_ip upcb) (\<lambda>laddr.
            bnd (go_cs_udp_local_port upcb) (\<lambda>lport.
            bnd (in_go (newPCB UDP arg upcb NULL laddr ip lport port)) (\<lambda>i.
            seq (in_go (modify (\<lambda>g. g\<lparr>udpPcbs := (udpPcbs g)(addr_string bs port \<mapsto> i)\<rparr>)))
           (seq (notify (map_option (\<lambda>E. on_accept E i) Ev))
           (ret i)))))) w1 = Some (Ok (i, w'))"
    and rest: "go_pcbs (app w') i = Some p" "q = gp_recvQueued p"
    by (auto simp: go_udp_recv_data_def ok_simps Let_def)
  note same = copy_app [OF assms(1) copy]
  have "app w' = app w1 \<and> (\<exists>k. udpPcbs (app w1) k = Some i) \<or> (\<exists>la lp k g'. newPCB UDP arg upcb NULL la ip lp port (app w1) = Some (Ok (i, g')) \<and> go_pcbs g' i \<noteq> None \<and>
       notify (map_option (\<lambda>E. on_accept E i) Ev) (w1\<lparr>app := g'\<lparr>udpPcbs := (udpPcbs g')(k \<mapsto> i)\<rparr>\<rparr>) = Some (Ok ((), w')))"
  proof (cases "udpPcbs (app w1) (addr_string bs port)")
    case (Some j)
    with get show ?thesis by (auto simp: ok_simps)
  next
    case None
    with get obtain la lp g' where new: "newPCB UDP arg upcb NULL la ip lp port (app w1) = Some (Ok (i, g'))"
      and call: "notify (map_option (\<lambda>E. on_accept E i) Ev)
        (w1\<lparr>app := g'\<lparr>udpPcbs := (udpPcbs g')(addr_string bs port \<mapsto> i)\<rparr>\<rparr>) = Some (Ok ((), w'))"
      by (auto simp: ok_simps go_cs_udp_local_ip_def go_cs_udp_local_port_def deref_def split: if_splits option.splits)
    from new have "go_pcbs g' i \<noteq> None" by (auto simp: newPCB_def Let_def)
    with new call show ?thesis by blast
  qed
  with same have "app w' = app w \<and> (\<exists>k. udpPcbs (app w) k = Some i) \<or> (\<exists>w1 la lp k g'. newPCB UDP arg upcb NULL la ip lp port (app w) = Some (Ok (i, g')) \<and> go_pcbs g' i \<noteq> None \<and>
       notify (map_option (\<lambda>E. on_accept E i) Ev) (w1\<lparr>app := g'\<lparr>udpPcbs := (udpPcbs g')(k \<mapsto> i)\<rparr>\<rparr>) = Some (Ok ((), w')))"
    by metis
  from that [OF this rest] show ?thesis .
qed

lemma udp_shape:
  assumes "polite G" and "calm Ev" and run: "go_udp_recv_data G addr_string Ev arg upcb ip port buf w = Some (Ok (x, w'))"
  obtains "app w' = app w"
  | i la lp k g' where "newPCB UDP arg upcb NULL la ip lp port (app w) = Some (Ok (i, g'))"
    and "beside (g'\<lparr>udpPcbs := (udpPcbs g')(k \<mapsto> i)\<rparr>) (app w')"
proof -
  from run obtain q data where "go_udp_recv_data G addr_string Ev arg upcb ip port buf w = Some (Ok ((q, data), w'))" by (cases x) simp
  with assms(1) show ?thesis
  proof (cases rule: udp_run)
    case (1 i p)
    from 1(1) show ?thesis
    proof (elim disjE exE conjE)
      fix w1 la lp k g' assume new: "newPCB UDP arg upcb NULL la ip lp port (app w) = Some (Ok (i, g'))" "go_pcbs g' i \<noteq> None"
        and call: "notify (map_option (\<lambda>E. on_accept E i) Ev) (w1\<lparr>app := g'\<lparr>udpPcbs := (udpPcbs g')(k \<mapsto> i)\<rparr>\<rparr>) = Some (Ok ((), w'))"
      with calm_notify(1) [OF assms(2) _ call] that(2) [OF new(1)] show ?thesis by simp
    qed (rule that(1))
  qed
qed

lemma input_shape:
  assumes "polite G" and "go_input G arg netif w = Some (Ok (pl, w'))"
  obtains r c where "chan_poll (inputQueue2 (app w)) = Some (Ok (r, c))" and "app w' = (app w)\<lparr>inputQueue2 := c\<rparr>"
  using assms by (fastforce simp: go_input_def ok_simps Let_def polite_def split: option.splits if_splits)

lemma new_registries: "newPCB t arg pcb s la ra lp rp g = Some (Ok (i, g')) \<Longrightarrow> tcpPcbs g' = tcpPcbs g \<and> udpPcbs g' = udpPcbs g"
  by (auto simp: newPCB_def Let_def)

text \<open>No handler breaks what is well formed.\<close>

lemma accept_wf:
  assumes "calm Ev" and wf: "go_wf (app w)" and run: "go_accept Ev arg newpcb state w = Some (Ok (r, w'))"
  shows "go_wf (app w')"
  using assms(1) run
proof (cases rule: accept_shape)
  case 1
  with wf show ?thesis by simp
next
  case (2 la ra lp rp i g)
  with new_registries [OF 2(1)] have "go_wf (g\<lparr>tcpPcbs := (tcpPcbs g)(state \<mapsto> i)\<rparr>)"
    by (intro wf_new [OF wf 2(1), where tm = "(tcpPcbs g)(state \<mapsto> i)" and um = "udpPcbs g"]) auto
  with 2(2) show ?thesis by (rule wf_beside [rotated])
qed

lemma send_done_wf:
  assumes wf: "go_wf (app w)" and run: "go_send_done arg tpcb state w = Some (Ok (r, w'))"
  shows "go_wf (app w')"
  using run
proof (cases rule: send_done_shape)
  case 1
  with wf show ?thesis by simp
next
  case (2 i p c)
  let ?p = "gp_sendCount_update (\<lambda>n. n - 1) p"
  have "go_wf ((app w)\<lparr>go_pcbs := (go_pcbs (app w))(i \<mapsto> ?p)\<rparr>)" by (rule wf_lock_count(2) [OF wf 2(1)])
  from wf_on_sendWait [OF this, where i = i and p = ?p and c = c and c' = "c\<lparr>ch_buf := ch_buf c @ [1]\<rparr>" and x = 1] 2
  show ?thesis by simp
qed

lemma peer_close_wf:
  assumes "calm Ev" and wf: "go_wf (app w)" and run: "go_close Ev arg tpcb state w = Some (Ok (r, w'))"
  shows "go_wf (app w')"
  using assms(1) wf run
proof (cases rule: peer_close_shape)
  case 1
  with wf show ?thesis by simp
next
  case (2 i e g)
  with wf_close wf_forget(1) [OF wf] wf_beside show ?thesis by blast
qed

lemma udp_wf:
  assumes "polite G" and "calm Ev" and wf: "go_wf (app w)"
    and run: "go_udp_recv_data G addr_string Ev arg upcb ip port buf w = Some (Ok (x, w'))"
  shows "go_wf (app w')"
  using assms(1,2) run
proof (cases rule: udp_shape)
  case 1
  with wf show ?thesis by simp
next
  case (2 i la lp k g')
  from new_registries [OF 2(1)] have "go_wf (g'\<lparr>udpPcbs := (udpPcbs g')(k \<mapsto> i)\<rparr>)"
    by (intro wf_new [OF wf 2(1), where tm = "tcpPcbs g'" and um = "(udpPcbs g')(k \<mapsto> i)"]) auto
  from wf_beside [OF this 2(2)] show ?thesis .
qed

lemma input_wf:
  assumes "polite G" and wf: "go_wf (app w)" and run: "go_input G arg netif w = Some (Ok (pl, w'))"
  shows "go_wf (app w')"
  using input_shape [OF assms(1) run] wf_takes(5) [OF wf] by metis

lemma handler_step_wf:
  assumes "polite G" and "calm Ev" and "go_wf (app w)" and "handler_step G addr_string Ev w w'"
  shows "go_wf (app w')"
  using assms(4)
proof cases
  case stack
  with assms(3) show ?thesis by simp
next
  case accept
  from accept_wf [OF assms(2,3) this] show ?thesis .
next
  case recv
  from recv_app [OF assms(1) this] assms(3) show ?thesis by simp
next
  case send_done
  from send_done_wf [OF assms(3) this] show ?thesis .
next
  case peer_close
  from peer_close_wf [OF assms(2,3) this] show ?thesis .
next
  case udp
  from udp_wf [OF assms(1-3) this] show ?thesis .
next
  case input
  from input_wf [OF assms(1,3) this] show ?thesis .
qed

lemma reach_wf:
  assumes "polite G" and "calm Ev" and "go_reach G addr_string Ev w"
  shows "go_wf (app w)"
  using assms(3)
proof induction
  case (start w)
  then show ?case by (rule start_wf)
next
  case (handler w w')
  from handler_step_wf [OF assms(1,2) handler.IH handler.hyps(2)] show ?case .
next
  case (goroutine w m w')
  then show ?case using op_wf by (auto simp: ok_simps)
qed

section \<open>Properties of every run\<close>

text \<open>
  C33. Go's connections stay well formed. With an application whose handlers touch only memory of their own, in every run of the
  handlers, the goroutines and the loop, in any order: a
  connection has a receive queue of its own, with at most 1024 slices, that is closed exactly when the connection
  is; a TCP connection, and no other, has the one place for the notice of a finished write, closed likewise; the
  registries lead to connections of their kind, the one for TCP under the state the stack knows it by.
\<close>

theorem go_run_well_formed:
  assumes "polite G" and "calm Ev" and "go_reach G addr_string Ev w"
  shows "(\<forall>i p. go_pcbs (app w) i = Some p \<longrightarrow>
       (\<exists>c. go_chans (app w) (gp_recvQueued p) = Some c \<and> length (ch_buf c) \<le> 1024 \<and> (ch_closed c \<longleftrightarrow> gp_err p \<noteq> None)) \<and>
       (case gp_sendWait p of
          None \<Rightarrow> gp_type p = UDP
        | Some c \<Rightarrow> gp_type p = TCP \<and> length (ch_buf c) \<le> 1 \<and> (ch_closed c \<longleftrightarrow> gp_err p \<noteq> None)) \<and>
       (\<forall>j q. go_pcbs (app w) j = Some q \<longrightarrow> j \<noteq> i \<longrightarrow> gp_recvQueued q \<noteq> gp_recvQueued p)) \<and>
     (\<forall>s i. tcpPcbs (app w) s = Some i \<longrightarrow> (\<exists>p. go_pcbs (app w) i = Some p \<and> gp_type p = TCP \<and> gp_state p = s)) \<and>
     (\<forall>k i. udpPcbs (app w) k = Some i \<longrightarrow> (\<exists>p. go_pcbs (app w) i = Some p \<and> gp_type p = UDP))"
proof -
  from reach_wf [OF assms] have wf: "go_wf (app w)" .
  have "(\<exists>c. go_chans (app w) (gp_recvQueued p) = Some c \<and> length (ch_buf c) \<le> 1024 \<and> (ch_closed c \<longleftrightarrow> gp_err p \<noteq> None)) \<and>
       (case gp_sendWait p of
          None \<Rightarrow> gp_type p = UDP
        | Some c \<Rightarrow> gp_type p = TCP \<and> length (ch_buf c) \<le> 1 \<and> (ch_closed c \<longleftrightarrow> gp_err p \<noteq> None))"
    if "go_pcbs (app w) i = Some p" for i p
    using go_wfD(1) [OF wf that] by (cases "gp_type p") (auto simp: pcb_wf_def chan_wf_def)
  with go_wfD(2,3) [OF wf] show ?thesis unfolding registry_wf_def by blast
qed

section \<open>Panics\<close>

text \<open>
  When a handler for TCP panics: the application's handler that it calls does, or received data is sent to the queue of a
  connection that is closed.
\<close>

lemma registered:
  assumes "go_wf g"
  obtains "tcpPcbs g es = None" | i p where "tcpPcbs g es = Some i" "go_pcbs g i = Some p" "gp_type p = TCP"
  using go_wfD(3) [OF assms] unfolding registry_wf_def by (cases "tcpPcbs g es") blast+

lemma close_no_fault:
  assumes wf: "go_wf g" and p: "go_pcbs g i = Some p"
  shows "pcb_close i g \<noteq> Some (Fault f)"
proof (cases "gp_lck p \<or> gp_err p \<noteq> None")
  case True
  with p show ?thesis by (auto simp: pcb_close_def pcb_lock_def pcb_unlock_def set_pcb_field_def run_simps)
next
  case False
  from go_wfD(1) [OF wf p] obtain c where "go_chans g (gp_recvQueued p) = Some c" by (auto simp: pcb_wf_def)
  with close_result [OF wf p] False show ?thesis by simp
qed

lemma accept_faults:
  assumes "tpcbs w tpcb \<noteq> None" and "go_accept Ev arg tpcb es w = Some (Fault f)"
  shows "\<exists>E i v. Ev = Some E \<and> tcpPcbs (app v) es = Some i \<and> go_pcbs (app v) i \<noteq> None \<and> on_accept E i v = Some (Fault f)"
  using assms by (cases Ev) (auto simp: go_accept_def run_simps notify_def go_cs_tcp_local_ip_def go_cs_tcp_remote_ip_def
      go_cs_tcp_local_port_def go_cs_tcp_remote_port_def newPCB_def Let_def split: option.splits res.splits if_splits,
      rule exI, rule exI, rule conjI [rotated], rule conjI [rotated], assumption, simp_all)

lemma peer_close_faults:
  assumes wf: "go_wf (app w)" and "go_close Ev arg tpcb es w = Some (Fault f)"
  shows "\<exists>E i v. Ev = Some E \<and> tcpPcbs (app w) es = Some i \<and> go_pcbs (app v) i \<noteq> None \<and> on_close E i v = Some (Fault f)"
  using wf
proof (cases rule: registered [of _ es])
  case 1
  with assms(2) show ?thesis by (auto simp: go_close_def run_simps split: if_splits)
next
  case (2 i p)
  from close_no_fault [OF wf_forget(1) [OF wf, of es], of i p] 2(2) have
    "pcb_close i ((app w)\<lparr>tcpPcbs := (tcpPcbs (app w))(es := None)\<rparr>) \<noteq> Some (Fault f)" for f by simp
  moreover have "go_pcbs g i \<noteq> None" if "pcb_close i ((app w)\<lparr>tcpPcbs := (tcpPcbs (app w))(es := None)\<rparr>) = Some (Ok (e, g))" for e g
    using close_pcb [OF wf_forget(1) [OF wf] that] .
  ultimately show ?thesis using 2 assms(2)
    by (cases Ev) (auto simp: go_close_def run_simps notify_def split: option.splits res.splits if_splits,
        rule exI, rule conjI [rotated], assumption, simp)
qed

lemma recv_data_no_fault:
  assumes wf: "go_wf (app w)" and "G = go_of P T U N sg C inp outp ba ni" and "doc_pbuf_copy P" and "whole_chain (pbufs w) buf ps"
  shows "go_recv_data G tpcb es buf w \<noteq> Some (Fault f)"
  using wf
  by (cases rule: registered [of _ es]) (auto simp: go_recv_data_def run_simps assms(2) go_copy_run [OF assms(3,4)])

lemma recv_send_faults:
  assumes wf: "go_wf (app w)" and p: "go_pcbs (app w) i = Some p"
  shows "go_recv_send (gp_recvQueued p) data w = Some (Fault f) \<longleftrightarrow> gp_err p \<noteq> None \<and> f = GoPanic ''send on closed channel''"
proof -
  from go_wfD(1) [OF wf p] obtain c where "go_chans (app w) (gp_recvQueued p) = Some c" "ch_closed c \<longleftrightarrow> gp_err p \<noteq> None"
    by (auto simp: pcb_wf_def)
  then show ?thesis
    by (cases "gp_err p = None") (auto simp: go_recv_send_def run_simps queue_send_run queue_send_closed)
qed

section \<open>A run on the reference stack\<close>

definition go_g :: "go_state go_cs" where
  "go_g = go_of ref_pbuf ref_tcp ref_udp ref_netif True Map.empty (\<lambda>s n. ret (- 1, [])) (\<lambda>s d l. ret (uint l)) 9 4"

definition demo_key :: "u8 list \<Rightarrow> int \<Rightarrow> string" where
  "demo_key bs n = map (\<lambda>b. char_of (unat b)) bs"

definition go_c :: "go_state callbacks" where
  "go_c = [9 \<mapsto> go_cs_init_handle (go_handlers go_g demo_key None) go_g quiet_cb]"

text \<open>A connection of the stack with a buffer that has just arrived, before and after Go has accepted it.\<close>

definition go_net0 :: "go_state world" where
  "go_net0 = \<lparr>pbufs = [8 \<mapsto> demo_buf NULL [10, 20]], ess = [7 \<mapsto> demo_es NULL], tpcbs = [5 \<mapsto> blank_pcb],
     upcbs = Map.empty, netifs = Map.empty, app = go_start\<rparr>"

definition go_pcb1 :: go_pcb where
  "go_pcb1 = \<lparr>gp_type = TCP, gp_arg = 3, gp_pcb = 5, gp_state = 7, gp_localIP = t_local_ip blank_pcb,
     gp_localPort = uint (t_local_port blank_pcb), gp_remoteIP = t_remote_ip blank_pcb,
     gp_remotePort = uint (t_remote_port blank_pcb), gp_err = None, gp_recvInter = False, gp_recvQueued = 3,
     gp_sendWait = Some (make_chan 1), gp_sendCount = 0, gp_lck = False\<rparr>"

definition go_net1 :: "go_state world" where
  "go_net1 = go_net0\<lparr>app := go_start\<lparr>go_next := 4, go_chans := [3 \<mapsto> make_chan 1024], go_pcbs := [2 \<mapsto> go_pcb1],
     tcpPcbs := [7 \<mapsto> 2]\<rparr>\<rparr>"

lemma go_g_polite: "polite go_g"
  by (auto simp: polite_def go_g_def go_cs_pbuf_copy_def go_cs_pbuf_alloc_def go_cs_pbuf_take_def via_def go_cs_init_def
      go_back_def ref_pbuf_def on_chain_def callp_def deref_def ok_simps split: option.splits if_splits)

lemma none_calm: "calm None"
  by (simp add: calm_def)

lemma go_accept_one: "go_accept None 3 5 7 go_net0 = Some (Ok (0, go_net1))"
  by (simp add: go_accept_def run_simps go_net0_def go_net1_def go_start_def go_cs_tcp_local_ip_def
      go_cs_tcp_remote_ip_def go_cs_tcp_local_port_def go_cs_tcp_remote_port_def newPCB_def Let_def notify_def go_pcb1_def)

lemma go_net1_reach: "go_reach go_g demo_key None go_net1"
  by (rule go_reach.handler [OF go_reach.start handler_step.accept, OF _ go_accept_one]) (simp add: go_net0_def)

lemma go_net1_chain: "whole_chain (pbufs go_net1) 8 [8]" "chain_bytes (pbufs go_net1) [8] = [10, 20]"
  by (simp_all add: go_net1_def go_net0_def whole_chain_def sole_chain_Cons sole_pbuf_def demo_buf_def bytes_at_def)

lemma go_net1_open: "go_open (app go_net1) 7 2 go_pcb1 (make_chan 1024)"
  by (simp add: go_open_def go_net1_def go_pcb1_def make_chan_def)

theorem go_received_bytes_queued_witness:
  "\<exists>w'. cs_tcp_raw_recv ref_pbuf ref_tcp go_c 7 5 8 ERR_OK go_net1 = Some (Ok (ERR_OK, w')) \<and> pbufs w' 8 = None \<and>
     map_option ch_buf (go_chans (app w') 3) = Some [[10, 20]]"
proof -
  have "ess go_net1 7 = Some (demo_es NULL)" "es_callback (demo_es NULL) = 9"
    "es_state (demo_es NULL) \<in> {ES_ACCEPTED, ES_RECEIVED}" by (simp_all add: go_net1_def go_net0_def demo_es_def)
  from go_received_bytes_queued [OF ref_pbuf_doc(3,2) go_g_def _ _ _ this _ go_net1_chain(1) go_net1_open, of go_c demo_key None
      quiet_cb 5]
  show ?thesis unfolding go_net1_chain(2)
    by (simp add: go_c_def go_pcb1_def queue_more_def go_net1_def make_chan_def)
qed

theorem go_read_roundtrip_witness:
  "\<exists>g. bnd (go_recv go_g 3 5 7 8) (\<lambda>r. in_go (pcb_reads 2 1518 (Suc 0))) go_net1 =
     Some (Ok ([([10, 20], None)], go_net1\<lparr>app := g\<rparr>))"
proof -
  have "length (ch_buf (make_chan 1024 :: u8 list chan)) < ch_cap (make_chan 1024 :: u8 list chan)"
    "ch_buf (make_chan 1024 :: u8 list chan) = []" by (simp_all add: make_chan_def)
  with go_read_roundtrip [OF ref_pbuf_doc(3) go_net1_chain(1) _ go_net1_open, where tpcb = 5 and n = 1518 and arg = 3
      and T = ref_tcp and U = ref_udp and N = ref_netif and sg = True and C = Map.empty and inp = "\<lambda>s n. ret (- 1, [])"
      and outp = "\<lambda>s d l. ret (uint l)" and ba = 9 and ni = 4]
  show ?thesis unfolding go_net1_chain(2) go_g_def by (simp add: go_pcb1_def del: pcb_reads.simps)
qed

text \<open>The same connection while a \<open>Write\<close> waits for its notice.\<close>

definition go_writing :: "go_state world" where
  "go_writing = go_net1\<lparr>app := (app go_net1)\<lparr>go_pcbs := [2 \<mapsto> go_pcb1\<lparr>gp_lck := True\<rparr>]\<rparr>\<rparr>"

theorem go_peer_close_during_write_blocks_witness:
  "pcb_Write_lock 2 (app go_net1) = Some (Ok ((), app go_writing)) \<and>
   cs_tcp_raw_recv ref_pbuf ref_tcp go_c 7 5 NULL ERR_OK go_writing = None"
proof -
  have "pcb_Write_lock 2 (app go_net1) = Some (Ok ((), app go_writing))"
    by (simp add: pcb_Write_lock_def run_simps pcb_lock_def set_pcb_field_def go_net1_def go_writing_def go_pcb1_def)
  moreover have "cs_tcp_raw_recv ref_pbuf ref_tcp go_c 7 5 NULL ERR_OK go_writing = None \<and> pcb_Write_wait 2 (app go_writing) = None"
    by (rule go_peer_close_during_write_blocks [where ca = 9 and c = blank_pcb and e = "demo_es NULL" and i = 2
        and sw = "make_chan 1" and p = "go_pcb1\<lparr>gp_lck := True\<rparr>" and cb = quiet_cb and G = go_g and Ev = None
        and addr_string = demo_key])
      (simp_all add: go_c_def go_writing_def go_net1_def go_net0_def demo_es_def go_pcb1_def make_chan_def)
  ultimately show ?thesis by blast
qed

theorem go_empty_datagram_panics_witness:
  "cs_udp_raw_recv go_c 9 6 8 IP_ANY_TYPE 53 (go_net0\<lparr>pbufs := [8 \<mapsto> demo_buf NULL []]\<rparr>) =
     Some (Fault (GoPanic ''index out of range''))"
  by (rule go_empty_datagram_panics [where cb = quiet_cb and G = go_g and Ev = None and addr_string = demo_key
      and b = "demo_buf NULL []"]) (simp_all add: go_c_def demo_buf_def)

theorem go_run_well_formed_witness:
  "\<exists>p. go_pcbs (app go_net1) 2 = Some p \<and> gp_type p = TCP \<and> gp_state p = 7"
proof -
  have "tcpPcbs (app go_net1) 7 = Some 2" by (simp add: go_net1_def)
  with go_run_well_formed [OF go_g_polite none_calm go_net1_reach] show ?thesis by blast
qed

end
