(* ===== verification/Go_Loop.thy ===== *)
theory Go_Loop
  imports Go_Run
begin

text \<open>
  The two loops of \<open>lwipcs.go\<close>: a round of \<open>go_netif_proc\<close> or \<open>go_netif_read\<close> is made of steps of the runs of \<open>Go_Run\<close>,
  so what holds in every run holds after every round.
\<close>

text \<open>The calls of the loop into C. They may call handlers in turn, so all that is asked of them is to keep to runs.\<close>

inductive c_call :: "'a go_state_scheme go_cs \<Rightarrow> ('a go_state_scheme world, unit) prog \<Rightarrow> bool" for G where
  "c_call G (go_cs_tcp_recved G tpcb len)"
| "c_call G (ignore (go_cs_tcp_send G tpcb es b n))"
| "c_call G (ignore (go_cs_tcp_close G tpcb es))"
| "c_call G (ignore (go_cs_udp_send G upcb la lp ra rp b n))"
| "c_call G (go_cs_netif_proc G netif)"
| "c_call G (ignore (go_cs_input G n))"

lemma proc_round_reach:
  assumes keeps: "\<And>m v v'. c_call G m \<Longrightarrow> go_reach G addr_string Ev v \<Longrightarrow> m v = Some (Ok ((), v')) \<Longrightarrow> go_reach G addr_string Ev v'"
    and reach: "go_reach G addr_string Ev w" and run: "go_netif_proc_round G addr_string netif c w = Some (Ok ((), w'))"
  shows "go_reach G addr_string Ev w'"
proof -
  note op = go_reach.goroutine [OF reach go_op.side]
  show ?thesis
  proof (cases c)
    case CaseRecved
    with run obtain d v where take: "in_go (ignore (zoom recvedQueue (\<lambda>c g. g\<lparr>recvedQueue := c\<rparr>) chan_recv)) w = Some (Ok ((), v))"
      and v: "w' = v \<or> (\<exists>tpcb len. go_cs_tcp_recved G tpcb len v = Some (Ok ((), w')))"
      by (fastforce simp: go_netif_proc_round_def ok_simps split: option.splits if_splits)
    from op [OF side_op.take_recved take] have "go_reach G addr_string Ev v" .
    with v keeps [OF c_call.intros(1)] show ?thesis by blast
  next
    case CaseClose
    with run obtain v where take: "in_go (ignore (zoom closeQueue (\<lambda>c g. g\<lparr>closeQueue := c\<rparr>) chan_recv)) w = Some (Ok ((), v))"
      and v: "(\<exists>tpcb es. ignore (go_cs_tcp_close G tpcb es) v = Some (Ok ((), w'))) \<or>
        (\<exists>k. in_go (modify (\<lambda>g. g\<lparr>udpPcbs := (udpPcbs g)(k := None)\<rparr>)) v = Some (Ok ((), w')))"
      by (fastforce simp: go_netif_proc_round_def ok_simps tcpClose_def split: option.splits if_splits)
    from op [OF side_op.take_close take] have r: "go_reach G addr_string Ev v" .
    from v show ?thesis
      by (blast intro: keeps [OF c_call.intros(3) r] go_reach.goroutine [OF r go_op.side [OF side_op.forget_udp]])
  next
    case CaseSend
    with run obtain e v where take: "in_go (ignore (zoom sendQueue (\<lambda>c g. g\<lparr>sendQueue := c\<rparr>) chan_recv)) w = Some (Ok ((), v))"
      and v: "sendEntry_Send G e v = Some (Ok ((), w'))"
      by (fastforce simp: go_netif_proc_round_def ok_simps split: option.splits)
    from go_reach.goroutine [OF reach go_op.take_send take] have r: "go_reach G addr_string Ev v" .
    from v consider "w' = v"
      | u tpcb es b n where "in_go (set_pcb_field (fst e) (gp_sendCount_update (\<lambda>n. n + 1))) v = Some (Ok ((), u))"
          "ignore (go_cs_tcp_send G tpcb es b n) u = Some (Ok ((), w'))"
      | upcb la lp ra rp b n where "ignore (go_cs_udp_send G upcb la lp ra rp b n) v = Some (Ok ((), w'))"
      by (fastforce simp: sendEntry_Send_def ok_simps tcpSend_def udpSend_def split: prod.splits if_splits)
    then show ?thesis
      by cases (use r keeps c_call.intros(2,4) go_reach.goroutine [OF r go_op.count_send] in blast)+
  next
    case CaseInput
    with run obtain d v u where take: "in_go (ignore (zoom inputQueue (\<lambda>c g. g\<lparr>inputQueue := c\<rparr>) chan_recv)) w = Some (Ok ((), v))"
      and put: "in_go (zoom inputQueue2 (\<lambda>c g. g\<lparr>inputQueue2 := c\<rparr>) (chan_send d)) v = Some (Ok ((), u))"
      and proc: "go_cs_netif_proc G netif u = Some (Ok ((), w'))"
      by (fastforce simp: go_netif_proc_round_def ok_simps)
    from go_reach.goroutine [OF op [OF side_op.take_input take] go_op.side [OF side_op.pass_input] put]
    have "go_reach G addr_string Ev u" .
    from keeps [OF c_call.intros(5) this proc] show ?thesis .
  qed
qed

lemma read_round_reach:
  assumes keeps: "\<And>m v v'. c_call G m \<Longrightarrow> go_reach G addr_string Ev v \<Longrightarrow> m v = Some (Ok ((), v')) \<Longrightarrow> go_reach G addr_string Ev v'"
    and reach: "go_reach G addr_string Ev w" and run: "go_netif_read_round G w = Some (Ok (r, w'))"
  shows "go_reach G addr_string Ev w'"
proof -
  from run obtain v d where inp: "ignore (go_cs_input G 1518) w = Some (Ok ((), v))"
    and v: "w' = v \<or> in_go (zoom inputQueue (\<lambda>c g. g\<lparr>inputQueue := c\<rparr>) (chan_send d)) v = Some (Ok ((), w'))"
    by (fastforce simp: go_netif_read_round_def ok_simps split: prod.splits if_splits)
  from keeps [OF c_call.intros(6) reach inp] have "go_reach G addr_string Ev v" .
  with v show ?thesis by (blast intro: go_reach.goroutine go_op.side side_op.put_input)
qed

end
