(* ===== verification/Go_Write.thy ===== *)
theory Go_Write
  imports Go_Run
begin

text \<open>
  The protocol of \<open>Write\<close>: runs in which every \<open>Write\<close> on a TCP connection takes its steps in their order: lock,
  request, wait for the notice, unlock. The invariant is that a request, a counted send and a notice add up to one while a \<open>Write\<close>
  waits and to nothing otherwise, so that the handler for a finished write never waits and no notice is lost.
\<close>

section \<open>The protocol of Write\<close>

text \<open>
  Where the goroutine is that has the lock of a connection, if it is in a \<open>Write\<close>: with the slice and the bytes
  it had when \<open>Write\<close> was called, until the notice.
\<close>

datatype wphase = WIdle | WLocked slice "u8 list" | WWaiting slice "u8 list" | WNotified

text \<open>What the loop does with a request before it calls C, and that this is how the round begins.\<close>

definition take_request :: "('a go_state_scheme, (nat \<times> u8 list) option) prog" where
  "take_request = bnd (zoom sendQueue (\<lambda>c g. g\<lparr>sendQueue := c\<rparr>) chan_recv) (\<lambda>r. case r of
       None \<Rightarrow> ret None
     | Some (i, b) \<Rightarrow> bnd (go_deref go_pcbs i) (\<lambda>p.
         if gp_err p \<noteq> None then ret None
         else
           seq (whenc (gp_type p = TCP) (set_pcb_field i (gp_sendCount_update (\<lambda>n. n + 1))))
          (bnd (slice_bytes b) (\<lambda>data. ret (Some (i, data))))))"

definition forward :: "'a go_state_scheme go_cs \<Rightarrow> nat \<times> u8 list \<Rightarrow> ('a go_state_scheme world, unit) prog" where
  "forward G e = (case e of (i, data) \<Rightarrow> bnd (in_go (go_deref go_pcbs i)) (\<lambda>p.
     if gp_type p = TCP then ignore (tcpSend G (gp_pcb p) (gp_state p) data)
     else ignore (udpSend G (gp_pcb p) (gp_localIP p) (gp_localPort p) (gp_remoteIP p) (gp_remotePort p) data)))"

lemma send_round_split:
  assumes "\<not> ch_closed (sendQueue (app w))"
  shows "go_netif_proc_round G addr_string netif CaseSend w =
    bnd (in_go take_request) (\<lambda>r. case r of None \<Rightarrow> ret () | Some e \<Rightarrow> forward G e) w"
  using assms
  by (auto simp: go_netif_proc_round_def take_request_def forward_def sendEntry_Send_def run_simps chan_recv_def
      set_pcb_field_def slice_bytes_def split: list.splits option.splits prod.splits)

text \<open>What a slice reads as.\<close>

definition holds :: "'a go_state_scheme \<Rightarrow> slice \<Rightarrow> u8 list \<Rightarrow> bool" where
  "holds g s d \<longleftrightarrow> slice_ok g s \<and> slice_bytes s g = Some (Ok (d, g))"

text \<open>The arrays of slices that a \<open>Write\<close> has not done with. The application leaves them alone until \<open>Write\<close> returns.\<close>

definition in_use :: "(nat \<Rightarrow> wphase) \<Rightarrow> nat \<Rightarrow> bool" where
  "in_use ph r \<longleftrightarrow> (\<exists>i s d. (ph i = WLocked s d \<or> ph i = WWaiting s d) \<and> sl_array s = r)"

text \<open>The steps of goroutines. Then those of the whole: goroutines, calls of handlers, and the loop.\<close>

inductive app_step ::
  "'a go_state_scheme world \<Rightarrow> (nat \<Rightarrow> wphase) \<Rightarrow> 'a go_state_scheme world \<Rightarrow> (nat \<Rightarrow> wphase) \<Rightarrow> bool"
  for w ph where
  side: "side_op (app w) m \<Longrightarrow> in_go m w = Some (Ok ((), w')) \<Longrightarrow> app_step w ph w' ph"
| store: "\<not> in_use ph r \<Longrightarrow> go_arrays (app w) r = Some a \<Longrightarrow> length d = length a \<Longrightarrow>
    in_go (modify (\<lambda>g. g\<lparr>go_arrays := (go_arrays g)(r \<mapsto> d)\<rparr>)) w = Some (Ok ((), w')) \<Longrightarrow> app_step w ph w' ph"
| lock: "go_pcbs (app w) i = Some p \<Longrightarrow> gp_type p = TCP \<Longrightarrow> holds (app w) s d \<Longrightarrow>
    in_go (pcb_Write_lock i) w = Some (Ok ((), w')) \<Longrightarrow> app_step w ph w' (ph(i := WLocked s d))"
| request: "ph i = WLocked s d \<Longrightarrow>
    in_go (pcb_Write_queue i s) w = Some (Ok ((), w')) \<Longrightarrow> app_step w ph w' (ph(i := WWaiting s d))"
| await: "ph i = WWaiting s d \<Longrightarrow>
    in_go (pcb_Write_wait i) w = Some (Ok ((), w')) \<Longrightarrow> app_step w ph w' (ph(i := WNotified))"
| finish: "ph i = WNotified \<Longrightarrow>
    in_go (pcb_Write_end i s) w = Some (Ok (r, w')) \<Longrightarrow> app_step w ph w' (ph(i := WIdle))"

inductive write_step ::
  "'a go_state_scheme go_cs \<Rightarrow> (u8 list \<Rightarrow> int \<Rightarrow> string) \<Rightarrow> 'a go_handler option \<Rightarrow>
   'a go_state_scheme world \<Rightarrow> (nat \<Rightarrow> wphase) \<Rightarrow> 'a go_state_scheme world \<Rightarrow> (nat \<Rightarrow> wphase) \<Rightarrow> bool"
  for G addr_string Ev w ph where
  handler: "handler_step G addr_string Ev w w' \<Longrightarrow> write_step G addr_string Ev w ph w' ph"
| goroutine: "app_step w ph w' ph' \<Longrightarrow> write_step G addr_string Ev w ph w' ph'"
| loop: "in_go take_request w = Some (Ok (e, w')) \<Longrightarrow> write_step G addr_string Ev w ph w' ph"

text \<open>What can happen while a handler is between two of its steps: handlers and the loop are one thread.\<close>

inductive meanwhile ::
  "'a go_state_scheme world \<Rightarrow> (nat \<Rightarrow> wphase) \<Rightarrow> 'a go_state_scheme world \<Rightarrow> (nat \<Rightarrow> wphase) \<Rightarrow> bool"
  for w ph where
  nothing: "meanwhile w ph w ph"
| more: "meanwhile w ph w1 ph1 \<Longrightarrow> app_step w1 ph1 w2 ph2 \<Longrightarrow> meanwhile w ph w2 ph2"

inductive write_run ::
  "'a go_state_scheme go_cs \<Rightarrow> (u8 list \<Rightarrow> int \<Rightarrow> string) \<Rightarrow> 'a go_handler option \<Rightarrow>
   'a go_state_scheme world \<Rightarrow> (nat \<Rightarrow> wphase) \<Rightarrow> bool"
  for G addr_string Ev where
  start: "starts (app w) \<Longrightarrow> write_run G addr_string Ev w (\<lambda>_. WIdle)"
| step: "write_run G addr_string Ev w ph \<Longrightarrow> write_step G addr_string Ev w ph w' ph' \<Longrightarrow> write_run G addr_string Ev w' ph'"

section \<open>Its invariant\<close>

text \<open>The requests of a connection in the queue, and notices not yet taken.\<close>

definition requests :: "'a go_state_scheme \<Rightarrow> nat \<Rightarrow> slice list" where
  "requests g i = map snd (filter (\<lambda>e. fst e = i) (ch_buf (sendQueue g)))"

definition notices :: "go_pcb \<Rightarrow> nat" where
  "notices p = (case gp_sendWait p of None \<Rightarrow> 0 | Some c \<Rightarrow> length (ch_buf c))"

fun expected :: "wphase \<Rightarrow> slice set" where
  "expected (WWaiting s d) = {s}"
| "expected _ = {}"

definition write_ok :: "slice list \<Rightarrow> wphase \<Rightarrow> go_pcb option \<Rightarrow> bool" where
  "write_ok rs ph x \<longleftrightarrow> (case x of
       None \<Rightarrow> ph = WIdle
     | Some p \<Rightarrow>
         if gp_type p = TCP then (gp_lck p \<longleftrightarrow> ph \<noteq> WIdle) \<and>
           (gp_err p = None \<longrightarrow> 0 \<le> gp_sendCount p \<and> set rs \<subseteq> expected ph \<and>
              int (length rs) + gp_sendCount p + int (notices p) = int (card (expected ph)))
         else ph = WIdle)"

definition write_inv :: "'a go_state_scheme \<Rightarrow> (nat \<Rightarrow> wphase) \<Rightarrow> bool" where
  "write_inv g ph \<longleftrightarrow> (\<forall>i. write_ok (requests g i) (ph i) (go_pcbs g i))"

lemma write_invD: "write_inv g ph \<Longrightarrow> go_pcbs g i = x \<Longrightarrow> write_ok (requests g i) (ph i) x"
  by (auto simp: write_inv_def)

lemma write_inv_same:
  "write_inv g ph \<Longrightarrow> go_pcbs g' = go_pcbs g \<Longrightarrow> sendQueue g' = sendQueue g \<Longrightarrow> write_inv g' ph"
  by (simp add: write_inv_def requests_def)

text \<open>A step that changes one connection and its requests.\<close>

lemma write_inv_update:
  assumes "write_inv g ph" and "\<And>j. j \<noteq> i \<Longrightarrow> go_pcbs g' j = go_pcbs g j"
    and "\<And>j. j \<noteq> i \<Longrightarrow> requests g' j = requests g j" and "\<And>j. j \<noteq> i \<Longrightarrow> ph' j = ph j"
    and "write_ok (requests g' i) (ph' i) (go_pcbs g' i)"
  shows "write_inv g' ph'"
  unfolding write_inv_def
proof
  fix j show "write_ok (requests g' j) (ph' j) (go_pcbs g' j)"
    using assms by (cases "j = i") (simp_all add: write_inv_def)
qed

lemma start_write_inv: "starts g \<Longrightarrow> write_inv g (\<lambda>_. WIdle)"
  by (simp add: write_inv_def write_ok_def starts_fields)

lemma write_inv_beside: "write_inv g ph \<Longrightarrow> beside g g' \<Longrightarrow> write_inv g' ph"
  by (erule write_inv_same) (simp_all add: besideD)

lemma no_requests:
  assumes "go_wf g" and "go_pcbs g i = None"
  shows "requests g i = []"
proof -
  from go_wfD(4) [OF assms(1)] have "fst ` set (ch_buf (sendQueue g)) \<subseteq> dom (go_pcbs g)" by (simp add: queues_wf_def)
  with assms(2) show ?thesis by (auto simp: requests_def filter_empty_conv)
qed

lemma new_write_inv:
  assumes wf: "go_wf g" and inv: "write_inv g ph" and new: "newPCB t arg pcb s la ra lp rp g = Some (Ok (i, g'))"
  shows "write_inv g' ph"
proof (rule write_inv_update [OF inv, of i])
  from new have i: "i = go_next g" by (simp add: newPCB_def Let_def)
  have "go_pcbs g i = None"
    using go_wfD(1) [OF wf, of i] i by (cases "go_pcbs g i") (auto simp: pcb_wf_def)
  with no_requests [OF wf this] write_invD [OF inv this] new
  show "write_ok (requests g' i) (ph i) (go_pcbs g' i)"
    by (auto simp: newPCB_def Let_def write_ok_def requests_def notices_def make_chan_def)
qed (use new in \<open>auto simp: newPCB_def Let_def requests_def\<close>)

lemma close_write_inv:
  assumes wf: "go_wf g" and inv: "write_inv g ph" and run: "pcb_close i g = Some (Ok (r, g'))"
  shows "write_inv g' ph"
  using wf run
proof (cases rule: close_cases)
  case (1 p err)
  with write_invD [OF inv 1(1)] show ?thesis
    by (intro write_inv_update [OF inv, of i]) (auto simp: requests_def write_ok_def)
next
  case (2 p c)
  with write_invD [OF inv 2(1)] show ?thesis
    by (intro write_inv_update [OF inv, of i]) (auto simp: requests_def write_ok_def closed_pcb_def)
qed

lemma checks_keep:
  "pcb_Read_check i g = Some (Ok (e, g')) \<Longrightarrow> g' = g"
  "pcb_Write_check i b g = Some (Ok (x, g')) \<Longrightarrow> g' = g"
  by (auto simp: ok_simps pcb_Read_check_def pcb_Write_check_def split: if_splits)

lemma take_keeps:
  assumes "pcb_Read_take i n g = Some (Ok (d, g'))"
  shows "go_pcbs g' = go_pcbs g \<and> sendQueue g' = sendQueue g \<and> go_arrays g' = go_arrays g \<and> go_next g' = go_next g"
proof -
  from assms obtain k c r where "g' = g\<lparr>go_chans := (go_chans g)(k \<mapsto> c)\<rparr>"
    by (auto simp: ok_simps pcb_Read_take_def split: if_splits option.splits)
  then show ?thesis by simp
qed

lemma ack_keeps:
  "pcb_Read_ack i l g = Some (Ok (u, g')) \<Longrightarrow> go_pcbs g' = go_pcbs g \<and> sendQueue g' = sendQueue g \<and> go_arrays g' = go_arrays g"
  by (auto simp: ok_simps pcb_Read_ack_def split: if_splits)

text \<open>Other operations leave the connections and the requests alone.\<close>

lemma side_op_keeps:
  assumes "side_op g m" and "m g = Some (Ok ((), g'))"
  obtains i p b where "m = pcb_Write_queue i b" and "go_pcbs g i = Some p" and "gp_type p = UDP"
  | i where "m = ignore (pcb_close i)"
  | "go_pcbs g' = go_pcbs g" and "sendQueue g' = sendQueue g"
  using assms(1)
proof cases
  case (write_udp i p b)
  with that(1) show ?thesis by blast
next
  case (close_conn i)
  with that(2) show ?thesis by blast
next
  case own
  from besideD [OF own [OF assms(2)]] that(3) show ?thesis by blast
qed (rule that(3); use assms(2) in \<open>force simp: ok_simps dest: checks_keep take_keeps ack_keeps\<close>)+

lemma side_op_write_inv:
  assumes wf: "go_wf g" and inv: "write_inv g ph" and "side_op g m" and run: "m g = Some (Ok ((), g'))"
  shows "write_inv g' ph"
  using assms(3,4)
proof (cases rule: side_op_keeps)
  case (1 i p b)
  with run obtain c where c: "chan_send (i, b) (sendQueue g) = Some (Ok ((), c))" and g': "g' = g\<lparr>sendQueue := c\<rparr>"
    by (auto simp: ok_simps pcb_Write_queue_def)
  from c have "ch_buf c = ch_buf (sendQueue g) @ [(i, b)]" by (auto simp: chan_send_def split: if_splits)
  with g' 1 write_invD [OF inv 1(2)] show ?thesis
    by (intro write_inv_update [OF inv, of i]) (auto simp: requests_def write_ok_def)
next
  case (2 i)
  with run close_write_inv [OF wf inv] show ?thesis by (auto simp: ok_simps)
next
  case 3
  with write_inv_same [OF inv] show ?thesis by blast
qed

lemma handler_write_inv:
  assumes "polite G" and "calm Ev" and wf: "go_wf (app w)" and inv: "write_inv (app w) ph"
    and "handler_step G addr_string Ev w w'"
  shows "write_inv (app w') ph"
  using assms(5)
proof cases
  case stack
  with inv show ?thesis by simp
next
  case (accept arg newpcb state r)
  with assms(2) show ?thesis
  proof (cases rule: accept_shape)
    case 1
    with inv show ?thesis by simp
  next
    case (2 la ra lp rp i g)
    from new_write_inv [OF wf inv 2(1)] have "write_inv (g\<lparr>tcpPcbs := (tcpPcbs g)(state \<mapsto> i)\<rparr>) ph"
      by (auto intro: write_inv_same)
    from write_inv_beside [OF this 2(2)] show ?thesis .
  qed
next
  case recv
  from recv_app [OF assms(1) this] inv show ?thesis by simp
next
  case (send_done arg tpcb state r)
  then show ?thesis
  proof (cases rule: send_done_shape)
    case 1
    with inv show ?thesis by simp
  next
    case (2 i p c)
    from go_wfD(1) [OF wf 2(1)] 2(4) have "gp_type p = TCP" by (simp add: pcb_wf_def)
    with 2 write_invD [OF inv 2(1)] show ?thesis
      by (intro write_inv_update [OF inv, of i]) (auto simp: requests_def write_ok_def notices_def)
  qed
next
  case (peer_close arg tpcb state r)
  with assms(2) wf show ?thesis
  proof (cases rule: peer_close_shape)
    case 1
    with inv show ?thesis by simp
  next
    case (2 i e g)
    have "write_inv g ph"
      by (rule close_write_inv [OF wf_forget(1) [OF wf] _ 2(1)]) (auto intro: write_inv_same [OF inv])
    from write_inv_beside [OF this 2(2)] show ?thesis .
  qed
next
  case (udp arg upcb ip port buf r)
  with assms(1,2) show ?thesis
  proof (cases rule: udp_shape)
    case 1
    with inv show ?thesis by simp
  next
    case (2 i la lp k g')
    from new_write_inv [OF wf inv 2(1)] have "write_inv (g'\<lparr>udpPcbs := (udpPcbs g')(k \<mapsto> i)\<rparr>) ph" by (auto intro: write_inv_same)
    from write_inv_beside [OF this 2(2)] show ?thesis .
  qed
next
  case (input arg netif pl)
  from assms(1) this obtain c where "app w' = (app w)\<lparr>inputQueue2 := c\<rparr>" by (rule input_shape)
  then show ?thesis by (simp add: write_inv_same [OF inv])
qed

section \<open>Arrays\<close>

lemma holds_iff:
  "holds g s d \<longleftrightarrow> 0 < sl_len s \<and> (\<exists>a. go_arrays g (sl_array s) = Some a \<and> sl_off s + sl_len s \<le> length a \<and>
     d = take (sl_len s) (drop (sl_off s) a))"
  by (auto simp: holds_def slice_ok_def slice_bytes_Ok)

lemma holds_mono: "holds g s d \<Longrightarrow> go_arrays g \<subseteq>\<^sub>m go_arrays g' \<Longrightarrow> holds g' s d"
  by (force simp: holds_iff map_le_def)

definition uses_inv :: "'a go_state_scheme \<Rightarrow> (nat \<Rightarrow> wphase) \<Rightarrow> bool" where
  "uses_inv g ph \<longleftrightarrow> (\<forall>i s d. ph i = WLocked s d \<or> ph i = WWaiting s d \<longrightarrow> holds g s d)"

lemma uses_mono: "uses_inv g ph \<Longrightarrow> go_arrays g \<subseteq>\<^sub>m go_arrays g' \<Longrightarrow> uses_inv g' ph"
  unfolding uses_inv_def using holds_mono by blast

lemma close_arrays: "go_wf g \<Longrightarrow> pcb_close i g = Some (Ok (r, g')) \<Longrightarrow> go_arrays g' = go_arrays g"
  by (erule (1) close_cases) auto

lemma new_arrays: "newPCB t arg pcb s la ra lp rp g = Some (Ok (i, g')) \<Longrightarrow> go_arrays g' = go_arrays g"
  by (auto simp: newPCB_def Let_def)

lemma handler_arrays:
  assumes "polite G" and "calm Ev" and wf: "go_wf (app w)" and "handler_step G addr_string Ev w w'"
  shows "go_arrays (app w') = go_arrays (app w)"
  using assms(4)
proof cases
  case accept
  with assms(2) show ?thesis by (cases rule: accept_shape) (auto dest!: new_arrays besideD(4))
next
  case recv
  from recv_app [OF assms(1) this] show ?thesis by simp
next
  case send_done
  then show ?thesis by (cases rule: send_done_shape) auto
next
  case peer_close
  with assms(2) wf show ?thesis
    by (cases rule: peer_close_shape) (auto dest!: close_arrays [OF wf_forget(1) [OF wf]] besideD(4))
next
  case udp
  with assms(1,2) show ?thesis by (cases rule: udp_shape) (auto dest!: new_arrays besideD(4))
next
  case input
  from assms(1) this obtain c where "app w' = (app w)\<lparr>inputQueue2 := c\<rparr>" by (rule input_shape)
  then show ?thesis by simp
qed simp

lemma side_op_arrays:
  assumes wf: "go_wf g" and "side_op g m" and run: "m g = Some (Ok ((), g'))"
  shows "go_arrays g \<subseteq>\<^sub>m go_arrays g'"
  using assms(2)
proof cases
  case close_conn
  with run close_arrays [OF wf] show ?thesis by (auto simp: ok_simps)
next
  case make_array
  with run show ?thesis by (auto simp: ok_simps map_le_def)
next
  case (read i n)
  with run obtain d where "pcb_Read_take i n g = Some (Ok (d, g'))" by (auto simp: ok_simps)
  from take_keeps [OF this] show ?thesis by simp
next
  case own
  from besideD(4) [OF own [OF run]] show ?thesis by simp
qed (use run in \<open>force simp: ok_simps pcb_Write_queue_def dest: checks_keep ack_keeps\<close>)+


section \<open>The steps of a Write\<close>

lemma lock_step:
  assumes wf: "go_wf g" and inv: "write_inv g ph" and p: "go_pcbs g i = Some p" "gp_type p = TCP"
    and run: "pcb_Write_lock i g = Some (Ok ((), g'))"
  shows "write_inv g' (ph(i := WLocked s d))" and "go_arrays g' = go_arrays g" and "ph i = WIdle"
proof -
  from run p have "\<not> gp_lck p" and g': "g' = g\<lparr>go_pcbs := (go_pcbs g)(i \<mapsto> p\<lparr>gp_lck := True\<rparr>)\<rparr>"
    by (auto simp: ok_simps pcb_Write_lock_def)
  with write_invD [OF inv p(1)] p(2) show idle: "ph i = WIdle" by (auto simp: write_ok_def)
  from g' show "go_arrays g' = go_arrays g" by simp
  from write_invD [OF inv p(1)] p g' idle show "write_inv g' (ph(i := WLocked s d))"
    by (intro write_inv_update [OF inv, of i]) (auto simp: write_ok_def requests_def notices_def)
qed

lemma busy:
  assumes "write_inv g ph" and "ph i \<noteq> WIdle"
  obtains p where "go_pcbs g i = Some p" and "gp_type p = TCP"
  using write_invD [OF assms(1) refl, of i] assms(2) that
  by (cases "go_pcbs g i") (auto simp: write_ok_def split: if_splits)

lemma request_step:
  assumes inv: "write_inv g ph" and ph: "ph i = WLocked s d" and run: "pcb_Write_queue i s g = Some (Ok ((), g'))"
  shows "write_inv g' (ph(i := WWaiting s d))" and "go_arrays g' = go_arrays g" and "go_pcbs g' = go_pcbs g"
proof -
  from run obtain c where c: "chan_send (i, s) (sendQueue g) = Some (Ok ((), c))" and g': "g' = g\<lparr>sendQueue := c\<rparr>"
    by (auto simp: ok_simps pcb_Write_queue_def)
  from g' show "go_arrays g' = go_arrays g" "go_pcbs g' = go_pcbs g" by simp_all
  from c have buf: "ch_buf c = ch_buf (sendQueue g) @ [(i, s)]" by (auto simp: chan_send_def split: if_splits)
  from busy [OF inv, of i] ph obtain p where p: "go_pcbs g i = Some p" "gp_type p = TCP" by auto
  from write_invD [OF inv p(1)] p(2) ph buf g' p(1) show "write_inv g' (ph(i := WWaiting s d))"
    by (intro write_inv_update [OF inv, of i]) (auto simp: write_ok_def requests_def)
qed

lemma await_step:
  assumes wf: "go_wf g" and inv: "write_inv g ph" and ph: "ph i = WWaiting s d" and run: "pcb_Write_wait i g = Some (Ok ((), g'))"
  shows "write_inv g' (ph(i := WNotified))" and "go_arrays g' = go_arrays g"
proof -
  from busy [OF inv, of i] ph obtain p where p: "go_pcbs g i = Some p" "gp_type p = TCP" by auto
  from run p obtain c r c' where c: "gp_sendWait p = Some c" "chan_recv c = Some (Ok (r, c'))"
    and g': "g' = g\<lparr>go_pcbs := (go_pcbs g)(i \<mapsto> p\<lparr>gp_sendWait := Some c'\<rparr>)\<rparr>"
    by (auto simp: ok_simps pcb_Write_wait_def)
  from g' show "go_arrays g' = go_arrays g" by simp
  from go_wfD(1) [OF wf p(1)] c(1) have closed: "ch_closed c \<longleftrightarrow> gp_err p \<noteq> None" by (simp add: pcb_wf_def)
  from c(2) closed have "gp_err p = None \<Longrightarrow> length (ch_buf c) = Suc (length (ch_buf c'))"
    by (auto simp: chan_recv_def split: list.splits if_splits)
  moreover have "requests g' j = requests g j" "j \<noteq> i \<Longrightarrow> go_pcbs g' j = go_pcbs g j"
    "go_pcbs g' i = Some (p\<lparr>gp_sendWait := Some c'\<rparr>)" for j by (simp_all add: g' requests_def)
  moreover have "int (length rs) + (n + int m) = 0 \<Longrightarrow> 0 \<le> n \<Longrightarrow> rs = []" for rs :: "slice list" and n m
    by (cases rs) auto
  ultimately show "write_inv g' (ph(i := WNotified))" using write_invD [OF inv p(1)] p(2) ph c(1)
    by (intro write_inv_update [OF inv, of i]) (auto simp: write_ok_def notices_def)
qed

lemma finish_step:
  assumes inv: "write_inv g ph" and ph: "ph i = WNotified" and run: "pcb_Write_end i s g = Some (Ok (r, g'))"
  shows "write_inv g' (ph(i := WIdle))" and "go_arrays g' = go_arrays g"
proof -
  from busy [OF inv, of i] ph obtain p where p: "go_pcbs g i = Some p" "gp_type p = TCP" by auto
  from run p have g': "g' = g\<lparr>go_pcbs := (go_pcbs g)(i \<mapsto> p\<lparr>gp_lck := False\<rparr>)\<rparr>"
    by (auto simp: ok_simps pcb_Write_end_def)
  from g' show "go_arrays g' = go_arrays g" by simp
  from write_invD [OF inv p(1)] p ph g' show "write_inv g' (ph(i := WIdle))"
    by (intro write_inv_update [OF inv, of i]) (auto simp: write_ok_def requests_def notices_def)
qed

text \<open>The loop takes a request.\<close>

lemma take_request_shape:
  assumes wf: "go_wf g" and run: "take_request g = Some (Ok (e, g'))"
  obtains i b rest p where "ch_buf (sendQueue g) = (i, b) # rest" and "go_pcbs g i = Some p"
    and "g' = g\<lparr>sendQueue := (sendQueue g)\<lparr>ch_buf := rest\<rparr>,
      go_pcbs := (if gp_err p = None \<and> gp_type p = TCP
        then (go_pcbs g)(i \<mapsto> gp_sendCount_update (\<lambda>n. n + 1) p) else go_pcbs g)\<rparr>"
proof -
  from go_wfD(4) [OF wf] have "\<not> ch_closed (sendQueue g)" by (simp add: queues_wf_def open_chan_def)
  with run that show ?thesis
    by (fastforce simp: take_request_def ok_simps chan_recv_def split: list.splits option.splits if_splits)
qed

lemma take_request_step:
  assumes wf: "go_wf g" and inv: "write_inv g ph" and run: "take_request g = Some (Ok (e, g'))"
  shows "go_wf g'" and "write_inv g' ph" and "go_arrays g' = go_arrays g"
proof -
  from wf run obtain i b rest p where buf: "ch_buf (sendQueue g) = (i, b) # rest" and p: "go_pcbs g i = Some p"
    and g': "g' = g\<lparr>sendQueue := (sendQueue g)\<lparr>ch_buf := rest\<rparr>,
      go_pcbs := (if gp_err p = None \<and> gp_type p = TCP
        then (go_pcbs g)(i \<mapsto> gp_sendCount_update (\<lambda>n. n + 1) p) else go_pcbs g)\<rparr>"
    by (rule take_request_shape)
  from g' show "go_arrays g' = go_arrays g" by simp
  have "chan_recv (sendQueue g) = Some (Ok (Some (i, b), (sendQueue g)\<lparr>ch_buf := rest\<rparr>))" by (simp add: chan_recv_def buf)
  from wf_takes(2) [OF wf this] have wf': "go_wf (g\<lparr>sendQueue := (sendQueue g)\<lparr>ch_buf := rest\<rparr>\<rparr>)" .
  show "go_wf g'" using wf' wf_lock_count(2) [OF wf', of i p "\<lambda>n. n + 1"] p g' by auto
  have rs: "requests g i = b # requests g' i" "j \<noteq> i \<Longrightarrow> requests g' j = requests g j" for j
    by (simp_all add: requests_def buf g')
  have pcb: "go_pcbs g' i = Some (if gp_err p = None \<and> gp_type p = TCP then gp_sendCount_update (\<lambda>n. n + 1) p else p)"
    "j \<noteq> i \<Longrightarrow> go_pcbs g' j = go_pcbs g j" for j by (simp_all add: p g')
  have "write_ok (requests g' i) (ph i) (go_pcbs g' i)"
    using write_invD [OF inv p] unfolding rs(1) pcb(1) by (auto simp: write_ok_def notices_def split: if_splits)
  from write_inv_update [OF inv pcb(2) rs(2) refl this] show "write_inv g' ph" .
qed


section \<open>Every run\<close>

definition run_inv :: "'a go_state_scheme \<Rightarrow> (nat \<Rightarrow> wphase) \<Rightarrow> bool" where
  "run_inv g ph \<longleftrightarrow> go_wf g \<and> write_inv g ph \<and> uses_inv g ph"

lemma run_invI:
  assumes "go_wf g'" and "write_inv g' ph'" and "uses_inv g ph" and "go_arrays g \<subseteq>\<^sub>m go_arrays g'"
    and "\<And>j s d. ph' j = WLocked s d \<or> ph' j = WWaiting s d \<Longrightarrow> ph j = WLocked s d \<or> ph j = WWaiting s d \<or> holds g s d"
  shows "run_inv g' ph'"
  using assms holds_mono unfolding run_inv_def uses_inv_def by metis

lemma run_invD:
  assumes "run_inv g ph"
  shows "go_wf g" and "write_inv g ph" and "uses_inv g ph"
  using assms by (simp_all add: run_inv_def)

lemma handler_run:
  assumes "polite G" and "calm Ev" and inv: "run_inv (app w) ph" and st: "handler_step G addr_string Ev w w'"
  shows "run_inv (app w') ph"
  using handler_arrays [OF assms(1,2) run_invD(1) [OF inv] st]
  by (intro run_invI [OF handler_step_wf [OF assms(1,2) run_invD(1) [OF inv] st]
        handler_write_inv [OF assms(1,2) run_invD(1,2) [OF inv] st] run_invD(3) [OF inv]]) auto

lemma side_run:
  assumes inv: "run_inv g ph" and "side_op g m" and "m g = Some (Ok ((), g'))"
  shows "run_inv g' ph"
  by (rule run_invI [OF side_op_wf [OF run_invD(1) [OF inv] assms(2,3)]
        side_op_write_inv [OF run_invD(1,2) [OF inv] assms(2,3)] run_invD(3) [OF inv]
        side_op_arrays [OF run_invD(1) [OF inv] assms(2,3)]]) auto

lemma store_run:
  assumes inv: "run_inv g ph" and "\<not> in_use ph r" and "go_arrays g r = Some a" and "length d = length a"
  shows "run_inv (g\<lparr>go_arrays := (go_arrays g)(r \<mapsto> d)\<rparr>) ph" (is "run_inv ?g ph")
proof -
  from run_invD(3) [OF inv] assms(2) have "uses_inv ?g ph" by (fastforce simp: uses_inv_def in_use_def holds_iff)
  with wf_array [OF run_invD(1) [OF inv], of r d] assms(3,4) run_invD(2) [OF inv] show ?thesis
    by (simp add: run_inv_def write_inv_same)
qed

lemma lock_run:
  assumes inv: "run_inv g ph" and p: "go_pcbs g i = Some p" "gp_type p = TCP" and "holds g s d"
    and run: "pcb_Write_lock i g = Some (Ok ((), g'))"
  shows "run_inv g' (ph(i := WLocked s d))"
proof -
  note step = lock_step [OF run_invD(1,2) [OF inv] p run]
  from step(2) assms(4) show ?thesis
    by (intro run_invI [OF op_wf [OF run_invD(1) [OF inv] go_op.lock_write run] step(1) run_invD(3) [OF inv]])
      (auto split: if_splits)
qed

lemma request_run:
  assumes inv: "run_inv g ph" and ph: "ph i = WLocked s d" and run: "pcb_Write_queue i s g = Some (Ok ((), g'))"
  shows "run_inv g' (ph(i := WWaiting s d))"
proof -
  note step = request_step [OF run_invD(2) [OF inv] ph run]
  from busy [OF run_invD(2) [OF inv], of i] ph have "go_pcbs g i \<noteq> None" by auto
  moreover from run_invD(3) [OF inv] ph have "slice_ok g s" by (auto simp: uses_inv_def holds_def)
  ultimately show ?thesis using step(2) ph
    by (intro run_invI [OF op_wf [OF run_invD(1) [OF inv] go_op.queue_write run] step(1) run_invD(3) [OF inv]])
      (auto split: if_splits)
qed

lemma await_run:
  assumes inv: "run_inv g ph" and ph: "ph i = WWaiting s d" and run: "pcb_Write_wait i g = Some (Ok ((), g'))"
  shows "run_inv g' (ph(i := WNotified))"
proof -
  note step = await_step [OF run_invD(1,2) [OF inv] ph run]
  from step(2) show ?thesis
    by (intro run_invI [OF op_wf [OF run_invD(1) [OF inv] go_op.wait_write run] step(1) run_invD(3) [OF inv]])
      (auto split: if_splits)
qed

lemma finish_run:
  assumes inv: "run_inv g ph" and ph: "ph i = WNotified" and run: "pcb_Write_end i s g = Some (Ok (r, g'))"
  shows "run_inv g' (ph(i := WIdle))"
proof -
  from run have "ignore (pcb_Write_end i s) g = Some (Ok ((), g'))" by (auto simp: ignore_Ok)
  note wf = op_wf [OF run_invD(1) [OF inv] go_op.end_write this] and step = finish_step [OF run_invD(2) [OF inv] ph run]
  from step(2) show ?thesis by (intro run_invI [OF wf step(1) run_invD(3) [OF inv]]) (auto split: if_splits)
qed

lemma loop_run: "run_inv g ph \<Longrightarrow> take_request g = Some (Ok (e, g')) \<Longrightarrow> run_inv g' ph"
  using take_request_step [of g ph e g'] uses_mono [of g ph g'] by (simp add: run_inv_def)

lemma in_goD: "in_go m w = Some (Ok (y, w')) \<Longrightarrow> m (app w) = Some (Ok (y, app w'))"
  by (auto simp: in_go_Ok)

lemma app_step_inv:
  assumes inv: "run_inv (app w) ph" and "app_step w ph w' ph'"
  shows "run_inv (app w') ph'"
  using assms(2)
proof cases
  case (store r a d)
  with store_run [OF inv store(2-4)] show ?thesis by (auto simp: ok_simps)
next
  case (lock i p s d)
  with lock_run [OF inv lock(2-4) in_goD [OF lock(5)]] show ?thesis by simp
next
  case (side m)
  with side_run [OF inv side(2) in_goD [OF side(3)]] show ?thesis by simp
next
  case (request i s d)
  with request_run [OF inv request(2) in_goD [OF request(3)]] show ?thesis by simp
next
  case (await i s d)
  with await_run [OF inv await(2) in_goD [OF await(3)]] show ?thesis by simp
next
  case (finish i s r)
  with finish_run [OF inv finish(2) in_goD [OF finish(3)]] show ?thesis by simp
qed

lemma meanwhile_inv: "meanwhile w ph w' ph' \<Longrightarrow> run_inv (app w) ph \<Longrightarrow> run_inv (app w') ph'"
  by (induction rule: meanwhile.induct) (auto intro: app_step_inv)

lemma write_step_inv:
  assumes "polite G" and "calm Ev" and inv: "run_inv (app w) ph" and "write_step G addr_string Ev w ph w' ph'"
  shows "run_inv (app w') ph'"
  using assms(4)
proof cases
  case handler
  with handler_run [OF assms(1-3)] show ?thesis by simp
next
  case goroutine
  from app_step_inv [OF inv this] show ?thesis .
next
  case (loop e)
  with loop_run [OF inv in_goD [OF loop(2)]] show ?thesis by simp
qed

lemma write_run_inv:
  assumes "polite G" and "calm Ev" and "write_run G addr_string Ev w ph"
  shows "run_inv (app w) ph"
  using assms(3)
proof induction
  case (start w)
  then show ?case by (simp add: run_inv_def start_wf start_write_inv uses_inv_def)
next
  case (step w ph w' ph')
  from write_step_inv [OF assms(1,2) step.IH step.hyps(2)] show ?case .
qed

section \<open>No notice is lost\<close>

lemma waiting_cases:
  assumes inv: "run_inv g ph" and p: "go_pcbs g i = Some p" and ph: "ph i = WWaiting s d"
  obtains (closed) c where "gp_sendWait p = Some c" and "ch_closed c" and "gp_type p = TCP"
  | (queued) "requests g i = [s]" and "gp_type p = TCP"
  | (counted) c where "gp_sendWait p = Some c" and "gp_sendCount p = 1" and "ch_buf c = []" and "gp_err p = None"
      and "gp_type p = TCP"
  | (notified) c x where "gp_sendWait p = Some c" and "ch_buf c = [x]" and "gp_type p = TCP"
proof -
  from busy [OF run_invD(2) [OF inv], of i] ph p have t: "gp_type p = TCP" by auto
  with go_wfD(1) [OF run_invD(1) [OF inv] p] obtain c where c: "gp_sendWait p = Some c" "ch_closed c \<longleftrightarrow> gp_err p \<noteq> None"
    by (auto simp: pcb_wf_def)
  show ?thesis
  proof (cases "gp_err p")
    case (Some e)
    with closed c t show ?thesis by simp
  next
    case None
    with write_invD [OF run_invD(2) [OF inv] p] t ph c(1) have s: "set (requests g i) \<subseteq> {s}" "0 \<le> gp_sendCount p"
      "int (length (requests g i)) + gp_sendCount p + int (length (ch_buf c)) = 1"
      by (auto simp: write_ok_def notices_def)
    show ?thesis
    proof (cases "requests g i")
      case (Cons r rs)
      with s have "requests g i = [s]" by (cases rs) auto
      with queued t show ?thesis by blast
    next
      case Nil
      show ?thesis
      proof (cases "ch_buf c")
        case (Cons x xs)
        with s have "ch_buf c = [x]" by (cases xs) auto
        with notified c(1) t show ?thesis by blast
      qed (use Nil s counted [OF c(1) _ _ None t] in simp)
    qed
  qed
qed

lemma send_done_returns:
  assumes inv: "run_inv (app w) ph"
  shows "\<exists>r w'. go_send_done arg tpcb es w = Some (Ok (r, w'))"
proof (cases "tpcb = NULL \<or> tcpPcbs (app w) es = None")
  case True
  then show ?thesis by (auto simp: go_send_done_def go_send_notice_def run_simps)
next
  case False
  then obtain i where i: "tpcb \<noteq> NULL" "tcpPcbs (app w) es = Some i" by auto
  with go_wfD(3) [OF run_invD(1) [OF inv]] obtain p where p: "go_pcbs (app w) i = Some p" "gp_type p = TCP"
    unfolding registry_wf_def by blast
  from go_wfD(1) [OF run_invD(1) [OF inv] p(1)] p(2) obtain c where c: "gp_sendWait p = Some c" "ch_cap c = 1"
    "ch_closed c \<longleftrightarrow> gp_err p \<noteq> None" by (auto simp: pcb_wf_def)
  have "gp_err p = None \<Longrightarrow> 0 < gp_sendCount p \<Longrightarrow> ch_buf c = []"
    using write_invD [OF run_invD(2) [OF inv] p(1)] p(2) c(1)
    by (cases "ph i"; cases "ch_buf c") (auto simp: write_ok_def notices_def)
  with i p c show ?thesis
    by (auto simp: go_send_done_def go_send_notice_def run_simps set_pcb_field_def on_sendWait_def chan_send_def)
qed

text \<open>
  C24. The notices of finished writes work out. In every run: the handler for a finished write returns, it never
  waits for room for its notice. And while a \<open>Write\<close> on a TCP connection waits, either its request is still in the
  queue of the loop, or it can go on at once (its notice is there, or the connection is closed), or, as long as the connection is
  registered, the next call of the handler for that connection gives it the notice it waits for.
\<close>

theorem go_write_notices:
  assumes "polite G" and "calm Ev" and "write_run G addr_string Ev w ph"
  shows "(\<forall>arg tpcb es. \<exists>r w'. go_send_done arg tpcb es w = Some (Ok (r, w'))) \<and>
     (\<forall>i p s d. go_pcbs (app w) i = Some p \<longrightarrow> ph i = WWaiting s d \<longrightarrow>
       requests (app w) i = [s] \<or>
       (\<exists>w'. in_go (pcb_Write_wait i) w = Some (Ok ((), w'))) \<or>
       (\<forall>arg tpcb. tpcb \<noteq> NULL \<longrightarrow> tcpPcbs (app w) (gp_state p) = Some i \<longrightarrow>
         (\<exists>w' w''. go_send_done arg tpcb (gp_state p) w = Some (Ok (0, w')) \<and>
            in_go (pcb_Write_wait i) w' = Some (Ok ((), w'')))))"
proof -
  note inv = write_run_inv [OF assms]
  have "requests (app w) i = [s] \<or> (\<exists>w'. in_go (pcb_Write_wait i) w = Some (Ok ((), w'))) \<or>
      (\<forall>arg tpcb. tpcb \<noteq> NULL \<longrightarrow> tcpPcbs (app w) (gp_state p) = Some i \<longrightarrow>
        (\<exists>w' w''. go_send_done arg tpcb (gp_state p) w = Some (Ok (0, w')) \<and>
          in_go (pcb_Write_wait i) w' = Some (Ok ((), w''))))"
    if p: "go_pcbs (app w) i = Some p" and ph: "ph i = WWaiting s d" for i p s d
    using inv p ph
  proof (cases rule: waiting_cases)
    case (closed c)
    then show ?thesis using p
      by (cases "ch_buf c") (auto simp: pcb_Write_wait_def run_simps on_sendWait_def chan_recv_def)
  next
    case (counted c)
    from go_wfD(1) [OF run_invD(1) [OF inv] p] counted have "ch_cap c = 1" "\<not> ch_closed c" by (auto simp: pcb_wf_def)
    with counted p show ?thesis
      by (auto simp: go_send_done_def go_send_notice_def run_simps set_pcb_field_def on_sendWait_def chan_send_def pcb_Write_wait_def
          chan_recv_def)
  next
    case (notified c x)
    then show ?thesis using p by (auto simp: pcb_Write_wait_def run_simps on_sendWait_def chan_recv_def)
  qed simp
  with send_done_returns [OF inv] show ?thesis by blast
qed

text \<open>
  C25. \<open>Write\<close> sends the bytes it was given. In every run in which the application leaves the array of a slice alone
  while a \<open>Write\<close> of that slice goes on: when the loop comes to a request for an open TCP connection, a \<open>Write\<close>
  of that slice waits on that connection, and what the loop hands to the stack are the bytes the slice had when
  \<open>Write\<close> was called.
\<close>

theorem go_write_sends_its_bytes:
  assumes "polite G" and "calm Ev" and "write_run G addr_string Ev w ph"
    and "ch_buf (sendQueue (app w)) = (i, s) # rest" and "go_pcbs (app w) i = Some p" and "gp_type p = TCP" and "gp_err p = None"
  shows "\<exists>d. ph i = WWaiting s d \<and> d \<noteq> [] \<and> length d = sl_len s \<and>
     go_netif_proc_round G addr_string netif CaseSend w =
       ignore (go_cs_tcp_send G (gp_pcb p) (gp_state p) d (int (length d)))
        (w\<lparr>app := (app w)\<lparr>sendQueue := (sendQueue (app w))\<lparr>ch_buf := rest\<rparr>,
          go_pcbs := (go_pcbs (app w))(i \<mapsto> p\<lparr>gp_sendCount := gp_sendCount p + 1\<rparr>)\<rparr>\<rparr>)"
proof -
  note inv = write_run_inv [OF assms(1-3)]
  from assms(4) have "s \<in> set (requests (app w) i)" by (simp add: requests_def)
  with write_invD [OF run_invD(2) [OF inv] assms(5)] assms(6,7) have "s \<in> expected (ph i)" by (auto simp: write_ok_def)
  then obtain d where ph: "ph i = WWaiting s d" by (cases "ph i") auto
  with run_invD(3) [OF inv] have "holds (app w) s d" by (auto simp: uses_inv_def)
  then obtain a where a: "go_arrays (app w) (sl_array s) = Some a" "d = take (sl_len s) (drop (sl_off s) a)"
    "0 < sl_len s" "sl_off s + sl_len s \<le> length a" by (auto simp: holds_iff)
  then have d: "length d = sl_len s" "d \<noteq> []" by auto
  have count: "gp_sendCount_update (\<lambda>n. n + 1) p = p\<lparr>gp_sendCount := gp_sendCount p + 1\<rparr>" by simp
  from assms(4-7) ph a d show ?thesis
    by (simp add: go_netif_proc_round_def run_simps chan_recv_def sendEntry_Send_def set_pcb_field_def slice_bytes_def
        tcpSend_def count)
qed


section \<open>When a handler panics\<close>

text \<open>Whatever goroutines do, a connection keeps its receive queue.\<close>

lemma app_step_queue:
  assumes inv: "run_inv (app w) ph" and step: "app_step w ph w' ph'" and p: "go_pcbs (app w) i = Some p"
  shows "\<exists>p'. go_pcbs (app w') i = Some p' \<and> gp_recvQueued p' = gp_recvQueued p"
  using step
proof cases
  case (side m)
  from side(2) in_goD [OF side(3)] show ?thesis
  proof (cases rule: side_op_keeps)
    case (1 j q b)
    with in_goD [OF side(3)] p show ?thesis by (auto simp: pcb_Write_queue_def ok_simps)
  next
    case (2 j)
    with in_goD [OF side(3)] obtain e where "pcb_close j (app w) = Some (Ok (e, app w'))" by (auto simp: ok_simps)
    with run_invD(1) [OF inv] show ?thesis by (rule close_cases) (use p in \<open>auto simp: closed_pcb_def\<close>)
  qed (use p in simp)
qed (use p in \<open>auto simp: ok_simps pcb_Write_lock_def pcb_Write_queue_def pcb_Write_wait_def pcb_Write_end_def split: if_splits\<close>)

lemma meanwhile_queue:
  assumes "meanwhile w ph w' ph'" and "run_inv (app w) ph" and "go_pcbs (app w) i = Some p"
  shows "\<exists>p'. go_pcbs (app w') i = Some p' \<and> gp_recvQueued p' = gp_recvQueued p"
  using assms
proof induction
  case (more w1 ph1 w2 ph2)
  then obtain p1 where p1: "go_pcbs (app w1) i = Some p1" "gp_recvQueued p1 = gp_recvQueued p" by blast
  from app_step_queue [OF meanwhile_inv [OF more.hyps(1) more.prems(1)] more.hyps(2) p1(1)] p1(2) show ?case by simp
qed simp

text \<open>
  A \<open>Write\<close> that waits for a notice has the lock, so nobody can close its connection, and nothing but the notice lets it go on.
\<close>

definition counted :: "'a go_state_scheme \<Rightarrow> (nat \<Rightarrow> wphase) \<Rightarrow> nat \<Rightarrow> go_pcb \<Rightarrow> bool" where
  "counted g ph i p \<longleftrightarrow> go_pcbs g i = Some p \<and> gp_type p = TCP \<and> gp_lck p \<and> gp_err p = None \<and>
     (\<exists>s d c. ph i = WWaiting s d \<and> gp_sendWait p = Some c \<and> ch_buf c = [] \<and> ch_cap c = 1 \<and> \<not> ch_closed c)"

lemma countedI:
  assumes inv: "run_inv g ph" and p: "go_pcbs g i = Some p" "gp_type p = TCP" "gp_err p = None" "0 < gp_sendCount p"
  shows "counted g ph i p"
proof -
  from go_wfD(1) [OF run_invD(1) [OF inv] p(1)] p(2,3) obtain c where c: "gp_sendWait p = Some c" "ch_cap c = 1" "\<not> ch_closed c"
    by (auto simp: pcb_wf_def)
  have "gp_lck p \<and> (\<exists>s d. ph i = WWaiting s d) \<and> ch_buf c = []"
    using write_invD [OF run_invD(2) [OF inv] p(1)] p(2-4) c(1)
    by (cases "ph i"; cases "ch_buf c") (auto simp: write_ok_def notices_def)
  with p c show ?thesis by (auto simp: counted_def)
qed

lemma counted_step:
  assumes inv: "run_inv (app w) ph" and "counted (app w) ph i p" and step: "app_step w ph w' ph'"
  shows "counted (app w') ph' i p"
proof -
  from assms(2) obtain s d c where p: "go_pcbs (app w) i = Some p" "gp_type p = TCP" "gp_lck p"
    and ph: "ph i = WWaiting s d" and c: "gp_sendWait p = Some c" "ch_buf c = []" "\<not> ch_closed c" by (auto simp: counted_def)
  have "go_pcbs (app w') i = Some p \<and> ph' i = ph i" using step
  proof cases
    case (side m)
    from side(2) in_goD [OF side(3)] show ?thesis
    proof (cases rule: side_op_keeps)
      case (1 j q b)
      with in_goD [OF side(3)] p side(1) show ?thesis by (auto simp: pcb_Write_queue_def ok_simps)
    next
      case (2 j)
      with in_goD [OF side(3)] obtain e where "pcb_close j (app w) = Some (Ok (e, app w'))" by (auto simp: ok_simps)
      with run_invD(1) [OF inv] show ?thesis by (rule close_cases) (use p side(1) in auto)
    qed (use p side(1) in simp)
  next
    case (lock j q s' d')
    with p show ?thesis by (auto simp: ok_simps pcb_Write_lock_def split: if_splits)
  next
    case (await j s' d')
    with p ph c show ?thesis by (cases "j = i") (auto simp: ok_simps pcb_Write_wait_def chan_recv_def split: if_splits)
  next
    case (finish j s' r)
    with p ph show ?thesis by (cases "j = i") (auto simp: ok_simps pcb_Write_end_def split: if_splits)
  qed (use p ph in \<open>auto simp: ok_simps pcb_Write_queue_def\<close>)
  with assms(2) show ?thesis by (simp add: counted_def)
qed

lemma meanwhile_counted: "meanwhile w ph w' ph' \<Longrightarrow> run_inv (app w) ph \<Longrightarrow> counted (app w) ph i p \<Longrightarrow> counted (app w') ph' i p"
  by (induction rule: meanwhile.induct) (auto intro: counted_step meanwhile_inv)

lemma counted_notice: "counted (app w) ph i p \<Longrightarrow> \<exists>w'. go_send_notice i w = Some (Ok ((), w'))"
  by (auto simp: counted_def go_send_notice_def run_simps set_pcb_field_def on_sendWait_def chan_send_def)

lemma recv_data_pcb:
  assumes "polite G" and "go_recv_data G tpcb es buf w = Some (Ok (Some (q, data), w1))"
  obtains i p where "tcpPcbs (app w) es = Some i" and "go_pcbs (app w) i = Some p" and "gp_err p = None"
    and "q = gp_recvQueued p" and "app w1 = app w"
proof -
  from assms(2) obtain i p where "tcpPcbs (app w) es = Some i" "go_pcbs (app w) i = Some p" "gp_err p = None" "q = gp_recvQueued p"
    by (auto simp: go_recv_data_def ok_simps split: if_splits option.splits)
  from that [OF this recv_app [OF assms]] show ?thesis .
qed

lemma recv_meanwhile:
  assumes "polite G" and inv: "run_inv (app w) ph" and data: "go_recv_data G tpcb es buf w = Some (Ok (Some (q, data), w1))"
    and later: "meanwhile w1 ph w2 ph2"
  shows "\<exists>i p. tcpPcbs (app w) es = Some i \<and> go_pcbs (app w2) i = Some p \<and>
     (go_recv_send q data w2 = Some (Fault f) \<longleftrightarrow> gp_err p \<noteq> None \<and> f = GoPanic ''send on closed channel'')"
  using assms(1) data
proof (cases rule: recv_data_pcb)
  case (1 i p)
  with inv have inv1: "run_inv (app w1) ph" by simp
  from meanwhile_queue [OF later inv1, of i p] 1 obtain p2 where
    p2: "go_pcbs (app w2) i = Some p2" "gp_recvQueued p2 = q" by auto
  from recv_send_faults [OF run_invD(1) [OF meanwhile_inv [OF later inv1]] p2(1), of data f] p2 1(1) show ?thesis by auto
qed

lemma notice_meanwhile:
  assumes inv: "run_inv (app w) ph" and i: "tcpPcbs (app w) es = Some i"
    and p: "go_pcbs (app w) i = Some p" "gp_err p = None" "0 < gp_sendCount p" and later: "meanwhile w ph w2 ph2"
  shows "\<exists>w3. go_send_notice i w2 = Some (Ok ((), w3))"
proof -
  from run_invD(1) [OF inv] i p(1) have "gp_type p = TCP" by (cases rule: registered [of _ es]) auto
  from counted_notice [OF meanwhile_counted [OF later inv countedI [OF inv p(1) this p(2,3)]]] show ?thesis .
qed

text \<open>
  C34. When a handler for TCP panics. In every run: the handlers for a new connection with an allocated control block and for a close by
  the peer panic only if the application's handler they call does. The handler for received data does not panic in its checks and its copy; goroutines
  may run before its send, which panics exactly if the connection has been closed by then. The handler for a finished write never panics:
  once its checks have found a counted send, the \<open>Write\<close> that waits has the lock, so whatever goroutines do before the
  notice is sent, the connection stays open and the notice is sent without waiting.
\<close>

theorem go_tcp_handlers_panics:
  assumes "polite G" and "calm Ev" and "write_run G addr_string Ev w ph"
    and "G = go_of P T U N sg C inp outp ba ni" and "doc_pbuf_copy P"
  shows "(tpcbs w tpcb \<noteq> None \<longrightarrow> go_accept Ev arg tpcb es w = Some (Fault f) \<longrightarrow>
       (\<exists>E i v. Ev = Some E \<and> tcpPcbs (app v) es = Some i \<and> go_pcbs (app v) i \<noteq> None \<and> on_accept E i v = Some (Fault f))) \<and>
     (go_close Ev arg tpcb es w = Some (Fault f) \<longrightarrow>
       (\<exists>E i v. Ev = Some E \<and> tcpPcbs (app w) es = Some i \<and> go_pcbs (app v) i \<noteq> None \<and> on_close E i v = Some (Fault f))) \<and>
     (whole_chain (pbufs w) buf ps \<longrightarrow> go_recv_data G tpcb es buf w \<noteq> Some (Fault f)) \<and>
     (\<forall>q data w1 w2 ph2. go_recv_data G tpcb es buf w = Some (Ok (Some (q, data), w1)) \<longrightarrow> meanwhile w1 ph w2 ph2 \<longrightarrow>
       (\<exists>i p. tcpPcbs (app w) es = Some i \<and> go_pcbs (app w2) i = Some p \<and>
          (go_recv_send q data w2 = Some (Fault f) \<longleftrightarrow> gp_err p \<noteq> None \<and> f = GoPanic ''send on closed channel''))) \<and>
     (\<forall>i p w2 ph2. tcpPcbs (app w) es = Some i \<longrightarrow> go_pcbs (app w) i = Some p \<longrightarrow> gp_err p = None \<longrightarrow> 0 < gp_sendCount p \<longrightarrow>
       meanwhile w ph w2 ph2 \<longrightarrow> (\<exists>w3. go_send_notice i w2 = Some (Ok ((), w3))))"
proof -
  note inv = write_run_inv [OF assms(1-3)]
  note wf = run_invD(1) [OF inv]
  show ?thesis
    by (intro conjI allI impI; (rule accept_faults | rule peer_close_faults [OF wf] | rule recv_data_no_fault [OF wf assms(4,5)] |
        rule recv_meanwhile [OF assms(1) inv] | rule notice_meanwhile [OF inv]); assumption)
qed

section \<open>What Write keeps\<close>

text \<open>
  C27. On a UDP connection \<open>Write\<close> returns while its slice is still in the queue of the loop, shown for a queue that was empty. What is sent in the end
  is whatever the application has put into the array since then, so an application that uses one buffer for one
  datagram after the other, like \<open>io.Copy\<close>, sends some twice and loses others.
\<close>

theorem go_udp_write_keeps_buffer:
  assumes "go_pcbs (app w) i = Some p" and "gp_type p = UDP" and "gp_err p = None" and "slice_ok (app w) s"
    and "open_chan 1024 (sendQueue (app w))" and "ch_buf (sendQueue (app w)) = []"
    and "go_arrays (app w) (sl_array s) = Some a" and "length a' = length a"
  shows "\<exists>g. pcb_Write i s (app w) = Some (Ok ((int (sl_len s), None), g)) \<and>
     go_netif_proc_round G addr_string netif CaseSend (w\<lparr>app := g\<lparr>go_arrays := (go_arrays g)(sl_array s \<mapsto> a')\<rparr>\<rparr>) =
       ignore (go_cs_udp_send G (gp_pcb p) (gp_localIP p) (word_of_int (gp_localPort p)) (gp_remoteIP p)
           (word_of_int (gp_remotePort p)) (take (sl_len s) (drop (sl_off s) a')) (int (sl_len s)))
         (w\<lparr>app := (app w)\<lparr>go_arrays := (go_arrays (app w))(sl_array s \<mapsto> a')\<rparr>\<rparr>)"
proof -
  from assms(4,7) have len: "0 < sl_len s" "sl_off s + sl_len s \<le> length a" by (auto simp: slice_ok_def)
  let ?g = "(app w)\<lparr>sendQueue := (sendQueue (app w))\<lparr>ch_buf := [(i, s)]\<rparr>\<rparr>"
  have "pcb_Write i s (app w) = Some (Ok ((int (sl_len s), None), ?g))"
    using assms(1-3,5,6) len
    by (simp add: pcb_Write_def pcb_Write_check_def pcb_Write_lock_def pcb_Write_queue_def pcb_Write_wait_def
        pcb_Write_end_def run_simps chan_send_def open_chan_def)
  moreover have "(sendQueue (app w))\<lparr>ch_buf := []\<rparr> = sendQueue (app w)" using assms(6) by simp
  then have "go_netif_proc_round G addr_string netif CaseSend (w\<lparr>app := ?g\<lparr>go_arrays := (go_arrays ?g)(sl_array s \<mapsto> a')\<rparr>\<rparr>) =
       ignore (go_cs_udp_send G (gp_pcb p) (gp_localIP p) (word_of_int (gp_localPort p)) (gp_remoteIP p)
           (word_of_int (gp_remotePort p)) (take (sl_len s) (drop (sl_off s) a')) (int (sl_len s)))
         (w\<lparr>app := (app w)\<lparr>go_arrays := (go_arrays (app w))(sl_array s \<mapsto> a')\<rparr>\<rparr>)"
    using assms(1-3,8) len
    by (simp add: go_netif_proc_round_def run_simps chan_recv_def sendEntry_Send_def slice_bytes_def udpSend_def)
  ultimately show ?thesis by blast
qed

text \<open>
  A handler between its check and its send, or one that waits for room in a receive queue, panics when the application closes the
  connection meanwhile: the close finds the connection open, and the send is then one on a closed channel.
\<close>

theorem go_close_while_full_panics:
  assumes "go_wf g" and "go_pcbs g i = Some p" and "\<not> gp_lck p" and "gp_err p = None"
  shows "\<exists>g'. pcb_close i g = Some (Ok (None, g')) \<and>
     on_chan (gp_recvQueued p) (chan_send d) g' = Some (Fault (GoPanic ''send on closed channel''))"
proof -
  from go_wfD(1) [OF assms(1,2)] obtain c where c: "go_chans g (gp_recvQueued p) = Some c" by (auto simp: pcb_wf_def)
  from close_result [OF assms c] show ?thesis by (simp add: on_chan_def run_simps chan_send_def)
qed

text \<open>
  A datagram for a UDP connection that the application has closed, before the loop has taken the connection out of the
  registry, is sent on the closed channel.
\<close>

theorem go_datagram_after_close_panics:
  assumes "doc_pbuf_copy P" and "G = go_of P T U N sg C inp outp ba ni" and "whole_chain (pbufs w) buf ps"
    and "go_wf (app w)" and "go_pcbs (app w) i = Some p" and "\<not> gp_lck p" and "gp_err p = None"
    and "go_ip_bytes G ip w = Some (Ok (bs, w))" and "udpPcbs (app w) (addr_string bs port) = Some i"
  shows "\<exists>g. pcb_close i (app w) = Some (Ok (None, g)) \<and>
     go_udp_recv G addr_string Ev arg upcb ip port buf (w\<lparr>app := g\<rparr>) = Some (Fault (GoPanic ''send on closed channel''))"
proof -
  from go_wfD(1) [OF assms(4,5)] obtain c where c: "go_chans (app w) (gp_recvQueued p) = Some c" by (auto simp: pcb_wf_def)
  let ?g = "(app w)\<lparr>go_chans := (go_chans (app w))(gp_recvQueued p \<mapsto> c\<lparr>ch_closed := True\<rparr>),
     go_pcbs := (go_pcbs (app w))(i \<mapsto> closed_pcb p)\<rparr>"
  have "go_copy G buf (w\<lparr>app := ?g\<rparr>) = Some (Ok (chain_bytes (pbufs w) ps, w\<lparr>app := ?g\<rparr>))"
    using go_copy_run [OF assms(1), of "w\<lparr>app := ?g\<rparr>" buf ps T U N sg C inp outp ba ni] assms(2,3) by simp
  moreover have "go_ip_bytes G ip (w\<lparr>app := ?g\<rparr>) = Some (Ok (bs, w\<lparr>app := ?g\<rparr>))"
    using assms(8) by (auto simp: go_ip_bytes_def split: res.splits)
  ultimately have "go_udp_recv G addr_string Ev arg upcb ip port buf (w\<lparr>app := ?g\<rparr>) = Some (Fault (GoPanic ''send on closed channel''))"
    using assms(9) by (simp add: go_udp_recv_def go_udp_recv_data_def go_recv_send_def run_simps Let_def closed_pcb_def on_chan_def chan_send_def)
  with close_result [OF assms(4-7) c] show ?thesis by blast
qed

text \<open>What was received and not yet read when a connection is closed stays in its queue: \<open>Read\<close> returns the error only.\<close>

theorem go_read_after_close_drops:
  assumes "go_wf g" and "go_pcbs g i = Some p" and "\<not> gp_lck p" and "gp_err p = None"
    and "go_chans g (gp_recvQueued p) = Some c"
  shows "\<exists>g'. pcb_close i g = Some (Ok (None, g')) \<and> pcb_Read_data i n g' = Some (Ok (([], Some ''closed''), g')) \<and>
     map_option ch_buf (go_chans g' (gp_recvQueued p)) = Some (ch_buf c)"
proof -
  have "\<not> gp_recvInter p" using go_wfD(1) [OF assms(1,2)] assms(4) by (auto simp: pcb_wf_def)
  with close_result [OF assms] show ?thesis
    by (simp add: pcb_Read_data_def pcb_Read_check_def run_simps closed_pcb_def)
qed

section \<open>A run with one Write\<close>

text \<open>The connection of \<open>Go_Run\<close>, an array of the application, and a \<open>Write\<close> of it in its steps.\<close>

definition go_net2 :: "go_state world" where
  "go_net2 = go_net1\<lparr>app := (app go_net1)\<lparr>go_arrays := [50 \<mapsto> [7, 8, 9]]\<rparr>\<rparr>"

definition go_net3 :: "go_state world" where
  "go_net3 = go_net2\<lparr>app := (app go_net2)\<lparr>go_pcbs := [2 \<mapsto> go_pcb1\<lparr>gp_lck := True\<rparr>]\<rparr>\<rparr>"

definition go_net4 :: "go_state world" where
  "go_net4 = go_net3\<lparr>app := (app go_net3)\<lparr>sendQueue := \<lparr>ch_buf = [(2, Slice 50 1 2)], ch_cap = 1024, ch_closed = False\<rparr>\<rparr>\<rparr>"

lemma net4_run: "write_run go_g demo_key None go_net4 ((\<lambda>_. WIdle)(2 := WWaiting (Slice 50 1 2) [8, 9]))"
proof -
  note step = write_run.step [of go_g demo_key None]
  have "write_run go_g demo_key None go_net1 (\<lambda>_. WIdle)"
    by (rule step [OF write_run.start write_step.handler [OF handler_step.accept [OF go_accept_one]]]) (simp add: go_net0_def)
  then have "write_run go_g demo_key None go_net2 (\<lambda>_. WIdle)"
    by (rule step [OF _ write_step.goroutine [OF app_step.side [OF side_op.make_array [where r = 50 and d = "[7, 8, 9]"]]]])
      (simp_all add: run_simps go_net1_def go_net2_def go_start_def)
  then have "write_run go_g demo_key None go_net3 ((\<lambda>_. WIdle)(2 := WLocked (Slice 50 1 2) [8, 9]))"
    by (rule step [OF _ write_step.goroutine [OF app_step.lock [where p = go_pcb1]]])
      (simp_all add: run_simps go_net1_def go_net2_def go_net3_def go_pcb1_def holds_iff pcb_Write_lock_def pcb_lock_def
        set_pcb_field_def)
  then have "write_run go_g demo_key None go_net4
      ((\<lambda>_. WIdle)(2 := WLocked (Slice 50 1 2) [8, 9], 2 := WWaiting (Slice 50 1 2) [8, 9]))"
    by (rule step [OF _ write_step.goroutine [OF app_step.request]])
      (simp_all add: run_simps go_net1_def go_net2_def go_net3_def go_net4_def pcb_Write_queue_def chan_send_def go_start_def
        make_chan_def)
  then show ?thesis by (simp only: fun_upd_upd)
qed

theorem go_write_notices_witness:
  "(\<exists>r w'. go_send_done 3 5 7 go_net4 = Some (Ok (r, w'))) \<and> requests (app go_net4) 2 = [Slice 50 1 2]"
proof -
  have "go_send_done 3 5 7 go_net4 \<noteq> None" using go_write_notices [OF go_g_polite none_calm net4_run] by fastforce
  then show ?thesis using go_write_notices [OF go_g_polite none_calm net4_run]
    by (simp add: requests_def go_net4_def)
qed

text \<open>The handler for received data between its two parts, with nothing, and with a close by a goroutine, in between.\<close>

lemma net1_run: "write_run go_g demo_key None go_net1 (\<lambda>_. WIdle)"
  by (rule write_run.step [OF write_run.start write_step.handler [OF handler_step.accept [OF go_accept_one]]]) (simp add: go_net0_def)

definition go_net1_closed :: "go_state world" where
  "go_net1_closed = go_net1\<lparr>app := (app go_net1)\<lparr>go_chans := (go_chans (app go_net1))(3 \<mapsto> (make_chan 1024)\<lparr>ch_closed := True\<rparr>),
     go_pcbs := (go_pcbs (app go_net1))(2 \<mapsto> closed_pcb go_pcb1)\<rparr>\<rparr>"

lemma net1_close: "meanwhile go_net1 (\<lambda>_. WIdle) go_net1_closed (\<lambda>_. WIdle)"
proof -
  have "go_wf (app go_net1)" by (rule run_invD(1) [OF write_run_inv [OF go_g_polite none_calm net1_run]])
  from close_result [OF this, of 2 go_pcb1 "make_chan 1024"] have
    "pcb_close 2 (app go_net1) = Some (Ok (None, app go_net1_closed))"
    by (simp add: go_net1_def go_net1_closed_def go_pcb1_def)
  then have "app_step go_net1 (\<lambda>_. WIdle) go_net1_closed (\<lambda>_. WIdle)"
    by (intro app_step.side [OF side_op.close_conn [of _ 2]]) (simp add: run_simps go_net1_closed_def)
  then show ?thesis by (rule meanwhile.more [OF meanwhile.nothing])
qed

theorem go_tcp_handlers_panics_witness:
  "\<exists>q data w1. go_recv_data go_g 5 7 8 go_net1 = Some (Ok (Some (q, data), w1)) \<and>
     go_recv_send q data go_net1_closed = Some (Fault (GoPanic ''send on closed channel'')) \<and>
     (\<forall>f. go_recv_send q data w1 \<noteq> Some (Fault f))"
proof -
  note panics = go_tcp_handlers_panics [OF go_g_polite none_calm net1_run go_g_def ref_pbuf_doc(3), of 5 3 7 _ 8 "[8]"]
  have run: "go_recv_data go_g 5 7 8 go_net1 = Some (Ok (Some (3, [10, 20]), go_net1))"
    using go_copy_run [OF ref_pbuf_doc(3) go_net1_chain(1)] go_net1_chain(2) unfolding go_g_def
    by (simp add: go_recv_data_def run_simps go_net1_def go_pcb1_def)
  have closed: "go_pcbs (app go_net1_closed) 2 = Some (closed_pcb go_pcb1)" "go_pcbs (app go_net1) 2 = Some go_pcb1"
    "tcpPcbs (app go_net1) 7 = Some 2" by (simp_all add: go_net1_closed_def go_net1_def)
  have "go_recv_send 3 [10, 20] go_net1_closed = Some (Fault (GoPanic ''send on closed channel''))"
    using panics run net1_close closed by (fastforce simp: closed_pcb_def)
  moreover have "go_recv_send 3 [10, 20] go_net1 \<noteq> Some (Fault f)" for f
    using panics run meanwhile.nothing closed by (fastforce simp: go_pcb1_def)
  ultimately show ?thesis using run by blast
qed

theorem go_write_sends_its_bytes_witness:
  "\<exists>w. go_netif_proc_round go_g demo_key 4 CaseSend go_net4 = ignore (go_cs_tcp_send go_g 5 7 [8, 9] 2) w"
proof -
  have "ch_buf (sendQueue (app go_net4)) = [(2, Slice 50 1 2)]" "go_pcbs (app go_net4) 2 = Some (go_pcb1\<lparr>gp_lck := True\<rparr>)"
    "gp_type (go_pcb1\<lparr>gp_lck := True\<rparr>) = TCP" "gp_err (go_pcb1\<lparr>gp_lck := True\<rparr>) = None"
    by (simp_all add: go_net4_def go_net3_def go_pcb1_def)
  from go_write_sends_its_bytes [OF go_g_polite none_calm net4_run this, of 4] show ?thesis
    by (auto simp: go_pcb1_def)
qed

definition go_udp1 :: go_pcb where
  "go_udp1 = go_pcb1\<lparr>gp_type := UDP, gp_pcb := 6, gp_sendWait := None\<rparr>"

definition go_net5 :: "go_state world" where
  "go_net5 = go_net2\<lparr>app := (app go_net2)\<lparr>go_pcbs := [2 \<mapsto> go_udp1]\<rparr>\<rparr>"

theorem go_udp_write_keeps_buffer_witness:
  "\<exists>g w. pcb_Write 2 (Slice 50 0 3) (app go_net5) = Some (Ok ((3, None), g)) \<and>
     go_netif_proc_round go_g demo_key 4 CaseSend (go_net5\<lparr>app := g\<lparr>go_arrays := (go_arrays g)(50 \<mapsto> [1, 1, 1])\<rparr>\<rparr>) =
       ignore (go_cs_udp_send go_g 6 (gp_localIP go_udp1) (word_of_int (gp_localPort go_udp1)) (gp_remoteIP go_udp1)
         (word_of_int (gp_remotePort go_udp1)) [1, 1, 1] 3) w"
proof -
  have "go_pcbs (app go_net5) 2 = Some go_udp1" "gp_type go_udp1 = UDP" "gp_err go_udp1 = None"
    "slice_ok (app go_net5) (Slice 50 0 3)" "open_chan 1024 (sendQueue (app go_net5))" "ch_buf (sendQueue (app go_net5)) = []"
    "go_arrays (app go_net5) (sl_array (Slice 50 0 3)) = Some [7, 8, 9]" "length [1, 1, 1 :: u8] = length [7, 8, 9 :: u8]"
    by (simp_all add: go_net5_def go_net2_def go_net1_def go_udp1_def go_pcb1_def slice_ok_def go_start_def make_chan_def
        open_chan_def chan_wf_def)
  from go_udp_write_keeps_buffer [OF this, of go_g demo_key 4] show ?thesis by (auto simp: go_udp1_def)
qed

end
