(* ===== verification/Go_Std.thy ===== *)
theory Go_Std
  imports Cs_Prelude "HOL-Library.Sublist"
begin

text \<open>
  What the programs use of C's and Go's standard libraries on strings: decimal numbers, \<open>strings.SplitAfterN\<close> and
  \<open>strings.Trim\<close>, the texts of addresses of the package \<open>net\<close>, \<open>url.Parse\<close> with the parts of a URL the sources look at, and the
  patterns of \<open>regexp\<close> made of single characters, classes and stars. A string is a list of bytes.
\<close>

section \<open>Numbers\<close>

text \<open>\<open>%d\<close> of a number that is not negative, and \<open>%x\<close>.\<close>

fun dec :: "nat \<Rightarrow> string" where
  "dec n = (if n < 10 then [char_of (48 + n)] else dec (n div 10) @ [char_of (48 + n mod 10)])"

declare dec.simps [simp del]

definition itoa :: "int \<Rightarrow> string" where
  "itoa n = (if n < 0 then CHR ''-'' # dec (nat (- n)) else dec (nat n))"

definition hex_digit :: "nat \<Rightarrow> char" where
  "hex_digit d = char_of (if d < 10 then 48 + d else 87 + d)"

fun hex :: "nat \<Rightarrow> string" where
  "hex n = (if n < 16 then [hex_digit n] else hex (n div 16) @ [hex_digit (n mod 16)])"

declare hex.simps [simp del]

section \<open>Characters\<close>

abbreviation code :: "char \<Rightarrow> nat" where "code c \<equiv> of_char c"

definition is_digit :: "char \<Rightarrow> bool" where "is_digit c \<longleftrightarrow> 48 \<le> code c \<and> code c \<le> 57"

definition is_lower :: "char \<Rightarrow> bool" where "is_lower c \<longleftrightarrow> 97 \<le> code c \<and> code c \<le> 122"

definition is_upper :: "char \<Rightarrow> bool" where "is_upper c \<longleftrightarrow> 65 \<le> code c \<and> code c \<le> 90"

definition is_alnum :: "char \<Rightarrow> bool" where "is_alnum c \<longleftrightarrow> is_digit c \<or> is_lower c \<or> is_upper c"

definition is_hex :: "char \<Rightarrow> bool" where
  "is_hex c \<longleftrightarrow> is_digit c \<or> (97 \<le> code c \<and> code c \<le> 102) \<or> (65 \<le> code c \<and> code c \<le> 70)"

definition unhex :: "char \<Rightarrow> nat" where
  "unhex c = (if is_digit c then code c - 48 else if is_lower c then code c - 87 else code c - 55)"

definition to_lower :: "char \<Rightarrow> char" where
  "to_lower c = (if is_upper c then char_of (code c + 32) else c)"

section \<open>Splitting\<close>

text \<open>Before the first \<open>c\<close> and after it; before the last \<open>c\<close> and from it on.\<close>

definition cut :: "char \<Rightarrow> string \<Rightarrow> string \<times> string" where
  "cut c s = (takeWhile (\<lambda>d. d \<noteq> c) s, drop 1 (dropWhile (\<lambda>d. d \<noteq> c) s))"

definition cut_last :: "char \<Rightarrow> string \<Rightarrow> string \<times> string" where
  "cut_last c s = (if c \<in> set s
     then (rev (drop 1 (dropWhile (\<lambda>d. d \<noteq> c) (rev s))), c # rev (takeWhile (\<lambda>d. d \<noteq> c) (rev s)))
     else (s, ''''))"

text \<open>\<open>strings.SplitAfterN\<close> for a separator of one character, \<open>n\<close> positive, and \<open>strings.Trim\<close> for one character.\<close>

primrec split_after_n :: "char \<Rightarrow> nat \<Rightarrow> string \<Rightarrow> string list" where
  "split_after_n c 0 s = []"
| "split_after_n c (Suc n) s = (if n = 0 \<or> c \<notin> set s then [s]
     else (fst (cut c s) @ [c]) # split_after_n c n (snd (cut c s)))"

definition trim :: "char \<Rightarrow> string \<Rightarrow> string" where
  "trim c s = rev (dropWhile (\<lambda>d. d = c) (rev (dropWhile (\<lambda>d. d = c) s)))"

section \<open>Addresses\<close>

fun join :: "string \<Rightarrow> string list \<Rightarrow> string" where
  "join s [] = ''''"
| "join s [x] = x"
| "join s (x # xs) = x @ s @ join s xs"

definition dotted_bytes :: "u8 list \<Rightarrow> string" where
  "dotted_bytes bs = join ''.'' (map (\<lambda>b. dec (unat b)) bs)"

text \<open>The groups of an IPv6 address, and the first of its longest runs of zeros.\<close>

fun groups :: "u8 list \<Rightarrow> nat list" where
  "groups (a # b # bs) = (256 * unat a + unat b) # groups bs"
| "groups _ = []"

definition zero_run :: "nat list \<Rightarrow> nat \<times> nat" where
  "zero_run gs = fold (\<lambda>i (s, l). let n = length (takeWhile (\<lambda>g. g = 0) (drop i gs)) in if n > l then (i, n) else (s, l))
     [0..<length gs] (0, 0)"

definition ip6_text :: "nat list \<Rightarrow> string" where
  "ip6_text gs = (case zero_run gs of (s, l) \<Rightarrow>
     if l < 2 then join '':'' (map hex gs)
     else join '':'' (map hex (take s gs)) @ ''::'' @ join '':'' (map hex (drop (s + l) gs)))"

text \<open>\<open>String\<close> of \<open>net.IP\<close>.\<close>

definition ip_string :: "u8 list \<Rightarrow> string" where
  "ip_string ip = (if ip = [] then ''<nil>''
     else if length ip = 4 then dotted_bytes ip
     else if length ip \<noteq> 16 then ''?'' @ concat (map (\<lambda>b. [hex_digit (unat b div 16), hex_digit (unat b mod 16)]) ip)
     else if take 12 ip = replicate 10 0 @ [255, 255] then dotted_bytes (drop 12 ip)
     else ip6_text (groups ip))"

text \<open>\<open>net.JoinHostPort\<close>, and \<open>String\<close> of \<open>net.TCPAddr\<close> and \<open>net.UDPAddr\<close> without a zone.\<close>

definition join_host_port :: "string \<Rightarrow> string \<Rightarrow> string" where
  "join_host_port host port =
     (if CHR '':'' \<in> set host \<or> CHR ''%'' \<in> set host then ''['' @ host @ '']:'' @ port else host @ '':'' @ port)"

definition addr_text :: "u8 list \<Rightarrow> int \<Rightarrow> string" where
  "addr_text ip port = join_host_port (if ip = [] then '''' else ip_string ip) (itoa port)"

section \<open>URLs\<close>

text \<open>The parts of a URL the programs look at: \<open>Scheme\<close> and \<open>Host\<close>.\<close>

record url =
  u_scheme :: string
  u_host :: string

text \<open>\<open>getscheme\<close>: the scheme and the rest, nothing if the text starts with a colon.\<close>

fun get_scheme :: "string \<Rightarrow> nat \<Rightarrow> string \<Rightarrow> (string \<times> string) option" where
  "get_scheme raw i [] = Some ('''', raw)"
| "get_scheme raw i (c # cs) =
     (if is_lower c \<or> is_upper c then get_scheme raw (Suc i) cs
      else if is_digit c \<or> c \<in> set ''+-.'' then (if i = 0 then Some ('''', raw) else get_scheme raw (Suc i) cs)
      else if c = CHR '':'' then (if i = 0 then None else Some (take i raw, cs))
      else Some ('''', raw))"

text \<open>Escapes: every \<open>%\<close> is followed by two hexadecimal digits.\<close>

fun escapes_ok :: "string \<Rightarrow> bool" where
  "escapes_ok [] = True"
| "escapes_ok (c # cs) = (if c = CHR ''%''
     then (case cs of a # b # r \<Rightarrow> is_hex a \<and> is_hex b \<and> escapes_ok r | _ \<Rightarrow> False)
     else escapes_ok cs)"

definition host_char :: "char \<Rightarrow> bool" where
  "host_char c \<longleftrightarrow> is_alnum c \<or> c \<in> set ''!$&'()*+,;=:[]<>-_.~'' \<or> code c = 34"

text \<open>
  \<open>unescape\<close> of a host, and of the zone of an address in brackets: in a host only bytes that are not ASCII and the percent
  sign itself may be escaped.
\<close>

fun unescape_host :: "bool \<Rightarrow> string \<Rightarrow> string option" where
  "unescape_host zone [] = Some ''''"
| "unescape_host zone (c # cs) = (if c = CHR ''%''
     then (case cs of
         a # b # r \<Rightarrow>
           (let v = char_of (16 * unhex a + unhex b) in
            if is_hex a \<and> is_hex b \<and>
               ((a = CHR ''2'' \<and> b = CHR ''5'') \<or> (if zone then v = CHR '' '' \<or> 128 \<le> code v \<or> host_char v else 8 \<le> unhex a))
            then map_option (Cons v) (unescape_host zone r) else None)
       | _ \<Rightarrow> None)
     else if code c < 128 \<and> \<not> host_char c then None
     else map_option (Cons c) (unescape_host zone cs))"

definition valid_optional_port :: "string \<Rightarrow> bool" where
  "valid_optional_port p \<longleftrightarrow> p = '''' \<or> (hd p = CHR '':'' \<and> list_all is_digit (tl p))"

text \<open>The text up to \<open>%25\<close> and from it on.\<close>

fun cut_zone :: "string \<Rightarrow> (string \<times> string) option" where
  "cut_zone [] = None"
| "cut_zone (c # cs) = (if prefix ''%25'' (c # cs) then Some ('''', c # cs)
     else map_option (\<lambda>(a, b). (c # a, b)) (cut_zone cs))"

definition parse_host :: "string \<Rightarrow> string option" where
  "parse_host h =
     (if prefix ''['' h then
        (if CHR '']'' \<notin> set h \<or> \<not> valid_optional_port (tl (snd (cut_last CHR '']'' h))) then None
         else case cut_zone (fst (cut_last CHR '']'' h)) of
             None \<Rightarrow> unescape_host False h
           | Some (a, z) \<Rightarrow>
               (case (unescape_host False a, unescape_host True z, unescape_host False (snd (cut_last CHR '']'' h))) of
                  (Some x, Some y, Some v) \<Rightarrow> Some (x @ y @ v)
                | _ \<Rightarrow> None))
      else if CHR '':'' \<in> set h \<and> \<not> valid_optional_port (snd (cut_last CHR '':'' h)) then None
      else unescape_host False h)"

definition userinfo_char :: "char \<Rightarrow> bool" where
  "userinfo_char c \<longleftrightarrow> is_alnum c \<or> c \<in> set ''-._:~!$&'()*+,;=%@''"

definition parse_authority :: "string \<Rightarrow> string option" where
  "parse_authority a =
     (if CHR ''@'' \<in> set a then
        (let user = fst (cut_last CHR ''@'' a) in
         if list_all userinfo_char user \<and> escapes_ok user then parse_host (tl (snd (cut_last CHR ''@'' a))) else None)
      else parse_host a)"

text \<open>\<open>url.Parse\<close>: nothing when it returns an error.\<close>

definition url_parse_rest :: "string \<Rightarrow> string \<Rightarrow> url option" where
  "url_parse_rest scheme rest =
     (if \<not> prefix ''/'' rest \<and> scheme \<noteq> '''' then Some \<lparr>u_scheme = scheme, u_host = ''''\<rparr>
      else if \<not> prefix ''/'' rest \<and> CHR '':'' \<in> set (fst (cut CHR ''/'' rest)) then None
      else if prefix ''//'' rest \<and> (scheme \<noteq> '''' \<or> \<not> prefix ''///'' rest) then
        (let a = fst (cut CHR ''/'' (drop 2 rest)) in
         case parse_authority a of
           None \<Rightarrow> None
         | Some h \<Rightarrow> if escapes_ok (drop (2 + length a) rest) then Some \<lparr>u_scheme = scheme, u_host = h\<rparr> else None)
      else if escapes_ok rest then Some \<lparr>u_scheme = scheme, u_host = ''''\<rparr>
      else None)"

definition url_parse :: "string \<Rightarrow> url option" where
  "url_parse raw = (case cut CHR ''#'' raw of (u, frag) \<Rightarrow>
     if list_ex (\<lambda>c. code c < 32 \<or> code c = 127) u \<or> \<not> escapes_ok frag then None
     else if u = ''*'' then Some \<lparr>u_scheme = '''', u_host = ''''\<rparr>
     else case get_scheme u 0 u of
         None \<Rightarrow> None
       | Some (s, rest) \<Rightarrow> url_parse_rest (map to_lower s) (fst (cut CHR ''?'' rest)))"

text \<open>\<open>Hostname\<close> and \<open>Port\<close>.\<close>

definition split_host_port :: "string \<Rightarrow> string \<times> string" where
  "split_host_port h =
     (let (a, p) = cut_last CHR '':'' h;
          (host, port) = (if p \<noteq> '''' \<and> valid_optional_port p then (a, tl p) else (h, '''')) in
      (if prefix ''['' host \<and> suffix '']'' host then butlast (tl host) else host, port))"

definition url_hostname :: "url \<Rightarrow> string" where "url_hostname u = fst (split_host_port (u_host u))"

definition url_port :: "url \<Rightarrow> string" where "url_port u = snd (split_host_port (u_host u))"

section \<open>Patterns\<close>

text \<open>
  The syntax of \<open>regexp\<close> made of characters, the dot, classes that list their characters, and stars, with an
  end of text. Beyond are groups, alternatives, other repetitions, ranges and escapes of letters and digits.
\<close>

datatype rx_item = Ch char | AnyChar | Class string

datatype rx_atom = One rx_item | Many rx_item | AtEnd

datatype 'a rx_result = Compiled 'a | BadPattern | Beyond

definition rx_bind :: "'a rx_result \<Rightarrow> ('a \<Rightarrow> 'b rx_result) \<Rightarrow> 'b rx_result" where
  "rx_bind r f = (case r of Compiled x \<Rightarrow> f x | BadPattern \<Rightarrow> BadPattern | Beyond \<Rightarrow> Beyond)"

text \<open>An escaped punctuation mark stands for itself.\<close>

definition rx_punct :: "char \<Rightarrow> bool" where
  "rx_punct c \<longleftrightarrow> 32 < code c \<and> code c < 127 \<and> \<not> is_alnum c"

definition rx_meta :: "char \<Rightarrow> bool" where
  "rx_meta c \<longleftrightarrow> c \<in> set ''+?()|{}^$]'' \<or> 128 \<le> code c"

definition rx_class_meta :: "char \<Rightarrow> bool" where
  "rx_class_meta c \<longleftrightarrow> c \<in> set ''[^-'' \<or> 128 \<le> code c"

text \<open>The characters of a class and the pattern after it.\<close>

fun rx_class :: "string \<Rightarrow> (string \<times> string) rx_result" where
  "rx_class [] = BadPattern"
| "rx_class (c # cs) =
     (if c = CHR '']'' then Compiled ('''', cs)
      else if code c = 92 then (case cs of
          [] \<Rightarrow> BadPattern
        | d # ds \<Rightarrow> if rx_punct d then rx_bind (rx_class ds) (\<lambda>(x, r). Compiled (d # x, r)) else Beyond)
      else if rx_class_meta c then Beyond
      else rx_bind (rx_class cs) (\<lambda>(x, r). Compiled (c # x, r)))"

lemma rx_bind_Compiled: "rx_bind r f = Compiled y \<longleftrightarrow> (\<exists>x. r = Compiled x \<and> f x = Compiled y)"
  by (cases r) (simp_all add: rx_bind_def)

lemma rx_class_shorter: "rx_class s = Compiled (x, r) \<Longrightarrow> length r < length s"
proof (induction s arbitrary: x r rule: rx_class.induct)
  case (2 c cs)
  then show ?case
    by (cases cs) (auto simp: rx_bind_Compiled less_Suc_eq split: if_splits prod.splits)
qed simp

text \<open>The next item and the pattern after it; then the whole pattern.\<close>

definition rx_item_of :: "string \<Rightarrow> (rx_item \<times> string) rx_result" where
  "rx_item_of s = (case s of
       [] \<Rightarrow> BadPattern
     | c # cs \<Rightarrow>
         if c = CHR ''*'' then BadPattern
         else if c = CHR ''.'' then Compiled (AnyChar, cs)
         else if c = CHR ''['' then (if prefix '']'' cs then Beyond else rx_bind (rx_class cs) (\<lambda>(x, r). Compiled (Class x, r)))
         else if code c = 92 then (case cs of
             [] \<Rightarrow> BadPattern
           | d # ds \<Rightarrow> if rx_punct d then Compiled (Ch d, ds) else Beyond)
         else if rx_meta c then Beyond
         else Compiled (Ch c, cs))"

lemma rx_item_shorter:
  assumes "rx_item_of s = Compiled (x, r)"
  shows "length r < length s"
proof (cases s)
  case Nil
  with assms show ?thesis by (simp add: rx_item_of_def)
next
  case (Cons c cs)
  have "\<exists>y. rx_class cs = Compiled (y, r)" if "rx_bind (rx_class cs) (\<lambda>(x, r). Compiled (Class x, r)) = Compiled (x, r)"
    using that by (auto simp: rx_bind_Compiled)
  then show ?thesis using assms Cons rx_class_shorter [of cs _ r]
    by (cases cs) (fastforce simp: rx_item_of_def split: if_split_asm)+
qed

function rx_parse :: "string \<Rightarrow> rx_atom list rx_result" where
  "rx_parse s = (if s = '''' then Compiled []
     else if s = ''$'' then Compiled [AtEnd]
     else case rx_item_of s of
         BadPattern \<Rightarrow> BadPattern
       | Beyond \<Rightarrow> Beyond
       | Compiled (x, r) \<Rightarrow>
           if prefix ''*'' r then
             (if prefix ''**'' r then BadPattern
              else if prefix ''*+'' r \<or> prefix ''*?'' r \<or> prefix ''*{'' r then Beyond
              else rx_bind (rx_parse (tl r)) (\<lambda>as. Compiled (Many x # as)))
           else rx_bind (rx_parse r) (\<lambda>as. Compiled (One x # as)))"
  by pat_completeness auto
termination
  by (relation "measure length") (auto dest: rx_item_shorter)

declare rx_parse.simps [simp del]

fun rx_accepts :: "rx_item \<Rightarrow> char \<Rightarrow> bool" where
  "rx_accepts (Ch d) c \<longleftrightarrow> c = d"
| "rx_accepts AnyChar c \<longleftrightarrow> code c \<noteq> 10"
| "rx_accepts (Class x) c \<longleftrightarrow> c \<in> set x"

text \<open>A match at the start of the text, and \<open>MatchString\<close>: a match anywhere.\<close>

fun rx_match :: "rx_atom list \<Rightarrow> string \<Rightarrow> bool" where
  "rx_match [] s = True"
| "rx_match (AtEnd # as) s = (s = [] \<and> rx_match as s)"
| "rx_match (One x # as) s = (case s of [] \<Rightarrow> False | c # cs \<Rightarrow> rx_accepts x c \<and> rx_match as cs)"
| "rx_match (Many x # as) s = (rx_match as s \<or> (case s of [] \<Rightarrow> False | c # cs \<Rightarrow> rx_accepts x c \<and> rx_match (Many x # as) cs))"

fun rx_search :: "rx_atom list \<Rightarrow> string \<Rightarrow> bool" where
  "rx_search as [] = rx_match as []"
| "rx_search as (c # cs) = (rx_match as (c # cs) \<or> rx_search as cs)"

text \<open>\<open>regexp.Compile\<close>; \<open>other\<close> is what it makes of a pattern beyond this syntax.\<close>

definition regexp_compile :: "(string \<Rightarrow> (string \<Rightarrow> bool) option) \<Rightarrow> string \<Rightarrow> (string \<Rightarrow> bool) option" where
  "regexp_compile other p = (case rx_parse p of
       Compiled as \<Rightarrow> Some (rx_search as)
     | BadPattern \<Rightarrow> None
     | Beyond \<Rightarrow> other p)"

section \<open>Numbers as text\<close>

lemma code_char_of [simp]: "n < 256 \<Longrightarrow> code (char_of n) = n"
  by (simp add: of_char_of take_bit_eq_mod)

lemma dec_digits: "c \<in> set (dec n) \<Longrightarrow> is_digit c"
proof (induction n rule: dec.induct)
  case (1 n)
  then show ?case by (subst (asm) (2) dec.simps) (auto simp: is_digit_def split: if_splits)
qed

lemma dec_nonempty [simp]: "dec n \<noteq> []"
  by (subst dec.simps) simp

lemma digit_char_inj: "char_of (48 + m) = (char_of (48 + n) :: char) \<Longrightarrow> m < 10 \<Longrightarrow> n < 10 \<Longrightarrow> m = n" for m n :: nat
proof -
  assume "char_of (48 + m) = (char_of (48 + n) :: char)" "m < 10" "n < 10"
  moreover from this(1) have "code (char_of (48 + m)) = code (char_of (48 + n))" by (rule arg_cong)
  ultimately show "m = n" by simp
qed

lemma dec_inj: "dec m = dec n \<Longrightarrow> m = n"
proof (induction m arbitrary: n rule: dec.induct)
  case (1 m)
  have big: "length (dec k) \<noteq> 1" if "\<not> k < 10" for k
    using that by (subst dec.simps) simp
  from 1(2) have len: "length (dec m) = length (dec n)" by simp
  show ?case
  proof (cases "m < 10")
    case True
    then have "length (dec m) = 1" by (simp add: dec.simps [of m])
    then have "n < 10" using len big [of n] by auto
    with True 1(2) show ?thesis by (auto simp: dec.simps [of m] dec.simps [of n] dest: digit_char_inj)
  next
    case False
    then have "\<not> n < 10" using len big [of m] by (auto simp: dec.simps [of n])
    with False 1(2) have same: "dec (m div 10) = dec (n div 10)" "m mod 10 = n mod 10"
      by (auto simp: dec.simps [of m] dec.simps [of n] dest: digit_char_inj)
    then have "m div 10 = n div 10" using 1(1) [OF False] by blast
    with same(2) show ?thesis by (metis div_mult_mod_eq)
  qed
qed

section \<open>Texts of addresses\<close>

definition ip_char :: "char \<Rightarrow> bool" where
  "ip_char c \<longleftrightarrow> is_digit c \<or> (97 \<le> code c \<and> code c \<le> 102) \<or> c = CHR '':'' \<or> c = CHR ''.''"

lemma hex_digit_char: "d < 16 \<Longrightarrow> ip_char (hex_digit d)"
  by (auto simp: hex_digit_def ip_char_def is_digit_def)

lemma hex_chars: "c \<in> set (hex n) \<Longrightarrow> ip_char c"
proof (induction n rule: hex.induct)
  case (1 n)
  then show ?case by (subst (asm) (2) hex.simps) (auto simp: hex_digit_char split: if_splits)
qed

lemma join_set: "set (join s xs) \<subseteq> set s \<union> \<Union> (set ` set xs)"
  by (induction s xs rule: join.induct) auto

lemma dotted_bytes_chars: "c \<in> set (dotted_bytes bs) \<Longrightarrow> is_digit c \<or> c = CHR ''.''"
  using join_set [of "''.''" "map (\<lambda>b. dec (unat b)) bs"] by (auto simp: dotted_bytes_def dest: dec_digits)

lemma ip6_text_chars: "c \<in> set (ip6_text gs) \<Longrightarrow> ip_char c"
proof -
  have "ip_char c" if "c \<in> set (join '':'' (map hex xs))" for xs
    using that join_set [of "'':''" "map hex xs"] hex_chars by (fastforce simp: ip_char_def)
  then show "c \<in> set (ip6_text gs) \<Longrightarrow> ip_char c"
    by (auto simp: ip6_text_def ip_char_def split: prod.splits if_splits)
qed

lemma ip_string_chars:
  "length ip = 4 \<or> length ip = 16 \<Longrightarrow> list_all ip_char (ip_string ip)"
  using ip6_text_chars dotted_bytes_chars by (auto simp: list_all_iff ip_string_def ip_char_def split: if_splits)

lemma digits_then_dot:
  assumes "a @ CHR ''.'' # x = b @ CHR ''.'' # y" and "\<And>c. c \<in> set a \<Longrightarrow> is_digit c" and "\<And>c. c \<in> set b \<Longrightarrow> is_digit c"
  shows "a = b \<and> x = y"
proof -
  have "\<not> is_digit (CHR ''.'')" by (simp add: is_digit_def)
  then have "CHR ''.'' \<notin> set a" "CHR ''.'' \<notin> set b" using assms(2,3) by blast+
  then show ?thesis using assms(1) by (auto simp: append_eq_append_conv2 append_eq_Cons_conv Cons_eq_append_conv)
qed

text \<open>The text of an IPv4 address determines it.\<close>

lemma dotted_bytes_inj:
  assumes "length a = 4" and "length b = 4"
  shows "dotted_bytes a = dotted_bytes b \<longleftrightarrow> a = b"
proof
  obtain a0 a1 a2 a3 where a: "a = [a0, a1, a2, a3]" using assms(1) by (auto simp: numeral_eq_Suc length_Suc_conv)
  obtain b0 b1 b2 b3 where b: "b = [b0, b1, b2, b3]" using assms(2) by (auto simp: numeral_eq_Suc length_Suc_conv)
  note cutd = digits_then_dot [OF _ dec_digits dec_digits]
  assume "dotted_bytes a = dotted_bytes b"
  then have "unat a0 = unat b0 \<and> unat a1 = unat b1 \<and> unat a2 = unat b2 \<and> unat a3 = unat b3"
    by (auto simp: a b dotted_bytes_def dest!: cutd dec_inj)
  then show "a = b" by (simp add: a b word_unat_eq_iff)
qed simp

section \<open>URLs of addresses\<close>

lemma cut_absent: "c \<notin> set s \<Longrightarrow> cut c s = (s, '''')"
proof -
  assume "c \<notin> set s"
  then have "\<And>d. d \<in> set s \<Longrightarrow> d \<noteq> c" by blast
  then have "takeWhile (\<lambda>d. d \<noteq> c) s = s" and none: "dropWhile (\<lambda>d. d \<noteq> c) s = []"
    by (simp_all add: takeWhile_eq_all_conv dropWhile_eq_Nil_conv)
  then show ?thesis unfolding cut_def none by simp
qed

lemma cut_last_at: "c \<notin> set b \<Longrightarrow> cut_last c (a @ c # b) = (a, c # b)"
proof -
  assume "c \<notin> set b"
  then have "takeWhile (\<lambda>d. d \<noteq> c) (rev b @ c # rev a) = rev b" "dropWhile (\<lambda>d. d \<noteq> c) (rev b @ c # rev a) = c # rev a"
    by (auto simp: takeWhile_tail dropWhile_append3)
  then show ?thesis by (simp add: cut_last_def)
qed

lemma unescape_plain: "list_all (\<lambda>c. host_char c \<and> c \<noteq> CHR ''%'') s \<Longrightarrow> unescape_host False s = Some s"
  by (induction s) auto

lemma cut_zone_plain: "CHR ''%'' \<notin> set s \<Longrightarrow> cut_zone s = None"
  by (induction s) auto

definition url_char :: "char \<Rightarrow> bool" where
  "url_char c \<longleftrightarrow> ip_char c \<or> c = CHR ''['' \<or> c = CHR '']''"

lemma url_char_host: "url_char c \<Longrightarrow> host_char c \<and> 32 \<le> code c \<and> code c < 127"
  by (auto simp: url_char_def ip_char_def host_char_def is_alnum_def is_lower_def is_digit_def)

lemma not_url_char:
  "\<not> url_char (CHR ''%'')" "\<not> url_char (CHR ''#'')" "\<not> url_char (CHR ''?'')" "\<not> url_char (CHR ''/'')"
  "\<not> url_char (CHR ''@'')" "\<not> ip_char (CHR '']'')" "\<not> ip_char (CHR ''['')" "\<not> is_digit (CHR '']'')" "\<not> is_digit (CHR '':'')"
  by (simp_all add: url_char_def ip_char_def is_digit_def)

lemma unescape_url_chars: "(\<And>c. c \<in> set H \<Longrightarrow> url_char c) \<Longrightarrow> unescape_host False H = Some H"
  using url_char_host not_url_char(1) by (intro unescape_plain) (auto simp: list_all_iff)

lemma host_url_parse:
  assumes "\<And>c. c \<in> set H \<Longrightarrow> url_char c" and "parse_host H = Some H"
    and "\<And>R. get_scheme (s @ ''://'' @ R) 0 (s @ ''://'' @ R) = Some (s, ''//'' @ R)"
    and "s = ''tcp'' \<or> s = ''udp''"
  shows "url_parse (s @ ''://'' @ H) = Some \<lparr>u_scheme = s, u_host = H\<rparr>"
proof -
  have no: "x \<notin> set H" if "\<not> url_char x" for x using that assms(1) by blast
  have scheme: "map to_lower s = s" "s \<noteq> []" "s \<noteq> ''*''" "CHR ''#'' \<notin> set s"
    "list_ex (\<lambda>c. code c < 32 \<or> code c = 127) s = False"
    using assms(4) by (auto simp: to_lower_def is_upper_def)
  have "CHR ''#'' \<notin> set (s @ ''://'' @ H)" using no [OF not_url_char(2)] scheme(4) by simp
  note whole = cut_absent [OF this]
  have "CHR ''?'' \<notin> set (''//'' @ H)" using no [OF not_url_char(3)] by simp
  note query = cut_absent [OF this]
  have ctl: "list_ex (\<lambda>c. code c < 32 \<or> code c = 127) (s @ ''://'' @ H) = False"
    using scheme(5) assms(1) url_char_host by (fastforce simp: list_ex_iff)
  have "url_parse_rest s (''//'' @ H) = Some \<lparr>u_scheme = s, u_host = H\<rparr>"
    using scheme(2) cut_absent [OF no [OF not_url_char(4)]] no [OF not_url_char(5)] assms(2)
    by (simp add: url_parse_rest_def parse_authority_def)
  then show ?thesis unfolding url_parse_def whole
    using ctl assms(3) [of H] scheme(1-3) query by (auto simp: Let_def)
qed

lemma digits_port: "CHR '':'' \<notin> set (dec p)" "CHR '']'' \<notin> set (dec p)" "list_all is_digit (dec p)"
  using dec_digits not_url_char(8,9) by (auto simp: list_all_iff)

text \<open>
  The text of an address with its port, after a scheme, is a URL whose parts are the scheme, the address without
  brackets and the port.
\<close>

lemma address_url:
  assumes ips: "list_all ip_char h"
  shows "s = ''tcp'' \<or> s = ''udp'' \<Longrightarrow>
      url_parse (s @ ''://'' @ join_host_port h (dec p)) = Some \<lparr>u_scheme = s, u_host = join_host_port h (dec p)\<rparr>"
    and "split_host_port (join_host_port h (dec p)) = (h, dec p)"
proof -
  let ?H = "join_host_port h (dec p)"
  from ips have ip: "ip_char c" if "c \<in> set h" for c using that by (simp add: list_all_iff)
  have digit: "ip_char c" if "is_digit c" for c using that by (simp add: ip_char_def)
  have chars: "url_char c" if "c \<in> set ?H" for c
    using that ip digit [OF dec_digits] by (auto simp: join_host_port_def url_char_def ip_char_def split: if_splits)
  have first: "CHR ''['' \<notin> set h" "CHR '']'' \<notin> set h" "CHR ''%'' \<notin> set h"
    using ip not_url_char(1,6,7) by (auto simp: url_char_def)
  have open_br: "\<not> prefix ''['' (h @ x)" if "\<not> prefix ''['' x" for x
    using first(1) that by (cases h) auto
  have last: "cut_last (CHR '':'') ?H = (if CHR '':'' \<in> set h then ''['' @ h @ '']'' else h, '':'' @ dec p)"
    using cut_last_at [OF digits_port(1), of "''['' @ h @ '']''"] cut_last_at [OF digits_port(1), of h] first(3)
    by (simp add: join_host_port_def)
  have bracket: "cut_last (CHR '']'') (''['' @ h @ '']:'' @ dec p) = (''['' @ h, '']:'' @ dec p)"
    using cut_last_at [of "CHR '']''" "'':'' @ dec p" "''['' @ h"] digits_port(2) by simp
  have "unescape_host False ?H = Some ?H" using chars by (rule unescape_url_chars)
  then have "parse_host ?H = Some ?H"
    using open_br [of "'':'' @ dec p"] last bracket first digits_port(3) cut_zone_plain [of "''['' @ h"]
    by (auto simp: parse_host_def join_host_port_def valid_optional_port_def simp del: unescape_host.simps cut_zone.simps)
  then show "s = ''tcp'' \<or> s = ''udp'' \<Longrightarrow> url_parse (s @ ''://'' @ ?H) = Some \<lparr>u_scheme = s, u_host = ?H\<rparr>"
    by (intro host_url_parse chars) (auto simp: is_lower_def is_upper_def is_digit_def)
  show "split_host_port ?H = (h, dec p)"
    using last open_br [of "''''"] digits_port(3)
    by (auto simp: split_host_port_def valid_optional_port_def suffix_def)
qed

section \<open>Matching\<close>

text \<open>A label of a name: letters, digits, hyphens and underscores. Between labels a pattern has a dot.\<close>

definition label_char :: "char \<Rightarrow> bool" where
  "label_char c \<longleftrightarrow> is_alnum c \<or> c = CHR ''-'' \<or> c = CHR ''_''"

definition rx_of :: "char \<Rightarrow> rx_item" where
  "rx_of c = (if c = CHR ''.'' then AnyChar else Ch c)"

lemma label_char_not:
  "label_char c \<Longrightarrow> c \<noteq> CHR ''*'' \<and> c \<noteq> CHR ''.'' \<and> c \<noteq> CHR ''['' \<and> code c \<noteq> 92 \<and> \<not> rx_meta c \<and> c \<noteq> CHR ''$''"
  by (auto simp: label_char_def rx_meta_def is_alnum_def is_digit_def is_lower_def is_upper_def)

lemma rx_parse_one:
  assumes "rx_item_of s = Compiled (x, r)" and "s \<noteq> ''$''" and "\<not> prefix ''*'' r"
  shows "rx_parse s = rx_bind (rx_parse r) (\<lambda>as. Compiled (One x # as))"
  using assms by (subst rx_parse.simps) (auto simp: rx_item_of_def)

lemma rx_parse_plain:
  assumes "list_all (\<lambda>c. label_char c \<or> c = CHR ''.'') s" and "\<not> prefix ''*'' r" and "rx_parse r = Compiled as"
  shows "rx_parse (s @ r) = Compiled (map (\<lambda>c. One (rx_of c)) s @ as)"
  using assms(1)
proof (induction s)
  case (Cons c s)
  then have "\<not> prefix ''*'' (s @ r)" using assms(2) label_char_not by (cases s) auto
  moreover have "rx_item_of (c # s @ r) = Compiled (rx_of c, s @ r)" "c # s @ r \<noteq> ''$''"
    using Cons.prems label_char_not [of c] by (auto simp: rx_item_of_def rx_of_def)
  ultimately have "rx_parse (c # s @ r) = rx_bind (rx_parse (s @ r)) (\<lambda>as. Compiled (One (rx_of c) # as))"
    by (intro rx_parse_one)
  with Cons show ?case by (simp add: rx_bind_def)
qed (simp add: assms(3))

text \<open>A text fits a plain pattern: equal but for the dots of the pattern.\<close>

definition fits :: "string \<Rightarrow> string \<Rightarrow> bool" where
  "fits p t \<longleftrightarrow> list_all2 (\<lambda>c d. rx_accepts (rx_of c) d) p t"

lemma rx_match_plain:
  "rx_match (map (\<lambda>c. One (rx_of c)) p @ as) t \<longleftrightarrow> (\<exists>u v. t = u @ v \<and> fits p u \<and> rx_match as v)"
proof (induction p arbitrary: t)
  case Nil
  then show ?case by (auto simp: fits_def)
next
  case (Cons c p)
  have "(\<exists>u v. t = u @ v \<and> fits (c # p) u \<and> rx_match as v) \<longleftrightarrow>
      (\<exists>d u v. t = d # u @ v \<and> rx_accepts (rx_of c) d \<and> fits p u \<and> rx_match as v)"
    unfolding fits_def list_all2_Cons1 by (metis append_Cons)
  with Cons show ?case by (auto split: list.split)
qed

lemma rx_search_iff: "rx_search as t \<longleftrightarrow> (\<exists>u v. t = u @ v \<and> rx_match as v)"
proof (induction t)
  case (Cons c t)
  then show ?case by (auto simp: Cons_eq_append_conv)
qed simp

text \<open>A star at the start of a pattern that may match anywhere changes nothing.\<close>

lemma rx_many_front: "rx_match (Many x # as) t \<Longrightarrow> \<exists>u v. t = u @ v \<and> rx_match as v"
proof (induction t)
  case (Cons c t)
  then show ?case by (metis append_Cons append_Nil list.case(2) rx_match.simps(4))
qed simp

lemma rx_search_many: "rx_search (Many x # as) t \<longleftrightarrow> rx_search as t"
  unfolding rx_search_iff using rx_many_front by (metis append.assoc rx_match.simps(4))

end
