(* ===== verification/Go_Addr.thy ===== *)
theory Go_Addr
  imports Go_Std Go_Tcp
begin

text \<open>
  The addresses of a connection of \<open>lwipcs.go\<close> as text, and that they can be read.
\<close>

text \<open>\<open>LocalAddr\<close> and \<open>RemoteAddr\<close> of a \<open>PCB\<close> as text.\<close>

definition pcb_LocalAddr :: "'x go_state_scheme go_cs \<Rightarrow> nat \<Rightarrow> ('x go_state_scheme world, string) prog" where
  "pcb_LocalAddr G i = bnd (in_go (go_deref go_pcbs i)) (\<lambda>p.
     bnd (go_ip_bytes G (gp_localIP p)) (\<lambda>ip. ret (addr_text ip (gp_localPort p))))"

definition pcb_RemoteAddr :: "'x go_state_scheme go_cs \<Rightarrow> nat \<Rightarrow> ('x go_state_scheme world, string) prog" where
  "pcb_RemoteAddr G i = bnd (in_go (go_deref go_pcbs i)) (\<lambda>p.
     bnd (go_ip_bytes G (gp_remoteIP p)) (\<lambda>ip. ret (addr_text ip (gp_remotePort p))))"

text \<open>The addresses of a connection can be read. They can through the functions the bridge installs.\<close>

definition addresses :: "'x go_cs \<Rightarrow> bool" where
  "addresses G \<longleftrightarrow> (\<forall>a w. \<exists>ip. go_ip_bytes G a w = Some (Ok (ip, w)) \<and> (length ip = 4 \<or> length ip = 16))"

lemma go_of_addresses: "addresses (go_of P T U N sg C inp outp ba ni)"
  unfolding addresses_def
proof (intro allI)
  fix a w
  obtain bs where bs: "\<And>buf. cs_ip_get sg N a buf = store_chars bs buf" "length bs = nat (cs_ip_len a)"
    using cs_ip_get_stores by blast
  then show "\<exists>ip. go_ip_bytes (go_of P T U N sg C inp outp ba ni) a w = Some (Ok (ip, w)) \<and> (length ip = 4 \<or> length ip = 16)"
    by (auto simp: go_ip_bytes_def go_cs_ip_get_def go_cs_init_def go_back_def store_chars_def go_cs_ip_len_def cs_ip_len_def)
qed

lemma pcb_addrs:
  assumes "addresses G" and "go_pcbs (app w) i = Some p"
  shows "\<exists>a. pcb_RemoteAddr G i w = Some (Ok (a, w))" and "\<exists>a. pcb_LocalAddr G i w = Some (Ok (a, w))"
    and "go_ip_bytes G (gp_localIP p) w = Some (Ok (ip, w)) \<Longrightarrow> pcb_LocalAddr G i w = Some (Ok (addr_text ip (gp_localPort p), w))"
proof -
  from assms(1) obtain ip rip where "go_ip_bytes G (gp_localIP p) w = Some (Ok (ip, w))" "go_ip_bytes G (gp_remoteIP p) w = Some (Ok (rip, w))"
    unfolding addresses_def by meson
  with assms(2) show "\<exists>a. pcb_RemoteAddr G i w = Some (Ok (a, w))" "\<exists>a. pcb_LocalAddr G i w = Some (Ok (a, w))"
    by (simp_all add: pcb_RemoteAddr_def pcb_LocalAddr_def run_simps)
  show "pcb_LocalAddr G i w = Some (Ok (addr_text ip (gp_localPort p), w))" if "go_ip_bytes G (gp_localIP p) w = Some (Ok (ip, w))" for ip
    using assms(2) that by (simp add: pcb_LocalAddr_def run_simps)
qed

end
