(* ===== verification/Go_Echo.thy ===== *)
theory Go_Echo
  imports Go_Write Go_Addr
begin

text \<open>
  The echo program in Go, \<open>echo/echo.go\<close>: a goroutine for every accepted connection that copies what it reads back with
  \<open>io.Copy\<close>, and its runs together with the bridge.
\<close>

section \<open>io.Copy\<close>

text \<open>
  A goroutine in \<open>io.Copy(pcb, pcb)\<close>, between two waits: before its first step, with its buffer (an array) at a point of a
  round, or at the end with the error. The points are those of \<open>Read\<close> and \<open>Write\<close>; the number is \<open>nr\<close>.
\<close>

datatype copy_point = AtRead | AtTake | AtAck nat | AtCheck nat | AtLock nat | AtQueue nat | AtWait nat | AtUnlock nat

datatype copier = CopyStart | Copying nat copy_point | CopyDone "string option"

text \<open>The memory: the goroutines, by connection. The fields of \<open>Echo\<close> are never used.\<close>

record echo = go_state +
  copiers :: "nat \<rightharpoonup> copier"

definition set_copier :: "nat \<Rightarrow> copier \<Rightarrow> ('x echo_scheme, unit) prog" where
  "set_copier i c = modify (\<lambda>g. g\<lparr>copiers := (copiers g)(i \<mapsto> c)\<rparr>)"

text \<open>\<open>copy\<close> into the buffer.\<close>

definition fill_buffer :: "nat \<Rightarrow> u8 list \<Rightarrow> ('a go_state_scheme, unit) prog" where
  "fill_buffer r d = bnd (go_deref go_arrays r) (\<lambda>a. modify (\<lambda>g. g\<lparr>go_arrays := (go_arrays g)(r \<mapsto> d @ drop (length d) a)\<rparr>))"

text \<open>What follows a \<open>Write\<close> of \<open>nr\<close> bytes that returned \<open>nw\<close> and \<open>ew\<close>. The \<open>Read\<close> before it had no error, since it had bytes.\<close>

definition copy_wrote :: "nat \<Rightarrow> nat \<Rightarrow> int \<times> string option \<Rightarrow> copier" where
  "copy_wrote r nr x = (case x of (nw, ew) \<Rightarrow>
     let bad = nw < 0 \<or> int nr < nw;
         nw' = (if bad then 0 else nw);
         ew' = (if bad \<and> ew = None then Some ''invalid write result'' else ew)
     in if ew' \<noteq> None then CopyDone ew'
        else if int nr \<noteq> nw' then CopyDone (Some ''short write'')
        else Copying r AtRead)"

fun copy_round :: "nat \<Rightarrow> nat \<Rightarrow> copy_point \<Rightarrow> ('x echo_scheme, copier) prog" where
  "copy_round i r AtRead = bnd (pcb_Read_check i) (\<lambda>er. ret (if er \<noteq> None then CopyDone er else Copying r AtTake))"
| "copy_round i r AtTake = bnd (pcb_Read_take i 32768) (\<lambda>(d, er).
     if d = [] then ret (if er \<noteq> None then CopyDone er else Copying r AtRead)
     else seq (fill_buffer r d) (ret (Copying r (AtAck (length d)))))"
| "copy_round i r (AtAck nr) = seq (pcb_Read_ack i (int nr)) (ret (Copying r (AtCheck nr)))"
| "copy_round i r (AtCheck nr) = bnd (pcb_Write_check i (Slice r 0 nr)) (\<lambda>x. ret (case x of
       Some y \<Rightarrow> copy_wrote r nr y
     | None \<Rightarrow> Copying r (AtLock nr)))"
| "copy_round i r (AtLock nr) = seq (pcb_Write_lock i) (ret (Copying r (AtQueue nr)))"
| "copy_round i r (AtQueue nr) = seq (pcb_Write_queue i (Slice r 0 nr)) (ret (Copying r (AtWait nr)))"
| "copy_round i r (AtWait nr) = seq (pcb_Write_wait i) (ret (Copying r (AtUnlock nr)))"
| "copy_round i r (AtUnlock nr) = bnd (pcb_Write_end i (Slice r 0 nr)) (\<lambda>y. ret (copy_wrote r nr y))"

text \<open>One step of the goroutine of a connection. The first makes the buffer; there is none after the end.\<close>

definition copy_step :: "nat \<Rightarrow> ('x echo_scheme, unit) prog" where
  "copy_step i = bnd (go_deref copiers i) (\<lambda>c. case c of
       CopyStart \<Rightarrow> modify (\<lambda>g. g\<lparr>go_next := go_next g + 1, go_arrays := (go_arrays g)(go_next g \<mapsto> replicate 32768 0),
         copiers := (copiers g)(i \<mapsto> Copying (go_next g) AtRead)\<rparr>)
     | Copying r x \<Rightarrow> bnd (copy_round i r x) (set_copier i)
     | CopyDone e \<Rightarrow> (\<lambda>_. None))"

section \<open>The handler\<close>

text \<open>What is printed is left out, except for what it computes.\<close>

definition Echo_OnAccept :: "'x echo_scheme go_cs \<Rightarrow> nat \<Rightarrow> ('x echo_scheme world, unit) prog" where
  "Echo_OnAccept G i =
     seq (ignore (pcb_RemoteAddr G i))
    (seq (ignore (pcb_LocalAddr G i))
    (in_go (set_copier i CopyStart)))"

definition Echo_OnClose :: "'x echo_scheme go_cs \<Rightarrow> nat \<Rightarrow> ('x echo_scheme world, unit) prog" where
  "Echo_OnClose G i = ignore (pcb_RemoteAddr G i)"

definition Echo :: "'x echo_scheme go_cs \<Rightarrow> 'x echo_ext go_handler" where
  "Echo G = \<lparr>on_accept = Echo_OnAccept G, on_close = Echo_OnClose G\<rparr>"

lemma Echo_runs:
  assumes "addresses G" and "go_pcbs (app w) i \<noteq> None"
  shows "Echo_OnAccept G i w = Some (Ok ((), w\<lparr>app := (app w)\<lparr>copiers := (copiers (app w))(i \<mapsto> CopyStart)\<rparr>\<rparr>))"
    and "Echo_OnClose G i w = Some (Ok ((), w))"
proof -
  from assms(2) obtain p where p: "go_pcbs (app w) i = Some p" by auto
  from pcb_addrs(1,2) [OF assms(1) p] obtain ra la where
    "pcb_RemoteAddr G i w = Some (Ok (ra, w))" "pcb_LocalAddr G i w = Some (Ok (la, w))" by blast
  then show "Echo_OnAccept G i w = Some (Ok ((), w\<lparr>app := (app w)\<lparr>copiers := (copiers (app w))(i \<mapsto> CopyStart)\<rparr>\<rparr>))"
    "Echo_OnClose G i w = Some (Ok ((), w))"
    by (simp_all add: Echo_OnAccept_def Echo_OnClose_def set_copier_def run_simps)
qed

lemma copiers_beside [simp]: "beside g (g\<lparr>copiers := x\<rparr>)"
  by (rule besideI) simp_all

lemma Echo_calm: "addresses G \<Longrightarrow> calm (Some (Echo G))"
  by (auto simp: calm_def Echo_def quiet_def Echo_runs)

section \<open>Runs\<close>

text \<open>
  The stack, the loops and the goroutines in any order, with what has been received on each TCP connection and what has been
  handed to the stack for it, from the beginning. Nothing in the program closes a connection, so what goroutines do between the two parts of
  a handler for received data makes no difference, and they are one step here.
\<close>

inductive echo_run ::
  "'x echo_scheme go_cs \<Rightarrow> (u8 list \<Rightarrow> int \<Rightarrow> string) \<Rightarrow> 'x echo_scheme world \<Rightarrow> (nat \<Rightarrow> u8 list) \<Rightarrow> (nat \<Rightarrow> u8 list) \<Rightarrow> bool"
  for G addr_string where
  start: "starts (app w) \<Longrightarrow> go_arrays (app w) = Map.empty \<Longrightarrow> copiers (app w) = Map.empty \<Longrightarrow> echo_run G addr_string w (\<lambda>_. []) (\<lambda>_. [])"
| stack: "echo_run G addr_string w rx tx \<Longrightarrow> app w' = app w \<Longrightarrow> echo_run G addr_string w' rx tx"
| accept: "echo_run G addr_string w rx tx \<Longrightarrow> go_accept (Some (Echo G)) arg newpcb state w = Some (Ok (r, w')) \<Longrightarrow>
    echo_run G addr_string w' rx tx"
| refused: "echo_run G addr_string w rx tx \<Longrightarrow> go_recv_data G tpcb state buf w = Some (Ok (None, w')) \<Longrightarrow> echo_run G addr_string w' rx tx"
| recv: "echo_run G addr_string w rx tx \<Longrightarrow> go_recv_data G tpcb state buf w = Some (Ok (Some (q, data), w1)) \<Longrightarrow>
    in_go (on_chan q (chan_send data)) w1 = Some (Ok ((), w')) \<Longrightarrow> tcpPcbs (app w) state = Some i \<Longrightarrow>
    echo_run G addr_string w' (rx(i := rx i @ data)) tx"
| send_done: "echo_run G addr_string w rx tx \<Longrightarrow> go_send_done arg tpcb state w = Some (Ok (r, w')) \<Longrightarrow> echo_run G addr_string w' rx tx"
| peer_close: "echo_run G addr_string w rx tx \<Longrightarrow> go_close (Some (Echo G)) arg tpcb state w = Some (Ok (r, w')) \<Longrightarrow>
    echo_run G addr_string w' rx tx"
| udp: "echo_run G addr_string w rx tx \<Longrightarrow> go_udp_recv G addr_string (Some (Echo G)) arg upcb ip port buf w = Some (Ok (r, w')) \<Longrightarrow>
    echo_run G addr_string w' rx tx"
| input: "echo_run G addr_string w rx tx \<Longrightarrow> go_input G arg netif w = Some (Ok (pl, w')) \<Longrightarrow> echo_run G addr_string w' rx tx"
| take_recved: "echo_run G addr_string w rx tx \<Longrightarrow>
    in_go (zoom recvedQueue (\<lambda>c g. g\<lparr>recvedQueue := c\<rparr>) chan_recv) w = Some (Ok (x, w')) \<Longrightarrow> echo_run G addr_string w' rx tx"
| take_input: "echo_run G addr_string w rx tx \<Longrightarrow>
    in_go (zoom inputQueue (\<lambda>c g. g\<lparr>inputQueue := c\<rparr>) chan_recv) w = Some (Ok (d, w')) \<Longrightarrow> echo_run G addr_string w' rx tx"
| pass_input: "echo_run G addr_string w rx tx \<Longrightarrow>
    in_go (zoom inputQueue2 (\<lambda>c g. g\<lparr>inputQueue2 := c\<rparr>) (chan_send f)) w = Some (Ok ((), w')) \<Longrightarrow> echo_run G addr_string w' rx tx"
| put_input: "echo_run G addr_string w rx tx \<Longrightarrow>
    in_go (zoom inputQueue (\<lambda>c g. g\<lparr>inputQueue := c\<rparr>) (chan_send f)) w = Some (Ok ((), w')) \<Longrightarrow> echo_run G addr_string w' rx tx"
| send: "echo_run G addr_string w rx tx \<Longrightarrow> in_go take_request w = Some (Ok (e, w')) \<Longrightarrow>
    echo_run G addr_string w' rx (case e of None \<Rightarrow> tx | Some (i, data) \<Rightarrow> tx(i := tx i @ data))"
| goroutine: "echo_run G addr_string w rx tx \<Longrightarrow> in_go (copy_step i) w = Some (Ok ((), w')) \<Longrightarrow> echo_run G addr_string w' rx tx"

end
