(* ===== verification/Go_Echo_Run.thy ===== *)
theory Go_Echo_Run
  imports Go_Echo
begin

text \<open>
  The invariant of the runs of the echo program, step by step, and that the program gives back what it gets. The \<open>Write\<close> of a
  goroutine is where its point in \<open>io.Copy\<close> says, so the protocol of \<open>Go_Write\<close> applies.
\<close>

section \<open>The invariant\<close>

text \<open>Where the \<open>Write\<close> of a goroutine is, the bytes a goroutine has read and not yet handed on, and those not yet read.\<close>

definition bytes_in :: "'a go_state_scheme \<Rightarrow> nat \<Rightarrow> nat \<Rightarrow> u8 list" where
  "bytes_in g r n = take n (the (go_arrays g r))"

fun phase_at :: "'a go_state_scheme \<Rightarrow> copier option \<Rightarrow> wphase" where
  "phase_at g (Some (Copying r (AtQueue n))) = WLocked (Slice r 0 n) (bytes_in g r n)"
| "phase_at g (Some (Copying r (AtWait n))) = WWaiting (Slice r 0 n) (bytes_in g r n)"
| "phase_at g (Some (Copying r (AtUnlock n))) = WNotified"
| "phase_at g _ = WIdle"

definition phase_of :: "'x echo_scheme \<Rightarrow> nat \<Rightarrow> wphase" where
  "phase_of g i = (case go_pcbs g i of
       None \<Rightarrow> WIdle
     | Some p \<Rightarrow> if gp_type p = TCP then phase_at g (copiers g i) else WIdle)"

fun held_at :: "'a go_state_scheme \<Rightarrow> slice list \<Rightarrow> copier option \<Rightarrow> u8 list" where
  "held_at g rs (Some (Copying r (AtAck n))) = bytes_in g r n"
| "held_at g rs (Some (Copying r (AtCheck n))) = bytes_in g r n"
| "held_at g rs (Some (Copying r (AtLock n))) = bytes_in g r n"
| "held_at g rs (Some (Copying r (AtQueue n))) = bytes_in g r n"
| "held_at g rs (Some (Copying r (AtWait n))) = (if rs = [] then [] else bytes_in g r n)"
| "held_at g rs _ = []"

definition held :: "'x echo_scheme \<Rightarrow> nat \<Rightarrow> u8 list" where
  "held g i = held_at g (requests g i) (copiers g i)"

definition unread :: "'a go_state_scheme \<Rightarrow> go_pcb \<Rightarrow> u8 list" where
  "unread g p = concat (ch_buf (the (go_chans g (gp_recvQueued p))))"

text \<open>The buffers: one for each goroutine, large enough for what is said to be in it.\<close>

fun point_size :: "copy_point \<Rightarrow> nat option" where
  "point_size AtRead = None"
| "point_size AtTake = None"
| "point_size (AtAck n) = Some n"
| "point_size (AtCheck n) = Some n"
| "point_size (AtLock n) = Some n"
| "point_size (AtQueue n) = Some n"
| "point_size (AtWait n) = Some n"
| "point_size (AtUnlock n) = Some n"

definition sized :: "copy_point \<Rightarrow> bool" where
  "sized x \<longleftrightarrow> (case point_size x of None \<Rightarrow> True | Some n \<Rightarrow> 0 < n \<and> n \<le> 32768)"

definition buf_inv :: "'x echo_scheme \<Rightarrow> bool" where
  "buf_inv g \<longleftrightarrow> dom (copiers g) \<subseteq> dom (go_pcbs g) \<and> dom (go_arrays g) \<subseteq> {..<go_next g} \<and>
     (\<forall>i r x. copiers g i = Some (Copying r x) \<longrightarrow> sized x \<and> (\<exists>a. go_arrays g r = Some a \<and> length a = 32768)) \<and>
     (\<forall>i j r x y. copiers g i = Some (Copying r x) \<longrightarrow> copiers g j = Some (Copying r y) \<longrightarrow> i = j)"

definition log_ok :: "'x echo_scheme \<Rightarrow> u8 list \<Rightarrow> u8 list \<Rightarrow> nat \<Rightarrow> bool" where
  "log_ok g rx tx i \<longleftrightarrow> (case go_pcbs g i of
       None \<Rightarrow> rx = [] \<and> tx = []
     | Some p \<Rightarrow> gp_type p = TCP \<longrightarrow> prefix tx rx \<and> (gp_err p = None \<longrightarrow> rx = tx @ held g i @ unread g p))"

definition echo_inv :: "'x echo_scheme \<Rightarrow> (nat \<Rightarrow> u8 list) \<Rightarrow> (nat \<Rightarrow> u8 list) \<Rightarrow> bool" where
  "echo_inv g rx tx \<longleftrightarrow> run_inv g (phase_of g) \<and> buf_inv g \<and> (\<forall>i. log_ok g (rx i) (tx i) i)"

lemma buf_invD:
  assumes "buf_inv g"
  shows "copiers g i = Some c \<Longrightarrow> \<exists>p. go_pcbs g i = Some p"
    and "go_arrays g r = Some a \<Longrightarrow> r < go_next g"
    and "copiers g i = Some (Copying r x) \<Longrightarrow> sized x"
    and "copiers g i = Some (Copying r x) \<Longrightarrow> \<exists>a. go_arrays g r = Some a \<and> length a = 32768"
    and "copiers g i = Some (Copying r x) \<Longrightarrow> copiers g j = Some (Copying r y) \<Longrightarrow> i = j"
proof -
  note b = assms [unfolded buf_inv_def]
  show "\<exists>p. go_pcbs g i = Some p" if "copiers g i = Some c" using b domI [of "copiers g", OF that] by auto
  show "r < go_next g" if "go_arrays g r = Some a" using b domI [of "go_arrays g", OF that] by auto
  show "sized x" "\<exists>a. go_arrays g r = Some a \<and> length a = 32768" if "copiers g i = Some (Copying r x)" using b that by blast+
  show "i = j" if "copiers g i = Some (Copying r x)" "copiers g j = Some (Copying r y)" using b that by blast
qed

lemma echo_invD:
  assumes "echo_inv g rx tx"
  shows "run_inv g (phase_of g)" and "buf_inv g" and "log_ok g (rx i) (tx i) i" and "go_wf g"
  using assms run_invD(1) by (auto simp: echo_inv_def)

lemma run_inv_own: "run_inv g ph \<Longrightarrow> beside g g' \<Longrightarrow> run_inv g' ph"
  by (rule side_run [of _ _ "\<lambda>_. Some (Ok ((), g'))"]) (auto intro: side_op.own)

lemma phase_of_cong:
  assumes "\<And>i. map_option gp_type (go_pcbs g' i) = map_option gp_type (go_pcbs g i)"
    and "copiers g' = copiers g" and "go_arrays g' = go_arrays g"
  shows "phase_of g' = phase_of g"
proof
  fix i
  have "phase_at g' c = phase_at g c" for c
    by (cases "(g, c)" rule: phase_at.cases) (simp_all add: bytes_in_def assms(3))
  with assms(1) [of i] assms(2) show "phase_of g' i = phase_of g i"
    by (auto simp: phase_of_def split: option.splits)
qed

lemma held_cong: "requests g' i = requests g i \<Longrightarrow> copiers g' i = copiers g i \<Longrightarrow> go_arrays g' = go_arrays g \<Longrightarrow> held g' i = held g i"
  unfolding held_def by (cases "(g, requests g i, copiers g i)" rule: held_at.cases) (simp_all add: bytes_in_def)

text \<open>A step that concerns no connection's logs.\<close>

definition view :: "go_pcb \<Rightarrow> ptype \<times> string option \<times> nat" where
  "view p = (gp_type p, gp_err p, gp_recvQueued p)"

lemma log_ok_frame:
  assumes "log_ok g rx tx i" and "map_option view (go_pcbs g' i) = map_option view (go_pcbs g i)" and "held g' i = held g i"
    and "\<And>p. go_pcbs g i = Some p \<Longrightarrow> go_chans g' (gp_recvQueued p) = go_chans g (gp_recvQueued p)"
  shows "log_ok g' rx tx i"
  using assms by (auto simp: log_ok_def view_def unread_def split: option.splits)

lemma echo_inv_frame:
  assumes inv: "echo_inv g rx tx" and run: "run_inv g' (phase_of g)"
    and pcbs: "\<And>i. map_option view (go_pcbs g' i) = map_option view (go_pcbs g i)"
    and eq: "copiers g' = copiers g" "go_arrays g' = go_arrays g" "sendQueue g' = sendQueue g" "go_chans g' = go_chans g"
    and le: "go_next g \<le> go_next g'"
  shows "echo_inv g' rx tx"
proof -
  have "map_option gp_type (go_pcbs g' i) = map_option gp_type (go_pcbs g i)" for i
    using pcbs [of i] by (auto simp: view_def map_option_case split: option.splits)
  from phase_of_cong [OF this eq(1,2)] run have "run_inv g' (phase_of g')" by simp
  moreover have none: "go_pcbs g' i = None \<longleftrightarrow> go_pcbs g i = None" for i
    using pcbs [of i] by (cases "go_pcbs g i"; cases "go_pcbs g' i") simp_all
  have "dom (go_pcbs g') = dom (go_pcbs g)" by (simp add: dom_def none)
  then have "buf_inv g'" using echo_invD(2) [OF inv] le by (force simp: buf_inv_def eq)
  moreover have "log_ok g' (rx i) (tx i) i" for i
    by (rule log_ok_frame [OF echo_invD(3) [OF inv] pcbs held_cong]) (simp_all add: requests_def eq)
  ultimately show ?thesis by (simp add: echo_inv_def)
qed

section \<open>The steps of the bridge\<close>

lemma no_pcb: "go_wf g \<Longrightarrow> go_pcbs g (go_next g) = None"
  using go_wfD(1) [of g "go_next g"] by (cases "go_pcbs g (go_next g)") (auto simp: pcb_wf_def)

lemma echo_new:
  assumes inv: "echo_inv g rx tx" and new: "newPCB t arg pcb s la ra lp rp g = Some (Ok (i, g1))"
    and g': "g' = g1\<lparr>tcpPcbs := tm, udpPcbs := um, copiers := (copiers g1)(i \<mapsto> CopyStart)\<rparr>" and run: "run_inv g' (phase_of g)"
  shows "echo_inv g' rx tx \<and> phase_of g' = phase_of g"
proof -
  define p where "p = the (go_pcbs g1 i)"
  from new have i: "i = go_next g" and p: "gp_recvQueued p = i + 1" "gp_type p = t"
    and f: "go_pcbs g' = (go_pcbs g)(i \<mapsto> p)" "go_chans g' = (go_chans g)(i + 1 \<mapsto> make_chan 1024)" "go_next g' = i + 2"
      "go_arrays g' = go_arrays g" "sendQueue g' = sendQueue g" "copiers g' = (copiers g)(i \<mapsto> CopyStart)"
    by (auto simp: newPCB_def Let_def g' p_def)
  have old: "go_pcbs g i = None" using no_pcb [OF echo_invD(4) [OF inv]] i by simp
  with buf_invD(1) [OF echo_invD(2) [OF inv], of i] have idle: "copiers g i = None" by (cases "copiers g i") auto
  have "phase_at g' c = phase_at g c" for c
    by (cases "(g, c)" rule: phase_at.cases) (simp_all add: bytes_in_def f)
  then have ph: "phase_of g' = phase_of g" by (auto simp: fun_eq_iff phase_of_def f old idle split: option.split)
  with run have "run_inv g' (phase_of g')" by simp
  moreover have "buf_inv g'" using echo_invD(2) [OF inv] i by (fastforce simp: buf_inv_def f)
  moreover have "log_ok g' (rx j) (tx j) j" for j
  proof (cases "j = i")
    case True
    with echo_invD(3) [OF inv, of i] old show ?thesis by (auto simp: log_ok_def f p held_def unread_def make_chan_def)
  next
    case False
    have "gp_recvQueued q < i" if "go_pcbs g j = Some q" for q
      using go_wfD(1) [OF echo_invD(4) [OF inv] that] i by (simp add: pcb_wf_def)
    then show ?thesis using False
      by (intro log_ok_frame [OF echo_invD(3) [OF inv] _ held_cong]) (fastforce simp: f requests_def)+
  qed
  ultimately show ?thesis using ph by (simp add: echo_inv_def)
qed

text \<open>A change of the buffer of one receive queue.\<close>

lemma echo_queue:
  assumes inv: "echo_inv g rx tx" and p: "go_pcbs g i = Some p"
    and run: "run_inv (g\<lparr>go_chans := (go_chans g)(gp_recvQueued p \<mapsto> c')\<rparr>) (phase_of g)"
    and log: "log_ok (g\<lparr>go_chans := (go_chans g)(gp_recvQueued p \<mapsto> c')\<rparr>) (rx' i) (tx i) i" and rx: "\<And>j. j \<noteq> i \<Longrightarrow> rx' j = rx j"
  shows "echo_inv (g\<lparr>go_chans := (go_chans g)(gp_recvQueued p \<mapsto> c')\<rparr>) rx' tx"
proof -
  let ?g = "g\<lparr>go_chans := (go_chans g)(gp_recvQueued p \<mapsto> c')\<rparr>"
  have "phase_of ?g = phase_of g" by (rule phase_of_cong) simp_all
  moreover have "buf_inv ?g" using echo_invD(2) [OF inv] by (simp add: buf_inv_def)
  moreover have "log_ok ?g (rx' j) (tx j) j" for j
  proof (cases "j = i")
    case False
    then have "gp_recvQueued q \<noteq> gp_recvQueued p" if "go_pcbs g j = Some q" for q
      using go_wfD(2) [OF echo_invD(4) [OF inv] that p] by simp
    then show ?thesis using rx [OF False]
      by (simp, intro log_ok_frame [OF echo_invD(3) [OF inv] _ held_cong]) (simp_all add: requests_def)
  qed (use log in simp)
  ultimately show ?thesis using run by (simp add: echo_inv_def)
qed

lemma echo_accept:
  assumes G: "polite G" "addresses G" and inv: "echo_inv (app w) rx tx"
    and step: "go_accept (Some (Echo G)) arg newpcb state w = Some (Ok (r, w'))"
  shows "echo_inv (app w') rx tx"
proof -
  from handler_run [OF G(1) Echo_calm [OF G(2)] echo_invD(1) [OF inv] handler_step.accept [OF step]]
  have run: "run_inv (app w') (phase_of (app w))" .
  from step show ?thesis
  proof (cases rule: bridge_accept_run)
    case 1
    with inv show ?thesis by simp
  next
    case (2 la ra lp rp i g)
    from 2(2,3) Echo_runs(1) [OF G(2), of "w\<lparr>app := g\<lparr>tcpPcbs := (tcpPcbs g)(state \<mapsto> i)\<rparr>\<rparr>" i]
    have "app w' = g\<lparr>tcpPcbs := (tcpPcbs g)(state \<mapsto> i), udpPcbs := udpPcbs g, copiers := (copiers g)(i \<mapsto> CopyStart)\<rparr>"
      by (auto simp: notify_def Echo_def)
    from echo_new [OF inv 2(1) this run] show ?thesis by simp
  qed
qed

lemma recv_data_shape:
  assumes "polite G" and "go_recv_data G tpcb state buf w = Some (Ok (Some (q, data), w1))" and "tcpPcbs (app w) state = Some i"
  obtains p where "go_pcbs (app w) i = Some p" and "gp_err p = None" and "q = gp_recvQueued p" and "app w1 = app w"
proof -
  from assms(2,3) obtain p where p: "go_pcbs (app w) i = Some p" "gp_err p = None" "q = gp_recvQueued p"
    and copy: "go_copy G buf w = Some (Ok (data, w1))"
    by (auto simp: go_recv_data_def ok_simps split: if_splits option.splits)
  from that [OF p copy_app [OF assms(1) copy]] show ?thesis .
qed

lemma echo_got:
  assumes "polite G" and "addresses G" and inv: "echo_inv (app w) rx tx"
    and get: "go_recv_data G tpcb state buf w = Some (Ok (Some (q, data), w1))"
    and put: "in_go (on_chan q (chan_send data)) w1 = Some (Ok ((), w'))" and i: "tcpPcbs (app w) state = Some i"
  shows "echo_inv (app w') (rx(i := rx i @ data)) tx"
proof -
  from assms(1) get i obtain p where p: "go_pcbs (app w) i = Some p" "gp_err p = None" "q = gp_recvQueued p" and same: "app w1 = app w"
    by (rule recv_data_shape)
  from put same p(3) obtain c c' where c: "go_chans (app w) (gp_recvQueued p) = Some c" "chan_send data c = Some (Ok ((), c'))"
    and w': "app w' = (app w)\<lparr>go_chans := (go_chans (app w))(gp_recvQueued p \<mapsto> c')\<rparr>"
    by (auto simp: ok_simps)
  from put same p(3) have "on_chan (gp_recvQueued p) (chan_send data) (app w) = Some (Ok ((), app w'))" by (auto simp: ok_simps)
  from side_run [OF echo_invD(1) [OF inv] side_op.deliver [OF p(1)] this] have run: "run_inv (app w') (phase_of (app w))" .
  from c(2) have buf: "ch_buf c' = ch_buf c @ [data]" by (auto simp: chan_send_def split: if_splits)
  have "held (app w') i = held (app w) i" by (rule held_cong) (simp_all add: w' requests_def)
  with echo_invD(3) [OF inv, of i] p(1,2) c(1) buf have "log_ok (app w') ((rx(i := rx i @ data)) i) (tx i) i"
    by (auto simp: log_ok_def w' unread_def)
  then show ?thesis using run unfolding w' by (intro echo_queue [OF inv p(1)]) simp_all
qed

lemma echo_close:
  assumes inv: "echo_inv g rx tx" and "pcb_close i g = Some (Ok (e, g'))" and copiers: "copiers g' = copiers g" and run: "run_inv g' (phase_of g)"
  shows "echo_inv g' rx tx"
  using echo_invD(4) [OF inv] assms(2)
proof (cases rule: close_cases)
  case (1 p err)
  then show ?thesis using run by (intro echo_inv_frame [OF inv run]) (simp_all add: view_def)
next
  case (2 p c)
  have "phase_of g' = phase_of g" by (rule phase_of_cong) (simp_all add: 2 closed_pcb_def)
  with run have "run_inv g' (phase_of g')" by simp
  moreover have "buf_inv g'" using echo_invD(2) [OF inv] by (auto simp: buf_inv_def 2(7))
  moreover have "log_ok g' (rx j) (tx j) j" for j
  proof (cases "j = i")
    case True
    with echo_invD(3) [OF inv, of i] 2(1,7) show ?thesis by (simp add: log_ok_def closed_pcb_def)
  next
    case False
    then have "gp_recvQueued q \<noteq> gp_recvQueued p" if "go_pcbs g j = Some q" for q
      using go_wfD(2) [OF echo_invD(4) [OF inv] that 2(1)] by simp
    with False show ?thesis
      by (intro log_ok_frame [OF echo_invD(3) [OF inv] _ held_cong]) (simp_all add: 2(7) requests_def)
  qed
  ultimately show ?thesis by (simp add: echo_inv_def)
qed

lemma close_copiers: "go_wf g \<Longrightarrow> pcb_close i g = Some (Ok (e, g')) \<Longrightarrow> copiers g' = copiers g"
  by (erule (1) close_cases) auto

lemma echo_peer_close:
  assumes G: "polite G" "addresses G" and inv: "echo_inv (app w) rx tx"
    and step: "go_close (Some (Echo G)) arg tpcb state w = Some (Ok (r, w'))"
  shows "echo_inv (app w') rx tx"
proof -
  from handler_run [OF G(1) Echo_calm [OF G(2)] echo_invD(1) [OF inv] handler_step.peer_close [OF step]]
  have run: "run_inv (app w') (phase_of (app w))" .
  from echo_invD(4) [OF inv] step show ?thesis
  proof (cases rule: peer_close_run)
    case 1
    with inv show ?thesis by simp
  next
    case (2 i e g)
    let ?g = "(app w)\<lparr>tcpPcbs := (tcpPcbs (app w))(state := None)\<rparr>"
    have wf: "go_wf ?g" by (rule wf_forget(1) [OF echo_invD(4) [OF inv]])
    have w': "app w' = g" using Echo_runs(2) [OF G(2), of "w\<lparr>app := g\<rparr>" i] 2(2,3) by (auto simp: notify_def Echo_def)
    have ph: "phase_of ?g = phase_of (app w)" by (rule phase_of_cong) simp_all
    have "run_inv ?g (phase_of (app w))"
      by (rule side_run [OF echo_invD(1) [OF inv] side_op.forget_tcp [of _ state]]) (simp add: run_simps)
    then have "echo_inv ?g rx tx" by (rule echo_inv_frame [OF inv]) simp_all
    from echo_close [OF this 2(1) close_copiers [OF wf 2(1)]] run ph show ?thesis by (simp add: w')
  qed
qed

lemma run_new_udp:
  assumes inv: "run_inv g ph" and new: "newPCB UDP arg pcb s la ra lp rp g = Some (Ok (i, g'))"
  shows "run_inv (g'\<lparr>udpPcbs := (udpPcbs g')(k \<mapsto> i)\<rparr>) ph"
proof (rule run_invI)
  show "go_wf (g'\<lparr>udpPcbs := (udpPcbs g')(k \<mapsto> i)\<rparr>)" using new_registries [OF new]
    by (intro wf_new [OF run_invD(1) [OF inv] new, where tm = "tcpPcbs g'" and um = "(udpPcbs g')(k \<mapsto> i)"]) auto
  show "write_inv (g'\<lparr>udpPcbs := (udpPcbs g')(k \<mapsto> i)\<rparr>) ph"
    by (rule write_inv_same [OF new_write_inv [OF run_invD(1,2) [OF inv] new]]) simp_all
qed (use run_invD(3) [OF inv] new_arrays [OF new] in auto)

lemma echo_udp:
  assumes G: "polite G" "addresses G" and inv: "echo_inv (app w) rx tx"
    and step: "go_udp_recv G addr_string (Some (Echo G)) arg upcb ip port buf w = Some (Ok (r, w'))"
  shows "echo_inv (app w') rx tx"
proof -
  from step obtain q data w2 where conn: "go_udp_recv_data G addr_string (Some (Echo G)) arg upcb ip port buf w = Some (Ok ((q, data), w2))"
    and put: "on_chan q (chan_send data) (app w2) = Some (Ok ((), app w'))"
    by (auto simp: go_udp_recv_def go_recv_send_def ok_simps)
  from G(1) conn show ?thesis
  proof (cases rule: udp_run)
    case (1 i p)
    from 1(1) have w2: "echo_inv (app w2) rx tx \<and> phase_of (app w2) = phase_of (app w) \<and> gp_type p = UDP"
    proof (elim disjE exE conjE)
      fix k assume same: "app w2 = app w" and "udpPcbs (app w) k = Some i"
      with go_wfD(3) [OF echo_invD(4) [OF inv]] 1(2) have "gp_type p = UDP" by (fastforce simp: registry_wf_def)
      with inv same show ?thesis by simp
    next
      fix w1 la lp k g' assume new: "newPCB UDP arg upcb NULL la ip lp port (app w) = Some (Ok (i, g'))" "go_pcbs g' i \<noteq> None"
        and call: "notify (map_option (\<lambda>E. on_accept E i) (Some (Echo G))) (w1\<lparr>app := g'\<lparr>udpPcbs := (udpPcbs g')(k \<mapsto> i)\<rparr>\<rparr>) = Some (Ok ((), w2))"
      let ?g = "g'\<lparr>udpPcbs := (udpPcbs g')(k \<mapsto> i)\<rparr>"
      from Echo_runs(1) [OF G(2), of "w1\<lparr>app := ?g\<rparr>" i] new(2) call
      have app: "app w2 = g'\<lparr>tcpPcbs := tcpPcbs g', udpPcbs := (udpPcbs g')(k \<mapsto> i), copiers := (copiers g')(i \<mapsto> CopyStart)\<rparr>"
        by (auto simp: notify_def Echo_def)
      have "beside ?g (app w2)" by (rule besideI) (simp_all add: app)
      from run_inv_own [OF run_new_udp [OF echo_invD(1) [OF inv] new(1)] this] have "run_inv (app w2) (phase_of (app w))" .
      note both = echo_new [OF inv new(1) app this]
      moreover have "gp_type p = UDP" using new(1) 1(2) by (auto simp: app newPCB_def Let_def)
      ultimately show ?thesis by blast
    qed
    from put 1(3) obtain c' where w': "app w' = (app w2)\<lparr>go_chans := (go_chans (app w2))(gp_recvQueued p \<mapsto> c')\<rparr>"
      by (auto simp: ok_simps)
    from w2 have "run_inv (app w2) (phase_of (app w2))" by (blast dest: echo_invD(1))
    from side_run [OF this side_op.deliver [OF 1(2)]] put 1(3) have run: "run_inv (app w') (phase_of (app w2))" by blast
    from w2 have "log_ok (app w') (rx i) (tx i) i" using 1(2) w' by (simp add: log_ok_def)
    with w2 run show ?thesis unfolding w' by (intro echo_queue [OF _ 1(2)]) simp_all
  qed
qed

text \<open>The loop takes a request.\<close>

lemma echo_send:
  assumes inv: "echo_inv g rx tx" and step: "take_request g = Some (Ok (e, g'))"
  shows "echo_inv g' rx (case e of None \<Rightarrow> tx | Some (i, data) \<Rightarrow> tx(i := tx i @ data))"
proof -
  note wf = echo_invD(4) [OF inv]
  from wf step obtain i b rest p where buf: "ch_buf (sendQueue g) = (i, b) # rest" and p: "go_pcbs g i = Some p"
    and g': "g' = g\<lparr>sendQueue := (sendQueue g)\<lparr>ch_buf := rest\<rparr>,
      go_pcbs := (if gp_err p = None \<and> gp_type p = TCP then (go_pcbs g)(i \<mapsto> gp_sendCount_update (\<lambda>n. n + 1) p) else go_pcbs g)\<rparr>"
    by (rule take_request_shape)
  have run: "run_inv g' (phase_of g)" by (rule loop_run [OF echo_invD(1) [OF inv] step])
  have views: "map_option view (go_pcbs g' j) = map_option view (go_pcbs g j)" for j by (simp add: g' p view_def)
  have "map_option gp_type (go_pcbs g' j) = map_option gp_type (go_pcbs g j)" for j by (simp add: g' p)
  then have "phase_of g' = phase_of g" by (rule phase_of_cong) (simp_all add: g')
  with run have "run_inv g' (phase_of g')" by simp
  moreover have "buf_inv g'" using echo_invD(2) [OF inv] p by (auto simp: buf_inv_def g')
  moreover have "log_ok g' (rx j) ((case e of None \<Rightarrow> tx | Some (i, data) \<Rightarrow> tx(i := tx i @ data)) j) j" for j
  proof (cases "j = i")
    case False
    have "(case e of None \<Rightarrow> tx | Some (i, data) \<Rightarrow> tx(i := tx i @ data)) j = tx j"
      using step buf p False by (auto simp: take_request_def ok_simps chan_recv_def split: if_splits option.splits)
    moreover have "log_ok g' (rx j) (tx j) j"
      by (rule log_ok_frame [OF echo_invD(3) [OF inv] views held_cong]) (use False in \<open>simp_all add: g' requests_def buf\<close>)
    ultimately show ?thesis by simp
  next
    case j: True
    show ?thesis
    proof (cases "gp_type p = TCP \<and> gp_err p = None")
      case False
      have "gp_err p \<noteq> None \<Longrightarrow> e = None"
        using step buf p by (auto simp: take_request_def ok_simps chan_recv_def split: if_splits option.splits)
      with False echo_invD(3) [OF inv, of i] p show ?thesis by (auto simp: log_ok_def g' j)
    next
      case open_: True
      from buf have "b \<in> set (requests g i)" by (simp add: requests_def)
      with write_invD [OF run_invD(2) [OF echo_invD(1) [OF inv]] p] open_ have exp: "b \<in> expected (phase_of g i)"
        and "length (requests g i) \<le> card (expected (phase_of g i))" by (auto simp: write_ok_def)
      moreover have "card (expected x) \<le> 1" for x by (cases x) simp_all
      ultimately have len: "length (requests g i) \<le> 1" using le_trans by blast
      from exp obtain r n where c: "copiers g i = Some (Copying r (AtWait n))" and b: "b = Slice r 0 n"
        using p open_ by (cases "(g, copiers g i)" rule: phase_at.cases) (simp_all add: phase_of_def)
      have rq: "requests g i = b # requests g' i" by (simp add: requests_def buf g')
      with len have none: "requests g' i = []" by simp
      from c have "held g i = bytes_in g r n" "held g' i = []" using rq none by (simp_all add: held_def g')
      moreover have "e = Some (i, bytes_in g r n)"
        using step buf p open_ buf_invD(4) [OF echo_invD(2) [OF inv] c]
        by (auto simp: take_request_def ok_simps chan_recv_def b bytes_in_def slice_bytes_def split: if_splits option.splits)
      ultimately show ?thesis using echo_invD(3) [OF inv, of i] p open_ by (auto simp: log_ok_def j g' unread_def)
    qed
  qed
  ultimately show ?thesis by (simp add: echo_inv_def)
qed

section \<open>The steps of the goroutines\<close>

lemma bytes_at_point:
  assumes "buf_inv g" and "copiers g i = Some (Copying r x)" and "point_size x = Some n"
  shows "holds g (Slice r 0 n) (bytes_in g r n)"
  using buf_invD(3,4) [OF assms(1,2)] assms(3) by (auto simp: holds_iff bytes_in_def sized_def)

text \<open>A step of the goroutine of connection \<open>i\<close>.\<close>

lemma echo_copy:
  assumes inv: "echo_inv g rx tx" and i: "copiers g i \<noteq> None"
    and g': "g' = g1\<lparr>copiers := (copiers g)(i \<mapsto> c)\<rparr>"
    and pcbs: "\<And>j. map_option view (go_pcbs g1 j) = map_option view (go_pcbs g j)"
    and arr: "\<And>j r x. j \<noteq> i \<Longrightarrow> copiers g j = Some (Copying r x) \<Longrightarrow> go_arrays g1 r = go_arrays g r"
    and doms: "dom (go_arrays g1) \<subseteq> {..<go_next g1}"
    and buf: "\<And>r x. c = Copying r x \<Longrightarrow> sized x \<and> (\<exists>a. go_arrays g1 r = Some a \<and> length a = 32768) \<and> (\<forall>j y. copiers g j = Some (Copying r y) \<longrightarrow> j = i)"
    and reqs: "\<And>j. j \<noteq> i \<Longrightarrow> requests g1 j = requests g j"
    and chans: "\<And>j p. j \<noteq> i \<Longrightarrow> go_pcbs g j = Some p \<Longrightarrow> go_chans g1 (gp_recvQueued p) = go_chans g (gp_recvQueued p)"
    and run: "run_inv g1 ((phase_of g)(i := phase_of g' i))" and log: "log_ok g' (rx i) (tx i) i"
  shows "echo_inv g' rx tx"
proof -
  have copy: "copiers g' i = Some c" "j \<noteq> i \<Longrightarrow> copiers g' j = copiers g j" for j by (simp_all add: g')
  have same: "phase_at g' (copiers g j) = phase_at g (copiers g j)" "held_at g' rs (copiers g j) = held_at g rs (copiers g j)" if "j \<noteq> i" for j rs
    by (cases "(g, copiers g j)" rule: phase_at.cases; simp add: bytes_in_def g' arr [OF that])
      (cases "(g, rs, copiers g j)" rule: held_at.cases; simp add: bytes_in_def g' arr [OF that])
  have "phase_of g' j = ((phase_of g)(i := phase_of g' i)) j" for j
  proof (cases "j = i")
    case False
    with pcbs [of j] same(1) copy(2) show ?thesis by (auto simp: phase_of_def g' view_def split: option.splits)
  qed simp
  then have "phase_of g' = (phase_of g)(i := phase_of g' i)" by blast
  with run_inv_own [OF run, of g'] have "run_inv g' (phase_of g')" by (simp add: g')
  moreover have "buf_inv g'" unfolding buf_inv_def
  proof (intro conjI allI impI)
    have "go_pcbs g1 j \<noteq> None" if "copiers g j \<noteq> None" for j
      using buf_invD(1) [OF echo_invD(2) [OF inv], of j] that pcbs [of j] by (cases "go_pcbs g1 j") auto
    with i show "dom (copiers g') \<subseteq> dom (go_pcbs g')" by (auto simp: g' domIff split: if_splits)
    show "dom (go_arrays g') \<subseteq> {..<go_next g'}" using doms by (simp add: g')
    fix j r x assume j: "copiers g' j = Some (Copying r x)"
    show "sized x" using j buf buf_invD(3) [OF echo_invD(2) [OF inv]] by (auto simp: g' split: if_splits)
    show "\<exists>a. go_arrays g' r = Some a \<and> length a = 32768"
      using j buf buf_invD(4) [OF echo_invD(2) [OF inv], of j r x] arr [of j r x] by (cases "j = i") (auto simp: g')
    fix k y assume "copiers g' k = Some (Copying r y)"
    with j show "j = k" using buf buf_invD(5) [OF echo_invD(2) [OF inv], of j r x k y] by (auto simp: g' split: if_splits)
  qed
  moreover have "log_ok g' (rx j) (tx j) j" for j
  proof (cases "j = i")
    case False
    have "held g' j = held g j" using same(2) [OF False] reqs [OF False] copy(2) [OF False] by (simp add: held_def requests_def g')
    then show ?thesis using pcbs [of j] chans [OF False]
      by (intro log_ok_frame [OF echo_invD(3) [OF inv]]) (simp_all add: g')
  qed (use log in simp)
  ultimately show ?thesis by (simp add: echo_inv_def)
qed

text \<open>One that leaves the bridge's memory alone.\<close>

lemma echo_move:
  assumes inv: "echo_inv g rx tx" and c0: "copiers g i = Some (Copying r x)"
    and phase: "phase_at g (Some c) = phase_at g (Some (Copying r x))" and buf: "\<And>s y. c = Copying s y \<Longrightarrow> s = r \<and> sized y"
    and held: "\<And>p. go_pcbs g i = Some p \<Longrightarrow> gp_err p = None \<Longrightarrow> held_at g (requests g i) (Some c) = held g i"
  shows "echo_inv (g\<lparr>copiers := (copiers g)(i \<mapsto> c)\<rparr>) rx tx"
proof (rule echo_copy [OF inv _ refl])
  let ?g = "g\<lparr>copiers := (copiers g)(i \<mapsto> c)\<rparr>"
  note b = echo_invD(2) [OF inv]
  have at: "phase_at ?g y = phase_at g y" "held_at ?g rs y = held_at g rs y" for y rs
    by (cases "(g, y)" rule: phase_at.cases; simp add: bytes_in_def) (cases "(g, rs, y)" rule: held_at.cases; simp add: bytes_in_def)
  have "phase_of ?g i = phase_of g i" using phase c0 at(1) by (simp add: phase_of_def split: option.split)
  then show "run_inv g ((phase_of g)(i := phase_of ?g i))" using echo_invD(1) [OF inv] by simp
  show "sized y \<and> (\<exists>a. go_arrays g s = Some a \<and> length a = 32768) \<and> (\<forall>j z. copiers g j = Some (Copying s z) \<longrightarrow> j = i)" if "c = Copying s y" for s y
    using buf [OF that] buf_invD(4,5) [OF b] c0 by blast
  show "dom (go_arrays g) \<subseteq> {..<go_next g}" using b by (simp add: buf_inv_def)
  have "requests ?g i = requests g i" by (simp add: requests_def)
  then show "log_ok ?g (rx i) (tx i) i" using echo_invD(3) [OF inv, of i] held at(2)
    by (auto simp: log_ok_def held_def unread_def split: option.splits)
qed (use c0 in simp_all)

lemma echo_at_read:
  assumes "echo_inv g rx tx" and "copiers g i = Some (Copying r AtRead)"
    and "bnd (copy_round i r AtRead) (set_copier i) g = Some (Ok ((), g'))"
  shows "echo_inv g' rx tx"
proof -
  from assms(3) obtain c where "g' = g\<lparr>copiers := (copiers g)(i \<mapsto> c)\<rparr>" "c = Copying r AtTake \<or> (\<exists>er. c = CopyDone er)"
    by (auto simp: ok_simps set_copier_def pcb_Read_check_def split: if_splits)
  then show ?thesis using assms(2)
    by (auto simp: held_def sized_def split: if_splits intro!: echo_move [OF assms(1,2)])
qed

lemma echo_at_check:
  assumes inv: "echo_inv g rx tx" and c: "copiers g i = Some (Copying r (AtCheck n))"
    and step: "bnd (copy_round i r (AtCheck n)) (set_copier i) g = Some (Ok ((), g'))"
  shows "echo_inv g' rx tx"
proof -
  from buf_invD(3) [OF echo_invD(2) [OF inv] c] have n: "0 < n" "n \<le> 32768" by (simp_all add: sized_def)
  from buf_invD(1) [OF echo_invD(2) [OF inv] c] obtain p where p: "go_pcbs g i = Some p" by blast
  from step n p have "g' = g\<lparr>copiers := (copiers g)(i \<mapsto> (if gp_err p = None then Copying r (AtLock n) else CopyDone (gp_err p)))\<rparr>"
    by (auto simp: ok_simps set_copier_def pcb_Write_check_def copy_wrote_def Let_def split: if_splits)
  then show ?thesis using c p n
    by (auto simp: held_def sized_def split: if_splits intro!: echo_move [OF inv c])
qed

text \<open>One that leaves the logs, the arrays and the queues of the connections alone.\<close>

lemma echo_pass:
  assumes inv: "echo_inv g rx tx" and c0: "copiers g i = Some (Copying r x)" and g': "g' = g1\<lparr>copiers := (copiers g)(i \<mapsto> c)\<rparr>"
    and pcbs: "\<And>j. map_option view (go_pcbs g1 j) = map_option view (go_pcbs g j)"
    and eq: "go_arrays g1 = go_arrays g" "go_chans g1 = go_chans g" "go_next g1 = go_next g" "\<And>j. j \<noteq> i \<Longrightarrow> requests g1 j = requests g j"
    and run: "run_inv g1 ((phase_of g)(i := phase_of g' i))" and buf: "\<And>s y. c = Copying s y \<Longrightarrow> s = r \<and> sized y"
    and held: "\<And>p. go_pcbs g i = Some p \<Longrightarrow> gp_type p = TCP \<Longrightarrow> gp_err p = None \<Longrightarrow> held g' i = held g i"
  shows "echo_inv g' rx tx"
proof (rule echo_copy [OF inv _ g' pcbs])
  note b = echo_invD(2) [OF inv]
  show "sized y \<and> (\<exists>a. go_arrays g1 s = Some a \<and> length a = 32768) \<and> (\<forall>j z. copiers g j = Some (Copying s z) \<longrightarrow> j = i)" if "c = Copying s y" for s y
    using buf [OF that] buf_invD(4,5) [OF b] c0 unfolding eq(1) by blast
  show "dom (go_arrays g1) \<subseteq> {..<go_next g1}" using b by (simp add: buf_inv_def eq)
  show "log_ok g' (rx i) (tx i) i" using echo_invD(3) [OF inv, of i] held pcbs [of i]
    by (auto simp: log_ok_def g' unread_def view_def eq split: option.splits)
qed (use c0 run eq in simp_all)

lemma phase_of_at: "go_pcbs g i = Some p \<Longrightarrow> phase_of g i = (if gp_type p = TCP then phase_at g (copiers g i) else WIdle)"
  by (simp add: phase_of_def)

lemma echo_at_ack:
  assumes inv: "echo_inv g rx tx" and c: "copiers g i = Some (Copying r (AtAck n))"
    and step: "bnd (copy_round i r (AtAck n)) (set_copier i) g = Some (Ok ((), g'))"
  shows "echo_inv g' rx tx"
proof -
  from buf_invD(1) [OF echo_invD(2) [OF inv] c] obtain p where p: "go_pcbs g i = Some p" by blast
  from step obtain g1 where ack: "pcb_Read_ack i (int n) g = Some (Ok ((), g1))"
    and g': "g' = g1\<lparr>copiers := (copiers g1)(i \<mapsto> Copying r (AtCheck n))\<rparr>"
    by (auto simp: ok_simps set_copier_def)
  define q where "q = recvedQueue g1"
  from ack have g1: "g1 = g\<lparr>recvedQueue := q\<rparr>" by (auto simp: pcb_Read_ack_def ok_simps q_def split: if_splits)
  have at: "phase_of g' i = phase_of g i" using p c by (simp add: phase_of_at g' g1)
  from side_run [OF echo_invD(1) [OF inv] side_op.ack ack] have "run_inv g1 ((phase_of g)(i := phase_of g' i))" by (simp add: at)
  moreover have "held g' i = held g i" using c by (simp add: held_def g' g1 bytes_in_def)
  moreover from buf_invD(3) [OF echo_invD(2) [OF inv] c] have "sized (AtCheck n)" by (simp add: sized_def)
  ultimately show ?thesis
    by (intro echo_pass [OF inv c, where ?g1.0 = g1 and c = "Copying r (AtCheck n)"]) (simp_all add: g' g1 requests_def)
qed

lemma echo_at_lock:
  assumes inv: "echo_inv g rx tx" and c: "copiers g i = Some (Copying r (AtLock n))"
    and step: "bnd (copy_round i r (AtLock n)) (set_copier i) g = Some (Ok ((), g'))"
  shows "echo_inv g' rx tx"
proof -
  note b = echo_invD(2) [OF inv]
  from buf_invD(1) [OF b c] obtain p where p: "go_pcbs g i = Some p" by blast
  from step obtain g1 where lock: "pcb_Write_lock i g = Some (Ok ((), g1))"
    and g': "g' = g1\<lparr>copiers := (copiers g1)(i \<mapsto> Copying r (AtQueue n))\<rparr>"
    by (auto simp: ok_simps set_copier_def)
  from lock p have g1: "g1 = g\<lparr>go_pcbs := (if gp_type p = TCP then (go_pcbs g)(i \<mapsto> p\<lparr>gp_lck := True\<rparr>) else go_pcbs g)\<rparr>"
    by (auto simp: pcb_Write_lock_def ok_simps)
  have "holds g (Slice r 0 n) (bytes_in g r n)" by (rule bytes_at_point [OF b c]) simp
  from lock_run [OF echo_invD(1) [OF inv] p _ this lock] echo_invD(1) [OF inv]
  have "run_inv g1 ((phase_of g)(i := (if gp_type p = TCP then WLocked (Slice r 0 n) (bytes_in g r n) else phase_of g i)))"
    by (auto simp: g1)
  moreover have "phase_of g' i = (if gp_type p = TCP then WLocked (Slice r 0 n) (bytes_in g r n) else phase_of g i)"
    using p by (simp add: phase_of_def g' g1 bytes_in_def)
  moreover have "held g' i = held g i" using c by (simp add: held_def g' g1 bytes_in_def)
  moreover from buf_invD(3) [OF b c] have "sized (AtQueue n)" by (simp add: sized_def)
  ultimately show ?thesis
    by (intro echo_pass [OF inv c, where ?g1.0 = g1 and c = "Copying r (AtQueue n)"]) (simp_all add: g' g1 requests_def p view_def)
qed

lemma echo_at_queue:
  assumes inv: "echo_inv g rx tx" and c: "copiers g i = Some (Copying r (AtQueue n))"
    and step: "bnd (copy_round i r (AtQueue n)) (set_copier i) g = Some (Ok ((), g'))"
  shows "echo_inv g' rx tx"
proof -
  note b = echo_invD(2) [OF inv]
  let ?s = "Slice r 0 n"
  from buf_invD(1) [OF b c] obtain p where p: "go_pcbs g i = Some p" by blast
  from step obtain g1 where queue: "pcb_Write_queue i ?s g = Some (Ok ((), g1))"
    and g': "g' = g1\<lparr>copiers := (copiers g1)(i \<mapsto> Copying r (AtWait n))\<rparr>"
    by (auto simp: ok_simps set_copier_def)
  define q where "q = sendQueue g1"
  from queue have q: "ch_buf q = ch_buf (sendQueue g) @ [(i, ?s)]" and g1: "g1 = g\<lparr>sendQueue := q\<rparr>"
    by (auto simp: pcb_Write_queue_def ok_simps chan_send_def q_def split: if_splits)
  have h: "holds g ?s (bytes_in g r n)" by (rule bytes_at_point [OF b c]) simp
  have "run_inv g1 ((phase_of g)(i := (if gp_type p = TCP then WWaiting ?s (bytes_in g r n) else phase_of g i)))"
  proof (cases "gp_type p")
    case TCP
    with p c have "phase_of g i = WLocked ?s (bytes_in g r n)" by (simp add: phase_of_def)
    from request_run [OF echo_invD(1) [OF inv] this queue] TCP show ?thesis by simp
  next
    case UDP
    from h have "slice_ok g ?s" by (simp add: holds_def)
    from side_run [OF echo_invD(1) [OF inv] side_op.write_udp [OF p UDP this] queue] UDP show ?thesis by simp
  qed
  moreover have "phase_of g' i = (if gp_type p = TCP then WWaiting ?s (bytes_in g r n) else phase_of g i)"
    using p by (simp add: phase_of_def g' g1 bytes_in_def)
  moreover have "held g' i = held g i" using c by (simp add: held_def g' g1 bytes_in_def requests_def q)
  moreover from buf_invD(3) [OF b c] have "sized (AtWait n)" by (simp add: sized_def)
  ultimately show ?thesis
    by (intro echo_pass [OF inv c, where ?g1.0 = g1 and c = "Copying r (AtWait n)"]) (simp_all add: g' g1 requests_def q)
qed

lemma echo_at_wait:
  assumes inv: "echo_inv g rx tx" and c: "copiers g i = Some (Copying r (AtWait n))"
    and step: "bnd (copy_round i r (AtWait n)) (set_copier i) g = Some (Ok ((), g'))"
  shows "echo_inv g' rx tx"
proof -
  note b = echo_invD(2) [OF inv]
  from buf_invD(1) [OF b c] obtain p where p: "go_pcbs g i = Some p" by blast
  from step obtain g1 where wait: "pcb_Write_wait i g = Some (Ok ((), g1))"
    and g': "g' = g1\<lparr>copiers := (copiers g1)(i \<mapsto> Copying r (AtUnlock n))\<rparr>"
    by (auto simp: ok_simps set_copier_def)
  define q where "q = the (go_pcbs g1 i)"
  from wait p have g1: "g1 = g\<lparr>go_pcbs := (go_pcbs g)(i \<mapsto> q)\<rparr>" and q: "view q = view p"
    by (auto simp: pcb_Write_wait_def ok_simps q_def view_def map_upd_triv split: if_splits)
  have run: "run_inv g1 ((phase_of g)(i := (if gp_type p = TCP then WNotified else phase_of g i)))"
  proof (cases "gp_type p")
    case TCP
    with p c have "phase_of g i = WWaiting (Slice r 0 n) (bytes_in g r n)" by (simp add: phase_of_def)
    from await_run [OF echo_invD(1) [OF inv] this wait] TCP show ?thesis by simp
  next
    case UDP
    with wait p have "g1 = g" by (auto simp: pcb_Write_wait_def ok_simps)
    with echo_invD(1) [OF inv] UDP show ?thesis by simp
  qed
  have at: "phase_of g' i = (if gp_type p = TCP then WNotified else phase_of g i)"
    using p q by (simp add: phase_of_def g' g1 view_def)
  have "held g' i = held g i" if "gp_type p = TCP" "gp_err p = None"
  proof -
    have "go_pcbs g1 i = Some q" "gp_type q = TCP" "gp_err q = None" using q that by (simp_all add: g1 view_def)
    with write_invD [OF run_invD(2) [OF run], of i "Some q"] that have "requests g1 i = []" by (simp add: write_ok_def)
    then have "requests g i = []" by (simp add: g1 requests_def)
    with c show ?thesis by (simp add: held_def g')
  qed
  moreover from buf_invD(3) [OF b c] have "sized (AtUnlock n)" by (simp add: sized_def)
  moreover have "run_inv g1 ((phase_of g)(i := phase_of g' i))" using run at by simp
  ultimately show ?thesis using p q
    by (intro echo_pass [OF inv c, where ?g1.0 = g1 and c = "Copying r (AtUnlock n)"]) (simp_all add: g' g1 requests_def)
qed

lemma echo_at_end:
  assumes inv: "echo_inv g rx tx" and c: "copiers g i = Some (Copying r (AtUnlock n))"
    and step: "bnd (copy_round i r (AtUnlock n)) (set_copier i) g = Some (Ok ((), g'))"
  shows "echo_inv g' rx tx"
proof -
  note b = echo_invD(2) [OF inv]
  from buf_invD(1) [OF b c] obtain p where p: "go_pcbs g i = Some p" by blast
  from step obtain g1 y where fin: "pcb_Write_end i (Slice r 0 n) g = Some (Ok (y, g1))"
    and g': "g' = g1\<lparr>copiers := (copiers g1)(i \<mapsto> copy_wrote r n y)\<rparr>"
    by (auto simp: ok_simps set_copier_def)
  define d where "d = copy_wrote r n y"
  from fin p have g1: "g1 = g\<lparr>go_pcbs := (if gp_type p = TCP then (go_pcbs g)(i \<mapsto> p\<lparr>gp_lck := False\<rparr>) else go_pcbs g)\<rparr>"
    and d: "d = Copying r AtRead \<or> (\<exists>e. d = CopyDone e)"
    by (auto simp: pcb_Write_end_def ok_simps d_def copy_wrote_def Let_def)
  have "run_inv g1 ((phase_of g)(i := WIdle))"
  proof (cases "gp_type p")
    case TCP
    with p c have "phase_of g i = WNotified" by (simp add: phase_of_def)
    from finish_run [OF echo_invD(1) [OF inv] this fin] TCP show ?thesis by simp
  next
    case UDP
    then have "g1 = g" "phase_of g i = WIdle" using p by (simp_all add: g1 phase_of_def)
    with echo_invD(1) [OF inv] show ?thesis by (simp add: fun_upd_idem)
  qed
  moreover have "phase_of g' i = WIdle" using d p by (auto simp: phase_of_def g' g1 d_def [symmetric])
  moreover have "held g' i = held g i" using c d by (auto simp: held_def g' d_def [symmetric])
  ultimately show ?thesis using d
    by (intro echo_pass [OF inv c, where ?g1.0 = g1 and c = d]) (auto simp: g' g1 requests_def p view_def d_def [symmetric] sized_def)
qed

lemma echo_at_take:
  assumes inv: "echo_inv g rx tx" and c: "copiers g i = Some (Copying r AtTake)"
    and step: "bnd (copy_round i r AtTake) (set_copier i) g = Some (Ok ((), g'))"
  shows "echo_inv g' rx tx"
proof -
  note b = echo_invD(2) [OF inv]
  from buf_invD(1) [OF b c] obtain p where p: "go_pcbs g i = Some p" by blast
  from buf_invD(4) [OF b c] obtain a where a: "go_arrays g r = Some a" "length a = 32768" by blast
  from step obtain e u where copy: "copy_round i r AtTake g = Some (Ok (e, u))" and fin: "g' = u\<lparr>copiers := (copiers u)(i \<mapsto> e)\<rparr>"
    by (auto simp only: bnd_Ok set_copier_def modify_Ok)
  from copy obtain de gA where "pcb_Read_take i 32768 g = Some (Ok (de, gA))"
    and "(case de of (d, er) \<Rightarrow> if d = [] then ret (if er \<noteq> None then CopyDone er else Copying r AtRead)
      else seq (fill_buffer r d) (ret (Copying r (AtAck (length d))))) gA = Some (Ok (e, u))"
    by (auto simp only: copy_round.simps bnd_Ok)
  moreover obtain d er where "de = (d, er)" by (cases de)
  ultimately have take: "pcb_Read_take i 32768 g = Some (Ok ((d, er), gA))"
    and rest: "(if d = [] then ret (if er \<noteq> None then CopyDone er else Copying r AtRead)
      else seq (fill_buffer r d) (ret (Copying r (AtAck (length d))))) gA = Some (Ok (e, u))" by simp_all
  from take p obtain q x q' where q: "go_chans g (gp_recvQueued p) = Some q" and recv: "chan_recv q = Some (Ok (x, q'))"
    and got: "(case x of None \<Rightarrow> bnd (go_deref go_pcbs i) (\<lambda>p'. ret ([], gp_err p'))
       | Some y \<Rightarrow> if length y < 1 then bnd (go_deref go_pcbs i) (\<lambda>p'. ret ([], gp_err p'))
           else if 32768 < length y then fail (GoPanic ''the read buffer is too small'') else ret (y, None))
      (g\<lparr>go_chans := (go_chans g)(gp_recvQueued p \<mapsto> q')\<rparr>) = Some (Ok ((d, er), gA))"
    by (auto simp only: pcb_Read_take_def bnd_Ok go_deref_Ok on_chan_Ok option.inject)
  from got have gA: "gA = g\<lparr>go_chans := (go_chans g)(gp_recvQueued p \<mapsto> q')\<rparr>" and d: "d = (case x of None \<Rightarrow> [] | Some y \<Rightarrow> y)"
    and len: "length d \<le> 32768"
    by (cases x; auto simp: ok_simps split: if_splits)+
  from recv d have buf: "concat (ch_buf q) = d @ concat (ch_buf q')" by (auto simp: chan_recv_def split: list.splits if_splits)
  have idle: "phase_of g i = WIdle" using p c by (simp add: phase_of_def)
  have runA: "run_inv gA (phase_of g)"
    using side_run [OF echo_invD(1) [OF inv] side_op.read [of g i 32768]] take by (auto simp: ok_simps)
  have others: "gp_recvQueued s \<noteq> gp_recvQueued p" if "j \<noteq> i" "go_pcbs g j = Some s" for j s
    using go_wfD(2) [OF echo_invD(4) [OF inv] that(2) p that(1)] .
  show ?thesis
  proof (cases "d = []")
    case True
    from rest fin True have g': "g' = gA\<lparr>copiers := (copiers g)(i \<mapsto> e)\<rparr>" and e: "e = Copying r AtRead \<or> (\<exists>er. e = CopyDone er)"
      by (auto simp: ok_simps gA)
    have at: "phase_of g' i = WIdle" using p e by (auto simp: phase_of_def g' gA)
    show ?thesis
    proof (rule echo_copy [OF inv _ g'])
      show "run_inv gA ((phase_of g)(i := phase_of g' i))" using runA idle at by (simp add: fun_upd_idem)
      show "log_ok g' (rx i) (tx i) i" using echo_invD(3) [OF inv, of i] p c e q buf True
        by (auto simp: log_ok_def g' gA held_def unread_def)
      show "dom (go_arrays gA) \<subseteq> {..<go_next gA}" using b by (simp add: buf_inv_def gA)
      show "sized y \<and> (\<exists>a. go_arrays gA s = Some a \<and> length a = 32768) \<and> (\<forall>j z. copiers g j = Some (Copying s z) \<longrightarrow> j = i)"
        if "e = Copying s y" for s y using that e a buf_invD(5) [OF b _ c] by (auto simp: gA sized_def)
    qed (use c others in \<open>simp_all add: gA requests_def\<close>)
  next
    case False
    let ?a = "d @ drop (length d) a"
    let ?g1 = "gA\<lparr>go_arrays := (go_arrays g)(r \<mapsto> ?a)\<rparr>"
    from rest fin False a(1) have g': "g' = ?g1\<lparr>copiers := (copiers g)(i \<mapsto> Copying r (AtAck (length d)))\<rparr>"
      by (auto simp: ok_simps fill_buffer_def gA)
    have "\<not> in_use (phase_of g) r"
    proof
      assume "in_use (phase_of g) r"
      then obtain j s d where ph: "phase_of g j = WLocked s d \<or> phase_of g j = WWaiting s d" and s: "sl_array s = r" by (auto simp: in_use_def)
      then have "j \<noteq> i" using idle by auto
      moreover from ph s obtain y where "copiers g j = Some (Copying r y)"
        by (cases "(g, copiers g j)" rule: phase_at.cases) (auto simp: phase_of_def split: option.splits if_splits)
      from buf_invD(5) [OF b this c] have "j = i" .
      ultimately show False by simp
    qed
    from store_run [OF runA this, of a ?a] a len have run: "run_inv ?g1 (phase_of g)" by (simp add: gA)
    have at: "phase_of g' i = WIdle" using p by (simp add: phase_of_def g' gA)
    show ?thesis
    proof (rule echo_copy [OF inv _ g'])
      show "run_inv ?g1 ((phase_of g)(i := phase_of g' i))" using run idle at by (simp add: fun_upd_idem)
      show "log_ok g' (rx i) (tx i) i" using echo_invD(3) [OF inv, of i] p c q buf
        by (auto simp: log_ok_def g' gA held_def unread_def bytes_in_def)
      show "dom (go_arrays ?g1) \<subseteq> {..<go_next ?g1}" using b a(1) buf_invD(2) [OF b a(1)] by (auto simp: buf_inv_def gA)
      show "go_arrays ?g1 s = go_arrays g s" if "j \<noteq> i" "copiers g j = Some (Copying s x)" for j s x
        using that buf_invD(5) [OF b that(2), of i AtTake] c by (auto simp: gA)
      show "sized y \<and> (\<exists>a. go_arrays ?g1 s = Some a \<and> length a = 32768) \<and> (\<forall>j z. copiers g j = Some (Copying s z) \<longrightarrow> j = i)"
        if "Copying r (AtAck (length d)) = Copying s y" for s y using that a len False buf_invD(5) [OF b _ c] by (auto simp: gA sized_def)
    qed (use c others in \<open>simp_all add: gA requests_def\<close>)
  qed
qed

lemma echo_at_start:
  assumes inv: "echo_inv g rx tx" and c: "copiers g i = Some CopyStart"
    and g': "g' = g\<lparr>go_next := go_next g + 1, go_arrays := (go_arrays g)(go_next g \<mapsto> replicate 32768 0),
         copiers := (copiers g)(i \<mapsto> Copying (go_next g) AtRead)\<rparr>"
  shows "echo_inv g' rx tx"
proof -
  note b = echo_invD(2) [OF inv]
  let ?a = "(go_arrays g)(go_next g \<mapsto> replicate 32768 0)"
  let ?g1 = "g\<lparr>go_next := go_next g + 1, go_arrays := ?a\<rparr>"
  from buf_invD(1) [OF b c] obtain p where p: "go_pcbs g i = Some p" by blast
  have fresh: "go_arrays g (go_next g) = None" using buf_invD(2) [OF b, of "go_next g"] by (cases "go_arrays g (go_next g)") auto
  then have new: "r \<noteq> go_next g" if "copiers g j = Some (Copying r x)" for j r x using buf_invD(4) [OF b that] by auto
  have idle: "phase_of g i = WIdle" "phase_of g' i = WIdle" using p c by (simp_all add: phase_of_def g')
  have "run_inv (g\<lparr>go_arrays := ?a\<rparr>) (phase_of g)"
    by (rule side_run [OF echo_invD(1) [OF inv] side_op.make_array [OF fresh]]) (simp add: run_simps)
  then have "run_inv ?g1 (phase_of g)" by (rule run_inv_own) (rule besideI; simp)
  then have run: "run_inv ?g1 ((phase_of g)(i := phase_of g' i))" using idle by (simp add: fun_upd_idem)
  show ?thesis
  proof (rule echo_copy [OF inv, where ?g1.0 = ?g1 and c = "Copying (go_next g) AtRead"])
    show "log_ok g' (rx i) (tx i) i" using echo_invD(3) [OF inv, of i] p c by (simp add: log_ok_def g' held_def unread_def)
    show "dom (go_arrays ?g1) \<subseteq> {..<go_next ?g1}" using b by (auto simp: buf_inv_def)
  qed (use c new run in \<open>auto simp: g' sized_def requests_def\<close>)
qed

lemma echo_goroutine:
  assumes inv: "echo_inv g rx tx" and step: "copy_step i g = Some (Ok ((), g'))"
  shows "echo_inv g' rx tx"
proof -
  from step obtain c where c: "copiers g i = Some c" by (auto simp: copy_step_def ok_simps)
  show ?thesis
  proof (cases c)
    case CopyStart
    with step c have "g' = g\<lparr>go_next := go_next g + 1, go_arrays := (go_arrays g)(go_next g \<mapsto> replicate 32768 0),
         copiers := (copiers g)(i \<mapsto> Copying (go_next g) AtRead)\<rparr>" by (simp add: copy_step_def ok_simps)
    with c CopyStart echo_at_start [OF inv] show ?thesis by blast
  next
    case (Copying r x)
    with step c have "bnd (copy_round i r x) (set_copier i) g = Some (Ok ((), g'))" by (simp add: copy_step_def bnd_run go_deref_def)
    note here = c [unfolded Copying] this
    show ?thesis
    proof (cases x)
      case AtRead
      with here echo_at_read [OF inv] show ?thesis by simp
    next
      case AtTake
      with here echo_at_take [OF inv] show ?thesis by simp
    next
      case (AtAck n)
      with here echo_at_ack [OF inv] show ?thesis by simp
    next
      case (AtCheck n)
      with here echo_at_check [OF inv] show ?thesis by simp
    next
      case (AtLock n)
      with here echo_at_lock [OF inv] show ?thesis by simp
    next
      case (AtQueue n)
      with here echo_at_queue [OF inv] show ?thesis by simp
    next
      case (AtWait n)
      with here echo_at_wait [OF inv] show ?thesis by simp
    next
      case (AtUnlock n)
      with here echo_at_end [OF inv] show ?thesis by simp
    qed
  next
    case (CopyDone e)
    with step c show ?thesis by (simp add: copy_step_def ok_simps)
  qed
qed

section \<open>Every run\<close>

lemma echo_side:
  assumes inv: "echo_inv g rx tx" and "side_op g m" and "m g = Some (Ok ((), g'))"
    and "go_pcbs g' = go_pcbs g" "copiers g' = copiers g" "go_arrays g' = go_arrays g" "sendQueue g' = sendQueue g" "go_chans g' = go_chans g"
      "go_next g' = go_next g"
  shows "echo_inv g' rx tx"
  by (rule echo_inv_frame [OF inv side_run [OF echo_invD(1) [OF inv] assms(2,3)]]) (simp_all add: assms)

lemma echo_run_inv:
  assumes G: "polite G" "addresses G" and "echo_run G addr_string w rx tx"
  shows "echo_inv (app w) rx tx"
  using assms(3)
proof induction
  case (start w)
  then have "phase_of (app w) = (\<lambda>_. WIdle)" by (simp add: fun_eq_iff phase_of_def starts_fields)
  with start show ?case
    by (simp add: echo_inv_def run_inv_def start_wf start_write_inv uses_inv_def buf_inv_def log_ok_def starts_fields)
next
  case (stack w rx tx w')
  then show ?case by simp
next
  case (accept w rx tx arg newpcb state r w')
  from echo_accept [OF G accept.IH accept.hyps(2)] show ?case .
next
  case (refused w rx tx tpcb state buf w')
  then have "app w' = app w" by (auto simp: go_recv_data_def ok_simps split: if_splits option.splits)
  with refused.IH show ?case by simp
next
  case (recv w rx tx tpcb state buf q data w1 w' i)
  from echo_got [OF G recv.IH recv.hyps(2-4)] show ?case .
next
  case (send_done w rx tx arg tpcb state r w')
  from handler_run [OF G(1) Echo_calm [OF G(2)] echo_invD(1) [OF send_done.IH] handler_step.send_done [OF send_done.hyps(2)]]
  have run: "run_inv (app w') (phase_of (app w))" .
  from send_done.hyps(2) show ?case
  proof (cases rule: send_done_shape)
    case 1
    with send_done.IH show ?thesis by simp
  next
    case (2 i p c)
    show ?thesis by (rule echo_inv_frame [OF send_done.IH run]) (simp_all add: 2 view_def)
  qed
next
  case (peer_close w rx tx arg tpcb state r w')
  from echo_peer_close [OF G peer_close.IH peer_close.hyps(2)] show ?case .
next
  case (udp w rx tx arg upcb ip port buf r w')
  from echo_udp [OF G udp.IH udp.hyps(2)] show ?case .
next
  case (input w rx tx arg netif pl w')
  from handler_run [OF G(1) Echo_calm [OF G(2)] echo_invD(1) [OF input.IH] handler_step.input [OF input.hyps(2)]]
  have run: "run_inv (app w') (phase_of (app w))" .
  from G(1) input.hyps(2) obtain c where "app w' = (app w)\<lparr>inputQueue2 := c\<rparr>" by (rule input_shape)
  then show ?case by (intro echo_inv_frame [OF input.IH run]) simp_all
next
  case (take_recved w rx tx x w')
  then have "ignore (zoom recvedQueue (\<lambda>c g. g\<lparr>recvedQueue := c\<rparr>) chan_recv) (app w) = Some (Ok ((), app w'))" by (auto simp: ok_simps)
  from echo_side [OF take_recved.IH side_op.take_recved this] take_recved.hyps(2) show ?case by (auto simp: ok_simps)
next
  case (take_input w rx tx d w')
  then have "ignore (zoom inputQueue (\<lambda>c g. g\<lparr>inputQueue := c\<rparr>) chan_recv) (app w) = Some (Ok ((), app w'))" by (auto simp: ok_simps)
  from echo_side [OF take_input.IH side_op.take_input this] take_input.hyps(2) show ?case by (auto simp: ok_simps)
next
  case (pass_input w rx tx f w')
  from echo_side [OF pass_input.IH side_op.pass_input in_goD [OF pass_input.hyps(2)]] pass_input.hyps(2) show ?case by (auto simp: ok_simps)
next
  case (put_input w rx tx f w')
  from echo_side [OF put_input.IH side_op.put_input in_goD [OF put_input.hyps(2)]] put_input.hyps(2) show ?case by (auto simp: ok_simps)
next
  case (send w rx tx e w')
  from echo_send [OF send.IH in_goD [OF send.hyps(2)]] show ?case .
next
  case (goroutine w rx tx i w')
  from echo_goroutine [OF goroutine.IH in_goD [OF goroutine.hyps(2)]] show ?case .
qed

text \<open>
  C26. The echo program gives back what it gets. In every run of the program and the bridge, for every TCP connection: what has been
  handed to the stack for it is a prefix of what was received on it, in order and unchanged; and while it is open no byte
  is missing: all that was received has been handed to the stack, is in the buffer of the connection's goroutine, or waits to be read.
\<close>

theorem echo_gives_back:
  assumes "polite G" and "G = go_of P T U N sg C inp outp ba ni" and "echo_run G addr_string w rx tx"
    and "go_pcbs (app w) i = Some p" and "gp_type p = TCP"
  shows "prefix (tx i) (rx i) \<and>
     (gp_err p = None \<longrightarrow> rx i = tx i @ held (app w) i @ concat (ch_buf (the (go_chans (app w) (gp_recvQueued p)))))"
proof -
  have "addresses G" using assms(2) by (simp add: go_of_addresses)
  from echo_invD(3) [OF echo_run_inv [OF assms(1) this assms(3)], of i] assms(4,5) show ?thesis
    by (simp add: log_ok_def unread_def)
qed

text \<open>
  For UDP the goroutine does not wait for its datagram to be sent. If it reads another one first, the request that is still in
  the queue of the loop has the bytes of the second one: the first is lost and the second sent twice.
\<close>

theorem echo_udp_overwrites:
  assumes "copiers g i = Some (Copying r AtTake)" and "go_pcbs g i = Some p" and "gp_type p = UDP"
    and "go_chans g (gp_recvQueued p) = Some c" and "ch_buf c = d # ds" and "d \<noteq> []" and "length d \<le> 32768"
    and "go_arrays g r = Some a" and "(i, Slice r 0 n) \<in> set (ch_buf (sendQueue g))" and "n \<le> length d"
  shows "\<exists>g'. copy_step i g = Some (Ok ((), g')) \<and> (i, Slice r 0 n) \<in> set (ch_buf (sendQueue g')) \<and>
     slice_bytes (Slice r 0 n) g' = Some (Ok (take n d, g'))"
  using assms by (simp add: copy_step_def run_simps set_copier_def pcb_Read_take_def on_chan_def chan_recv_def fill_buffer_def slice_bytes_def)

section \<open>A run\<close>

text \<open>A connection is accepted, two bytes arrive, and its goroutine reads them.\<close>

definition echo_g :: "echo go_cs" where
  "echo_g = go_of ref_pbuf ref_tcp ref_udp ref_netif True Map.empty (\<lambda>s n. ret (- 1, [])) (\<lambda>s d l. ret (uint l)) 9 4"

definition echo_init :: echo where
  "echo_init = go_state.extend go_start \<lparr>copiers = Map.empty\<rparr>"

definition echo_world :: "echo \<Rightarrow> echo world" where
  "echo_world g = \<lparr>pbufs = [8 \<mapsto> demo_buf NULL [10, 20]], ess = [7 \<mapsto> demo_es NULL], tpcbs = [5 \<mapsto> blank_pcb],
     upcbs = Map.empty, netifs = Map.empty, app = g\<rparr>"

definition echo_accepted :: echo where
  "echo_accepted = echo_init\<lparr>go_next := 4, go_chans := [3 \<mapsto> make_chan 1024], go_pcbs := [2 \<mapsto> go_pcb1], tcpPcbs := [7 \<mapsto> 2],
     copiers := [2 \<mapsto> CopyStart]\<rparr>"

definition echo_received :: "nat \<Rightarrow> (nat \<rightharpoonup> u8 list) \<Rightarrow> u8 list list \<Rightarrow> copier \<Rightarrow> echo" where
  "echo_received n a q c = echo_accepted\<lparr>go_next := n, go_chans := [3 \<mapsto> (make_chan 1024)\<lparr>ch_buf := q\<rparr>], go_arrays := a, copiers := [2 \<mapsto> c]\<rparr>"

lemma echo_init_fields:
  "starts echo_init" "go_pcbs echo_init = Map.empty" "go_chans echo_init = Map.empty" "go_arrays echo_init = Map.empty" "go_next echo_init = 2"
  "tcpPcbs echo_init = Map.empty" "copiers echo_init = Map.empty"
  by (simp_all add: echo_init_def starts_def go_state.extend_def go_state.truncate_def go_start_def)

lemma echo_g_polite: "polite echo_g"
  by (auto simp: polite_def echo_g_def go_cs_pbuf_copy_def go_cs_pbuf_alloc_def go_cs_pbuf_take_def via_def go_cs_init_def
      go_back_def ref_pbuf_def on_chain_def callp_def deref_def ok_simps split: option.splits if_splits)

lemma echo_step1: "go_accept (Some (Echo echo_g)) 3 5 7 (echo_world echo_init) = Some (Ok (0, echo_world echo_accepted))"
proof -
  let ?g = "echo_init\<lparr>go_next := 4, go_chans := [3 \<mapsto> make_chan 1024], go_pcbs := [2 \<mapsto> go_pcb1], tcpPcbs := [7 \<mapsto> 2]\<rparr>"
  have "Echo_OnAccept echo_g 2 (echo_world ?g) = Some (Ok ((), echo_world echo_accepted))"
    using Echo_runs(1) [of echo_g "echo_world ?g" 2] by (simp add: echo_g_def go_of_addresses echo_world_def echo_accepted_def echo_init_fields)
  moreover have "newPCB TCP 3 5 7 (t_local_ip blank_pcb) (t_remote_ip blank_pcb) (uint (t_local_port blank_pcb)) (uint (t_remote_port blank_pcb)) echo_init =
      Some (Ok (2, echo_init\<lparr>go_next := 4, go_chans := [3 \<mapsto> make_chan 1024], go_pcbs := [2 \<mapsto> go_pcb1]\<rparr>))"
    by (simp add: newPCB_def Let_def echo_init_fields go_pcb1_def)
  ultimately show ?thesis
    by (simp add: go_accept_def run_simps go_cs_tcp_local_ip_def go_cs_tcp_remote_ip_def go_cs_tcp_local_port_def
        go_cs_tcp_remote_port_def echo_world_def echo_init_fields notify_def Echo_def)
qed

lemma echo_step2:
  "go_recv_data echo_g 5 7 8 (echo_world echo_accepted) = Some (Ok (Some (3, [10, 20]), echo_world echo_accepted))"
  "in_go (on_chan 3 (chan_send [10, 20])) (echo_world echo_accepted) =
     Some (Ok ((), echo_world (echo_received 4 Map.empty [[10, 20]] CopyStart)))"
proof -
  have "whole_chain (pbufs (echo_world echo_accepted)) 8 [8]" "chain_bytes (pbufs (echo_world echo_accepted)) [8] = [10, 20]"
    by (simp_all add: echo_world_def whole_chain_def sole_chain_Cons sole_pbuf_def demo_buf_def bytes_at_def)
  from go_copy_run [OF ref_pbuf_doc(3) this(1)] this(2) have "go_copy echo_g 8 (echo_world echo_accepted) = Some (Ok ([10, 20], echo_world echo_accepted))"
    by (simp add: echo_g_def)
  then show "go_recv_data echo_g 5 7 8 (echo_world echo_accepted) = Some (Ok (Some (3, [10, 20]), echo_world echo_accepted))"
    by (simp add: go_recv_data_def run_simps echo_world_def echo_accepted_def go_pcb1_def)
  show "in_go (on_chan 3 (chan_send [10, 20])) (echo_world echo_accepted) =
     Some (Ok ((), echo_world (echo_received 4 Map.empty [[10, 20]] CopyStart)))"
    by (simp add: run_simps on_chan_def chan_send_def echo_world_def echo_received_def echo_accepted_def make_chan_def echo_init_def
        go_state.extend_def go_start_def)
qed

lemma echo_step3:
  "copy_step 2 (echo_received 4 Map.empty q CopyStart) = Some (Ok ((), echo_received 5 [4 \<mapsto> replicate 32768 0] q (Copying 4 AtRead)))"
  "copy_step 2 (echo_received n m q (Copying r AtRead)) = Some (Ok ((), echo_received n m q (Copying r AtTake)))"
  "copy_step 2 (echo_received n [r \<mapsto> a] [[10, 20]] (Copying r AtTake)) =
     Some (Ok ((), echo_received n [r \<mapsto> [10, 20] @ drop (Suc (Suc 0)) a] [] (Copying r (AtAck (Suc (Suc 0))))))"
  by (simp_all add: copy_step_def run_simps echo_received_def echo_accepted_def set_copier_def pcb_Read_check_def pcb_Read_take_def
      on_chan_def chan_recv_def go_pcb1_def fill_buffer_def make_chan_def)

lemma echo_has_read:
  "\<exists>a. echo_run echo_g demo_key (echo_world (echo_received 5 a [] (Copying 4 (AtAck (Suc (Suc 0)))))) ((\<lambda>_. [])(2 := [10, 20])) (\<lambda>_. [])"
proof -
  note step = echo_run.goroutine [of echo_g demo_key _ _ _ 2]
  have "echo_run echo_g demo_key (echo_world echo_init) (\<lambda>_. []) (\<lambda>_. [])"
    by (rule echo_run.start) (simp_all add: echo_world_def echo_init_fields)
  then have "echo_run echo_g demo_key (echo_world echo_accepted) (\<lambda>_. []) (\<lambda>_. [])" by (rule echo_run.accept [OF _ echo_step1])
  then have "echo_run echo_g demo_key (echo_world (echo_received 4 Map.empty [[10, 20]] CopyStart)) ((\<lambda>_. [])(2 := [] @ [10, 20])) (\<lambda>_. [])"
    by (rule echo_run.recv [OF _ echo_step2]) (simp add: echo_world_def echo_accepted_def)
  then have "echo_run echo_g demo_key (echo_world (echo_received 5 [4 \<mapsto> replicate 32768 0] [[10, 20]] (Copying 4 AtRead)))
      ((\<lambda>_. [])(2 := [] @ [10, 20])) (\<lambda>_. [])"
    by (rule step) (simp add: in_go_def zoom_run echo_world_def echo_step3)
  then have "echo_run echo_g demo_key (echo_world (echo_received 5 [4 \<mapsto> replicate 32768 0] [[10, 20]] (Copying 4 AtTake)))
      ((\<lambda>_. [])(2 := [] @ [10, 20])) (\<lambda>_. [])"
    by (rule step) (simp add: in_go_def zoom_run echo_world_def echo_step3)
  then have "echo_run echo_g demo_key (echo_world (echo_received 5 [4 \<mapsto> [10, 20] @ drop (Suc (Suc 0)) (replicate 32768 0)] [] (Copying 4 (AtAck (Suc (Suc 0))))))
      ((\<lambda>_. [])(2 := [] @ [10, 20])) (\<lambda>_. [])"
    by (rule step) (simp add: in_go_def zoom_run echo_world_def echo_step3 del: drop_replicate)
  then show ?thesis by auto
qed

theorem echo_gives_back_witness:
  "\<exists>w. echo_run echo_g demo_key w ((\<lambda>_. [])(2 := [10, 20])) (\<lambda>_. []) \<and> held (app w) 2 = [10, 20]"
proof -
  from echo_has_read obtain a where
    run: "echo_run echo_g demo_key (echo_world (echo_received 5 a [] (Copying 4 (AtAck (Suc (Suc 0)))))) ((\<lambda>_. [])(2 := [10, 20])) (\<lambda>_. [])" by blast
  let ?w = "echo_world (echo_received 5 a [] (Copying 4 (AtAck (Suc (Suc 0)))))"
  have "go_pcbs (app ?w) 2 = Some go_pcb1" "gp_type go_pcb1 = TCP" by (simp_all add: echo_world_def echo_received_def echo_accepted_def go_pcb1_def)
  from echo_gives_back [OF echo_g_polite echo_g_def run this]
  have "held (app ?w) 2 = [10, 20]" by (simp add: go_pcb1_def echo_world_def echo_received_def)
  with run show ?thesis by blast
qed

end
