(* ===== verification/Csocks.thy ===== *)
theory Csocks
  imports Go_Addr
begin

text \<open>
  The program that connects the bridge to a proxy, \<open>csocks/csocks.go\<close>: where a connection is sent by scheme, port and
  address, the list of domains, the multiplexing of DNS queries, and the record of the addresses in DNS answers that
  later decides between proxy and direct. Its memory extends that of \<open>lwipcs.go\<close>. The processors behind it
  (\<open>core.Processor\<close>) and the parser of DNS messages (\<open>dns.Msg\<close>) are arguments. Debug messages are left out, except for
  what their arguments compute.
\<close>

section \<open>Data\<close>

text \<open>
  The connections a processor can be given: one of the bridge, a \<open>DNSConn\<close> with its \<open>base\<close>, a \<open>DNSRecordConn\<close> around its
  \<open>base\<close>. A \<open>DNSConn\<close> is a reference; \<open>base\<close> is never assigned again and part of it here.
\<close>

datatype rwc = PcbConn nat | DnsConn nat rwc | RecordConn rwc

text \<open>
  \<open>DNSConn\<close>. The key is the address of the client's connection in hexadecimal digits, a hyphen and the target, so it
  determines both; it is the pair of them here.
\<close>

record dns_conn =
  dc_key :: "rwc \<times> string"
  dc_readQueued :: "u8 list chan"
  dc_closed :: bool

text \<open>
  The objects of type \<open>DNSConn\<close>, \<open>conns\<close> of the \<open>DNSProcessor\<close> and the goroutines it has started, \<open>allIP\<close> of the
  \<open>DNSRecordProcessor\<close>, and \<open>list\<close> of the \<open>DNSGFW\<close>.
\<close>

record csocks = go_state +
  dns_conns :: "nat \<rightharpoonup> dns_conn"
  conns :: "rwc \<times> string \<rightharpoonup> nat"
  dns_readers :: "rwc list"
  allIP :: "string \<rightharpoonup> string"
  gfw_list :: "string \<rightharpoonup> string"

type_synonym 'x processor = "rwc \<Rightarrow> string \<Rightarrow> ('x csocks_scheme, string option) prog"

text \<open>A DNS message: the names asked for, and the answers; an A record has a name and a \<open>net.IP\<close>.\<close>

datatype dns_rr = RR_A string "u8 list" | RR_Other

record dns_msg =
  msg_question :: "string list"
  msg_answer :: "dns_rr list"

type_synonym dns_unpack = "u8 list \<Rightarrow> dns_msg option"

section \<open>Distribution\<close>

definition Dist_Add :: "('h \<Rightarrow> 'x processor option) \<Rightarrow> 'h \<Rightarrow> 'x processor \<Rightarrow> 'h \<Rightarrow> 'x processor option" where
  "Dist_Add handlers k h = handlers(k \<mapsto> h)"

definition no_processor :: "string \<Rightarrow> ('x csocks_scheme, string option) prog" where
  "no_processor target = ret (Some (''processor is not exist for '' @ target))"

text \<open>The text of an error of \<open>url.Parse\<close> is not modelled.\<close>

definition PortDist_ProcConn :: "(string \<Rightarrow> 'x processor option) \<Rightarrow> 'x processor" where
  "PortDist_ProcConn handlers raw target = (case url_parse target of
       None \<Rightarrow> ret (Some ''parse'')
     | Some u \<Rightarrow> (case handlers (url_port u) of
           Some h \<Rightarrow> h raw target
         | None \<Rightarrow> (case handlers ''*'' of
               Some h \<Rightarrow> h raw target
             | None \<Rightarrow> no_processor target)))"

definition SchemeDist_ProcConn :: "(string \<Rightarrow> 'x processor option) \<Rightarrow> 'x processor" where
  "SchemeDist_ProcConn handlers raw target = (case url_parse target of
       None \<Rightarrow> ret (Some ''parse'')
     | Some u \<Rightarrow> (case handlers (u_scheme u) of
           Some h \<Rightarrow> h raw target
         | None \<Rightarrow> no_processor target))"

section \<open>The list of domains\<close>

definition NewDNSGFW :: "string \<rightharpoonup> string" where
  "NewDNSGFW = [''*'' \<mapsto> ''dns://local'']"

definition DNSGFW_Add :: "string \<Rightarrow> string \<Rightarrow> ('x csocks_scheme, unit) prog" where
  "DNSGFW_Add list target = modify (\<lambda>g. g\<lparr>gfw_list := (gfw_list g)(list \<mapsto> target)\<rparr>)"

text \<open>The value of a key that is not in the map is the empty string.\<close>

definition gfw_default :: "(string \<rightharpoonup> string) \<Rightarrow> string" where
  "gfw_default l = (case l ''*'' of None \<Rightarrow> '''' | Some t \<Rightarrow> t)"

definition gfw_parts :: "string \<Rightarrow> string list" where
  "gfw_parts domain = (let parts = split_after_n (CHR ''.'') 3 domain in
     if length parts = 3 then tl parts else parts)"

definition backslash :: char where "backslash = char_of (92 :: nat)"

definition gfw_pattern :: "string \<Rightarrow> string \<Rightarrow> string" where
  "gfw_pattern a b = ''['' @ [backslash] @ ''|'' @ [backslash] @ ''.]*'' @ a @ [backslash] @ ''.'' @ b @ ''$''"

text \<open>
  \<open>Find\<close>. \<open>order\<close> is the map's content in the order \<open>range\<close> gives it, which Go leaves open; \<open>other\<close> is \<open>regexp\<close> on patterns beyond
  the syntax modelled.
\<close>

definition DNSGFW_Find ::
  "(string \<Rightarrow> (string \<Rightarrow> bool) option) \<Rightarrow> (string \<times> string) list \<Rightarrow> string \<Rightarrow> ('x csocks_scheme, string) prog" where
  "DNSGFW_Find other order domain = bnd (gets gfw_list) (\<lambda>l.
     if length (split_after_n (CHR ''.'') 3 domain) < 2 then ret (gfw_default l)
     else
       (let parts = map (trim (CHR ''.'')) (gfw_parts domain) in
        case regexp_compile other (gfw_pattern (parts ! 0) (parts ! 1)) of
          None \<Rightarrow> fail (GoPanic ''regexp: Compile'')
        | Some matches \<Rightarrow> (case find (\<lambda>(key, val). matches key) order of
              Some (key, val) \<Rightarrow> ret val
            | None \<Rightarrow> ret (gfw_default l))))"

section \<open>The start\<close>

text \<open>The memory after \<open>NewDNSProcessor\<close>, \<open>NewDNSRecordProcessor\<close> and \<open>NewDNSGFW\<close>.\<close>

definition csocks_init :: csocks where
  "csocks_init = go_state.extend go_start \<lparr>dns_conns = Map.empty, conns = Map.empty, dns_readers = [], allIP = Map.empty,
     gfw_list = NewDNSGFW\<rparr>"

section \<open>The record of addresses\<close>

definition Record :: "string \<Rightarrow> string \<Rightarrow> ('x csocks_scheme, unit) prog" where
  "Record key val = modify (\<lambda>g. g\<lparr>allIP := (allIP g)(key \<mapsto> val)\<rparr>)"

definition IsRecorded :: "string \<Rightarrow> ('x csocks_scheme, bool) prog" where
  "IsRecorded key = gets (\<lambda>g. allIP g key \<noteq> None)"

definition Record_Clear :: "('x csocks_scheme, unit) prog" where
  "Record_Clear = modify (\<lambda>g. g\<lparr>allIP := Map.empty\<rparr>)"

text \<open>The addresses in the A records of a message.\<close>

fun record_answers :: "dns_rr list \<Rightarrow> ('x csocks_scheme, unit) prog" where
  "record_answers [] = ret ()"
| "record_answers (RR_A name ip # rs) = seq (Record (ip_string ip) name) (record_answers rs)"
| "record_answers (RR_Other # rs) = record_answers rs"

section \<open>DNS connections\<close>

definition NewDNSConn :: "rwc \<times> string \<Rightarrow> ('x csocks_scheme, nat) prog" where
  "NewDNSConn key = (\<lambda>g. let i = go_next g in
     Some (Ok (i, g\<lparr>go_next := i + 1,
       dns_conns := (dns_conns g)(i \<mapsto> \<lparr>dc_key = key, dc_readQueued = make_chan 1024, dc_closed = False\<rparr>)\<rparr>)))"

definition on_readQueued :: "nat \<Rightarrow> (u8 list chan, 'r) prog \<Rightarrow> ('x csocks_scheme, 'r) prog" where
  "on_readQueued c m = bnd (go_deref dns_conns c) (\<lambda>d.
     zoom (\<lambda>_. dc_readQueued d) (\<lambda>q g. g\<lparr>dns_conns := (dns_conns g)(c \<mapsto> d\<lparr>dc_readQueued := q\<rparr>)\<rparr>) m)"

definition DNSConn_Read :: "nat \<Rightarrow> nat \<Rightarrow> ('x csocks_scheme, u8 list \<times> string option) prog" where
  "DNSConn_Read c n = bnd (on_readQueued c chan_recv) (\<lambda>r. case r of
       None \<Rightarrow> ret ([], Some ''closed'')
     | Some data \<Rightarrow> if n < length data then ret ([], Some ''buffer is too small'') else ret (data, None))"

definition DNSProcessor_close :: "rwc \<times> string \<Rightarrow> ('x csocks_scheme, unit) prog" where
  "DNSProcessor_close key = modify (\<lambda>g. g\<lparr>conns := (conns g)(key := None)\<rparr>)"

definition DNSConn_Close :: "nat \<Rightarrow> ('x csocks_scheme, string option) prog" where
  "DNSConn_Close c = bnd (go_deref dns_conns c) (\<lambda>d.
     if dc_closed d then ret (Some ''closed'')
     else
       seq (modify (\<lambda>g. g\<lparr>dns_conns := (dns_conns g)(c \<mapsto> d\<lparr>dc_closed := True\<rparr>)\<rparr>))
      (seq (on_readQueued c chan_close)
      (seq (DNSProcessor_close (dc_key d))
      (ret None))))"

text \<open>\<open>Read\<close> of a \<open>PCB\<close>, when nothing happens in between.\<close>

definition pcb_Read :: "nat \<Rightarrow> nat \<Rightarrow> ('a go_state_scheme, u8 list \<times> string option) prog" where
  "pcb_Read i n = bnd (pcb_Read_data i n) (\<lambda>(d, err).
     seq (whenc (d \<noteq> []) (pcb_Read_ack i (int (length d)))) (ret (d, err)))"

text \<open>\<open>Read\<close>, \<open>Write\<close> and \<open>Close\<close> of the connections by what they are.\<close>

fun conn_Read :: "rwc \<Rightarrow> nat \<Rightarrow> ('x csocks_scheme, u8 list \<times> string option) prog" where
  "conn_Read (PcbConn i) n = pcb_Read i n"
| "conn_Read (DnsConn c base) n = DNSConn_Read c n"
| "conn_Read (RecordConn base) n = conn_Read base n"

fun conn_Write :: "dns_unpack \<Rightarrow> rwc \<Rightarrow> slice \<Rightarrow> ('x csocks_scheme, int \<times> string option) prog" where
  "conn_Write U (PcbConn i) p = pcb_Write i p"
| "conn_Write U (DnsConn c base) p = conn_Write U base p"
| "conn_Write U (RecordConn base) p =
     bnd (slice_bytes p) (\<lambda>bs.
     seq (case U bs of None \<Rightarrow> ret () | Some msg \<Rightarrow> record_answers (msg_answer msg))
    (conn_Write U base p))"

fun conn_Close :: "rwc \<Rightarrow> ('x csocks_scheme, string option) prog" where
  "conn_Close (PcbConn i) = pcb_Close i"
| "conn_Close (DnsConn c base) = DNSConn_Close c"
| "conn_Close (RecordConn base) = conn_Close base"

section \<open>Processors\<close>

text \<open>\<open>recorded\<close> is \<open>IsRecorded\<close> of the field \<open>Record\<close>, or nothing if that is nil.\<close>

definition PAC_ProcConn ::
  "'x processor \<Rightarrow> 'x processor \<Rightarrow> (string \<Rightarrow> ('x csocks_scheme, bool) prog) option \<Rightarrow> 'x processor" where
  "PAC_ProcConn proxy direct recorded r target = (case url_parse target of
       None \<Rightarrow> ret (Some ''parse'')
     | Some u \<Rightarrow>
         if u_host u = ''proxy'' then proxy r target
         else bnd (case recorded of None \<Rightarrow> ret False | Some f \<Rightarrow> f (url_hostname u)) (\<lambda>b.
           if b then proxy r target else direct r target))"

definition DNSRecord_ProcConn :: "'x processor \<Rightarrow> 'x processor" where
  "DNSRecord_ProcConn next r target = next (RecordConn r) target"

text \<open>\<open>go d.proc(r)\<close>.\<close>

definition DNSProcessor_ProcConn :: "'x processor" where
  "DNSProcessor_ProcConn r target = seq (modify (\<lambda>g. g\<lparr>dns_readers := dns_readers g @ [r]\<rparr>)) (ret None)"

text \<open>
  A round of \<open>proc\<close> in its parts: the query and its target, or nothing when the goroutine ends; the connection for
  the target, new if there is none, or nothing when its processor fails; storing a new one; the query for it.
\<close>

definition dns_proc_query ::
  "dns_unpack \<Rightarrow> (string \<Rightarrow> ('x csocks_scheme, string) prog) \<Rightarrow> rwc \<Rightarrow> ('x csocks_scheme, (u8 list \<times> string) option) prog" where
  "dns_proc_query U Target r = bnd (conn_Read r 4096) (\<lambda>(buf, err).
     if err \<noteq> None then ret None
     else case U buf of
         None \<Rightarrow> ret None
       | Some msg \<Rightarrow> (case msg_question msg of
             [] \<Rightarrow> fail (GoPanic ''index out of range'')
           | q # _ \<Rightarrow> bnd (Target q) (\<lambda>target. ret (Some (buf, target)))))"

definition dns_proc_conn ::
  "'x processor \<Rightarrow> rwc \<Rightarrow> string \<Rightarrow> ('x csocks_scheme, (nat \<times> bool) option) prog" where
  "dns_proc_conn next r target = bnd (gets (\<lambda>g. conns g (r, target))) (\<lambda>old. case old of
       Some c \<Rightarrow> ret (Some (c, False))
     | None \<Rightarrow>
         bnd (NewDNSConn (r, target)) (\<lambda>c.
         bnd (next (DnsConn c r) target) (\<lambda>err.
         ret (if err \<noteq> None then None else Some (c, True)))))"

definition dns_proc_store :: "rwc \<Rightarrow> string \<Rightarrow> nat \<Rightarrow> ('x csocks_scheme, unit) prog" where
  "dns_proc_store r target c = modify (\<lambda>g. g\<lparr>conns := (conns g)((r, target) \<mapsto> c)\<rparr>)"

definition dns_proc_queue :: "nat \<Rightarrow> u8 list \<Rightarrow> ('x csocks_scheme, unit) prog" where
  "dns_proc_queue c buf = on_readQueued c (chan_send buf)"

text \<open>The whole round, when nothing happens in between: whether another follows.\<close>

definition dns_proc_round ::
  "dns_unpack \<Rightarrow> (string \<Rightarrow> ('x csocks_scheme, string) prog) \<Rightarrow> 'x processor \<Rightarrow> rwc \<Rightarrow> ('x csocks_scheme, bool) prog" where
  "dns_proc_round U Target next r = bnd (dns_proc_query U Target r) (\<lambda>q. case q of
       None \<Rightarrow> ret False
     | Some (buf, target) \<Rightarrow> bnd (dns_proc_conn next r target) (\<lambda>k. case k of
           None \<Rightarrow> ret True
         | Some (c, new) \<Rightarrow>
             seq (whenc new (dns_proc_store r target c))
            (seq (dns_proc_queue c buf)
            (ret True))))"

section \<open>The handler\<close>

definition pac :: "'x processor \<Rightarrow> 'x processor \<Rightarrow> 'x processor" where
  "pac proxy direct = PAC_ProcConn proxy direct (Some IsRecorded)"

text \<open>\<open>Next\<close> of \<open>NewLwipHandler\<close>. The \<open>DNSProcessor\<close> in it goes on with \<open>dns_next\<close>.\<close>

definition dns_next :: "'x processor \<Rightarrow> 'x processor \<Rightarrow> 'x processor" where
  "dns_next proxy direct = DNSRecord_ProcConn (pac proxy direct)"

definition NewLwipHandler :: "'x processor \<Rightarrow> 'x processor \<Rightarrow> 'x processor" where
  "NewLwipHandler proxy direct =
     (let port = PortDist_ProcConn (Dist_Add (Dist_Add Map.empty ''53'' DNSProcessor_ProcConn) ''*'' (pac proxy direct)) in
      SchemeDist_ProcConn (Dist_Add (Dist_Add Map.empty ''tcp'' (pac proxy direct)) ''udp'' port))"

text \<open>The type of a connection as the string it is.\<close>

definition ptype_text :: "ptype \<Rightarrow> string" where
  "ptype_text t = (case t of TCP \<Rightarrow> ''tcp'' | UDP \<Rightarrow> ''udp'')"

definition LwipHandler_OnAccept ::
  "'x csocks_scheme go_cs \<Rightarrow> 'x processor \<Rightarrow> nat \<Rightarrow> ('x csocks_scheme world, unit) prog" where
  "LwipHandler_OnAccept G Next i =
     seq (ignore (pcb_RemoteAddr G i))
    (bnd (pcb_LocalAddr G i) (\<lambda>local.
     bnd (in_go (go_deref go_pcbs i)) (\<lambda>p.
     seq (ignore (in_go (Next (PcbConn i) (ptype_text (gp_type p) @ ''://'' @ local))))
    (seq (ignore (pcb_RemoteAddr G i))
    (ignore (pcb_LocalAddr G i))))))"

definition LwipHandler_OnClose :: "'x csocks_scheme go_cs \<Rightarrow> nat \<Rightarrow> ('x csocks_scheme world, unit) prog" where
  "LwipHandler_OnClose G i = ignore (pcb_RemoteAddr G i)"

definition LwipHandler :: "'x csocks_scheme go_cs \<Rightarrow> 'x processor \<Rightarrow> 'x csocks_ext go_handler" where
  "LwipHandler G Next = \<lparr>on_accept = LwipHandler_OnAccept G Next, on_close = LwipHandler_OnClose G\<rparr>"

section \<open>Programs\<close>

text \<open>
  \<open>ProxyDialer\<close> of \<open>csocks/mobile/mobile.go\<close>, and the handler its \<open>go_cs_proc\<close> installs; \<open>direct\<close> is the dialer of the library.
\<close>

definition ProxyDialer_ProcConn :: "'x processor" where
  "ProxyDialer_ProcConn r target = fail (GoPanic ''not supported'')"

definition mobile_handler :: "'x csocks_scheme go_cs \<Rightarrow> 'x processor \<Rightarrow> 'x csocks_ext go_handler" where
  "mobile_handler G direct = LwipHandler G (NewLwipHandler ProxyDialer_ProcConn direct)"

end
