(* ===== verification/Csocks_Run.thy ===== *)
theory Csocks_Run
  imports Csocks Go_Tcp
begin

text \<open>
  Runs of \<open>csocks.go\<close>: where accepted connections are sent, the accesses of its goroutines as a step relation with its
  invariant, and the DNS goroutine. The processors are arguments; the locale \<open>processor\<close> is the contract they keep
  where their effect on the memory matters.
\<close>

section \<open>Where a connection goes\<close>

lemma addr_text_ip: "length ip = 4 \<or> length ip = 16 \<Longrightarrow> addr_text ip (int p) = join_host_port (ip_string ip) (dec p)"
  by (auto simp: addr_text_def itoa_def)

lemma dec_53: "dec 53 = ''53''" "dec p \<noteq> ''*''"
proof -
  show "dec 53 = ''53''" by code_simp
  have "\<not> is_digit (CHR ''*'')" by (simp add: is_digit_def)
  then show "dec p \<noteq> ''*''" using dec_digits [of "CHR ''*''" p] by auto
qed

lemma not_proxy: "join_host_port h p \<noteq> ''proxy''"
proof -
  have "CHR '':'' \<in> set (join_host_port h p)" by (simp add: join_host_port_def)
  then show ?thesis by auto
qed

lemma pac_address:
  assumes "list_all ip_char h" and "s = ''tcp'' \<or> s = ''udp''"
  shows "pac proxy direct r (s @ ''://'' @ join_host_port h (dec p)) g =
     (if allIP g h \<noteq> None then proxy else direct) r (s @ ''://'' @ join_host_port h (dec p)) g"
  unfolding pac_def PAC_ProcConn_def address_url(1) [OF assms]
  by (simp add: not_proxy url_hostname_def address_url(2) [OF assms(1)] IsRecorded_def run_simps)

lemma NewLwipHandler_routes:
  assumes "length ip = 4 \<or> length ip = 16"
  shows "NewLwipHandler proxy direct r (ptype_text t @ ''://'' @ addr_text ip (int p)) g =
     (if t = UDP \<and> p = 53 then DNSProcessor_ProcConn r (ptype_text t @ ''://'' @ addr_text ip (int p)) g
      else (if allIP g (ip_string ip) \<noteq> None then proxy else direct) r (ptype_text t @ ''://'' @ addr_text ip (int p)) g)"
proof -
  note chars = ip_string_chars [OF assms]
  have scheme: "ptype_text t = ''tcp'' \<or> ptype_text t = ''udp''" by (cases t) (simp_all add: ptype_text_def)
  have port: "dec p = ''53'' \<longleftrightarrow> p = 53" using dec_inj [of p 53] dec_53(1) by auto
  note url = address_url(1) [OF chars scheme]
  show ?thesis
    unfolding addr_text_ip [OF assms] NewLwipHandler_def SchemeDist_ProcConn_def url Let_def
    using pac_address [OF chars scheme, of proxy direct r p g]
    by (cases t) (simp_all add: ptype_text_def Dist_Add_def PortDist_ProcConn_def
        address_url(1) [OF chars, of "''udp''", simplified] url_port_def address_url(2) [OF chars] port dec_53)
qed

section \<open>Runs\<close>

text \<open>
  What the goroutines do with the memory of \<open>csocks.go\<close>, one access after the other. The second component collects the
  addresses in the answers of the messages that were written through a \<open>DNSRecordConn\<close> since the record was
  last cleared.
\<close>

definition csocks_part :: "'x csocks_scheme \<Rightarrow> (nat \<rightharpoonup> dns_conn) \<times> (rwc \<times> string \<rightharpoonup> nat) \<times> rwc list \<times> (string \<rightharpoonup> string) \<times> (string \<rightharpoonup> string)" where
  "csocks_part g = (dns_conns g, conns g, dns_readers g, allIP g, gfw_list g)"

definition answered :: "dns_rr list \<Rightarrow> u8 list set" where
  "answered rs = {ip. \<exists>name. RR_A name ip \<in> set rs}"

inductive csocks_step :: "dns_unpack \<Rightarrow> 'x csocks_scheme \<times> u8 list set \<Rightarrow> 'x csocks_scheme \<times> u8 list set \<Rightarrow> bool" for U where
  lwip: "csocks_part g' = csocks_part g \<Longrightarrow> go_next g \<le> go_next g' \<Longrightarrow> csocks_step U (g, A) (g', A)"
| reader: "DNSProcessor_ProcConn r t g = Some (Ok (e, g')) \<Longrightarrow> csocks_step U (g, A) (g', A)"
| create: "NewDNSConn key g = Some (Ok (c, g')) \<Longrightarrow> csocks_step U (g, A) (g', A)"
| store: "dns_conns g c = Some d \<Longrightarrow> dc_key d = (r, t) \<Longrightarrow> dns_proc_store r t c g = Some (Ok (e, g')) \<Longrightarrow> csocks_step U (g, A) (g', A)"
| queue: "dns_proc_queue c buf g = Some (Ok (e, g')) \<Longrightarrow> csocks_step U (g, A) (g', A)"
| read: "DNSConn_Read c n g = Some (Ok (x, g')) \<Longrightarrow> csocks_step U (g, A) (g', A)"
| close: "DNSConn_Close c g = Some (Ok (e, g')) \<Longrightarrow> csocks_step U (g, A) (g', A)"
| answer: "U bs = Some m \<Longrightarrow> record_answers (msg_answer m) g = Some (Ok (e, g')) \<Longrightarrow>
    csocks_step U (g, A) (g', A \<union> answered (msg_answer m))"
| clear: "Record_Clear g = Some (Ok (e, g')) \<Longrightarrow> csocks_step U (g, A) (g', {})"
| add: "DNSGFW_Add l t g = Some (Ok (e, g')) \<Longrightarrow> csocks_step U (g, A) (g', A)"

definition csocks_start :: "'x csocks_scheme \<Rightarrow> bool" where
  "csocks_start g \<longleftrightarrow> csocks_part g = (Map.empty, Map.empty, [], Map.empty, NewDNSGFW)"

definition csocks_reach :: "dns_unpack \<Rightarrow> 'x csocks_scheme \<Rightarrow> u8 list set \<Rightarrow> bool" where
  "csocks_reach U g A \<longleftrightarrow> (\<exists>g0. csocks_start g0 \<and> (csocks_step U)\<^sup>*\<^sup>* (g0, {}) (g, A))"

definition recorded :: "'x csocks_scheme \<Rightarrow> u8 list set \<Rightarrow> bool" where
  "recorded g A \<longleftrightarrow> dom (allIP g) = ip_string ` A"

lemma recorded_upd [simp]:
  "recorded (g\<lparr>dns_conns := x\<rparr>) A = recorded g A" "recorded (g\<lparr>conns := y\<rparr>) A = recorded g A"
  "recorded (g\<lparr>dns_readers := z\<rparr>) A = recorded g A" "recorded (g\<lparr>gfw_list := l\<rparr>) A = recorded g A"
  "recorded (g\<lparr>go_next := n\<rparr>) A = recorded g A"
  by (simp_all add: recorded_def)

definition dns_conn_ok :: "dns_conn \<Rightarrow> bool" where
  "dns_conn_ok d \<longleftrightarrow> chan_wf (dc_readQueued d) \<and> ch_cap (dc_readQueued d) = 1024 \<and> ch_closed (dc_readQueued d) = dc_closed d"

definition csocks_inv :: "'x csocks_scheme \<Rightarrow> u8 list set \<Rightarrow> bool" where
  "csocks_inv g A \<longleftrightarrow>
     recorded g A \<and>
     (\<forall>k c. conns g k = Some c \<longrightarrow> (\<exists>d. dns_conns g c = Some d \<and> dc_key d = k)) \<and>
     (\<forall>c d. dns_conns g c = Some d \<longrightarrow> c < go_next g \<and> dns_conn_ok d)"

lemma record_answers_run:
  "\<exists>f. record_answers rs g = Some (Ok ((), g\<lparr>allIP := f\<rparr>)) \<and> dom f = dom (allIP g) \<union> ip_string ` answered rs"
proof (induction rs arbitrary: g rule: record_answers.induct)
  case 1
  then show ?case by (intro exI [of _ "allIP g"]) (simp add: run_simps answered_def)
next
  case (2 name ip rs)
  obtain f where f: "record_answers rs (g\<lparr>allIP := (allIP g)(ip_string ip \<mapsto> name)\<rparr>) = Some (Ok ((), g\<lparr>allIP := f\<rparr>))"
      "dom f = insert (ip_string ip) (dom (allIP g)) \<union> ip_string ` answered rs"
    using 2 [of "g\<lparr>allIP := (allIP g)(ip_string ip \<mapsto> name)\<rparr>"] by (auto simp del: fun_upd_apply)
  moreover have "answered (RR_A name ip # rs) = insert ip (answered rs)" by (auto simp: answered_def)
  ultimately show ?case by (auto simp: Record_def run_simps)
next
  case (3 rs)
  moreover have "answered (RR_Other # rs) = answered rs" by (auto simp: answered_def)
  ultimately show ?case by simp
qed

lemma csocks_inv_upd:
  assumes inv: "csocks_inv g A" and d: "dns_conns g c = Some d" and d': "dc_key d' = dc_key d" "dns_conn_ok d'"
  shows "csocks_inv (g\<lparr>dns_conns := (dns_conns g)(c \<mapsto> d')\<rparr>) A"
proof -
  from inv have keys: "\<And>k c. conns g k = Some c \<Longrightarrow> \<exists>d. dns_conns g c = Some d \<and> dc_key d = k"
    and objs: "\<And>c d. dns_conns g c = Some d \<Longrightarrow> c < go_next g \<and> dns_conn_ok d" and "recorded g A"
    by (simp_all add: csocks_inv_def del: split_paired_All)
  moreover have "\<exists>e. ((dns_conns g)(c \<mapsto> d')) b = Some e \<and> dc_key e = k" if "conns g k = Some b" for k b
    using keys [OF that] d d'(1) by auto
  moreover have "b < go_next g \<and> dns_conn_ok e" if "((dns_conns g)(c \<mapsto> d')) b = Some e" for b e
    using that objs [of c d] objs [of b e] d d'(2) by (auto split: if_splits)
  ultimately show ?thesis by (simp add: csocks_inv_def del: split_paired_All fun_upd_apply)
qed

lemma csocks_inv_delete: "csocks_inv g A \<Longrightarrow> csocks_inv (g\<lparr>conns := (conns g)(k := None)\<rparr>) A"
  by (simp add: csocks_inv_def del: split_paired_All)

lemma on_readQueued_Ok [ok_simps]:
  "on_readQueued c m g = Some (Ok (x, g')) \<longleftrightarrow> (\<exists>d q. dns_conns g c = Some d \<and> m (dc_readQueued d) = Some (Ok (x, q)) \<and>
     g' = g\<lparr>dns_conns := (dns_conns g)(c \<mapsto> d\<lparr>dc_readQueued := q\<rparr>)\<rparr>)"
  by (auto simp: on_readQueued_def ok_simps)

text \<open>Closing a \<open>DNSConn\<close> does not panic.\<close>

definition dns_closed :: "nat \<Rightarrow> dns_conn \<Rightarrow> 'x csocks_scheme \<Rightarrow> 'x csocks_scheme" where
  "dns_closed c d g = g\<lparr>dns_conns := (dns_conns g)(c \<mapsto> d\<lparr>dc_closed := True, dc_readQueued := (dc_readQueued d)\<lparr>ch_closed := True\<rparr>\<rparr>),
     conns := (conns g)(dc_key d := None)\<rparr>"

lemma DNSConn_Close_run:
  "dns_conns g c = Some d \<Longrightarrow> dns_conn_ok d \<Longrightarrow> DNSConn_Close c g =
     Some (Ok (if dc_closed d then (Some ''closed'', g) else (None, dns_closed c d g)))"
  by (simp add: DNSConn_Close_def on_readQueued_def go_deref_def chan_close_def DNSProcessor_close_def dns_conn_ok_def
      dns_closed_def run_simps)

lemma csocks_step_inv:
  assumes "csocks_step U (g, A) (g', A')" and "csocks_inv g A"
  shows "csocks_inv g' A'"
proof -
  from assms(2) have rec: "recorded g A" and keys: "\<And>k c. conns g k = Some c \<Longrightarrow> \<exists>d. dns_conns g c = Some d \<and> dc_key d = k"
    and objs: "\<And>c d. dns_conns g c = Some d \<Longrightarrow> c < go_next g \<and> dns_conn_ok d"
    by (simp_all add: csocks_inv_def del: split_paired_All)
  show ?thesis
  using assms(1)
proof (cases rule: csocks_step.cases)
  case lwip
  then show ?thesis using assms(2) by (fastforce simp: csocks_inv_def recorded_def csocks_part_def)
next
  case (reader r t e)
  then show ?thesis using assms(2) by (auto simp: csocks_inv_def DNSProcessor_ProcConn_def run_simps)
next
  case (create key c)
  define d where "d = \<lparr>dc_key = key, dc_readQueued = make_chan 1024, dc_closed = False\<rparr>"
  from create have g': "g' = g\<lparr>go_next := Suc (go_next g), dns_conns := (dns_conns g)(go_next g \<mapsto> d)\<rparr>" "A' = A"
    by (auto simp: NewDNSConn_def Let_def d_def)
  have new: "dns_conns g (go_next g) = None" using objs [of "go_next g"] by (cases "dns_conns g (go_next g)") auto
  have "\<exists>d. dns_conns g' c = Some d \<and> dc_key d = k" if "conns g' k = Some c" for k c
  proof -
    from that have "conns g k = Some c" by (simp add: g')
    then obtain d where "dns_conns g c = Some d" "dc_key d = k" using keys by blast
    moreover from this(1) new have "c \<noteq> go_next g" by auto
    ultimately show ?thesis by (simp add: g')
  qed
  moreover have "c < go_next g' \<and> dns_conn_ok e" if "dns_conns g' c = Some e" for c e
    using that objs [of c e] by (cases "c = go_next g") (auto simp: g' d_def make_chan_def chan_wf_def dns_conn_ok_def)
  moreover have "recorded g' A'" using assms(2) by (simp add: csocks_inv_def g')
  ultimately show ?thesis unfolding csocks_inv_def by blast
next
  case (store c d r t)
  then show ?thesis using assms(2) by (auto simp: csocks_inv_def dns_proc_store_def run_simps split: if_splits)
next
  case (queue c buf)
  then obtain d q where "dns_conns g c = Some d" "chan_send buf (dc_readQueued d) = Some (Ok ((), q))"
      "g' = g\<lparr>dns_conns := (dns_conns g)(c \<mapsto> d\<lparr>dc_readQueued := q\<rparr>)\<rparr>" "A' = A"
    by (auto simp: dns_proc_queue_def ok_simps)
  then show ?thesis using objs [of c d]
    by (auto intro!: csocks_inv_upd [OF assms(2)] simp: dns_conn_ok_def chan_send_def chan_wf_def split: if_splits)
next
  case (read c n x)
  then obtain d q y where "dns_conns g c = Some d" "chan_recv (dc_readQueued d) = Some (Ok (y, q))"
      "g' = g\<lparr>dns_conns := (dns_conns g)(c \<mapsto> d\<lparr>dc_readQueued := q\<rparr>)\<rparr>" "A' = A"
    by (auto simp: DNSConn_Read_def ok_simps split: option.splits if_splits)
  then show ?thesis using objs [of c d]
    by (auto intro!: csocks_inv_upd [OF assms(2)] simp: dns_conn_ok_def chan_recv_def chan_wf_def split: if_splits list.splits)
next
  case (close c e)
  then obtain d where d: "dns_conns g c = Some d" and A': "A' = A" by (auto simp: DNSConn_Close_def ok_simps)
  show ?thesis
  proof (cases "dc_closed d")
    case True
    with close d show ?thesis using assms(2) by (auto simp: DNSConn_Close_def ok_simps)
  next
    case False
    define d' where "d' = d\<lparr>dc_closed := True, dc_readQueued := (dc_readQueued d)\<lparr>ch_closed := True\<rparr>\<rparr>"
    have "g' = dns_closed c d g" using close False DNSConn_Close_run [OF d] objs [OF d] by simp
    then have "g' = (g\<lparr>dns_conns := (dns_conns g)(c \<mapsto> d')\<rparr>)\<lparr>conns := (conns (g\<lparr>dns_conns := (dns_conns g)(c \<mapsto> d')\<rparr>))(dc_key d := None)\<rparr>"
      by (simp add: dns_closed_def d'_def)
    moreover have "csocks_inv (g\<lparr>dns_conns := (dns_conns g)(c \<mapsto> d')\<rparr>) A"
      using objs [OF d] by (intro csocks_inv_upd [OF assms(2) d]) (auto simp: d'_def dns_conn_ok_def chan_wf_def)
    ultimately show ?thesis unfolding A' by (metis csocks_inv_delete)
  qed
next
  case (answer bs m e)
  obtain f where "record_answers (msg_answer m) g = Some (Ok ((), g\<lparr>allIP := f\<rparr>))"
      "dom f = dom (allIP g) \<union> ip_string ` answered (msg_answer m)"
    using record_answers_run by blast
  then show ?thesis using answer assms(2) by (simp add: csocks_inv_def recorded_def image_Un)
next
  case (clear e)
  then have "g' = g\<lparr>allIP := Map.empty\<rparr>" "A' = {}" by (simp_all add: Record_Clear_def run_simps)
  then show ?thesis using assms(2) by (simp add: csocks_inv_def recorded_def)
next
  case (add l t e)
  then show ?thesis using assms(2) by (auto simp: csocks_inv_def DNSGFW_Add_def run_simps)
qed
qed

lemma csocks_steps_inv:
  assumes "(csocks_step U)\<^sup>*\<^sup>* (g, A) (g', A')" and "csocks_inv g A"
  shows "csocks_inv g' A'"
  using assms(1) by (induction rule: rtranclp_induct2) (auto intro: csocks_step_inv assms(2))

lemma csocks_reach_inv: "csocks_reach U g A \<Longrightarrow> csocks_inv g A"
proof -
  assume "csocks_reach U g A"
  then obtain g0 where "csocks_start g0" and steps: "(csocks_step U)\<^sup>*\<^sup>* (g0, {}) (g, A)" by (auto simp: csocks_reach_def)
  then have "csocks_inv g0 {}" by (simp add: csocks_start_def csocks_part_def csocks_inv_def recorded_def)
  with steps show ?thesis by (rule csocks_steps_inv)
qed

section \<open>The handlers as steps\<close>

text \<open>The operations of the bridge's connections do not touch the memory of \<open>csocks.go\<close>.\<close>

definition apart :: "('x csocks_scheme, 'r) prog \<Rightarrow> bool" where
  "apart m \<longleftrightarrow> (\<forall>g x g'. m g = Some (Ok (x, g')) \<longrightarrow> csocks_part g' = csocks_part g \<and> go_next g \<le> go_next g')"

named_theorems apart_intros \<open>programs that do not touch the memory of csocks.go\<close>

lemma apart_basic [apart_intros]:
  "apart (ret x)" "apart (fail f)" "apart (gets h)" "apart (go_deref hh i)"
  by (simp_all add: apart_def run_simps go_deref_def split: option.splits)

lemma apart_bnd [apart_intros]:
  assumes "apart m" and "\<And>x. apart (k x)"
  shows "apart (bnd m k)"
  using assms unfolding apart_def ok_simps by (metis order_trans)

lemma apart_seq [apart_intros]: "apart m \<Longrightarrow> apart n \<Longrightarrow> apart (seq m n)"
  unfolding seq_def by (rule apart_bnd)

lemma apart_parts [apart_intros]:
  "apart m \<Longrightarrow> apart (ignore m)" "(b \<Longrightarrow> apart n) \<Longrightarrow> apart (whenc b n)"
  by (auto simp: ignore_def whenc_def intro: apart_intros)

lemma apart_upd [apart_intros]:
  "apart (on_chan k q)" "apart (on_sendWait i s)" "apart (set_pcb_field i f)"
  "apart (zoom recvedQueue (\<lambda>c g. g\<lparr>recvedQueue := c\<rparr>) r)" "apart (zoom sendQueue (\<lambda>c g. g\<lparr>sendQueue := c\<rparr>) t)"
  "apart (zoom closeQueue (\<lambda>c g. g\<lparr>closeQueue := c\<rparr>) u)"
  by (auto simp: apart_def ok_simps csocks_part_def)

lemma apart_lock [apart_intros]: "apart (pcb_lock i)" "apart (pcb_unlock i)"
  by (auto simp: apart_def ok_simps csocks_part_def)

lemma apart_pcb:
  "apart (pcb_Read i n)" "apart (pcb_Write i p)" "apart (pcb_Close i)"
proof -
  have chk: "apart (pcb_Read_check i)" "apart (pcb_Read_take i n)" "apart (pcb_Read_ack i l)" for l
    unfolding pcb_Read_check_def pcb_Read_take_def pcb_Read_ack_def
    by (intro apart_intros; simp split: option.split; intro conjI impI allI apart_intros)+
  show "apart (pcb_Read i n)" unfolding pcb_Read_def pcb_Read_data_def
    by (intro apart_intros chk; simp split: prod.split; intro conjI impI allI apart_intros chk)
  show "apart (pcb_Write i p)"
    unfolding pcb_Write_def pcb_Write_check_def pcb_Write_lock_def pcb_Write_queue_def pcb_Write_wait_def pcb_Write_end_def
    by (intro apart_intros; simp split: option.split; intro conjI impI allI apart_intros)
  show "apart (pcb_Close i)" unfolding pcb_Close_def pcb_close_def
    by (intro apart_intros; simp; intro conjI impI allI apart_intros)
qed

abbreviation csocks_steps :: "dns_unpack \<Rightarrow> 'x csocks_scheme \<times> u8 list set \<Rightarrow> 'x csocks_scheme \<times> u8 list set \<Rightarrow> bool" where
  "csocks_steps U \<equiv> (csocks_step U)\<^sup>*\<^sup>*"

lemma apart_step: "apart m \<Longrightarrow> m g = Some (Ok (x, g')) \<Longrightarrow> csocks_step U (g, A) (g', A)"
  unfolding apart_def by (blast intro: csocks_step.lwip)

lemma conn_Read_steps: "conn_Read c n g = Some (Ok (x, g')) \<Longrightarrow> csocks_step U (g, A) (g', A)"
  by (induction c) (auto intro: apart_step [OF apart_pcb(1)] csocks_step.read)

lemma conn_Close_steps: "conn_Close c g = Some (Ok (x, g')) \<Longrightarrow> csocks_step U (g, A) (g', A)"
  by (induction c) (auto intro: apart_step [OF apart_pcb(3)] csocks_step.close)

text \<open>What a write through a connection adds to the answers: those of its message, if a \<open>DNSRecordConn\<close> is passed.\<close>

fun records :: "rwc \<Rightarrow> bool" where
  "records (PcbConn i) = False"
| "records (DnsConn c base) = records base"
| "records (RecordConn base) = True"

definition answers_in :: "dns_unpack \<Rightarrow> slice \<Rightarrow> 'x csocks_scheme \<Rightarrow> u8 list set" where
  "answers_in U p g = (case slice_bytes p g of
       Some (Ok (bs, _)) \<Rightarrow> (case U bs of None \<Rightarrow> {} | Some m \<Rightarrow> answered (msg_answer m))
     | _ \<Rightarrow> {})"

lemma conn_Write_steps:
  "conn_Write U c p g = Some (Ok (x, g')) \<Longrightarrow> csocks_steps U (g, A) (g', A \<union> (if records c then answers_in U p g else {}))"
proof (induction c arbitrary: g A)
  case (PcbConn i)
  then show ?case by (auto intro!: r_into_rtranclp apart_step [OF apart_pcb(2)])
next
  case (DnsConn c b)
  then show ?case by simp
next
  case (RecordConn b)
  then obtain bs g1 where bs: "slice_bytes p g = Some (Ok (bs, g))"
    and rec: "(case U bs of None \<Rightarrow> ret () | Some msg \<Rightarrow> record_answers (msg_answer msg)) g = Some (Ok ((), g1))"
    and base: "conn_Write U b p g1 = Some (Ok (x, g'))"
    by (auto simp: ok_simps)
  have "csocks_steps U (g, A) (g1, A \<union> answers_in U p g) \<and> answers_in U p g1 = answers_in U p g"
  proof (cases "U bs")
    case None
    then show ?thesis using rec bs by (simp add: run_simps answers_in_def)
  next
    case (Some m)
    then obtain f where "g1 = g\<lparr>allIP := f\<rparr>" using rec record_answers_run [of "msg_answer m" g] by auto
    then have "answers_in U p g1 = answers_in U p g"
      by (simp add: answers_in_def slice_bytes_def go_deref_def run_simps split: option.split)
    moreover have "csocks_step U (g, A) (g1, A \<union> answered (msg_answer m))" using Some rec by (auto intro: csocks_step.answer)
    ultimately show ?thesis using Some bs by (auto simp: answers_in_def)
  qed
  moreover have "csocks_steps U (g1, A \<union> answers_in U p g) (g', A \<union> answers_in U p g \<union> (if records b then answers_in U p g1 else {}))"
    by (rule RecordConn.IH [OF base])
  ultimately show ?case by (auto simp: Un_assoc intro: rtranclp_trans)
qed

text \<open>A processor that starts its work and uses what it was given only through the operations of a connection.\<close>

locale processor =
  fixes U :: dns_unpack and P :: "'x processor"
  assumes proc_steps: "P c t g = Some (Ok (e, g')) \<Longrightarrow> \<exists>A'. csocks_steps U (g, A) (g', A')"

text \<open>The processors of this repository keep it, those that only pass a connection on if the next ones do.\<close>

interpretation dns_start: processor U DNSProcessor_ProcConn for U
  by unfold_locales (auto intro: csocks_step.reader)

interpretation unsupported: processor U ProxyDialer_ProcConn for U
  by unfold_locales (simp add: ProxyDialer_ProcConn_def run_simps)

lemma processor_steps:
  "processor U P \<Longrightarrow> P c t g = Some (Ok (e, g')) \<Longrightarrow> \<exists>A'. csocks_steps U (g, A) (g', A')"
  by (rule processor.proc_steps)

lemma pac_processor:
  assumes "processor U proxy" and "processor U direct"
  shows "processor U (pac proxy direct)"
proof
  show "\<exists>A'. csocks_steps U (g, A) (g', A')" if "pac proxy direct c t g = Some (Ok (e, g'))" for c t g e g' A
    using that processor_steps [OF assms(1), of c t g e g' A] processor_steps [OF assms(2), of c t g e g' A]
    unfolding pac_def PAC_ProcConn_def IsRecorded_def
    by (auto simp: ok_simps run_simps split: option.splits if_splits)
qed

lemma dist_processor:
  assumes "\<And>k h. handlers k = Some h \<Longrightarrow> processor U h"
  shows "processor U (SchemeDist_ProcConn handlers)" and "processor U (PortDist_ProcConn handlers)"
proof -
  have "\<exists>A'. csocks_steps U (g, A) (g', A')" if "SchemeDist_ProcConn handlers c t g = Some (Ok (e, g'))" for c t g e g' A
    using that processor_steps [OF assms, of _ _ c t g e g' A] unfolding SchemeDist_ProcConn_def no_processor_def
    by (auto simp: run_simps split: option.splits)
  then show "processor U (SchemeDist_ProcConn handlers)" by (rule processor.intro)
  have "\<exists>A'. csocks_steps U (g, A) (g', A')" if "PortDist_ProcConn handlers c t g = Some (Ok (e, g'))" for c t g e g' A
    using that processor_steps [OF assms, of _ _ c t g e g' A] unfolding PortDist_ProcConn_def no_processor_def
    by (auto simp: run_simps split: option.splits)
  then show "processor U (PortDist_ProcConn handlers)" by (rule processor.intro)
qed

lemma NewLwipHandler_processor:
  assumes "processor U proxy" and "processor U direct"
  shows "processor U (NewLwipHandler proxy direct)"
  unfolding NewLwipHandler_def Dist_Add_def Let_def
  by (intro dist_processor) (auto split: if_splits intro!: dist_processor pac_processor assms dns_start.processor_axioms)

lemma dns_next_processor:
  assumes "processor U proxy" and "processor U direct"
  shows "processor U (dns_next proxy direct)"
proof
  show "\<exists>A'. csocks_steps U (g, A) (g', A')" if "dns_next proxy direct c t g = Some (Ok (e, g'))" for c t g e g' A
    using processor_steps [OF pac_processor [OF assms]] that by (simp add: dns_next_def DNSRecord_ProcConn_def)
qed

text \<open>A \<open>DNSConn\<close> stays what it is for.\<close>

lemma step_keeps_key:
  assumes "csocks_step U (g, A) (g', A')" and "csocks_inv g A" and "dns_conns g c = Some d"
  shows "\<exists>d'. dns_conns g' c = Some d' \<and> dc_key d' = dc_key d"
  using assms(1)
proof (cases rule: csocks_step.cases)
  case (create key b)
  moreover have "c \<noteq> go_next g" using assms(2,3) by (auto simp: csocks_inv_def)
  ultimately show ?thesis using assms(3) by (auto simp: NewDNSConn_def Let_def)
next
  case (close b e)
  moreover from close(2) obtain d2 where "dns_conns g b = Some d2" by (auto simp: DNSConn_Close_def ok_simps)
  moreover from this assms(2) have "dns_conn_ok d2" by (auto simp: csocks_inv_def)
  ultimately show ?thesis using assms(3) DNSConn_Close_run [of g b d2] by (auto simp: dns_closed_def split: if_splits)
next
  case (answer bs m e)
  then show ?thesis using assms(3) record_answers_run [of "msg_answer m" g] by auto
qed (use assms(3) in \<open>auto simp: csocks_part_def DNSProcessor_ProcConn_def dns_proc_store_def dns_proc_queue_def DNSConn_Read_def
    Record_Clear_def DNSGFW_Add_def ok_simps split: option.splits if_splits\<close>)

lemma steps_keep_key:
  assumes "csocks_steps U (g, A) (g', A')" and "csocks_inv g A" and "dns_conns g c = Some d"
  shows "csocks_inv g' A' \<and> (\<exists>d'. dns_conns g' c = Some d' \<and> dc_key d' = dc_key d)"
  using assms
proof (induction rule: rtranclp_induct2)
  case (step g1 A1 g2 A2)
  then obtain d1 where "csocks_inv g1 A1" "dns_conns g1 c = Some d1" "dc_key d1 = dc_key d" by blast
  with step(2) show ?case by (metis csocks_step_inv step_keeps_key)
qed simp

text \<open>So every round of the DNS goroutine is a run of steps.\<close>

context processor
begin

lemma dns_proc_conn_steps:
  assumes "csocks_inv g A" and "dns_proc_conn P r t g = Some (Ok (k, g'))"
  shows "\<exists>A'. csocks_steps U (g, A) (g', A') \<and> csocks_inv g' A' \<and>
     (\<forall>c. k = Some (c, True) \<longrightarrow> (\<exists>d. dns_conns g' c = Some d \<and> dc_key d = (r, t)))"
proof (cases "conns g (r, t)")
  case (Some c)
  then show ?thesis using assms by (auto simp: dns_proc_conn_def run_simps)
next
  case None
  with assms(2) obtain c g1 err where new: "NewDNSConn (r, t) g = Some (Ok (c, g1))"
    and call: "P (DnsConn c r) t g1 = Some (Ok (err, g'))" and k: "k = (if err \<noteq> None then None else Some (c, True))"
    by (auto simp: dns_proc_conn_def ok_simps)
  from new have st: "csocks_step U (g, A) (g1, A)" by (rule csocks_step.create)
  moreover from proc_steps [OF call] obtain A' where rest: "csocks_steps U (g1, A) (g', A')" by blast
  ultimately have "csocks_steps U (g, A) (g', A')" by (rule converse_rtranclp_into_rtranclp)
  moreover obtain d where "dns_conns g1 c = Some d" "dc_key d = (r, t)" using new by (auto simp: NewDNSConn_def Let_def)
  with steps_keep_key [OF rest csocks_step_inv [OF st assms(1)]]
  have "csocks_inv g' A' \<and> (\<exists>d. dns_conns g' c = Some d \<and> dc_key d = (r, t))" by metis
  ultimately show ?thesis using k by (intro exI [of _ A']) (auto split: if_splits)
qed

lemma dns_proc_round_steps:
  assumes "\<And>q. apart (Target q)" and "csocks_inv g A" and "dns_proc_round U Target P r g = Some (Ok (b, g'))"
  shows "\<exists>A'. csocks_steps U (g, A) (g', A')"
proof -
  from assms(3) obtain q g1 where q: "dns_proc_query U Target r g = Some (Ok (q, g1))"
    and rest: "(case q of None \<Rightarrow> ret False | Some (buf, t) \<Rightarrow> bnd (dns_proc_conn P r t) (\<lambda>k. case k of
         None \<Rightarrow> ret True
       | Some (c, new) \<Rightarrow> seq (whenc new (dns_proc_store r t c)) (seq (dns_proc_queue c buf) (ret True)))) g1 = Some (Ok (b, g'))"
    by (auto simp: dns_proc_round_def ok_simps)
  from q obtain x g0 where "conn_Read r 4096 g = Some (Ok (x, g0))" "g1 = g0 \<or> (\<exists>n t. Target n g0 = Some (Ok (t, g1)))"
    unfolding dns_proc_query_def by (auto simp: ok_simps split: if_splits option.splits list.splits) blast
  then have s1: "csocks_steps U (g, A) (g1, A)"
    using conn_Read_steps [of r 4096 g x g0 U A] apart_step [OF assms(1), of _ g0 _ g1 U A]
    by (metis rtranclp.rtrancl_into_rtrancl r_into_rtranclp)
  note inv = csocks_steps_inv [OF s1 assms(2)]
  show ?thesis
  proof (cases q)
    case None
    with rest s1 show ?thesis by (auto simp: run_simps)
  next
    case (Some bt)
    then obtain buf t where bt: "q = Some (buf, t)" by (cases bt) auto
    with rest obtain k g2 where k: "dns_proc_conn P r t g1 = Some (Ok (k, g2))"
      and fin: "(case k of None \<Rightarrow> ret True
         | Some (c, new) \<Rightarrow> seq (whenc new (dns_proc_store r t c)) (seq (dns_proc_queue c buf) (ret True))) g2 = Some (Ok (b, g'))"
      by (auto simp: ok_simps)
    from dns_proc_conn_steps [OF inv k] obtain A2 where s2: "csocks_steps U (g1, A) (g2, A2)"
      and key: "\<And>c. k = Some (c, True) \<Longrightarrow> \<exists>d. dns_conns g2 c = Some d \<and> dc_key d = (r, t)" by blast
    have "csocks_steps U (g2, A2) (g', A2)"
    proof (cases k)
      case None
      with fin show ?thesis by (simp add: run_simps)
    next
      case (Some cn)
      then obtain c new where cn: "k = Some (c, new)" by (cases cn) auto
      with fin obtain g3 where st: "whenc new (dns_proc_store r t c) g2 = Some (Ok ((), g3))"
        and qu: "dns_proc_queue c buf g3 = Some (Ok ((), g'))" by (auto simp: ok_simps)
      have "csocks_steps U (g2, A2) (g3, A2)"
        using st key cn by (cases new) (auto simp: whenc_def run_simps intro: csocks_step.store)
      with csocks_step.queue [OF qu] show ?thesis by (meson rtranclp.rtrancl_into_rtrancl)
    qed
    with s1 s2 show ?thesis by (meson rtranclp_trans)
  qed
qed

end

lemma csocks_reach_steps: "csocks_reach U g A \<Longrightarrow> csocks_steps U (g, A) (g', A') \<Longrightarrow> csocks_reach U g' A'"
  unfolding csocks_reach_def by (meson rtranclp_trans)

text \<open>
  The runs contain everything the program does: accepting a connection, a round of the DNS goroutine, and every
  operation on a connection lead from a state of a run to one, if the processors keep to the operations.
\<close>

theorem csocks_runs_handlers:
  assumes reach: "csocks_reach U g A" and procs: "processor U proxy" "processor U direct"
  shows "NewLwipHandler proxy direct r t g = Some (Ok (e, g')) \<Longrightarrow> \<exists>A'. csocks_reach U g' A'"
    and "dns_proc_round U (DNSGFW_Find other order) (dns_next proxy direct) r g = Some (Ok (b, g')) \<Longrightarrow> \<exists>A'. csocks_reach U g' A'"
    and "conn_Read c n g = Some (Ok (x, g')) \<Longrightarrow> csocks_reach U g' A"
    and "conn_Close c g = Some (Ok (e, g')) \<Longrightarrow> csocks_reach U g' A"
    and "conn_Write U c p g = Some (Ok (y, g')) \<Longrightarrow> csocks_reach U g' (A \<union> (if records c then answers_in U p g else {}))"
proof -
  note go = csocks_reach_steps [OF reach]
  show "\<exists>A'. csocks_reach U g' A'" if "NewLwipHandler proxy direct r t g = Some (Ok (e, g'))"
    using processor_steps [OF NewLwipHandler_processor [OF procs] that] go by blast
  have "apart (DNSGFW_Find other order q)" for q
    by (auto simp: apart_def DNSGFW_Find_def ok_simps Let_def split: if_splits option.splits)
  then show "\<exists>A'. csocks_reach U g' A'"
    if "dns_proc_round U (DNSGFW_Find other order) (dns_next proxy direct) r g = Some (Ok (b, g'))"
    using processor.dns_proc_round_steps [OF dns_next_processor [OF procs] _ csocks_reach_inv [OF reach] that] go by blast
  show "csocks_reach U g' A" if "conn_Read c n g = Some (Ok (x, g'))"
    by (rule go, rule r_into_rtranclp, rule conn_Read_steps [OF that])
  show "csocks_reach U g' A" if "conn_Close c g = Some (Ok (e, g'))"
    by (rule go, rule r_into_rtranclp, rule conn_Close_steps [OF that])
  show "csocks_reach U g' (A \<union> (if records c then answers_in U p g else {}))" if "conn_Write U c p g = Some (Ok (y, g'))"
    using go [OF conn_Write_steps [OF that]] .
qed

text \<open>
  C28. Where a connection goes. In every state of a run, a TCP connection, and a UDP connection to a port other than 53, is
  handed to the proxy if its address was in an A record of a DNS answer that went through the program since the
  record was cleared, whichever server gave that answer, and directly to the network otherwise; the target is the type,
  the address and the port. A UDP connection to port 53 is given to the DNS goroutine.
\<close>

theorem csocks_routes:
  assumes "csocks_reach U (app w) A" and "go_pcbs (app w) i = Some p" and "gp_localPort p = int port"
    and "go_ip_bytes G (gp_localIP p) w = Some (Ok (ip, w))" and "length ip = 4 \<or> length ip = 16"
    and "go_ip_bytes G (gp_remoteIP p) w = Some (Ok (rip, w))"
  shows "LwipHandler_OnAccept G (NewLwipHandler proxy direct) i w =
     (let target = ptype_text (gp_type p) @ ''://'' @ addr_text ip (int port);
          chosen = (if gp_type p = UDP \<and> port = 53 then DNSProcessor_ProcConn
            else if \<exists>a\<in>A. ip_string a = ip_string ip then proxy else direct)
      in seq (ignore (in_go (chosen (PcbConn i) target))) (seq (ignore (pcb_RemoteAddr G i)) (ignore (pcb_LocalAddr G i)))) w"
proof -
  have doms: "dom (allIP (app w)) = ip_string ` A" using csocks_reach_inv [OF assms(1)] by (simp add: csocks_inv_def recorded_def)
  have rec: "allIP (app w) (ip_string ip) \<noteq> None \<longleftrightarrow> (\<exists>a\<in>A. ip_string a = ip_string ip)"
    unfolding domIff [symmetric] doms image_iff by (simp only: eq_commute [of "ip_string ip"])
  define target where "target = ptype_text (gp_type p) @ ''://'' @ addr_text ip (int port)"
  define chosen where "chosen = (if gp_type p = UDP \<and> port = 53 then DNSProcessor_ProcConn
    else if \<exists>a\<in>A. ip_string a = ip_string ip then proxy else direct)"
  have "NewLwipHandler proxy direct (PcbConn i) target (app w) = chosen (PcbConn i) target (app w)"
    using NewLwipHandler_routes [OF assms(5), of proxy direct "PcbConn i" "gp_type p" port "app w"] rec
    by (simp add: target_def chosen_def)
  then have same: "in_go (NewLwipHandler proxy direct (PcbConn i) target) w = in_go (chosen (PcbConn i) target) w"
    by (simp add: in_go_def zoom_run)
  have pcb: "in_go (go_deref go_pcbs i) w = Some (Ok (p, w))" by (simp add: in_go_def go_deref_def zoom_run assms(2))
  have addrs: "pcb_LocalAddr G i w = Some (Ok (addr_text ip (int port), w))"
    "pcb_RemoteAddr G i w = Some (Ok (addr_text rip (gp_remotePort p), w))"
    by (simp_all add: pcb_LocalAddr_def pcb_RemoteAddr_def bnd_run pcb assms(3,4,6) ret_run)
  have "LwipHandler_OnAccept G (NewLwipHandler proxy direct) i w =
      seq (ignore (in_go (NewLwipHandler proxy direct (PcbConn i) target))) (seq (ignore (pcb_RemoteAddr G i)) (ignore (pcb_LocalAddr G i))) w"
    unfolding LwipHandler_OnAccept_def target_def seq_def [of "ignore (pcb_RemoteAddr G i)" "bnd _ _"]
    by (simp add: bnd_run ignore_def ret_run addrs pcb)
  also have "\<dots> = seq (ignore (in_go (chosen (PcbConn i) target))) (seq (ignore (pcb_RemoteAddr G i)) (ignore (pcb_LocalAddr G i))) w"
    by (simp add: seq_def ignore_def bnd_run same)
  finally show ?thesis by (simp add: target_def chosen_def Let_def)
qed

section \<open>Queries\<close>

text \<open>A query as the goroutine gets it: the oldest datagram of an open UDP connection.\<close>

definition waiting :: "'x csocks_scheme \<Rightarrow> nat \<Rightarrow> u8 list \<Rightarrow> bool" where
  "waiting g i d \<longleftrightarrow> (\<exists>p q ds. go_pcbs g i = Some p \<and> gp_type p = UDP \<and> \<not> gp_recvInter p \<and> gp_err p = None \<and>
     go_chans g (gp_recvQueued p) = Some q \<and> ch_buf q = d # ds \<and> d \<noteq> [])"

lemma waiting_read:
  assumes "waiting g i d"
  shows "\<exists>h. conn_Read (PcbConn i) 4096 g = (if 4096 < length d then Some (Fault (GoPanic ''the read buffer is too small''))
      else Some (Ok ((d, None), g\<lparr>go_chans := h\<rparr>)))"
proof -
  from assms obtain p q ds where p: "go_pcbs g i = Some p" "gp_type p = UDP" "\<not> gp_recvInter p" "gp_err p = None"
    and q: "go_chans g (gp_recvQueued p) = Some q" "ch_buf q = d # ds" "d \<noteq> []" by (auto simp: waiting_def)
  have "pcb_Read_data i 4096 g = (if 4096 < length d then Some (Fault (GoPanic ''the read buffer is too small''))
      else Some (Ok ((d, None), g\<lparr>go_chans := (go_chans g)(gp_recvQueued p \<mapsto> q\<lparr>ch_buf := ds\<rparr>)\<rparr>)))"
    using p q by (simp add: pcb_Read_data_def pcb_Read_check_def pcb_Read_take_def on_chan_def chan_recv_def go_deref_def run_simps)
  then show ?thesis using p(1,2)
    by (intro exI [of _ "(go_chans g)(gp_recvQueued p \<mapsto> q\<lparr>ch_buf := ds\<rparr>)"]) (simp add: pcb_Read_def pcb_Read_ack_def go_deref_def run_simps)
qed

text \<open>
  A datagram ends the program. If a client sends a datagram to port 53 that is longer than the buffer of 4096 bytes, or a DNS
  message without a question, the goroutine for its connection panics, and with it the program.
\<close>

theorem dns_datagram_panics:
  assumes "waiting g i d" and "4096 < length d \<or> (\<exists>m. U d = Some m \<and> msg_question m = [])"
  shows "\<exists>msg. dns_proc_round U Target P (PcbConn i) g = Some (Fault (GoPanic msg))"
  using waiting_read [OF assms(1)] assms(2) by (auto simp: dns_proc_round_def dns_proc_query_def run_simps)

text \<open>
  A reply that ends early ends the program. If the processor of a DNS connection closes it after the goroutine has looked it
  up or made it for a query, and before the query is queued for it, then the goroutine sends on a closed channel and
  panics.
\<close>

theorem dns_close_race_panics:
  assumes "csocks_reach U g A" and "processor U P"
    and "dns_proc_conn P r t g = Some (Ok (Some (c, fresh), g1))"
    and "conn_Close (RecordConn (DnsConn c r)) g1 = Some (Ok (e, g2))"
  shows "seq (whenc fresh (dns_proc_store r t c)) (dns_proc_queue c buf) g2 = Some (Fault (GoPanic ''send on closed channel''))"
proof -
  from processor.dns_proc_conn_steps [OF assms(2) csocks_reach_inv [OF assms(1)] assms(3)] obtain A1 where inv: "csocks_inv g1 A1" by blast
  from assms(4) obtain d where d: "dns_conns g1 c = Some d" by (auto simp: DNSConn_Close_def ok_simps)
  with inv have ok: "dns_conn_ok d" by (simp add: csocks_inv_def)
  then obtain d' where "dns_conns g2 c = Some d'" "ch_closed (dc_readQueued d')"
    using assms(4) DNSConn_Close_run [OF d ok] d by (auto simp: dns_closed_def dns_conn_ok_def split: if_splits)
  then show ?thesis
    by (cases fresh) (simp_all add: dns_proc_store_def dns_proc_queue_def on_readQueued_def go_deref_def chan_send_def run_simps)
qed

primrec conn_reads :: "rwc \<Rightarrow> nat \<Rightarrow> nat \<Rightarrow> ('x csocks_scheme, (u8 list \<times> string option) list) prog" where
  "conn_reads c n 0 = ret []"
| "conn_reads c n (Suc k) = bnd (conn_Read c n) (\<lambda>x. bnd (conn_reads c n k) (\<lambda>xs. ret (x # xs)))"

lemma conn_reads_run:
  "dns_conns g c = Some e \<Longrightarrow> ch_buf (dc_readQueued e) = bs \<Longrightarrow> list_all (\<lambda>b. length b \<le> n) bs \<Longrightarrow>
     \<exists>g'. conn_reads (RecordConn (DnsConn c r)) n (length bs) g = Some (Ok (map (\<lambda>b. (b, None)) bs, g'))"
proof (induction bs arbitrary: g e)
  case Nil
  then show ?case by (simp add: run_simps)
next
  case (Cons b bs)
  let ?e = "e\<lparr>dc_readQueued := (dc_readQueued e)\<lparr>ch_buf := bs\<rparr>\<rparr>"
  let ?g = "g\<lparr>dns_conns := (dns_conns g)(c \<mapsto> ?e)\<rparr>"
  have "conn_Read (RecordConn (DnsConn c r)) n g = Some (Ok ((b, None), ?g))"
    using Cons.prems by (simp add: DNSConn_Read_def on_readQueued_def go_deref_def chan_recv_def run_simps)
  moreover have "\<exists>g'. conn_reads (RecordConn (DnsConn c r)) n (length bs) ?g = Some (Ok (map (\<lambda>b. (b, None)) bs, g'))"
    using Cons.prems(3) by (intro Cons.IH [of ?g ?e]) simp_all
  ultimately show ?case by (auto simp: run_simps)
qed

text \<open>
  C31. A query reaches the processor it is for. When there is an open connection, with room in its queue, of
  this client for the target of the name, a query of the client for the name goes to it, unchanged and after the queries queued before it; what its processor reads there is these
  queries, one by one, if its buffer is large enough for each.
\<close>

theorem dns_query_roundtrip:
  assumes "waiting g i d" and "length d \<le> 4096" and "U d = Some m" and "msg_question m = name # names"
    and "\<And>v. Target name v = Some (Ok (t, v))" and "conns g (PcbConn i, t) = Some c"
    and "dns_conns g c = Some e" and "dns_conn_ok e" and "\<not> dc_closed e" and "length (ch_buf (dc_readQueued e)) < 1024"
    and "list_all (\<lambda>b. length b \<le> n) (ch_buf (dc_readQueued e) @ [d])"
  shows "\<exists>g' v. dns_proc_round U Target P (PcbConn i) g = Some (Ok (True, g')) \<and>
     conn_reads (RecordConn (DnsConn c (PcbConn i))) n (Suc (length (ch_buf (dc_readQueued e)))) g' =
       Some (Ok (map (\<lambda>b. (b, None)) (ch_buf (dc_readQueued e) @ [d]), v))"
proof -
  let ?bs = "ch_buf (dc_readQueued e) @ [d]"
  let ?e = "e\<lparr>dc_readQueued := (dc_readQueued e)\<lparr>ch_buf := ?bs\<rparr>\<rparr>"
  from waiting_read [OF assms(1)] assms(2) obtain h where
    "conn_Read (PcbConn i) 4096 g = Some (Ok ((d, None), g\<lparr>go_chans := h\<rparr>))" by auto
  then have "dns_proc_query U Target (PcbConn i) g = Some (Ok (Some (d, t), g\<lparr>go_chans := h\<rparr>))"
    using assms(3-5) by (simp add: dns_proc_query_def run_simps)
  moreover have "dns_proc_conn P (PcbConn i) t (g\<lparr>go_chans := h\<rparr>) = Some (Ok (Some (c, False), g\<lparr>go_chans := h\<rparr>))"
    using assms(6) by (simp add: dns_proc_conn_def run_simps)
  moreover have "dns_proc_queue c d (g\<lparr>go_chans := h\<rparr>) = Some (Ok ((), g\<lparr>go_chans := h, dns_conns := (dns_conns g)(c \<mapsto> ?e)\<rparr>))"
    using assms(7-10) by (simp add: dns_proc_queue_def on_readQueued_def go_deref_def chan_send_def dns_conn_ok_def run_simps)
  ultimately have round: "dns_proc_round U Target P (PcbConn i) g = Some (Ok (True, g\<lparr>go_chans := h, dns_conns := (dns_conns g)(c \<mapsto> ?e)\<rparr>))"
    by (simp add: dns_proc_round_def run_simps)
  have "\<exists>v. conn_reads (RecordConn (DnsConn c (PcbConn i))) n (length ?bs) (g\<lparr>go_chans := h, dns_conns := (dns_conns g)(c \<mapsto> ?e)\<rparr>) =
      Some (Ok (map (\<lambda>b. (b, None)) ?bs, v))"
    by (rule conn_reads_run [where e = ?e]) (use assms(11) in simp_all)
  with round show ?thesis by (simp only: length_append_singleton) blast
qed

text \<open>An answer written to such a connection is recorded and sent to the client unchanged.\<close>

lemma dns_answer_passes:
  assumes "go_pcbs g i = Some p" and "gp_type p = UDP" and "gp_err p = None" and "0 < sl_len s"
    and "slice_bytes s g = Some (Ok (bs, g))"
    and "\<not> ch_closed (sendQueue g)" and "length (ch_buf (sendQueue g)) < ch_cap (sendQueue g)"
  shows "\<exists>f. conn_Write U (RecordConn (DnsConn c (PcbConn i))) s g = Some (Ok ((int (sl_len s), None),
       g\<lparr>allIP := f, sendQueue := (sendQueue g)\<lparr>ch_buf := ch_buf (sendQueue g) @ [(i, s)]\<rparr>\<rparr>)) \<and>
     dom f = dom (allIP g) \<union> ip_string ` answers_in U s g"
proof -
  have sent: "pcb_Write i s (g\<lparr>allIP := f\<rparr>) = Some (Ok ((int (sl_len s), None),
      g\<lparr>allIP := f, sendQueue := (sendQueue g)\<lparr>ch_buf := ch_buf (sendQueue g) @ [(i, s)]\<rparr>\<rparr>))" for f
    using assms by (simp add: pcb_Write_def pcb_Write_check_def pcb_Write_lock_def pcb_Write_queue_def pcb_Write_wait_def
        pcb_Write_end_def go_deref_def chan_send_def run_simps)
  show ?thesis
  proof (cases "U bs")
    case None
    then show ?thesis using assms(5) sent [of "allIP g"] by (intro exI [of _ "allIP g"]) (simp add: answers_in_def run_simps)
  next
    case (Some m)
    with record_answers_run [of "msg_answer m" g] show ?thesis using assms(5) sent by (auto simp: answers_in_def run_simps)
  qed
qed

section \<open>A run\<close>

text \<open>
  Three messages stand for all: one without a question, a query, and an answer to it. The processors used are the proxy of the
  mobile program and one that does nothing yet.
\<close>

definition demo_unpack :: dns_unpack where
  "demo_unpack bs = (if bs = [0] then Some \<lparr>msg_question = [], msg_answer = []\<rparr>
     else if bs = [1] then Some \<lparr>msg_question = [''www.google.com.''], msg_answer = []\<rparr>
     else if bs = [2] then Some \<lparr>msg_question = [''www.google.com.''], msg_answer = [RR_A ''www.google.com.'' [142, 250, 1, 4]]\<rparr>
     else None)"

definition idle_processor :: "'x processor" where
  "idle_processor r t = ret None"

lemma idle_processor_steps: "processor U idle_processor"
  by unfold_locales (auto simp: idle_processor_def run_simps)

definition demo_ip :: ip_addr_t where
  "demo_ip = \<lparr>ip_w0 = 0x0401FA8E, ip_w1 = 0, ip_w2 = 0, ip_w3 = 0, ip_type = 0\<rparr>"

definition demo_pcb :: "ptype \<Rightarrow> go_pcb" where
  "demo_pcb t = \<lparr>gp_type = t, gp_arg = 3, gp_pcb = 5, gp_state = 7, gp_localIP = demo_ip, gp_localPort = 80,
     gp_remoteIP = demo_ip, gp_remotePort = 4000, gp_err = None, gp_recvInter = False, gp_recvQueued = 3,
     gp_sendWait = None, gp_sendCount = 0, gp_lck = False\<rparr>"

definition demo_go :: "csocks go_cs" where
  "demo_go = go_of ref_pbuf ref_tcp ref_udp ref_netif True Map.empty (\<lambda>s n. ret (- 1, [])) (\<lambda>s d l. ret (uint l)) 9 4"

text \<open>The answer has gone through, and the host in it is connected to.\<close>

definition answered_state :: csocks where
  "answered_state = csocks_init\<lparr>allIP := [''142.250.1.4'' \<mapsto> ''www.google.com.''], go_next := 4, go_chans := [3 \<mapsto> make_chan 1024],
     go_pcbs := [2 \<mapsto> demo_pcb TCP]\<rparr>"

definition answered_world :: "csocks world" where
  "answered_world = \<lparr>pbufs = Map.empty, ess = Map.empty, tpcbs = Map.empty, upcbs = Map.empty, netifs = Map.empty, app = answered_state\<rparr>"

lemma demo_ip_text: "ip_string [142, 250, 1, 4] = ''142.250.1.4''"
  by code_simp

lemma csocks_init_start: "csocks_start csocks_init" "go_next csocks_init = 2"
  by (simp_all add: csocks_start_def csocks_part_def csocks_init_def go_state.extend_def go_start_def)

lemma answered_reach: "csocks_reach demo_unpack answered_state {[142, 250, 1, 4]}"
proof -
  let ?g = "csocks_init\<lparr>allIP := [''142.250.1.4'' \<mapsto> ''www.google.com.'']\<rparr>"
  have "allIP csocks_init = Map.empty" using csocks_init_start(1) by (simp add: csocks_start_def csocks_part_def)
  then have "record_answers [RR_A ''www.google.com.'' [142, 250, 1, 4]] csocks_init = Some (Ok ((), ?g))"
    by (simp add: Record_def demo_ip_text run_simps)
  then have "csocks_step demo_unpack (csocks_init, {}) (?g, {} \<union> answered [RR_A ''www.google.com.'' [142, 250, 1, 4]])"
    using csocks_step.answer [of demo_unpack "[2 :: u8]" "\<lparr>msg_question = [''www.google.com.''],
      msg_answer = [RR_A ''www.google.com.'' [142, 250, 1, 4]]\<rparr>" csocks_init "()" ?g "{}"] by (simp add: demo_unpack_def)
  moreover have "{} \<union> answered [RR_A ''www.google.com.'' [142, 250, 1, 4]] = {[142, 250, 1, 4]}" by (simp add: answered_def)
  ultimately have one: "csocks_step demo_unpack (csocks_init, {}) (?g, {[142, 250, 1, 4]})" by (simp only:)
  have two: "csocks_step demo_unpack (?g, {[142, 250, 1, 4]}) (answered_state, {[142, 250, 1, 4]})"
    using csocks_init_start(2) by (intro csocks_step.lwip) (simp_all add: csocks_part_def answered_state_def)
  have "(csocks_step demo_unpack)\<^sup>*\<^sup>* (csocks_init, {}) (answered_state, {[142, 250, 1, 4]})"
    by (rule converse_rtranclp_into_rtranclp, rule one, rule r_into_rtranclp, rule two)
  then show ?thesis using csocks_init_start(1) unfolding csocks_reach_def by blast
qed

lemma demo_ip_bytes: "go_ip_bytes demo_go demo_ip w = Some (Ok ([142, 250, 1, 4], w))"
  by (simp add: go_ip_bytes_def demo_go_def go_cs_ip_get_def go_cs_ip_len_def go_cs_init_def go_back_def demo_ip_def cs_ip_get_def
      store_chars_def ref_netif_def)

theorem csocks_routes_witness:
  "LwipHandler_OnAccept demo_go (NewLwipHandler ProxyDialer_ProcConn idle_processor) 2 answered_world =
     Some (Fault (GoPanic ''not supported''))"
proof -
  have "csocks_reach demo_unpack (app answered_world) {[142, 250, 1, 4]}" "go_pcbs (app answered_world) 2 = Some (demo_pcb TCP)"
    using answered_reach by (simp_all add: answered_world_def answered_state_def)
  from csocks_routes [OF this, of 80 demo_go "[142, 250, 1, 4]" "[142, 250, 1, 4]" ProxyDialer_ProcConn idle_processor]
  show ?thesis by (simp add: demo_pcb_def demo_ip_bytes ProxyDialer_ProcConn_def in_go_def run_simps Let_def)
qed

text \<open>A client that asks, with a connection for the target already there.\<close>

definition demo_conn :: dns_conn where
  "demo_conn = \<lparr>dc_key = (PcbConn 2, ''dns://local''), dc_readQueued = make_chan 1024, dc_closed = False\<rparr>"

lemma demo_conn_ok: "dns_conn_ok demo_conn" "ch_buf (dc_readQueued demo_conn) = []" "\<not> dc_closed demo_conn"
  by (simp_all add: demo_conn_def dns_conn_ok_def make_chan_def chan_wf_def)

definition asking_state :: "u8 list \<Rightarrow> csocks" where
  "asking_state d = csocks_init\<lparr>go_next := 5, go_chans := [3 \<mapsto> (make_chan 1024)\<lparr>ch_buf := [d]\<rparr>], go_pcbs := [2 \<mapsto> demo_pcb UDP],
     dns_conns := [4 \<mapsto> demo_conn],
     conns := [(PcbConn 2, ''dns://local'') \<mapsto> 4]\<rparr>"

lemma asking_waits: "d \<noteq> [] \<Longrightarrow> waiting (asking_state d) 2 d"
  by (simp add: waiting_def asking_state_def demo_pcb_def)

theorem dns_datagram_panics_witness:
  "\<exists>msg. dns_proc_round demo_unpack (\<lambda>q. ret ''dns://local'') idle_processor (PcbConn 2) (asking_state [0]) = Some (Fault (GoPanic msg))"
  using dns_datagram_panics [OF asking_waits, of "[0]" demo_unpack "\<lambda>q. ret ''dns://local''" idle_processor]
  by (auto simp: demo_unpack_def)

theorem dns_query_roundtrip_witness:
  "\<exists>g' v. dns_proc_round demo_unpack (\<lambda>q. ret ''dns://local'') idle_processor (PcbConn 2) (asking_state [1]) = Some (Ok (True, g')) \<and>
     conn_reads (RecordConn (DnsConn 4 (PcbConn 2))) 4096 (Suc 0) g' = Some (Ok ([([1], None)], v))"
proof -
  have at: "conns (asking_state [1]) (PcbConn 2, ''dns://local'') = Some 4" "dns_conns (asking_state [1]) 4 = Some demo_conn"
    by (simp_all add: asking_state_def)
  have "demo_unpack [1] = Some \<lparr>msg_question = [''www.google.com.''], msg_answer = []\<rparr>" by (simp add: demo_unpack_def)
  from dns_query_roundtrip [of "asking_state [1]" 2 "[1]" demo_unpack, OF asking_waits _ this _ _ at demo_conn_ok(1,3),
      of "''www.google.com.''" "[]" "\<lambda>q. ret ''dns://local''" 4096 idle_processor]
  show ?thesis by (simp add: demo_conn_ok run_simps)
qed

theorem dns_close_race_panics_witness:
  "\<exists>g1 g2. dns_proc_conn idle_processor (PcbConn 2) ''dns://local'' csocks_init = Some (Ok (Some (2, True), g1)) \<and>
     conn_Close (RecordConn (DnsConn 2 (PcbConn 2))) g1 = Some (Ok (None, g2)) \<and>
     seq (whenc True (dns_proc_store (PcbConn 2) ''dns://local'' 2)) (dns_proc_queue 2 [1]) g2 =
       Some (Fault (GoPanic ''send on closed channel''))"
proof -
  have "csocks_reach demo_unpack csocks_init {}" unfolding csocks_reach_def using csocks_init_start(1) by blast
  note race = dns_close_race_panics [OF this idle_processor_steps]
  let ?g1 = "csocks_init\<lparr>go_next := 3, dns_conns := (dns_conns csocks_init)(2 \<mapsto> demo_conn)\<rparr>"
  have one: "dns_proc_conn idle_processor (PcbConn 2) ''dns://local'' csocks_init = Some (Ok (Some (2, True), ?g1))"
    using csocks_init_start
    by (simp add: dns_proc_conn_def NewDNSConn_def idle_processor_def csocks_start_def csocks_part_def Let_def demo_conn_def run_simps)
  moreover have two: "conn_Close (RecordConn (DnsConn 2 (PcbConn 2))) ?g1 = Some (Ok (None, dns_closed 2 demo_conn ?g1))"
    using DNSConn_Close_run [of ?g1 2 demo_conn] by (simp add: demo_conn_ok)
  ultimately show ?thesis using race [OF one two] by blast
qed

end
