(* ===== verification/Csocks_System.thy ===== *)
theory Csocks_System
  imports Go_Write Csocks_Run
begin

text \<open>
  The bridge and the proxy program as one system: the handler of \<open>csocks.go\<close> is the \<open>Event\<close> of \<open>lwipcs.go\<close>, and the
  steps of the stack, of the loop, of every \<open>Write\<close> and of the goroutines of \<open>csocks.go\<close> come in any order. A run of
  the system is a run of the bridge with that handler and a run of \<open>csocks.go\<close>, so what holds for either holds here.
\<close>

section \<open>Processors that start goroutines\<close>

text \<open>
  What a processor does before it returns: it may start goroutines and make objects of its own. When it returns, it has left
  the memory of the bridge alone and done to that of \<open>csocks.go\<close> at most what the goroutines do, other than writing. It may panic.
\<close>

locale starter =
  fixes U :: dns_unpack and P :: "'x processor"
  assumes starts_beside: "P c t g = Some (Ok (e, g')) \<Longrightarrow> beside g g'"
    and starts_steps: "P c t g = Some (Ok (e, g')) \<Longrightarrow> csocks_steps U (g, A) (g', A)"

sublocale starter \<subseteq> processor
  by unfold_locales (blast intro: starts_steps)

interpretation dns_begin: starter U DNSProcessor_ProcConn for U
  by unfold_locales (auto simp: DNSProcessor_ProcConn_def run_simps intro!: besideI r_into_rtranclp csocks_step.reader)

text \<open>The proxy of the mobile program never returns.\<close>

interpretation mobile_proxy: starter U ProxyDialer_ProcConn for U
  by unfold_locales (simp_all add: ProxyDialer_ProcConn_def run_simps)

text \<open>The processors that choose between others choose among well-behaved ones.\<close>

lemma starter_choice:
  assumes "\<And>c t g. \<exists>Q. starter U Q \<and> P c t g = Q c t g"
  shows "starter U P"
proof
  fix c t g e g' A assume run: "P c t g = Some (Ok (e, g'))"
  from assms obtain Q where Q: "starter U Q" "P c t g = Q c t g" by blast
  with run have q: "Q c t g = Some (Ok (e, g'))" by simp
  show "beside g g'" "csocks_steps U (g, A) (g', A)"
    by (rule starter.starts_beside [OF Q(1) q], rule starter.starts_steps [OF Q(1) q])
qed

lemma starter_refuse: "starter U (\<lambda>c t. ret (Some (m t)))"
  by unfold_locales (auto simp: run_simps)

lemma choose_refuse: "\<exists>Q. starter U Q \<and> ret (Some m) g = Q c t g"
  by (rule exI [of _ "\<lambda>c t. ret (Some ((\<lambda>_. m) t))"]) (simp only: starter_refuse)

lemma pac_starter:
  assumes "starter U proxy" and "starter U direct"
  shows "starter U (pac proxy direct)"
proof (rule starter_choice)
  fix c t g
  show "\<exists>Q. starter U Q \<and> pac proxy direct c t g = Q c t g"
  proof (cases "url_parse t")
    case None
    then show ?thesis by (simp add: pac_def PAC_ProcConn_def choose_refuse)
  next
    case (Some u)
    then have "pac proxy direct c t g = proxy c t g \<or> pac proxy direct c t g = direct c t g"
      by (auto simp: pac_def PAC_ProcConn_def IsRecorded_def run_simps)
    with assms show ?thesis by blast
  qed
qed

lemma dist_starter:
  assumes "\<And>k h. handlers k = Some h \<Longrightarrow> starter U h"
  shows "starter U (SchemeDist_ProcConn handlers)" and "starter U (PortDist_ProcConn handlers)"
proof -
  have pick: "\<exists>Q. starter U Q \<and> h c t g = Q c t g" if "handlers k = Some h" for h k c t g
    using assms [OF that] by blast
  show "starter U (SchemeDist_ProcConn handlers)"
    by (rule starter_choice) (auto simp: SchemeDist_ProcConn_def no_processor_def intro: choose_refuse pick split: option.split)
  show "starter U (PortDist_ProcConn handlers)"
    by (rule starter_choice) (auto simp: PortDist_ProcConn_def no_processor_def intro: choose_refuse pick split: option.split)
qed

lemma NewLwipHandler_starter:
  assumes "starter U proxy" and "starter U direct"
  shows "starter U (NewLwipHandler proxy direct)"
  unfolding NewLwipHandler_def Dist_Add_def Let_def
  by (intro dist_starter) (auto split: if_splits intro!: dist_starter pac_starter assms dns_begin.starter_axioms)

section \<open>The handler of csocks as the Event of the bridge\<close>

text \<open>The address of an accepted connection, as the handler passes it on.\<close>

definition target_of :: "go_pcb \<Rightarrow> u8 list \<Rightarrow> string" where
  "target_of p ip = ptype_text (gp_type p) @ ''://'' @ addr_text ip (gp_localPort p)"

lemma OnClose_run: "addresses G \<Longrightarrow> go_pcbs (app w) i \<noteq> None \<Longrightarrow> LwipHandler_OnClose G i w = Some (Ok ((), w))"
  using pcb_addrs(1) [of G w i] by (auto simp: LwipHandler_OnClose_def run_simps)

lemma OnAccept_run:
  assumes G: "addresses G" and "starter U P" and p: "go_pcbs (app w) i = Some p"
    and ip: "go_ip_bytes G (gp_localIP p) w = Some (Ok (ip, w))"
  shows "LwipHandler_OnAccept G P i w = (case P (PcbConn i) (target_of p ip) (app w) of
       None \<Rightarrow> None | Some (Fault f) \<Rightarrow> Some (Fault f) | Some (Ok (e, g)) \<Rightarrow> Some (Ok ((), w\<lparr>app := g\<rparr>)))"
proof -
  from pcb_addrs [OF G p] ip obtain ra where a: "pcb_RemoteAddr G i w = Some (Ok (ra, w))"
    "pcb_LocalAddr G i w = Some (Ok (addr_text ip (gp_localPort p), w))" by blast
  have "(\<exists>a. pcb_RemoteAddr G i (w\<lparr>app := g\<rparr>) = Some (Ok (a, w\<lparr>app := g\<rparr>))) \<and>
      (\<exists>a. pcb_LocalAddr G i (w\<lparr>app := g\<rparr>) = Some (Ok (a, w\<lparr>app := g\<rparr>)))"
    if "P (PcbConn i) (target_of p ip) (app w) = Some (Ok (e, g))" for e g
  proof -
    from besideD(2) [OF starter.starts_beside [OF assms(2) that]] p have "go_pcbs (app (w\<lparr>app := g\<rparr>)) i = Some p" by simp
    from pcb_addrs(1,2) [OF G this] show ?thesis by blast
  qed
  then show ?thesis using p a
    by (auto simp: LwipHandler_OnAccept_def target_of_def run_simps split: option.split res.split)
qed

lemma LwipHandler_calm:
  assumes "addresses G" and "starter U P"
  shows "calm (Some (LwipHandler G P))"
proof -
  have "quiet (LwipHandler_OnAccept G P i) w" if p: "go_pcbs (app w) i = Some p" for i w p
  proof -
    from assms(1) obtain ip where ip: "go_ip_bytes G (gp_localIP p) w = Some (Ok (ip, w))" unfolding addresses_def by meson
    show ?thesis using starter.starts_beside [OF assms(2)]
      by (auto simp: quiet_def OnAccept_run [OF assms p ip] split: option.split res.split)
  qed
  moreover have "quiet (LwipHandler_OnClose G i) w" if "go_pcbs (app w) i \<noteq> None" for i w
    by (simp add: quiet_def OnClose_run [OF assms(1) that])
  ultimately show ?thesis by (auto simp: calm_def LwipHandler_def)
qed

text \<open>What a handler does to the memory of \<open>csocks.go\<close>.\<close>

lemma lwip_steps:
  "csocks_part g' = csocks_part g \<Longrightarrow> go_next g \<le> go_next g' \<Longrightarrow> csocks_steps U (g, A) (g', A)"
  by (blast intro: csocks_step.lwip)

lemma accept_call_steps:
  assumes "addresses G" and P: "starter U P" and "go_pcbs (app w) i \<noteq> None"
    and run: "notify (map_option (\<lambda>E. on_accept E i) (Some (LwipHandler G P))) w = Some (Ok ((), w'))"
  shows "csocks_steps U (app w, A) (app w', A)"
proof -
  from assms(3) obtain p where p: "go_pcbs (app w) i = Some p" by auto
  from assms(1) obtain ip where ip: "go_ip_bytes G (gp_localIP p) w = Some (Ok (ip, w))" unfolding addresses_def by meson
  from run have "LwipHandler_OnAccept G P i w = Some (Ok ((), w'))" by (simp add: notify_def LwipHandler_def)
  then obtain e g where "P (PcbConn i) (target_of p ip) (app w) = Some (Ok (e, g))" "w' = w\<lparr>app := g\<rparr>"
    unfolding OnAccept_run [OF assms(1,2) p ip] by (auto split: option.splits res.splits)
  with starter.starts_steps [OF P] show ?thesis by simp
qed

lemma new_part: "newPCB t arg pcb s la ra lp rp g = Some (Ok (i, g')) \<Longrightarrow> csocks_part g' = csocks_part g \<and> go_next g \<le> go_next g'"
  by (auto simp: newPCB_def Let_def csocks_part_def)

lemma close_part: "go_wf g \<Longrightarrow> pcb_close i g = Some (Ok (e, g')) \<Longrightarrow> csocks_part g' = csocks_part g \<and> go_next g' = go_next g"
  by (erule (1) close_cases) (auto simp: csocks_part_def)

lemma handler_csocks:
  assumes "polite G" and "addresses G" and P: "starter U P" and wf: "go_wf (app w)"
    and "handler_step G addr_string (Some (LwipHandler G P)) w w'"
  shows "csocks_steps U (app w, A) (app w', A)"
  using assms(5)
proof cases
  case stack
  then show ?thesis by simp
next
  case (accept arg newpcb state r)
  then show ?thesis
  proof (cases rule: bridge_accept_run)
    case 1
    then show ?thesis by simp
  next
    case (2 la ra lp rp i g)
    let ?g = "g\<lparr>tcpPcbs := (tcpPcbs g)(state \<mapsto> i)\<rparr>"
    from new_part [OF 2(1)] have "csocks_steps U (app w, A) (?g, A)" by (intro lwip_steps) (simp_all add: csocks_part_def)
    moreover have "csocks_steps U (?g, A) (app w', A)"
      using accept_call_steps [OF assms(2) P _ 2(3), of A] 2(2) by simp
    ultimately show ?thesis by (rule rtranclp_trans)
  qed
next
  case recv
  from recv_app [OF assms(1) this] show ?thesis by simp
next
  case (send_done arg tpcb state r)
  then show ?thesis by (cases rule: send_done_shape) (auto intro!: lwip_steps simp: csocks_part_def)
next
  case (peer_close arg tpcb state r)
  with wf show ?thesis
  proof (cases rule: peer_close_run)
    case 1
    then show ?thesis by simp
  next
    case (2 i e g)
    have "app w' = g" using OnClose_run [OF assms(2), of "w\<lparr>app := g\<rparr>" i] 2(2,3) by (auto simp: notify_def LwipHandler_def)
    with close_part [OF wf_forget(1) [OF wf] 2(1)] show ?thesis by (intro lwip_steps) (simp_all add: csocks_part_def)
  qed
next
  case (udp arg upcb ip port buf r)
  then obtain q data where "go_udp_recv_data G addr_string (Some (LwipHandler G P)) arg upcb ip port buf w = Some (Ok ((q, data), w'))"
    by (cases r) simp
  with assms(1) show ?thesis
  proof (cases rule: udp_run)
    case (1 i p)
    from 1(1) show ?thesis
    proof (elim disjE exE conjE)
      fix w1 la lp k g' assume new: "newPCB UDP arg upcb NULL la ip lp port (app w) = Some (Ok (i, g'))" "go_pcbs g' i \<noteq> None"
        and call: "notify (map_option (\<lambda>E. on_accept E i) (Some (LwipHandler G P))) (w1\<lparr>app := g'\<lparr>udpPcbs := (udpPcbs g')(k \<mapsto> i)\<rparr>\<rparr>) = Some (Ok ((), w'))"
      let ?g = "g'\<lparr>udpPcbs := (udpPcbs g')(k \<mapsto> i)\<rparr>"
      from new_part [OF new(1)] have "csocks_steps U (app w, A) (?g, A)" by (intro lwip_steps) (simp_all add: csocks_part_def)
      moreover have "csocks_steps U (?g, A) (app w', A)"
        using accept_call_steps [OF assms(2) P _ call, of A] new(2) by simp
      ultimately show ?thesis by (rule rtranclp_trans)
    qed simp
  qed
next
  case (input arg netif pl)
  from assms(1) this obtain c where "app w' = (app w)\<lparr>inputQueue2 := c\<rparr>" by (rule input_shape)
  then show ?thesis by (intro lwip_steps) (simp_all add: csocks_part_def)
qed

section \<open>Runs of the system\<close>

text \<open>
  The three components: the world, the addresses in the answers since the record was cleared, and where each \<open>Write\<close> is. A step
  of a handler, of the bridge and of the application's \<open>Write\<close>s that does not concern \<open>csocks.go\<close>, or of a
  goroutine of \<open>csocks.go\<close> in its own memory. \<open>Read\<close>, \<open>Write\<close> and \<open>Close\<close> of a connection by such a goroutine are steps of the second kind.
\<close>

abbreviation csocks_event :: "'x csocks_scheme go_cs \<Rightarrow> 'x processor \<Rightarrow> 'x processor \<Rightarrow> 'x csocks_ext go_handler option" where
  "csocks_event G proxy direct \<equiv> Some (LwipHandler G (NewLwipHandler proxy direct))"

inductive system_run ::
  "dns_unpack \<Rightarrow> 'x csocks_scheme go_cs \<Rightarrow> (u8 list \<Rightarrow> int \<Rightarrow> string) \<Rightarrow> 'x processor \<Rightarrow> 'x processor \<Rightarrow>
   'x csocks_scheme world \<Rightarrow> u8 list set \<Rightarrow> (nat \<Rightarrow> wphase) \<Rightarrow> bool"
  for U G addr_string proxy direct where
  start: "starts (app w) \<Longrightarrow> csocks_start (app w) \<Longrightarrow> system_run U G addr_string proxy direct w {} (\<lambda>_. WIdle)"
| handler: "system_run U G addr_string proxy direct w A ph \<Longrightarrow> handler_step G addr_string (csocks_event G proxy direct) w w' \<Longrightarrow>
    system_run U G addr_string proxy direct w' A ph"
| bridge: "system_run U G addr_string proxy direct w A ph \<Longrightarrow>
    write_step G addr_string (csocks_event G proxy direct) w ph w' ph' \<Longrightarrow> csocks_part (app w') = csocks_part (app w) \<Longrightarrow>
    system_run U G addr_string proxy direct w' A ph'"
| own: "system_run U G addr_string proxy direct w A ph \<Longrightarrow> csocks_step U (app w, A) (g', A') \<Longrightarrow> beside (app w) g' \<Longrightarrow>
    system_run U G addr_string proxy direct (w\<lparr>app := g'\<rparr>) A' ph"

text \<open>The steps of the goroutines of \<open>csocks.go\<close> are all of the last kind, or do not concern its memory.\<close>

lemma csocks_step_beside:
  assumes "csocks_step U (g, A) (g', A')" and "csocks_inv g A"
  shows "beside g g' \<or> csocks_part g' = csocks_part g \<and> go_next g \<le> go_next g'"
  using assms(1)
proof (cases rule: csocks_step.cases)
  case (close c e)
  then obtain d where d: "dns_conns g c = Some d" by (auto simp: DNSConn_Close_def ok_simps)
  moreover from this assms(2) have "dns_conn_ok d" by (auto simp: csocks_inv_def)
  ultimately show ?thesis using DNSConn_Close_run [of g c d] close by (auto simp: dns_closed_def intro!: besideI split: if_splits)
next
  case (answer bs m e)
  then show ?thesis using record_answers_run [of "msg_answer m" g] by (auto intro!: besideI)
next
  case (read c n x)
  then obtain d q where "g' = g\<lparr>dns_conns := (dns_conns g)(c \<mapsto> d\<lparr>dc_readQueued := q\<rparr>)\<rparr>"
    by (auto simp: DNSConn_Read_def ok_simps split: option.splits if_splits)
  then show ?thesis by (simp add: besideI)
next
  case (queue c buf)
  then obtain d q where "g' = g\<lparr>dns_conns := (dns_conns g)(c \<mapsto> d\<lparr>dc_readQueued := q\<rparr>)\<rparr>"
    by (auto simp: dns_proc_queue_def ok_simps)
  then show ?thesis by (simp add: besideI)
next
  case lwip
  then show ?thesis by simp
qed (rule disjI1, rule besideI; auto simp: DNSProcessor_ProcConn_def NewDNSConn_def Let_def dns_proc_store_def Record_Clear_def
    DNSGFW_Add_def ok_simps)+

text \<open>References are not taken back.\<close>

lemma side_op_next:
  assumes wf: "go_wf g" and "side_op g m" and run: "m g = Some (Ok ((), g'))"
  shows "go_next g \<le> go_next g'"
  using assms(2)
proof cases
  case (close_conn i)
  with run obtain e where "pcb_close i g = Some (Ok (e, g'))" by (auto simp: ok_simps)
  with wf show ?thesis by (rule close_cases) auto
next
  case own
  from besideD(1) [OF own [OF run]] show ?thesis .
next
  case (read i n)
  with run obtain d where "pcb_Read_take i n g = Some (Ok (d, g'))" by (auto simp: ok_simps)
  from take_keeps [OF this] show ?thesis by simp
qed (use run in \<open>force simp: ok_simps pcb_Write_queue_def pcb_Read_ack_def dest: checks_keep split: if_splits\<close>)+

lemma handler_next:
  assumes "polite G" and "calm Ev" and wf: "go_wf (app w)" and "handler_step G addr_string Ev w w'"
  shows "go_next (app w) \<le> go_next (app w')"
  using assms(4)
proof cases
  case accept
  with assms(2) show ?thesis by (cases rule: accept_shape) (auto simp: newPCB_def Let_def dest!: besideD(1))
next
  case recv
  from recv_app [OF assms(1) this] show ?thesis by simp
next
  case send_done
  then show ?thesis by (cases rule: send_done_shape) auto
next
  case peer_close
  with assms(2) wf show ?thesis
  proof (cases rule: peer_close_shape)
    case (2 i e g)
    from wf_forget(1) [OF wf] 2(1) have "go_next g = go_next (app w)" by (rule close_cases) auto
    with besideD(1) [OF 2(2)] show ?thesis by simp
  qed simp
next
  case udp
  with assms(1,2) show ?thesis by (cases rule: udp_shape) (auto simp: newPCB_def Let_def dest!: besideD(1))
next
  case input
  from assms(1) this obtain c where "app w' = (app w)\<lparr>inputQueue2 := c\<rparr>" by (rule input_shape)
  then show ?thesis by simp
qed simp

lemma app_step_next:
  assumes wf: "go_wf (app w)" and "app_step w ph w' ph'"
  shows "go_next (app w) \<le> go_next (app w')"
  using assms(2)
proof cases
  case (side m)
  from side_op_next [OF wf side(2) in_goD [OF side(3)]] show ?thesis .
qed (auto simp: ok_simps pcb_Write_lock_def pcb_Write_queue_def pcb_Write_wait_def pcb_Write_end_def split: if_splits)

lemma write_step_next:
  assumes "polite G" and "calm Ev" and wf: "go_wf (app w)" and "write_step G addr_string Ev w ph w' ph'"
  shows "go_next (app w) \<le> go_next (app w')"
  using assms(4)
proof cases
  case handler
  with handler_next [OF assms(1-3)] show ?thesis by simp
next
  case goroutine
  from app_step_next [OF wf this] show ?thesis .
next
  case (loop e)
  from wf in_goD [OF loop(2)] show ?thesis by (rule take_request_shape) auto
qed

lemma system_projects:
  assumes G: "polite G" "addresses G" and procs: "starter U proxy" "starter U direct"
    and "system_run U G addr_string proxy direct w A ph"
  shows "write_run G addr_string (csocks_event G proxy direct) w ph \<and> csocks_reach U (app w) A"
  using assms(5)
proof induction
  case (start w)
  then show ?case by (auto simp: csocks_reach_def intro: write_run.start)
next
  case (handler w A ph w')
  note P = NewLwipHandler_starter [OF procs]
  from handler.IH have run: "write_run G addr_string (csocks_event G proxy direct) w ph" and reach: "csocks_reach U (app w) A" by simp_all
  from run_invD(1) [OF write_run_inv [OF G(1) LwipHandler_calm [OF G(2) P] run]] have "go_wf (app w)" .
  from csocks_reach_steps [OF reach handler_csocks [OF G P this handler.hyps(2)]]
    write_run.step [OF run write_step.handler [OF handler.hyps(2)]] show ?case by simp
next
  case (bridge w A ph w' ph')
  note calm = LwipHandler_calm [OF G(2) NewLwipHandler_starter [OF procs]]
  from bridge.IH have run: "write_run G addr_string (csocks_event G proxy direct) w ph" and reach: "csocks_reach U (app w) A" by simp_all
  from run_invD(1) [OF write_run_inv [OF G(1) calm run]] have "go_wf (app w)" .
  from csocks_reach_steps [OF reach lwip_steps [OF bridge.hyps(3) write_step_next [OF G(1) calm this bridge.hyps(2)]]]
    write_run.step [OF run bridge.hyps(2)] show ?case by simp
next
  case (own w A ph g' A')
  have "side_op (app w) (\<lambda>g. Some (Ok ((), g')))" by (rule side_op.own) (use own.hyps(3) in simp)
  then have "write_step G addr_string (csocks_event G proxy direct) w ph (w\<lparr>app := g'\<rparr>) ph"
    by (rule write_step.goroutine [OF app_step.side]) (simp add: in_go_def zoom_run)
  moreover have "csocks_steps U (app w, A) (g', A')" using own.hyps(2) by (rule r_into_rtranclp)
  ultimately show ?case using own.IH write_run.step csocks_reach_steps [of U "app w" A g' A'] by auto
qed

section \<open>What holds in every run of the system\<close>

lemma system_inv:
  assumes "polite G" "addresses G" "starter U proxy" "starter U direct" and "system_run U G addr_string proxy direct w A ph"
  shows "run_inv (app w) ph" and "csocks_reach U (app w) A" and "calm (csocks_event G proxy direct)"
proof -
  show calm: "calm (csocks_event G proxy direct)" by (rule LwipHandler_calm [OF assms(2) NewLwipHandler_starter [OF assms(3,4)]])
  from system_projects [OF assms] show "run_inv (app w) ph" "csocks_reach U (app w) A"
    using write_run_inv [OF assms(1) calm] by blast+
qed

lemma accept_result:
  assumes "tpcb \<noteq> NULL" and "tcpPcbs (app w) es = None" and "tpcbs w tpcb = Some c"
    and "newPCB TCP arg tpcb es (t_local_ip c) (t_remote_ip c) (uint (t_local_port c)) (uint (t_remote_port c)) (app w) = Some (Ok (i, g))"
  shows "go_accept Ev arg tpcb es w =
     seq (notify (map_option (\<lambda>E. on_accept E i) Ev)) (ret 0) (w\<lparr>app := g\<lparr>tcpPcbs := (tcpPcbs g)(es \<mapsto> i)\<rparr>\<rparr>)"
  using assms by (simp add: go_accept_def run_simps go_cs_tcp_local_ip_def go_cs_tcp_remote_ip_def go_cs_tcp_local_port_def
      go_cs_tcp_remote_port_def)

text \<open>What the callback for a new connection does.\<close>

lemma accept_routes:
  assumes "polite G" and "starter U proxy" and "starter U direct" and "system_run U G addr_string proxy direct w A ph"
    and "G = go_of P T V N sg C inp outp ba ni"
    and "tpcb \<noteq> NULL" and "tcpPcbs (app w) es = None" and "tpcbs w tpcb = Some c"
  shows "\<exists>ip i g. go_ip_bytes G (t_local_ip c) w = Some (Ok (ip, w)) \<and>
     newPCB TCP arg tpcb es (t_local_ip c) (t_remote_ip c) (uint (t_local_port c)) (uint (t_remote_port c)) (app w) = Some (Ok (i, g)) \<and>
     go_accept (csocks_event G proxy direct) arg tpcb es w =
       (let w1 = w\<lparr>app := g\<lparr>tcpPcbs := (tcpPcbs g)(es \<mapsto> i)\<rparr>\<rparr>;
            chosen = (if \<exists>a\<in>A. ip_string a = ip_string ip then proxy else direct)
        in case chosen (PcbConn i) (''tcp://'' @ addr_text ip (uint (t_local_port c))) (app w1) of
             None \<Rightarrow> None
           | Some (Fault f) \<Rightarrow> Some (Fault f)
           | Some (Ok (e, g')) \<Rightarrow> Some (Ok (0, w1\<lparr>app := g'\<rparr>)))"
proof -
  have adr: "addresses G" using assms(5) by (simp add: go_of_addresses)
  note inv = system_inv [OF assms(1) adr assms(2-4)]
  define i where "i = go_next (app w)"
  obtain g where new: "newPCB TCP arg tpcb es (t_local_ip c) (t_remote_ip c) (uint (t_local_port c)) (uint (t_remote_port c)) (app w) =
      Some (Ok (i, g))" by (simp add: newPCB_def Let_def i_def)
  define w1 where "w1 = w\<lparr>app := g\<lparr>tcpPcbs := (tcpPcbs g)(es \<mapsto> i)\<rparr>\<rparr>"
  from new obtain p where p: "go_pcbs (app w1) i = Some p" "gp_type p = TCP" "gp_localIP p = t_local_ip c"
    "gp_localPort p = uint (t_local_port c)" by (auto simp: newPCB_def Let_def w1_def)
  from adr obtain ip where len: "length ip = 4 \<or> length ip = 16" and at: "go_ip_bytes G (t_local_ip c) w = Some (Ok (ip, w))"
    unfolding addresses_def by meson
  then have ip: "go_ip_bytes G (gp_localIP p) w1 = Some (Ok (ip, w1))" by (auto simp: go_ip_bytes_def p(3) split: res.splits)
  have "csocks_steps U (app w, A) (app w1, A)" using new_part [OF new] by (intro lwip_steps) (simp_all add: w1_def csocks_part_def)
  from csocks_reach_inv [OF csocks_reach_steps [OF inv(2) this]] have "dom (allIP (app w1)) = ip_string ` A"
    by (simp add: csocks_inv_def recorded_def)
  then have rec: "allIP (app w1) (ip_string ip) \<noteq> None \<longleftrightarrow> (\<exists>a\<in>A. ip_string a = ip_string ip)"
    unfolding domIff [symmetric] by (simp only: image_iff eq_commute [of "ip_string ip"])
  have target: "target_of p ip = ptype_text TCP @ ''://'' @ addr_text ip (int (unat (t_local_port c)))"
    by (simp add: target_of_def p(2,4))
  have "NewLwipHandler proxy direct (PcbConn i) (target_of p ip) (app w1) =
      (if \<exists>a\<in>A. ip_string a = ip_string ip then proxy else direct) (PcbConn i) (target_of p ip) (app w1)"
    unfolding target NewLwipHandler_routes [OF len] rec by simp
  then have "go_accept (csocks_event G proxy direct) arg tpcb es w = (case (if \<exists>a\<in>A. ip_string a = ip_string ip then proxy else direct)
        (PcbConn i) (target_of p ip) (app w1) of
      None \<Rightarrow> None | Some (Fault f) \<Rightarrow> Some (Fault f) | Some (Ok (e, g')) \<Rightarrow> Some (Ok (0, w1\<lparr>app := g'\<rparr>)))"
    using OnAccept_run [OF adr NewLwipHandler_starter [OF assms(2,3)] p(1) ip]
    unfolding accept_result [OF assms(6-8) new] w1_def [symmetric]
    by (auto simp: notify_def LwipHandler_def run_simps split: option.split res.split)
  then show ?thesis using at new
    by (intro exI [of _ ip] exI [of _ i] exI [of _ g]) (simp add: w1_def [symmetric] Let_def target ptype_text_def)
qed

lemma accept_panics:
  assumes "polite G" and "starter U proxy" and "starter U direct" and "system_run U G addr_string proxy direct w A ph"
    and "G = go_of P T V N sg C inp outp ba ni" and c: "tpcbs w tpcb = Some c"
    and fault: "go_accept (csocks_event G proxy direct) arg tpcb es w = Some (Fault f)"
  shows "\<exists>ip i g. go_ip_bytes G (t_local_ip c) w = Some (Ok (ip, w)) \<and>
     (if \<exists>a\<in>A. ip_string a = ip_string ip then proxy else direct) (PcbConn i) (''tcp://'' @ addr_text ip (uint (t_local_port c))) g =
       Some (Fault f)"
proof -
  from fault have new: "tpcb \<noteq> NULL" "tcpPcbs (app w) es = None" by (auto simp: go_accept_def run_simps split: if_splits)
  from accept_routes [OF assms(1-5) new c, of arg] obtain ip i g g1 where
    ip: "go_ip_bytes G (t_local_ip c) w = Some (Ok (ip, w))" and
    "go_accept (csocks_event G proxy direct) arg tpcb es w =
       (case (if \<exists>a\<in>A. ip_string a = ip_string ip then proxy else direct) (PcbConn i) (''tcp://'' @ addr_text ip (uint (t_local_port c))) g of
          None \<Rightarrow> None | Some (Fault f) \<Rightarrow> Some (Fault f) | Some (Ok (e, g')) \<Rightarrow> Some (Ok (0, g1\<lparr>app := g'\<rparr>)))"
    unfolding Let_def by blast
  with fault have "(if \<exists>a\<in>A. ip_string a = ip_string ip then proxy else direct) (PcbConn i)
      (''tcp://'' @ addr_text ip (uint (t_local_port c))) g = Some (Fault f)"
    by (simp split: option.split_asm res.split_asm prod.split_asm split del: if_split)
  with ip show ?thesis by blast
qed

text \<open>
  C29. When the proxy program panics in a handler for TCP. In every run of bridge and proxy program together: the handler for a new TCP
  connection panics only if the processor does that it hands the connection to, the proxy for an answered address and else the network; the one for a close by the
  peer never does; the one for received data only if a goroutine closes the connection between its checks and its send; and the one for a finished write
  never does, and never waits, whatever goroutines do between its checks and its notice.
\<close>

theorem csocks_system_panics:
  assumes "polite G" and "starter U proxy" and "starter U direct" and "system_run U G addr_string proxy direct w A ph"
    and "G = go_of P T V N sg C inp outp ba ni" and "doc_pbuf_copy P"
  shows "(\<forall>c. tpcbs w tpcb = Some c \<longrightarrow> go_accept (csocks_event G proxy direct) arg tpcb es w = Some (Fault f) \<longrightarrow>
       (\<exists>ip i g. go_ip_bytes G (t_local_ip c) w = Some (Ok (ip, w)) \<and>
          (if \<exists>a\<in>A. ip_string a = ip_string ip then proxy else direct) (PcbConn i) (''tcp://'' @ addr_text ip (uint (t_local_port c))) g =
            Some (Fault f))) \<and>
     go_close (csocks_event G proxy direct) arg tpcb es w \<noteq> Some (Fault f) \<and>
     (whole_chain (pbufs w) buf ps \<longrightarrow> go_recv_data G tpcb es buf w \<noteq> Some (Fault f)) \<and>
     (\<forall>q data w1 w2 ph2. go_recv_data G tpcb es buf w = Some (Ok (Some (q, data), w1)) \<longrightarrow> meanwhile w1 ph w2 ph2 \<longrightarrow>
       (\<exists>i p. tcpPcbs (app w) es = Some i \<and> go_pcbs (app w2) i = Some p \<and>
          (go_recv_send q data w2 = Some (Fault f) \<longleftrightarrow> gp_err p \<noteq> None \<and> f = GoPanic ''send on closed channel''))) \<and>
     (\<forall>i p w2 ph2. tcpPcbs (app w) es = Some i \<longrightarrow> go_pcbs (app w) i = Some p \<longrightarrow> gp_err p = None \<longrightarrow> 0 < gp_sendCount p \<longrightarrow>
       meanwhile w ph w2 ph2 \<longrightarrow> (\<exists>w3. go_send_notice i w2 = Some (Ok ((), w3))))"
proof -
  have adr: "addresses G" using assms(5) by (simp add: go_of_addresses)
  note inv = system_inv [OF assms(1) adr assms(2-4)]
  note wf = run_invD(1) [OF inv(1)]
  have close: "go_close (csocks_event G proxy direct) arg tpcb es w \<noteq> Some (Fault f)"
    using peer_close_faults [OF wf, of "csocks_event G proxy direct" arg tpcb es f] OnClose_run [OF adr] by (auto simp: LwipHandler_def)
  show ?thesis
    by (intro conjI allI impI; (rule accept_panics [OF assms(1-5)] | rule close | rule recv_data_no_fault [OF wf assms(5,6)] |
        rule recv_meanwhile [OF assms(1) inv(1)] | rule notice_meanwhile [OF inv(1)]); assumption?)
qed

text \<open>
  C30. A TCP connection the stack accepts goes to the right processor. In every run of bridge and proxy program together: the
  handler the bridge's callback calls for a new TCP connection makes a \<open>PCB\<close> for it, registers it, and hands it, with its
  local address as the target, to the proxy if that address was in an A record of an answer that went through since the
  record was cleared, and to the network otherwise, once; its result is 0 when that call returns.
\<close>

theorem csocks_accept_routes:
  assumes "polite G" and "starter U proxy" and "starter U direct" and "system_run U G addr_string proxy direct w A ph"
    and "G = go_of P T V N sg C inp outp ba ni"
    and "tpcb \<noteq> NULL" and "tcpPcbs (app w) es = None" and "tpcbs w tpcb = Some c"
  shows "\<exists>ip i g. go_ip_bytes G (t_local_ip c) w = Some (Ok (ip, w)) \<and>
     newPCB TCP arg tpcb es (t_local_ip c) (t_remote_ip c) (uint (t_local_port c)) (uint (t_remote_port c)) (app w) = Some (Ok (i, g)) \<and>
     go_accept (csocks_event G proxy direct) arg tpcb es w =
       (let w1 = w\<lparr>app := g\<lparr>tcpPcbs := (tcpPcbs g)(es \<mapsto> i)\<rparr>\<rparr>;
            chosen = (if \<exists>a\<in>A. ip_string a = ip_string ip then proxy else direct)
        in case chosen (PcbConn i) (''tcp://'' @ addr_text ip (uint (t_local_port c))) (app w1) of
             None \<Rightarrow> None
           | Some (Fault f) \<Rightarrow> Some (Fault f)
           | Some (Ok (e, g')) \<Rightarrow> Some (Ok (0, w1\<lparr>app := g'\<rparr>)))"
  by (rule accept_routes [OF assms])

section \<open>A run\<close>

text \<open>
  An answer has gone through, and a connection to the host in it waits in the stack. The proxy is here the processor for DNS, which
  keeps what it is given, and the other one starts nothing yet.
\<close>

interpretation idle: starter U idle_processor for U
  by unfold_locales (auto simp: idle_processor_def run_simps)

definition system_world :: "csocks world" where
  "system_world = \<lparr>pbufs = [8 \<mapsto> demo_buf NULL [10, 20]], ess = Map.empty, tpcbs = [5 \<mapsto> blank_pcb\<lparr>t_local_ip := demo_ip\<rparr>],
     upcbs = Map.empty, netifs = Map.empty, app = csocks_init\<rparr>"

definition answered_init :: csocks where
  "answered_init = csocks_init\<lparr>allIP := [''142.250.1.4'' \<mapsto> ''www.google.com.'']\<rparr>"

lemma demo_go_polite: "polite demo_go"
  by (auto simp: polite_def demo_go_def go_cs_pbuf_copy_def go_cs_pbuf_alloc_def go_cs_pbuf_take_def via_def go_cs_init_def
      go_back_def ref_pbuf_def on_chain_def callp_def deref_def ok_simps split: option.splits if_splits)

lemma answered_system:
  "system_run demo_unpack demo_go demo_key proxy direct (system_world\<lparr>app := answered_init\<rparr>)
     {[142, 250, 1, 4]} (\<lambda>_. WIdle)"
proof -
  let ?rr = "[RR_A ''www.google.com.'' [142, 250, 1, 4]]"
  have "starts (app system_world)"
    by (simp add: system_world_def starts_def csocks_init_def go_state.extend_def go_state.truncate_def go_start_def)
  then have start: "system_run demo_unpack demo_go demo_key proxy direct system_world {} (\<lambda>_. WIdle)"
    by (rule system_run.start) (simp add: system_world_def csocks_init_start)
  have "allIP csocks_init = Map.empty" using csocks_init_start(1) by (simp add: csocks_start_def csocks_part_def)
  then have "record_answers ?rr csocks_init = Some (Ok ((), answered_init))"
    by (simp add: Record_def demo_ip_text answered_init_def run_simps)
  then have "csocks_step demo_unpack (csocks_init, {}) (answered_init, {} \<union> answered ?rr)"
    using csocks_step.answer [of demo_unpack "[2 :: u8]" "\<lparr>msg_question = [''www.google.com.''], msg_answer = ?rr\<rparr>" csocks_init "()"
        answered_init "{}"] by (simp add: demo_unpack_def)
  moreover have "{} \<union> answered ?rr = {[142, 250, 1, 4]}" by (simp add: answered_def)
  ultimately have "csocks_step demo_unpack (app system_world, {}) (answered_init, {[142, 250, 1, 4]})"
    by (simp only: system_world_def world.simps)
  then show ?thesis
    by (rule system_run.own [OF start]) (rule besideI; simp add: answered_init_def system_world_def)
qed

lemma answered_fields:
  "tpcbs (system_world\<lparr>app := answered_init\<rparr>) 5 = Some (blank_pcb\<lparr>t_local_ip := demo_ip\<rparr>)"
  "tcpPcbs (app (system_world\<lparr>app := answered_init\<rparr>)) 7 = None"
  "whole_chain (pbufs (system_world\<lparr>app := answered_init\<rparr>)) 8 [8]"
  by (simp_all add: system_world_def answered_init_def csocks_init_def go_state.extend_def go_start_def whole_chain_def sole_chain_Cons
      sole_pbuf_def demo_buf_def bytes_at_def)

text \<open>The mobile program panics on that connection, and only in the handler for new ones.\<close>

theorem csocks_system_panics_witness:
  "go_accept (Some (mobile_handler demo_go idle_processor)) 3 5 7 (system_world\<lparr>app := answered_init\<rparr>) =
     Some (Fault (GoPanic ''not supported'')) \<and>
   (\<forall>f. go_close (Some (mobile_handler demo_go idle_processor)) 3 5 7 (system_world\<lparr>app := answered_init\<rparr>) \<noteq> Some (Fault f)) \<and>
   (\<forall>f. go_recv_data demo_go 5 7 8 (system_world\<lparr>app := answered_init\<rparr>) \<noteq> Some (Fault f))"
proof -
  note safe = csocks_system_panics [OF demo_go_polite mobile_proxy.starter_axioms idle.starter_axioms answered_system demo_go_def ref_pbuf_doc(3),
      of 5 3 7 _ 8 "[8]"]
  have "(5 :: addr) \<noteq> NULL" by simp
  from accept_routes [OF demo_go_polite mobile_proxy.starter_axioms idle.starter_axioms answered_system demo_go_def this
      answered_fields(2,1), of 3]
  have "go_accept (Some (mobile_handler demo_go idle_processor)) 3 5 7 (system_world\<lparr>app := answered_init\<rparr>) =
      Some (Fault (GoPanic ''not supported''))"
    by (auto simp: Let_def demo_ip_bytes ProxyDialer_ProcConn_def mobile_handler_def run_simps)
  with safe answered_fields(3) show ?thesis by (auto simp: mobile_handler_def)
qed

theorem csocks_accept_routes_witness:
  "\<exists>w. go_accept (csocks_event demo_go DNSProcessor_ProcConn idle_processor) 3 5 7 (system_world\<lparr>app := answered_init\<rparr>) = Some (Ok (0, w)) \<and>
     dns_readers (app w) = [PcbConn 2]"
proof -
  have "(5 :: addr) \<noteq> NULL" by simp
  from csocks_accept_routes [OF demo_go_polite dns_begin.starter_axioms idle.starter_axioms answered_system demo_go_def this
      answered_fields(2,1), of 3]
  show ?thesis
    by (auto simp: Let_def demo_ip_bytes DNSProcessor_ProcConn_def newPCB_def answered_init_def csocks_init_def go_state.extend_def
        go_start_def run_simps)
qed

end
