(* ===== verification/Csocks_Pc.thy ===== *)
theory Csocks_Pc
  imports Csocks
begin

text \<open>
  The desktop program, \<open>csocks/pc/pc.go\<close>: the handler it installs, and the connections and the dialer for tests it has beside
  it. A connection of that kind gives back what is written to it through a channel of slices.
\<close>

section \<open>Data\<close>

text \<open>\<open>EchoConn\<close>. What is in the channel are slices, so the writer's arrays; \<open>None\<close> is a nil slice.\<close>

record echo_conn =
  ec_buf :: "slice option chan"
  ec_closed :: bool

record pc = csocks +
  echo_conns :: "nat \<rightharpoonup> echo_conn"

definition NewEchoConn :: "('x pc_scheme, nat) prog" where
  "NewEchoConn = (\<lambda>g. Some (Ok (go_next g, g\<lparr>go_next := go_next g + 1,
     echo_conns := (echo_conns g)(go_next g \<mapsto> \<lparr>ec_buf = make_chan 1024, ec_closed = False\<rparr>)\<rparr>)))"

definition on_ec_buf :: "nat \<Rightarrow> (slice option chan, 'r) prog \<Rightarrow> ('x pc_scheme, 'r) prog" where
  "on_ec_buf e m = bnd (go_deref echo_conns e) (\<lambda>c.
     zoom (\<lambda>_. ec_buf c) (\<lambda>b g. g\<lparr>echo_conns := (echo_conns g)(e \<mapsto> c\<lparr>ec_buf := b\<rparr>)\<rparr>) m)"

text \<open>
  \<open>Read\<close> into \<open>n\<close> bytes and \<open>Write\<close>, each with the check and what comes after it, which may have to wait. The length of a nil slice is 0.
\<close>

definition EchoConn_check :: "nat \<Rightarrow> ('x pc_scheme, string option) prog" where
  "EchoConn_check e = bnd (go_deref echo_conns e) (\<lambda>c. ret (if ec_closed c then Some ''closed'' else None))"

definition EchoConn_Read_take :: "nat \<Rightarrow> nat \<Rightarrow> ('x pc_scheme, u8 list \<times> string option) prog" where
  "EchoConn_Read_take e n = bnd (on_ec_buf e chan_recv) (\<lambda>r. case r of
       Some (Some s) \<Rightarrow> bnd (slice_bytes s) (\<lambda>d.
         if n < sl_len s then fail (GoPanic ''buffer too small'') else ret (d, None))
     | _ \<Rightarrow> ret ([], Some ''closed''))"

definition EchoConn_Read :: "nat \<Rightarrow> nat \<Rightarrow> ('x pc_scheme, u8 list \<times> string option) prog" where
  "EchoConn_Read e n = bnd (EchoConn_check e) (\<lambda>err. if err \<noteq> None then ret ([], err) else EchoConn_Read_take e n)"

definition EchoConn_Write_send :: "nat \<Rightarrow> slice option \<Rightarrow> ('x pc_scheme, int \<times> string option) prog" where
  "EchoConn_Write_send e b = seq (on_ec_buf e (chan_send b)) (ret (case b of None \<Rightarrow> 0 | Some s \<Rightarrow> int (sl_len s), None))"

definition EchoConn_Write :: "nat \<Rightarrow> slice option \<Rightarrow> ('x pc_scheme, int \<times> string option) prog" where
  "EchoConn_Write e b = bnd (EchoConn_check e) (\<lambda>err. if err \<noteq> None then ret (0, err) else EchoConn_Write_send e b)"

definition EchoConn_Close :: "nat \<Rightarrow> ('x pc_scheme, string option) prog" where
  "EchoConn_Close e =
     seq (bnd (go_deref echo_conns e) (\<lambda>c. modify (\<lambda>g. g\<lparr>echo_conns := (echo_conns g)(e \<mapsto> c\<lparr>ec_closed := True\<rparr>)\<rparr>)))
    (seq (on_ec_buf e chan_close) (ret None))"

text \<open>\<open>net_Dial\<close> is \<open>net.Dial\<close>.\<close>

definition EchoDialer_Dial ::
  "(string \<Rightarrow> string \<Rightarrow> ('x pc_scheme, 'c option \<times> string option) prog) \<Rightarrow> string \<Rightarrow> string \<Rightarrow>
   ('x pc_scheme, ('c + nat) option \<times> string option) prog" where
  "EchoDialer_Dial net_Dial network address = (if address = ''114.114.114.114:53''
     then bnd (net_Dial network address) (\<lambda>(c, err). ret (map_option Inl c, err))
     else bnd NewEchoConn (\<lambda>e. ret (Some (Inr e), None)))"

text \<open>The handler \<open>go_cs_proc\<close> installs; \<open>client\<close> and \<open>direct\<close> are the library's processors for the proxy and the network.\<close>

definition pc_handler :: "'x csocks_scheme go_cs \<Rightarrow> 'x processor \<Rightarrow> 'x processor \<Rightarrow> 'x csocks_ext go_handler" where
  "pc_handler G client direct = LwipHandler G (NewLwipHandler client direct)"

section \<open>What is written is read\<close>

primrec EchoConn_Writes :: "nat \<Rightarrow> slice list \<Rightarrow> ('x pc_scheme, unit) prog" where
  "EchoConn_Writes e [] = ret ()"
| "EchoConn_Writes e (s # ss) = seq (ignore (EchoConn_Write e (Some s))) (EchoConn_Writes e ss)"

primrec EchoConn_Reads :: "nat \<Rightarrow> nat \<Rightarrow> nat \<Rightarrow> ('x pc_scheme, (u8 list \<times> string option) list) prog" where
  "EchoConn_Reads e n 0 = ret []"
| "EchoConn_Reads e n (Suc k) = bnd (EchoConn_Read e n) (\<lambda>x. bnd (EchoConn_Reads e n k) (\<lambda>xs. ret (x # xs)))"

definition ec_open :: "'x pc_scheme \<Rightarrow> nat \<Rightarrow> slice option list \<Rightarrow> bool" where
  "ec_open g e ss \<longleftrightarrow> echo_conns g e = Some \<lparr>ec_buf = \<lparr>ch_buf = ss, ch_cap = 1024, ch_closed = False\<rparr>, ec_closed = False\<rparr>"

definition ec_with :: "nat \<Rightarrow> slice option list \<Rightarrow> 'x pc_scheme \<Rightarrow> 'x pc_scheme" where
  "ec_with e ss g = g\<lparr>echo_conns := (echo_conns g)(e \<mapsto> \<lparr>ec_buf = \<lparr>ch_buf = ss, ch_cap = 1024, ch_closed = False\<rparr>, ec_closed = False\<rparr>)\<rparr>"

lemma ec_with [simp]:
  "ec_open (ec_with e ss g) e ss" "ec_with e tt (ec_with e ss g) = ec_with e tt g" "go_arrays (ec_with e ss g) = go_arrays g"
  "ec_open g e ss \<Longrightarrow> ec_with e ss g = g"
  by (simp_all add: ec_open_def ec_with_def map_upd_triv)

lemma ec_write:
  "ec_open g e ss \<Longrightarrow> length ss < 1024 \<Longrightarrow> EchoConn_Write e (Some s) g = Some (Ok ((int (sl_len s), None), ec_with e (ss @ [Some s]) g))"
  by (simp add: ec_open_def EchoConn_Write_def EchoConn_check_def EchoConn_Write_send_def on_ec_buf_def chan_send_def go_deref_def
      ec_with_def run_simps)

lemma ec_read:
  "ec_open g e (Some s # ss) \<Longrightarrow> slice_bytes s g = Some (Ok (d, g)) \<Longrightarrow> sl_len s \<le> n \<Longrightarrow>
     EchoConn_Read e n g = Some (Ok ((d, None), ec_with e ss g))"
  by (auto simp: ec_open_def EchoConn_Read_def EchoConn_check_def EchoConn_Read_take_def on_ec_buf_def chan_recv_def go_deref_def
      ec_with_def run_simps slice_bytes_def split: option.splits)

lemma slice_bytes_arrays:
  "go_arrays g' = go_arrays g \<Longrightarrow> slice_bytes s g = Some (Ok (d, g)) \<Longrightarrow> slice_bytes s g' = Some (Ok (d, g'))"
  by (auto simp: slice_bytes_def go_deref_def run_simps split: option.splits)

lemma ec_writes:
  "ec_open g e ss \<Longrightarrow> length ss + length ts \<le> 1024 \<Longrightarrow> EchoConn_Writes e ts g = Some (Ok ((), ec_with e (ss @ map Some ts) g))"
proof (induction ts arbitrary: g ss)
  case Nil
  then show ?case by (simp add: run_simps)
next
  case (Cons t ts)
  from Cons.IH [of "ec_with e (ss @ [Some t]) g" "ss @ [Some t]"] Cons.prems ec_write [OF Cons.prems(1), of t]
  show ?case by (simp add: run_simps)
qed

lemma ec_reads:
  "ec_open g e (map Some ss) \<Longrightarrow> list_all2 (\<lambda>s d. slice_bytes s g = Some (Ok (d, g)) \<and> sl_len s \<le> n) ss ds \<Longrightarrow>
     EchoConn_Reads e n (length ss) g = Some (Ok (map (\<lambda>d. (d, None)) ds, ec_with e [] g))"
proof (induction ss arbitrary: g ds)
  case Nil
  then show ?case by (simp add: run_simps)
next
  case (Cons s ss)
  from Cons.prems(2) obtain d ds' where ds: "ds = d # ds'" and d: "slice_bytes s g = Some (Ok (d, g))" "sl_len s \<le> n"
    and rest: "list_all2 (\<lambda>s d. slice_bytes s g = Some (Ok (d, g)) \<and> sl_len s \<le> n) ss ds'" by (auto simp: list_all2_Cons1)
  let ?g = "ec_with e (map Some ss) g"
  have "EchoConn_Read e n g = Some (Ok ((d, None), ?g))" using ec_read [of g e s "map Some ss" d n] Cons.prems(1) d by simp
  moreover have "list_all2 (\<lambda>s d. slice_bytes s ?g = Some (Ok (d, ?g)) \<and> sl_len s \<le> n) ss ds'"
    by (rule list_all2_mono [OF rest]) (auto intro: slice_bytes_arrays [of ?g g])
  ultimately show ?case using Cons.IH [of ?g ds'] by (simp add: ds run_simps)
qed

text \<open>
  What is written to an open connection is read from it, slice by slice and in order, if there is room for the writes, the reader's
  buffer is large enough, and the writer leaves its arrays alone meanwhile.
\<close>

theorem echo_conn_roundtrip:
  assumes "ec_open g e []" and "length ss \<le> 1024" and "list_all2 (\<lambda>s d. slice_bytes s g = Some (Ok (d, g)) \<and> sl_len s \<le> n) ss ds"
  shows "seq (EchoConn_Writes e ss) (EchoConn_Reads e n (length ss)) g = Some (Ok (map (\<lambda>d. (d, None)) ds, g))"
proof -
  let ?g = "ec_with e (map Some ss) g"
  have "EchoConn_Writes e ss g = Some (Ok ((), ?g))" using ec_writes [OF assms(1), of ss] assms(2) by simp
  moreover have "list_all2 (\<lambda>s d. slice_bytes s ?g = Some (Ok (d, ?g)) \<and> sl_len s \<le> n) ss ds"
    by (rule list_all2_mono [OF assms(3)]) (auto intro: slice_bytes_arrays [of ?g g])
  ultimately show ?thesis using ec_reads [of ?g e ss n ds] assms(1) by (simp add: run_simps)
qed

section \<open>Closing\<close>

text \<open>
  After \<open>Close\<close>, \<open>Read\<close> and \<open>Write\<close> return the error, whatever was still unread; a second \<open>Close\<close> panics, and so does a \<open>Write\<close> that has
  passed its check before.
\<close>

theorem echo_conn_closed:
  assumes "ec_open g e ss"
  shows "\<exists>g'. EchoConn_Close e g = Some (Ok (None, g')) \<and>
     EchoConn_Read e n g' = Some (Ok (([], Some ''closed''), g')) \<and>
     EchoConn_Write e b g' = Some (Ok ((0, Some ''closed''), g')) \<and>
     EchoConn_Close e g' = Some (Fault (GoPanic ''close of closed channel'')) \<and>
     EchoConn_check e g = Some (Ok (None, g)) \<and>
     EchoConn_Write_send e b g' = Some (Fault (GoPanic ''send on closed channel''))"
  using assms by (simp add: ec_open_def EchoConn_Close_def EchoConn_Read_def EchoConn_Write_def EchoConn_check_def EchoConn_Write_send_def
      on_ec_buf_def chan_close_def chan_send_def go_deref_def run_simps)

text \<open>A \<open>Read\<close> into a buffer that is too small for the next slice panics.\<close>

theorem echo_conn_small_buffer:
  assumes "ec_open g e (Some s # ss)" and "slice_bytes s g = Some (Ok (d, g))" and "n < sl_len s"
  shows "EchoConn_Read e n g = Some (Fault (GoPanic ''buffer too small''))"
  using assms by (auto simp: ec_open_def EchoConn_Read_def EchoConn_check_def EchoConn_Read_take_def on_ec_buf_def chan_recv_def
      go_deref_def run_simps slice_bytes_def split: option.splits)

text \<open>Dialling any address but one gives such a connection, new and open.\<close>

theorem echo_dial_opens:
  assumes "address \<noteq> ''114.114.114.114:53''"
  shows "\<exists>e g'. EchoDialer_Dial net_Dial network address g = Some (Ok ((Some (Inr e), None), g')) \<and> ec_open g' e []"
  using assms by (simp add: EchoDialer_Dial_def NewEchoConn_def ec_open_def make_chan_def run_simps)

end
