(* ===== verification/Csocks_Gfw.thy ===== *)
theory Csocks_Gfw
  imports Csocks
begin

text \<open>
  The list of domains of \<open>csocks.go\<close>: which entries \<open>DNSGFW.Find\<close> takes for a name.
\<close>

section \<open>The parts of a name\<close>

definition label :: "string \<Rightarrow> bool" where
  "label l \<longleftrightarrow> l \<noteq> [] \<and> list_all label_char l"

lemma label_no_dot: "label l \<Longrightarrow> CHR ''.'' \<notin> set l"
  using label_char_not by (fastforce simp: label_def list_all_iff)

text \<open>A name as DNS messages have it, with a dot at the end.\<close>

definition fqdn :: "string list \<Rightarrow> string" where
  "fqdn ls = join ''.'' ls @ ''.''"

lemma fqdn_Cons: "fqdn (l # ls) = l @ CHR ''.'' # (if ls = [] then '''' else fqdn ls)"
  by (cases ls) (simp_all add: fqdn_def)

lemma cut_dot: "label l \<Longrightarrow> cut (CHR ''.'') (l @ CHR ''.'' # r) = (l, r)"
  using label_no_dot [of l] by (auto simp: cut_def takeWhile_append dropWhile_append)

lemma trim_plain:
  assumes "s \<noteq> []" and "hd s \<noteq> CHR ''.''" and "last s \<noteq> CHR ''.''"
  shows "trim (CHR ''.'') (s @ ''.'') = s"
proof -
  from assms(1,2) have "dropWhile (\<lambda>d. d = CHR ''.'') (s @ ''.'') = s @ ''.''" by (cases s) auto
  moreover from assms(1,3) have "dropWhile (\<lambda>d. d = CHR ''.'') (rev s) = rev s" by (cases s rule: rev_cases) auto
  ultimately show ?thesis by (simp add: trim_def)
qed

lemma label_ends: "label l \<Longrightarrow> hd l \<noteq> CHR ''.'' \<and> last l \<noteq> CHR ''.''"
  using label_no_dot [of l] by (metis hd_in_set label_def last_in_set)

lemma join_ends:
  "ls \<noteq> [] \<Longrightarrow> list_all label ls \<Longrightarrow> join ''.'' ls \<noteq> [] \<and> hd (join ''.'' ls) \<noteq> CHR ''.'' \<and> last (join ''.'' ls) \<noteq> CHR ''.'' \<and>
     list_all (\<lambda>c. label_char c \<or> c = CHR ''.'') (join ''.'' ls)"
proof (induction ls)
  case (Cons l ls)
  then have l: "l \<noteq> []" "hd l \<noteq> CHR ''.''" "last l \<noteq> CHR ''.''" "list_all (\<lambda>c. label_char c \<or> c = CHR ''.'') l"
    using label_ends [of l] by (auto simp: label_def list_all_iff)
  with Cons show ?case by (cases ls) (simp_all add: hd_append)
qed simp

definition gfw_key :: "string list \<Rightarrow> string \<times> string" where
  "gfw_key ls = (case ls of [] \<Rightarrow> ('''', '''') | [a] \<Rightarrow> (a, '''') | [a, b] \<Rightarrow> (b, '''') | x # a # rest \<Rightarrow> (a, join ''.'' rest))"

lemma split_last: "CHR ''.'' \<notin> set s \<Longrightarrow> split_after_n (CHR ''.'') (Suc n) s = [s]"
  by simp

lemma split_fqdn:
  "label a \<Longrightarrow> split_after_n (CHR ''.'') 3 (fqdn [a]) = [a @ ''.'', '''']"
  "label a \<Longrightarrow> label b \<Longrightarrow> split_after_n (CHR ''.'') 3 (fqdn [a, b]) = [a @ ''.'', b @ ''.'', '''']"
  "label a \<Longrightarrow> label b \<Longrightarrow> ls \<noteq> [] \<Longrightarrow> split_after_n (CHR ''.'') 3 (fqdn (a # b # ls)) = [a @ ''.'', b @ ''.'', fqdn ls]"
  by (simp_all add: numeral_3_eq_3 fqdn_Cons cut_dot)

lemma gfw_parts_fqdn:
  assumes "ls \<noteq> []" and "list_all label ls"
  shows "map (trim (CHR ''.'')) (gfw_parts (fqdn ls)) = [fst (gfw_key ls), snd (gfw_key ls)]"
    and "2 \<le> length (split_after_n (CHR ''.'') 3 (fqdn ls))"
proof -
  have one: "trim (CHR ''.'') (l @ ''.'') = l" if "label l" for l
    using that label_ends [of l] by (intro trim_plain) (auto simp: label_def)
  have many: "trim (CHR ''.'') (fqdn ms) = join ''.'' ms" if "ms \<noteq> []" "list_all label ms" for ms
    unfolding fqdn_def using join_ends [OF that] by (intro trim_plain) auto
  have nil: "trim (CHR ''.'') '''' = ''''" by (simp add: trim_def)
  consider a where "ls = [a]" | a b where "ls = [a, b]" | x a rest where "ls = x # a # rest" "rest \<noteq> []"
    using assms(1) by (metis list.exhaust)
  then have "map (trim (CHR ''.'')) (gfw_parts (fqdn ls)) = [fst (gfw_key ls), snd (gfw_key ls)] \<and>
      2 \<le> length (split_after_n (CHR ''.'') 3 (fqdn ls))"
  proof cases
    case 1
    then show ?thesis using assms(2) by (simp add: gfw_parts_def gfw_key_def split_fqdn one nil)
  next
    case 2
    then show ?thesis using assms(2) by (simp add: gfw_parts_def gfw_key_def split_fqdn one nil)
  next
    case 3
    then show ?thesis using assms(2) by (cases rest) (simp_all add: gfw_parts_def gfw_key_def split_fqdn one many)
  qed
  then show "map (trim (CHR ''.'')) (gfw_parts (fqdn ls)) = [fst (gfw_key ls), snd (gfw_key ls)]"
    and "2 \<le> length (split_after_n (CHR ''.'') 3 (fqdn ls))" by simp_all
qed

section \<open>The pattern\<close>

lemma backslash_code [simp]: "code backslash = 92"
  by (simp add: backslash_def)

lemma backslash_eq [simp]: "backslash = c \<longleftrightarrow> code c = 92" "c = backslash \<longleftrightarrow> code c = 92"
  by (metis backslash_code of_char_eq_iff)+

lemma rx_parse_end: "rx_parse ''$'' = Compiled [AtEnd]"
  by (simp add: rx_parse.simps)

lemma rx_parse_dot:
  "\<not> prefix ''*'' r \<Longrightarrow> rx_parse (backslash # CHR ''.'' # r) = rx_bind (rx_parse r) (\<lambda>as. Compiled (One (Ch (CHR ''.'')) # as))"
  by (rule rx_parse_one) (simp_all add: rx_item_of_def rx_punct_def is_alnum_def is_digit_def is_lower_def is_upper_def)

lemma rx_class_gfw: "rx_item_of (''['' @ [backslash] @ ''|'' @ [backslash] @ ''.]'' @ r) = Compiled (Class ''|.'', r)"
  by (simp add: rx_item_of_def rx_bind_def rx_punct_def is_alnum_def is_digit_def is_lower_def is_upper_def)

lemma rx_parse_many:
  assumes "rx_item_of s = Compiled (x, ''*'' @ r)" and "s \<noteq> ''$''"
    and "\<not> prefix ''*'' r" "\<not> prefix ''+'' r" "\<not> prefix ''?'' r" "\<not> prefix ''{'' r"
  shows "rx_parse s = rx_bind (rx_parse r) (\<lambda>as. Compiled (Many x # as))"
  using assms by (subst rx_parse.simps) (auto simp: rx_item_of_def)

lemma gfw_pattern_parse:
  assumes "list_all label_char a" and "list_all (\<lambda>c. label_char c \<or> c = CHR ''.'') b"
  shows "rx_parse (gfw_pattern a b) =
     Compiled (Many (Class ''|.'') # map (\<lambda>c. One (rx_of c)) a @ One (Ch (CHR ''.'')) # map (\<lambda>c. One (rx_of c)) b @ [AtEnd])"
proof -
  have tail: "rx_parse (b @ ''$'') = Compiled (map (\<lambda>c. One (rx_of c)) b @ [AtEnd])"
    using rx_parse_plain [OF assms(2) _ rx_parse_end] by simp
  moreover have "\<not> prefix ''*'' (b @ ''$'')" using assms(2) label_char_not by (cases b) auto
  ultimately have mid: "rx_parse (backslash # CHR ''.'' # b @ ''$'') = Compiled (One (Ch (CHR ''.'')) # map (\<lambda>c. One (rx_of c)) b @ [AtEnd])"
    by (simp add: rx_parse_dot rx_bind_def)
  have "list_all (\<lambda>c. label_char c \<or> c = CHR ''.'') a" using assms(1) by (simp add: list_all_iff)
  from rx_parse_plain [OF this _ mid]
  have body: "rx_parse (a @ backslash # CHR ''.'' # b @ ''$'') =
      Compiled (map (\<lambda>c. One (rx_of c)) a @ One (Ch (CHR ''.'')) # map (\<lambda>c. One (rx_of c)) b @ [AtEnd])" by simp
  let ?r = "a @ backslash # CHR ''.'' # b @ ''$''"
  have start: "label_char c \<or> code c = 92" if "prefix [c] ?r" for c
    using that assms(1) by (cases a) auto
  have "\<not> label_char (CHR ''*'')" "\<not> label_char (CHR ''+'')" "\<not> label_char (CHR ''?'')" "\<not> label_char (CHR ''{'')"
    by (simp_all add: label_char_def is_alnum_def is_digit_def is_lower_def is_upper_def)
  then have first: "\<not> prefix ''*'' ?r" "\<not> prefix ''+'' ?r" "\<not> prefix ''?'' ?r" "\<not> prefix ''{'' ?r"
    using start [of "CHR ''*''"] start [of "CHR ''+''"] start [of "CHR ''?''"] start [of "CHR ''{''"] by auto
  have "gfw_pattern a b = ''['' @ [backslash] @ ''|'' @ [backslash] @ ''.]'' @ ''*'' @ ?r" by (simp add: gfw_pattern_def)
  then show ?thesis
    using rx_parse_many [OF rx_class_gfw [of "''*'' @ ?r"] _ first] body by (simp add: rx_bind_def)
qed

lemma gfw_pattern_matches:
  assumes "list_all label_char a" and "list_all (\<lambda>c. label_char c \<or> c = CHR ''.'') b"
  shows "\<exists>m. regexp_compile other (gfw_pattern a b) = Some m \<and> (\<forall>key. m key \<longleftrightarrow> (\<exists>u v. key = u @ a @ ''.'' @ v \<and> fits b v))"
proof -
  let ?tail = "map (\<lambda>c. One (rx_of c)) b @ [AtEnd]"
  have fits_a: "fits a u \<longleftrightarrow> u = a" for u
    using assms(1) label_char_not by (induction a arbitrary: u) (auto simp: fits_def list_all2_Cons1 rx_of_def)
  have "rx_match (One (Ch (CHR ''.'')) # ?tail) t \<longleftrightarrow> (\<exists>v. t = ''.'' @ v \<and> fits b v)" for t
    using rx_match_plain [of b "[AtEnd]"] by (auto split: list.split)
  then have "rx_match (map (\<lambda>c. One (rx_of c)) a @ One (Ch (CHR ''.'')) # ?tail) t \<longleftrightarrow> (\<exists>v. t = a @ ''.'' @ v \<and> fits b v)" for t
    unfolding rx_match_plain fits_a by auto
  then have "rx_search (Many (Class ''|.'') # map (\<lambda>c. One (rx_of c)) a @ One (Ch (CHR ''.'')) # ?tail) key \<longleftrightarrow>
      (\<exists>u v. key = u @ a @ ''.'' @ v \<and> fits b v)" for key
    by (subst rx_search_many) (auto simp: rx_search_iff)
  then show ?thesis using gfw_pattern_parse [OF assms] by (simp add: regexp_compile_def)
qed

section \<open>What is found\<close>

text \<open>
  An entry is taken for a name of one label if it ends with the label and a dot, of two if it ends with the second and a
  dot, and of more if it ends with the name without its first label; there a dot after the first one may be any character.
\<close>

definition listed :: "string list \<Rightarrow> string \<Rightarrow> bool" where
  "listed ls key \<longleftrightarrow> (\<exists>u v. key = u @ fst (gfw_key ls) @ ''.'' @ v \<and> fits (snd (gfw_key ls)) v)"

lemma gfw_key_chars:
  assumes "ls \<noteq> []" and "list_all label ls"
  shows "list_all label_char (fst (gfw_key ls))" "list_all (\<lambda>c. label_char c \<or> c = CHR ''.'') (snd (gfw_key ls))"
proof -
  consider a where "ls = [a]" | a b where "ls = [a, b]" | x a b rest where "ls = x # a # b # rest"
    using assms(1) by (metis list.exhaust)
  then have "list_all label_char (fst (gfw_key ls)) \<and> list_all (\<lambda>c. label_char c \<or> c = CHR ''.'') (snd (gfw_key ls))"
  proof cases
    case (3 x a b rest)
    then show ?thesis using assms(2) join_ends [of "b # rest"] by (simp add: gfw_key_def label_def)
  qed (use assms(2) in \<open>simp_all add: gfw_key_def label_def\<close>)
  then show "list_all label_char (fst (gfw_key ls))" "list_all (\<lambda>c. label_char c \<or> c = CHR ''.'') (snd (gfw_key ls))" by simp_all
qed

lemma fits_label: "list_all label_char b \<Longrightarrow> fits b v \<longleftrightarrow> v = b"
  using label_char_not by (induction b arbitrary: v) (auto simp: fits_def list_all2_Cons1 rx_of_def)

lemma listed_three: "label b \<Longrightarrow> listed [x, a, b] key \<longleftrightarrow> suffix (a @ ''.'' @ b) key"
  by (auto simp: listed_def gfw_key_def fits_label label_def suffix_def)

lemma listed_two: "listed [a, b] key \<longleftrightarrow> suffix (b @ ''.'') key"
  by (auto simp: listed_def gfw_key_def fits_label suffix_def)

lemma listed_one: "listed [a] key \<longleftrightarrow> suffix (a @ ''.'') key"
  by (auto simp: listed_def gfw_key_def fits_label suffix_def)

lemma listed_more:
  "listed (x # a # b # c # rest) key \<longleftrightarrow>
     (\<exists>u v. key = u @ a @ ''.'' @ v \<and> list_all2 (\<lambda>p d. if p = CHR ''.'' then code d \<noteq> 10 else d = p) (join ''.'' (b # c # rest)) v)"
proof -
  have "(\<lambda>p. rx_accepts (rx_of p)) = (\<lambda>p d. if p = CHR ''.'' then code d \<noteq> 10 else d = p)"
    by (auto simp: rx_of_def fun_eq_iff)
  then show ?thesis by (simp add: listed_def gfw_key_def fits_def)
qed

lemma DNSGFW_Find_run:
  assumes "ls \<noteq> []" and "list_all label ls"
  shows "DNSGFW_Find other order (fqdn ls) g = Some (Ok (case find (\<lambda>(key, val). listed ls key) order of
     Some (key, val) \<Rightarrow> val | None \<Rightarrow> gfw_default (gfw_list g), g))"
proof -
  obtain m where m: "regexp_compile other (gfw_pattern (fst (gfw_key ls)) (snd (gfw_key ls))) = Some m"
    and "\<And>key. m key \<longleftrightarrow> listed ls key"
    using gfw_pattern_matches [OF gfw_key_chars [OF assms], of other] unfolding listed_def by blast
  then have "m = listed ls" by blast
  with m gfw_parts_fqdn [OF assms] show ?thesis
    by (auto simp: DNSGFW_Find_def run_simps Let_def split: option.split)
qed

lemma find_SomeD: "find P xs = Some x \<Longrightarrow> x \<in> set xs \<and> P x"
  by (auto simp: find_Some_iff in_set_conv_nth)

text \<open>
  C32. Which server is asked for a name. For a name of labels of letters, digits, hyphens and underscores, with the dot at its end that
  names in DNS messages have, \<open>Find\<close> returns without a panic the target of some listed entry, in whatever order the list is gone through,
  and the default if no entry is listed for the name. For a name of one label the entries are those that end with the label and a
  dot; of two, with the second label and a dot, so the entry of a domain is never taken for the domain itself; of three, with the last
  two labels; and of more, with the name without its first label, where every dot but the first stands for any character but the end of a line.
\<close>

theorem gfw_find_cases:
  assumes "list_all label ls" and "ls \<noteq> []" and "set order = {(k, v). gfw_list g k = Some v}"
  shows "\<exists>t. DNSGFW_Find other order (join ''.'' ls @ ''.'') g = Some (Ok (t, g)) \<and>
     (if \<exists>k. gfw_list g k \<noteq> None \<and> listed ls k then \<exists>k. gfw_list g k = Some t \<and> listed ls k
      else t = gfw_default (gfw_list g)) \<and>
     (\<forall>a k. ls = [a] \<longrightarrow> listed ls k = suffix (a @ ''.'') k) \<and>
     (\<forall>a b k. ls = [a, b] \<longrightarrow> listed ls k = suffix (b @ ''.'') k) \<and>
     (\<forall>x a b k. ls = [x, a, b] \<longrightarrow> listed ls k = suffix (a @ ''.'' @ b) k) \<and>
     (\<forall>x a b c rest k. ls = x # a # b # c # rest \<longrightarrow> listed ls k =
        (\<exists>u v. k = u @ a @ ''.'' @ v \<and> list_all2 (\<lambda>p d. if p = CHR ''.'' then code d \<noteq> 10 else d = p) (join ''.'' (b # c # rest)) v))"
proof -
  let ?t = "case find (\<lambda>(key, val). listed ls key) order of Some (key, val) \<Rightarrow> val | None \<Rightarrow> gfw_default (gfw_list g)"
  have "if \<exists>k. gfw_list g k \<noteq> None \<and> listed ls k then \<exists>k. gfw_list g k = Some ?t \<and> listed ls k else ?t = gfw_default (gfw_list g)"
  proof (cases "find (\<lambda>(key, val). listed ls key) order")
    case None
    then have "\<not> listed ls k" if "gfw_list g k \<noteq> None" for k using that assms(3) by (fastforce simp: find_None_iff)
    with None show ?thesis by auto
  next
    case (Some kv)
    from find_SomeD [OF this] have "kv \<in> set order" "listed ls (fst kv)" by (auto split: prod.splits)
    moreover obtain k v where "kv = (k, v)" by (cases kv)
    ultimately have "gfw_list g k = Some v" "listed ls k" "?t = v" using assms(3) Some by auto
    then have "\<exists>k. gfw_list g k \<noteq> None \<and> listed ls k" and "\<exists>k. gfw_list g k = Some ?t \<and> listed ls k" by (blast, simp) blast
    then show ?thesis by simp
  qed
  then show ?thesis using DNSGFW_Find_run [OF assms(2,1), of other order g] assms(1)
    by (auto simp: fqdn_def listed_one listed_two listed_three listed_more)
qed

text \<open>A list with one domain: a host of it is asked for at the proxy, the domain itself is not.\<close>

definition gfw_demo :: csocks where
  "gfw_demo = csocks_init\<lparr>gfw_list := [''*'' \<mapsto> ''dns://local'', ''||google.com'' \<mapsto> ''dns://proxy'']\<rparr>"

lemma gfw_demo_list: "gfw_list gfw_demo = [''*'' \<mapsto> ''dns://local'', ''||google.com'' \<mapsto> ''dns://proxy'']"
  by (simp add: gfw_demo_def)

lemma demo_labels: "label ''www''" "label ''google''" "label ''com''"
  by (simp_all add: label_def label_char_def is_alnum_def is_lower_def is_digit_def is_upper_def)

theorem gfw_find_cases_witness:
  "DNSGFW_Find (\<lambda>_. None) [(''||google.com'', ''dns://proxy''), (''*'', ''dns://local'')] ''www.google.com.'' gfw_demo =
     Some (Ok (''dns://proxy'', gfw_demo)) \<and>
   DNSGFW_Find (\<lambda>_. None) [(''||google.com'', ''dns://proxy''), (''*'', ''dns://local'')] ''google.com.'' gfw_demo =
     Some (Ok (''dns://local'', gfw_demo))"
proof
  let ?o = "[(''||google.com'', ''dns://proxy''), (''*'', ''dns://local'')]"
  have order: "set ?o = {(k, v). gfw_list gfw_demo k = Some v}" by (auto simp: gfw_demo_list split: if_splits)
  have "suffix ''google.com'' ''||google.com''" "\<not> suffix ''google.com'' ''*''" by (simp_all add: suffix_def) 
  then show "DNSGFW_Find (\<lambda>_. None) ?o ''www.google.com.'' gfw_demo = Some (Ok (''dns://proxy'', gfw_demo))"
    using gfw_find_cases [OF _ _ order, of "[''www'', ''google'', ''com'']" "\<lambda>_. None"] demo_labels
    by (auto simp: gfw_demo_list listed_three split: if_splits)
  show "DNSGFW_Find (\<lambda>_. None) ?o ''google.com.'' gfw_demo = Some (Ok (''dns://local'', gfw_demo))"
    using gfw_find_cases [OF _ _ order, of "[''google'', ''com'']" "\<lambda>_. None"] demo_labels
    by (auto simp: gfw_demo_list listed_two suffix_def gfw_default_def split: if_splits)
qed

end
