(* ===== verification/Cpp.thy ===== *)
theory Cpp
  imports Cs_Prelude
begin

text \<open>
  The part of the C preprocessor that the configuration headers use: object-like macros with arithmetic
  bodies, empty and textual macros, conditionals. Expansion is by name, at the point of use, so a body may
  name a macro that is defined later; a macro is not expanded inside its own expansion; a name that is no
  macro is 0. In the headers every arithmetic body is one token or in parentheses, so expanding
  expressions is expanding text.
\<close>

section \<open>Syntax\<close>

datatype cexp =
    Num int
  | Name string
  | Defined string
  | Lnot cexp
  | Land cexp cexp
  | Lor cexp cexp
  | Equal cexp cexp
  | Less cexp cexp
  | Plus cexp cexp
  | Minus cexp cexp
  | Times cexp cexp
  | Quot cexp cexp
  | Bor cexp cexp

datatype body = Arith cexp | Blank | Verbatim

text \<open>
  A line: a definition, something the compiler sees (a declaration or the body of a function,
  named by a string), or a conditional with its two branches.
\<close>

datatype line =
    Define string body
  | Code string
  | Cond cexp "line list" "line list"

type_synonym macros = "(string \<times> body) list"

section \<open>Expressions\<close>

definition truth :: "bool \<Rightarrow> int" where
  "truth b = (if b then 1 else 0)"

definition lift2 :: "(int \<Rightarrow> int \<Rightarrow> int) \<Rightarrow> int option \<Rightarrow> int option \<Rightarrow> int option" where
  "lift2 f a b = (case (a, b) of (Some x, Some y) \<Rightarrow> Some (f x y) | _ \<Rightarrow> None)"

definition undef :: "string \<Rightarrow> macros \<Rightarrow> macros" where
  "undef x m = filter (\<lambda>b. fst b \<noteq> x) m"

lemma undef_shorter: "map_of m x = Some b \<Longrightarrow> length (undef x m) < length m"
proof -
  assume "map_of m x = Some b"
  then have "(x, b) \<in> set m" by (rule map_of_SomeD)
  then show ?thesis unfolding undef_def by (rule length_filter_less) simp
qed

text \<open>
  The value of an expression of a conditional; \<open>None\<close> is an error: a division by zero that is evaluated,
  or a macro whose expansion is not an expression. Division truncates towards zero.
\<close>

function ceval :: "macros \<Rightarrow> cexp \<Rightarrow> int option" where
  "ceval m (Num n) = Some n"
| "ceval m (Name x) = (case map_of m x of
       None \<Rightarrow> Some 0
     | Some (Arith e) \<Rightarrow> ceval (undef x m) e
     | Some _ \<Rightarrow> None)"
| "ceval m (Defined x) = Some (truth (map_of m x \<noteq> None))"
| "ceval m (Lnot a) = map_option (\<lambda>v. truth (v = 0)) (ceval m a)"
| "ceval m (Land a b) = (case ceval m a of
       None \<Rightarrow> None
     | Some v \<Rightarrow> if v = 0 then Some 0 else map_option (\<lambda>u. truth (u \<noteq> 0)) (ceval m b))"
| "ceval m (Lor a b) = (case ceval m a of
       None \<Rightarrow> None
     | Some v \<Rightarrow> if v \<noteq> 0 then Some 1 else map_option (\<lambda>u. truth (u \<noteq> 0)) (ceval m b))"
| "ceval m (Equal a b) = lift2 (\<lambda>x y. truth (x = y)) (ceval m a) (ceval m b)"
| "ceval m (Less a b) = lift2 (\<lambda>x y. truth (x < y)) (ceval m a) (ceval m b)"
| "ceval m (Plus a b) = lift2 (+) (ceval m a) (ceval m b)"
| "ceval m (Minus a b) = lift2 (-) (ceval m a) (ceval m b)"
| "ceval m (Times a b) = lift2 (*) (ceval m a) (ceval m b)"
| "ceval m (Quot a b) = (case ceval m b of
       None \<Rightarrow> None
     | Some v \<Rightarrow> if v = 0 then None else map_option (\<lambda>u. sgn u * sgn v * (\<bar>u\<bar> div \<bar>v\<bar>)) (ceval m a))"
| "ceval m (Bor a b) = lift2 or (ceval m a) (ceval m b)"
  by pat_completeness auto
termination
  by (relation "measures [\<lambda>(m, e). length m, \<lambda>(m, e). size e]") (auto dest: undef_shorter)

section \<open>Files\<close>

text \<open>The macros after a file and what of it the compiler sees, from the macros before.\<close>

fun cpp_line :: "line \<Rightarrow> macros \<Rightarrow> (macros \<times> string list) option"
  and cpp :: "line list \<Rightarrow> macros \<Rightarrow> (macros \<times> string list) option" where
  "cpp_line (Define x b) m = Some ((x, b) # m, [])"
| "cpp_line (Code s) m = Some (m, [s])"
| "cpp_line (Cond e yes no) m = (case ceval m e of
       None \<Rightarrow> None
     | Some v \<Rightarrow> if v \<noteq> 0 then cpp yes m else cpp no m)"
| "cpp [] m = Some (m, [])"
| "cpp (l # ls) m = (case cpp_line l m of
       None \<Rightarrow> None
     | Some (m', out) \<Rightarrow> (case cpp ls m' of None \<Rightarrow> None | Some (m'', out') \<Rightarrow> Some (m'', out @ out')))"

text \<open>The value of an option of the configuration, in the macros a file leaves.\<close>

definition option_value :: "macros \<Rightarrow> string \<Rightarrow> int option" where
  "option_value m x = (if map_of m x = None then None else ceval m (Name x))"

section \<open>General facts\<close>

lemma cpp_append:
  "cpp (ls @ ls') m = (case cpp ls m of
     None \<Rightarrow> None
   | Some (m', out) \<Rightarrow> map_option (\<lambda>(m'', out'). (m'', out @ out')) (cpp ls' m'))"
  by (induction ls arbitrary: m) (auto split: option.splits simp: option.map_ident case_prod_unfold)

text \<open>The definitions of a list of lines that stand outside its conditionals, the last one first.\<close>

fun top_defs :: "line list \<Rightarrow> macros" where
  "top_defs [] = []"
| "top_defs (Define x b # ls) = top_defs ls @ [(x, b)]"
| "top_defs (l # ls) = top_defs ls"

fun is_define :: "line \<Rightarrow> bool" where
  "is_define (Define x b) = True"
| "is_define l = False"

lemma cpp_top_defs: "list_all is_define ls \<Longrightarrow> cpp ls m = Some (top_defs ls @ m, [])"
proof (induction ls arbitrary: m)
  case (Cons l ls)
  then show ?case by (cases l) auto
qed simp

lemma map_of_undef [simp]: "map_of (undef x m) y = (if y = x then None else map_of m y)"
  by (induction m) (auto simp: undef_def)

lemma map_of_append_find: "map_of (a @ b) x = (case map_of a x of None \<Rightarrow> map_of b x | Some v \<Rightarrow> Some v)"
  by (simp add: map_add_def)

end
