(* ===== verification/Cs_Config.thy ===== *)
theory Cs_Config
  imports Cpp
begin

text \<open>
  The configuration and the port headers as the preprocessor sees them: \<open>src/lwipopts.h\<close>, \<open>src/lwipcfg.h\<close>,
  \<open>src/arch/cc.h\<close>, \<open>src/arch/sys_arch.h\<close> and \<open>src/arch/perf.h\<close>. What the
  compiler defines by itself is the argument \<open>platform\<close>. \<open>LWIP_DBG_OFF\<close> and the other levels of \<open>lwip/debug.h\<close>
  are names without a definition here; no conditional of these files depends on them.
\<close>

section \<open>lwipopts.h\<close>

abbreviation (input) opt :: "string \<Rightarrow> int \<Rightarrow> line" where "opt x n \<equiv> Define x (Arith (Num n))"

abbreviation (input) same :: "string \<Rightarrow> string \<Rightarrow> line" where "same x y \<equiv> Define x (Arith (Name y))"

abbreviation (input) macro :: "string \<Rightarrow> line" where "macro x \<equiv> Define x Verbatim"

text \<open>Protocols and interfaces, then debugging (only with \<open>LWIP_DEBUG\<close>), memory, buffers, TCP, the other
  protocols, statistics and PPP, in the order of the file.\<close>

definition opts_protocols :: "line list" where
  "opts_protocols = [
     opt ''LWIP_IPV4'' 1,
     opt ''LWIP_IPV6'' 1,
     opt ''NO_SYS'' 1,
     Define ''LWIP_SOCKET'' (Arith (Equal (Name ''NO_SYS'') (Num 0))),
     Define ''LWIP_NETCONN'' (Arith (Equal (Name ''NO_SYS'') (Num 0))),
     Define ''LWIP_NETIF_API'' (Arith (Equal (Name ''NO_SYS'') (Num 0))),
     same ''LWIP_IGMP'' ''LWIP_IPV4'',
     same ''LWIP_ICMP'' ''LWIP_IPV4'',
     same ''LWIP_SNMP'' ''LWIP_UDP'',
     same ''MIB2_STATS'' ''LWIP_SNMP'',
     Cond (Defined ''LWIP_HAVE_MBEDTLS'') [
       same ''LWIP_SNMP_V3'' ''LWIP_SNMP''] [],
     same ''LWIP_DNS'' ''LWIP_UDP'',
     same ''LWIP_MDNS_RESPONDER'' ''LWIP_UDP'',
     same ''LWIP_NUM_NETIF_CLIENT_DATA'' ''LWIP_MDNS_RESPONDER'',
     opt ''LWIP_HAVE_LOOPIF'' 1,
     opt ''LWIP_NETIF_LOOPBACK'' 1,
     opt ''LWIP_LOOPBACK_MAX_PBUFS'' 10,
     opt ''TCP_LISTEN_BACKLOG'' 1,
     opt ''LWIP_COMPAT_SOCKETS'' 1,
     opt ''LWIP_SO_RCVTIMEO'' 1,
     opt ''LWIP_SO_RCVBUF'' 1,
     opt ''LWIP_TCPIP_CORE_LOCKING'' 1,
     opt ''LWIP_NETIF_LINK_CALLBACK'' 1,
     opt ''LWIP_NETIF_STATUS_CALLBACK'' 1,
     opt ''LWIP_NETIF_EXT_STATUS_CALLBACK'' 1]"

definition opts_debug :: "line list" where
  "opts_debug = [
     Cond (Defined ''LWIP_DEBUG'') [
       opt ''LWIP_DBG_MIN_LEVEL'' 0,
       same ''PPP_DEBUG'' ''LWIP_DBG_OFF'',
       same ''MEM_DEBUG'' ''LWIP_DBG_OFF'',
       same ''MEMP_DEBUG'' ''LWIP_DBG_OFF'',
       same ''PBUF_DEBUG'' ''LWIP_DBG_OFF'',
       same ''API_LIB_DEBUG'' ''LWIP_DBG_OFF'',
       same ''API_MSG_DEBUG'' ''LWIP_DBG_OFF'',
       same ''TCPIP_DEBUG'' ''LWIP_DBG_OFF'',
       same ''NETIF_DEBUG'' ''LWIP_DBG_OFF'',
       same ''SOCKETS_DEBUG'' ''LWIP_DBG_OFF'',
       same ''DNS_DEBUG'' ''LWIP_DBG_OFF'',
       same ''AUTOIP_DEBUG'' ''LWIP_DBG_OFF'',
       same ''DHCP_DEBUG'' ''LWIP_DBG_OFF'',
       same ''IP_DEBUG'' ''LWIP_DBG_OFF'',
       same ''IP_REASS_DEBUG'' ''LWIP_DBG_OFF'',
       same ''ICMP_DEBUG'' ''LWIP_DBG_OFF'',
       same ''IGMP_DEBUG'' ''LWIP_DBG_OFF'',
       same ''UDP_DEBUG'' ''LWIP_DBG_OFF'',
       same ''TCP_DEBUG'' ''LWIP_DBG_OFF'',
       same ''TCP_INPUT_DEBUG'' ''LWIP_DBG_OFF'',
       same ''TCP_OUTPUT_DEBUG'' ''LWIP_DBG_OFF'',
       same ''TCP_RTO_DEBUG'' ''LWIP_DBG_OFF'',
       same ''TCP_CWND_DEBUG'' ''LWIP_DBG_OFF'',
       same ''TCP_WND_DEBUG'' ''LWIP_DBG_OFF'',
       same ''TCP_FR_DEBUG'' ''LWIP_DBG_OFF'',
       same ''TCP_QLEN_DEBUG'' ''LWIP_DBG_OFF'',
       same ''TCP_RST_DEBUG'' ''LWIP_DBG_OFF''] [],
     Define ''LWIP_DBG_TYPES_ON'' (Arith (Bor (Bor (Bor (Bor
       (Name ''LWIP_DBG_ON'') (Name ''LWIP_DBG_TRACE'')) (Name ''LWIP_DBG_STATE''))
       (Name ''LWIP_DBG_FRESH'')) (Name ''LWIP_DBG_HALT'')))]"

definition opts_memory :: "line list" where
  "opts_memory = [
     opt ''MEM_ALIGNMENT'' 4,
     opt ''MEM_SIZE'' 10240,
     opt ''MEMP_NUM_PBUF'' 16,
     opt ''MEMP_NUM_RAW_PCB'' 3,
     opt ''MEMP_NUM_UDP_PCB'' 4,
     opt ''MEMP_NUM_TCP_PCB'' 5,
     opt ''MEMP_NUM_TCP_PCB_LISTEN'' 8,
     opt ''MEMP_NUM_TCP_SEG'' 16,
     opt ''MEMP_NUM_SYS_TIMEOUT'' 17,
     opt ''MEMP_NUM_NETBUF'' 2,
     opt ''MEMP_NUM_NETCONN'' 10,
     opt ''MEMP_NUM_TCPIP_MSG_API'' 16,
     opt ''MEMP_NUM_TCPIP_MSG_INPKT'' 16]"

definition opts_pbuf :: "line list" where
  "opts_pbuf = [
     opt ''PBUF_POOL_SIZE'' 120,
     opt ''PBUF_POOL_BUFSIZE'' 256,
     Define ''SYS_LIGHTWEIGHT_PROT'' (Arith (Equal (Name ''NO_SYS'') (Num 0)))]"

definition opts_tcp :: "line list" where
  "opts_tcp = [
     opt ''LWIP_TCP'' 1,
     opt ''TCP_TTL'' 255,
     same ''LWIP_ALTCP'' ''LWIP_TCP'',
     Cond (Defined ''LWIP_HAVE_MBEDTLS'') [
       same ''LWIP_ALTCP_TLS'' ''LWIP_TCP'',
       same ''LWIP_ALTCP_TLS_MBEDTLS'' ''LWIP_TCP''] [],
     opt ''TCP_QUEUE_OOSEQ'' 1,
     opt ''TCP_MSS'' 1024,
     opt ''TCP_SND_BUF'' 2048,
     Define ''TCP_SND_QUEUELEN'' (Arith (Quot (Times (Num 4) (Name ''TCP_SND_BUF'')) (Name ''TCP_MSS''))),
     Define ''TCP_SNDLOWAT'' (Arith (Quot (Name ''TCP_SND_BUF'') (Num 2))),
     Define ''TCP_WND'' (Arith (Times (Num 20) (Num 1024))),
     opt ''TCP_MAXRTX'' 12,
     opt ''TCP_SYNMAXRTX'' 4]"

definition opts_ip :: "line list" where
  "opts_ip = [
     opt ''LWIP_ARP'' 1,
     opt ''ARP_TABLE_SIZE'' 10,
     opt ''ARP_QUEUEING'' 1,
     opt ''IP_FORWARD'' 1,
     opt ''IP_REASSEMBLY'' 1,
     Define ''IP_REASS_MAX_PBUFS'' (Arith (Times (Num 10)
       (Quot (Minus (Plus (Num 1500) (Name ''PBUF_POOL_BUFSIZE'')) (Num 1)) (Name ''PBUF_POOL_BUFSIZE'')))),
     same ''MEMP_NUM_REASSDATA'' ''IP_REASS_MAX_PBUFS'',
     opt ''IP_FRAG'' 1,
     opt ''IPV6_FRAG_COPYHEADER'' 1,
     opt ''ICMP_TTL'' 255,
     same ''LWIP_DHCP'' ''LWIP_UDP'',
     same ''DHCP_DOES_ARP_CHECK'' ''LWIP_DHCP'',
     same ''LWIP_AUTOIP'' ''LWIP_DHCP'',
     Define ''LWIP_DHCP_AUTOIP_COOP'' (Arith (Land (Name ''LWIP_DHCP'') (Name ''LWIP_AUTOIP''))),
     opt ''LWIP_UDP'' 1,
     same ''LWIP_UDPLITE'' ''LWIP_UDP'',
     opt ''UDP_TTL'' 255,
     opt ''LWIP_RAW'' 1]"

definition opts_stats_modules :: "line list" where
  "opts_stats_modules = [
     opt ''LINK_STATS'' 1,
     opt ''IP_STATS'' 1,
     opt ''ICMP_STATS'' 1,
     opt ''IGMP_STATS'' 1,
     opt ''IPFRAG_STATS'' 1,
     opt ''UDP_STATS'' 1,
     opt ''TCP_STATS'' 1,
     opt ''MEM_STATS'' 1,
     opt ''MEMP_STATS'' 1,
     opt ''PBUF_STATS'' 1,
     opt ''SYS_STATS'' 1]"

definition opts_stats :: "line list" where
  "opts_stats = [
     opt ''LWIP_STATS'' 1,
     opt ''LWIP_STATS_DISPLAY'' 1,
     Cond (Name ''LWIP_STATS'') opts_stats_modules [],
     opt ''LWIP_NETBIOS_RESPOND_NAME_QUERY'' 1]"

definition opts_ppp_modules :: "line list" where
  "opts_ppp_modules = [
     opt ''NUM_PPP'' 1,
     opt ''PPPOE_SUPPORT'' 1,
     opt ''PPPOS_SUPPORT'' 1,
     opt ''PAP_SUPPORT'' 1,
     opt ''CHAP_SUPPORT'' 1,
     opt ''MSCHAP_SUPPORT'' 0,
     opt ''CBCP_SUPPORT'' 0,
     opt ''CCP_SUPPORT'' 0,
     opt ''VJ_SUPPORT'' 1,
     opt ''MD5_SUPPORT'' 1]"

definition opts_ppp :: "line list" where
  "opts_ppp = [
     opt ''PPP_SUPPORT'' 0,
     Cond (Name ''PPP_SUPPORT'') opts_ppp_modules []]"


definition opts_locking :: "line list" where
  "opts_locking = [
     Cond (Lor (Lnot (Defined ''NO_SYS'')) (Lnot (Name ''NO_SYS''))) [
       Code ''void sys_check_core_locking(void)'',
       macro ''LWIP_ASSERT_CORE_LOCKED'',
       Code ''void sys_mark_tcpip_thread(void)'',
       macro ''LWIP_MARK_TCPIP_THREAD'',
       Cond (Lor (Lnot (Defined ''LWIP_TCPIP_CORE_LOCKING'')) (Name ''LWIP_TCPIP_CORE_LOCKING'')) [
         Code ''void sys_lock_tcpip_core(void)'',
         macro ''LOCK_TCPIP_CORE'',
         Code ''void sys_unlock_tcpip_core(void)'',
         macro ''UNLOCK_TCPIP_CORE''] []] []]"

definition lwipopts_h :: "line list" where
  "lwipopts_h = [Cond (Lnot (Defined ''LWIP_LWIPOPTS_H'')) ([
     Define ''LWIP_LWIPOPTS_H'' Blank,
     Cond (Defined ''LWIP_OPTTEST_FILE'')
       [Code ''#include lwipopts_test.h'']
       (opts_protocols @ opts_debug @ opts_memory @ opts_pbuf @ opts_tcp @ opts_ip @ opts_stats @ opts_ppp)] @
     opts_locking) []]"

section \<open>The other headers\<close>

definition lwipcfg_port :: "line list" where
  "lwipcfg_port = [
     macro ''PPP_USERNAME'', macro ''PPP_PASSWORD'',
     opt ''PACKET_LIB_ADAPTER_NR'' 1,
     macro ''LWIP_PORT_INIT_IPADDR'', macro ''LWIP_PORT_INIT_GW'', macro ''LWIP_PORT_INIT_NETMASK'',
     macro ''LWIP_MAC_ADDR_BASE'',
     Cond (Defined ''USE_SLIPIF'') [
       Cond (Name ''USE_SLIPIF'') [
         macro ''LWIP_PORT_INIT_SLIP1_IPADDR'', macro ''LWIP_PORT_INIT_SLIP1_GW'',
         macro ''LWIP_PORT_INIT_SLIP1_NETMASK'',
         Cond (Less (Num 1) (Name ''USE_SLIPIF'')) [
           macro ''LWIP_PORT_INIT_SLIP2_IPADDR'', macro ''LWIP_PORT_INIT_SLIP2_GW'',
           macro ''LWIP_PORT_INIT_SLIP2_NETMASK''] []] []] []]"

definition lwipcfg_apps :: "line list" where
  "lwipcfg_apps = [
     opt ''LWIP_CHARGEN_APP'' 0,
     opt ''LWIP_DNS_APP'' 0,
     opt ''LWIP_HTTPD_APP'' 0,
     opt ''LWIP_NETBIOS_APP'' 0,
     opt ''LWIP_NETIO_APP'' 0,
     opt ''LWIP_MDNS_APP'' 0,
     opt ''LWIP_MQTT_APP'' 0,
     opt ''LWIP_PING_APP'' 0,
     opt ''LWIP_RTP_APP'' 0,
     opt ''LWIP_SHELL_APP'' 0,
     opt ''LWIP_SNMP_APP'' 0,
     opt ''LWIP_SNTP_APP'' 0,
     opt ''LWIP_SOCKET_EXAMPLES_APP'' 0,
     opt ''LWIP_TCPECHO_APP'' 1,
     opt ''LWIP_TFTP_APP'' 0,
     opt ''LWIP_UDPECHO_APP'' 1,
     opt ''LWIP_LWIPERF_APP'' 0,
     opt ''USE_DHCP'' 0,
     opt ''USE_AUTOIP'' 0]"

text \<open>\<open>arch/cc.h\<close>: the platform, and what depends on it.\<close>

definition cc_platform :: "line list" where
  "cc_platform = [
     Cond (Defined ''__ANDROID__'') [Define ''LWIP_UNIX_ANDROID'' Blank] [
     Cond (Defined ''__linux__'') [Define ''LWIP_UNIX_LINUX'' Blank] [
     Cond (Defined ''__APPLE__'') [Define ''LWIP_UNIX_MACH'' Blank] [
     Cond (Defined ''__OpenBSD__'') [Define ''LWIP_UNIX_OPENBSD'' Blank] [
     Cond (Land (Defined ''__FreeBSD_kernel__'') (Name ''__GLIBC__'')) [Define ''LWIP_UNIX_KFREEBSD'' Blank] [
     Cond (Defined ''__CYGWIN__'') [Define ''LWIP_UNIX_CYGWIN'' Blank] [
     Cond (Defined ''__GNU__'') [Define ''LWIP_UNIX_HURD'' Blank] []]]]]]]]"

definition cc_h :: "line list" where
  "cc_h = [Cond (Lnot (Defined ''LWIP_ARCH_CC_H'')) ([Define ''LWIP_ARCH_CC_H'' Blank] @ cc_platform @ [
     opt ''LWIP_TIMEVAL_PRIVATE'' 0,
     macro ''LWIP_ERRNO_INCLUDE'',
     Cond (Lor (Lor (Defined ''LWIP_UNIX_LINUX'') (Defined ''LWIP_UNIX_HURD'')) (Defined ''LWIP_UNIX_KFREEBSD''))
       [opt ''LWIP_ERRNO_STDINCLUDE'' 1] [],
     Code ''extern unsigned int lwip_port_rand(void)'',
     macro ''LWIP_RAND'',
     Cond (Defined ''LWIP_NOASSERT_ON_ERROR'') [macro ''LWIP_ERROR''] [],
     Cond (Defined ''LWIP_UNIX_MACH'') [Define ''LWIP_DONT_PROVIDE_BYTEORDER_FUNCTIONS'' Blank] [],
     Code ''struct sio_status_s'', Code ''typedef struct sio_status_s sio_status_t'',
     macro ''sio_fd_t'', Define ''__sio_fd_t_defined'' Blank,
     Code ''typedef unsigned int sys_prot_t'']) []]"

definition sys_arch_threading :: "line list" where
  "sys_arch_threading = [
     Code ''void sys_mark_tcpip_thread(void)'',
     macro ''LWIP_MARK_TCPIP_THREAD'',
     Cond (Name ''LWIP_TCPIP_CORE_LOCKING'') [
       Code ''void sys_lock_tcpip_core(void)'',
       macro ''LOCK_TCPIP_CORE'',
       Code ''void sys_unlock_tcpip_core(void)'',
       macro ''UNLOCK_TCPIP_CORE''] []]"

definition perf_h :: "line list" where
  "perf_h = [Cond (Lnot (Defined ''LWIP_ARCH_PERF_H'')) [
     Define ''LWIP_ARCH_PERF_H'' Blank,
     Cond (Defined ''PERF'')
       [macro ''PERF_START'', macro ''PERF_STOP'']
       [Define ''PERF_START'' Blank, Define ''PERF_STOP'' Blank],
     Code ''void perf_print'', Code ''void perf_print_times'', Code ''void perf_init''] []]"

section \<open>Platforms\<close>

text \<open>What the compilers of the supported systems define.\<close>

datatype platform = Linux | Android nat | Darwin | OpenBSD | KFreeBSD | Cygwin | Hurd | Other

fun predefined :: "platform \<Rightarrow> macros" where
  "predefined Linux = [(''__linux__'', Arith (Num 1)), (''__GLIBC__'', Arith (Num 2))]"
| "predefined (Android api) = [(''__ANDROID__'', Arith (Num 1)), (''__linux__'', Arith (Num 1)),
     (''__ANDROID_API__'', Arith (Num (int api)))]"
| "predefined Darwin = [(''__APPLE__'', Arith (Num 1))]"
| "predefined OpenBSD = [(''__OpenBSD__'', Arith (Num 1))]"
| "predefined KFreeBSD = [(''__FreeBSD_kernel__'', Arith (Num 1)), (''__GLIBC__'', Arith (Num 2))]"
| "predefined Cygwin = [(''__CYGWIN__'', Arith (Num 1))]"
| "predefined Hurd = [(''__GNU__'', Arith (Num 1)), (''__GLIBC__'', Arith (Num 2))]"
| "predefined Other = []"

section \<open>Running the headers\<close>

lemma opts_protocols_run:
  "map_of m ''LWIP_HAVE_MBEDTLS'' = None \<Longrightarrow> cpp opts_protocols m = Some (top_defs opts_protocols @ m, [])"
  by (simp add: opts_protocols_def truth_def)

lemma opts_debug_run:
  "map_of m ''LWIP_DEBUG'' = None \<Longrightarrow> cpp opts_debug m = Some (top_defs opts_debug @ m, [])"
  by (simp add: opts_debug_def truth_def)

lemma opts_tcp_run:
  "map_of m ''LWIP_HAVE_MBEDTLS'' = None \<Longrightarrow> cpp opts_tcp m = Some (top_defs opts_tcp @ m, [])"
  by (simp add: opts_tcp_def truth_def)

lemma opts_plain_run:
  "cpp opts_memory m = Some (top_defs opts_memory @ m, [])"
  "cpp opts_pbuf m = Some (top_defs opts_pbuf @ m, [])"
  "cpp opts_ip m = Some (top_defs opts_ip @ m, [])"
  "cpp opts_stats_modules m = Some (top_defs opts_stats_modules @ m, [])"
  by (rule cpp_top_defs, simp add: opts_memory_def opts_pbuf_def opts_ip_def opts_stats_modules_def)+

text \<open>The definitions \<open>lwipopts.h\<close> makes, in groups, the last one first.\<close>

definition opts_groups :: "macros list" where
  "opts_groups = [[(''PPP_SUPPORT'', Arith (Num 0))], [(''LWIP_NETBIOS_RESPOND_NAME_QUERY'', Arith (Num 1))],
     top_defs opts_stats_modules, [(''LWIP_STATS_DISPLAY'', Arith (Num 1)), (''LWIP_STATS'', Arith (Num 1))],
     top_defs opts_ip, top_defs opts_tcp, top_defs opts_pbuf, top_defs opts_memory, top_defs opts_debug,
     top_defs opts_protocols, [(''LWIP_LWIPOPTS_H'', Blank)]]"

definition opts_table :: macros where
  "opts_table = concat opts_groups"

text \<open>A build without TLS, tests of the options and debug output, that has not read the file yet.\<close>

definition plain_build :: "macros \<Rightarrow> bool" where
  "plain_build m \<longleftrightarrow> list_all (\<lambda>x. map_of m x = None)
     [''LWIP_LWIPOPTS_H'', ''LWIP_OPTTEST_FILE'', ''LWIP_HAVE_MBEDTLS'', ''LWIP_DEBUG'']"

lemma opts_absent:
  "map_of (top_defs opts_memory) ''LWIP_HAVE_MBEDTLS'' = None" "map_of (top_defs opts_pbuf) ''LWIP_HAVE_MBEDTLS'' = None"
  "map_of (top_defs opts_debug) ''LWIP_HAVE_MBEDTLS'' = None"
  "map_of (top_defs opts_protocols) ''LWIP_HAVE_MBEDTLS'' = None"
  "map_of (top_defs opts_protocols) ''LWIP_DEBUG'' = None"
  by (simp_all add: opts_memory_def opts_pbuf_def opts_debug_def opts_protocols_def)

lemma opts_body_run:
  assumes "map_of m ''LWIP_HAVE_MBEDTLS'' = None" "map_of m ''LWIP_DEBUG'' = None"
  shows "cpp (opts_protocols @ opts_debug @ opts_memory @ opts_pbuf @ opts_tcp @ opts_ip @ opts_stats @ opts_ppp) m =
    Some (concat (butlast opts_groups) @ m, [])"
  using assms
  by (simp add: cpp_append opts_protocols_run opts_debug_run opts_tcp_run opts_plain_run map_of_append_find opts_absent
      opts_groups_def opts_stats_def opts_ppp_def truth_def)

lemmas table_defs = opts_table_def opts_groups_def opts_protocols_def opts_debug_def opts_memory_def opts_pbuf_def
  opts_tcp_def opts_ip_def opts_stats_modules_def

lemma table_no_sys: "map_of opts_table ''NO_SYS'' = Some (Arith (Num 1))"
  by (simp add: table_defs)

lemma lwipopts_run:
  assumes "plain_build m"
  shows "cpp lwipopts_h m = Some (opts_table @ m, [])"
proof -
  have t: "concat (butlast opts_groups) @ (''LWIP_LWIPOPTS_H'', Blank) # m = opts_table @ m" for m
    by (simp add: opts_table_def opts_groups_def)
  have "map_of (opts_table @ m) ''NO_SYS'' = Some (Arith (Num 1))"
    by (simp only: map_of_append_find table_no_sys option.simps)
  then have "cpp opts_locking (opts_table @ m) = Some (opts_table @ m, [])"
    by (simp add: opts_locking_def truth_def del: map_of_append)
  with assms opts_body_run [of "(''LWIP_LWIPOPTS_H'', Blank) # m"] show ?thesis
    by (simp add: lwipopts_h_def plain_build_def truth_def t del: map_of_append)
qed

text \<open>The options the proofs below need.\<close>

lemma table_lookup:
  "map_of opts_table ''SYS_LIGHTWEIGHT_PROT'' = Some (Arith (Equal (Name ''NO_SYS'') (Num 0)))"
  "map_of opts_table ''LWIP_SNMP'' = Some (Arith (Name ''LWIP_UDP''))"
  "map_of opts_table ''MIB2_STATS'' = Some (Arith (Name ''LWIP_SNMP''))"
  "map_of opts_table ''LWIP_UDP'' = Some (Arith (Num 1))"
  "map_of opts_table ''TCP_MSS'' = Some (Arith (Num 1024))"
  "map_of opts_table ''TCP_SND_BUF'' = Some (Arith (Num 2048))"
  "map_of opts_table ''TCP_SND_QUEUELEN'' = Some (Arith (Quot (Times (Num 4) (Name ''TCP_SND_BUF'')) (Name ''TCP_MSS'')))"
  "map_of opts_table ''TCP_SNDLOWAT'' = Some (Arith (Quot (Name ''TCP_SND_BUF'') (Num 2)))"
  "map_of opts_table ''TCP_WND'' = Some (Arith (Times (Num 20) (Num 1024)))"
  "map_of opts_table ''PBUF_POOL_SIZE'' = Some (Arith (Num 120))"
  "map_of opts_table ''PBUF_POOL_BUFSIZE'' = Some (Arith (Num 256))"
  "map_of opts_table ''IP_REASS_MAX_PBUFS'' = Some (Arith (Times (Num 10)
     (Quot (Minus (Plus (Num 1500) (Name ''PBUF_POOL_BUFSIZE'')) (Num 1)) (Name ''PBUF_POOL_BUFSIZE''))))"
  by code_simp+

text \<open>
  Names the headers do not define, so that their meaning is the compiler's: those that start with two underscores,
  and the platforms.
\<close>

lemma table_prefixes:
  "list_all (\<lambda>b. take 2 (fst b) \<noteq> ''__'') opts_table" "list_all (\<lambda>b. take 9 (fst b) \<noteq> ''LWIP_UNIX'') opts_table"
  by code_simp+

lemma absent_prefix: "list_all (\<lambda>b. take n (fst b) \<noteq> s) m \<Longrightarrow> take n x = s \<Longrightarrow> map_of m x = None"
  by (induction m) auto

lemma table_absent:
  "map_of opts_table (CHR ''_'' # CHR ''_'' # x) = None" "map_of opts_table (''LWIP_UNIX'' @ x) = None"
  by (rule table_prefixes [THEN absent_prefix], simp)+

lemma table_absent_names:
  "map_of opts_table ''LWIP_ARCH_CC_H'' = None" "map_of opts_table ''LWIP_NOASSERT_ON_ERROR'' = None"
  "map_of opts_table ''LWIP_FUZZ_SYS_NOW'' = None"
  by code_simp+

lemma lwipopts_then: "plain_build m \<Longrightarrow> cpp (lwipopts_h @ ls) m = cpp ls (opts_table @ m)"
  by (simp add: cpp_append lwipopts_run case_prod_unfold option.map_ident)

lemma predefined_plain: "plain_build (predefined p)"
  by (cases p) (simp_all add: plain_build_def)

lemmas run_header = table_lookup table_no_sys table_absent(1) table_absent(2) [simplified] table_absent_names
  map_of_append_find truth_def lift2_def

text \<open>
  The other headers: with the core locking option a port with threads gets the locking macros, the applications
  selected are the two echo servers, no addresses for serial lines are defined unless asked for, and performance
  counters expand to nothing.
\<close>

lemma sys_arch_locking:
  "map_of m ''LWIP_TCPIP_CORE_LOCKING'' = Some (Arith (Num 1)) \<Longrightarrow> \<exists>m' out. cpp sys_arch_threading m = Some (m', out) \<and>
     ''void sys_lock_tcpip_core(void)'' \<in> set out \<and> map_of m' ''LOCK_TCPIP_CORE'' = Some Verbatim"
  by (simp add: sys_arch_threading_def)

lemma lwipcfg_selected:
  "map fst (filter (\<lambda>b. snd b = Arith (Num 1)) (top_defs lwipcfg_apps)) = [''LWIP_UDPECHO_APP'', ''LWIP_TCPECHO_APP'']"
  by (simp add: lwipcfg_apps_def)

lemma lwipcfg_no_slip:
  "map_of m ''USE_SLIPIF'' = None \<Longrightarrow> cpp (lwipcfg_port @ lwipcfg_apps) m = Some (top_defs (lwipcfg_port @ lwipcfg_apps) @ m, [])"
  by (simp add: lwipcfg_port_def lwipcfg_apps_def truth_def)

lemma perf_h_nothing:
  "map_of m ''LWIP_ARCH_PERF_H'' = None \<Longrightarrow> map_of m ''PERF'' = None \<Longrightarrow> \<exists>m' out. cpp perf_h m = Some (m', out) \<and>
     map_of m' ''PERF_START'' = Some Blank \<and> map_of m' ''PERF_STOP'' = Some Blank"
  by (simp add: perf_h_def truth_def)

section \<open>Properties\<close>

text \<open>The value of an option after a header.\<close>

definition option_after :: "line list \<Rightarrow> macros \<Rightarrow> string \<Rightarrow> int option" where
  "option_after ls m x = (case cpp ls m of None \<Rightarrow> None | Some (m', out) \<Rightarrow> option_value m' x)"

lemma after_lwipopts: "plain_build m \<Longrightarrow> option_after lwipopts_h m x = option_value (opts_table @ m) x"
  by (simp add: option_after_def lwipopts_run)

text \<open>
  The options are the ones the comments of \<open>lwipopts.h\<close> ask for. In every build without TLS, tests of
  the options and debug output, whatever else the compiler predefines: the queue of the sender holds at
  least \<open>2 * TCP_SND_BUF / TCP_MSS\<close> buffers, the low water mark is at most the send buffer, and so on down to
  the pool of 120 buffers of 256 bytes, which holds a whole receive window.
\<close>

theorem lwipopts_consistent:
  assumes "plain_build m"
  shows "\<exists>snd mss qlen low wnd size bufsize reass.
     option_after lwipopts_h m ''TCP_SND_BUF'' = Some snd \<and> option_after lwipopts_h m ''TCP_MSS'' = Some mss \<and>
     option_after lwipopts_h m ''TCP_SND_QUEUELEN'' = Some qlen \<and> option_after lwipopts_h m ''TCP_SNDLOWAT'' = Some low \<and>
     option_after lwipopts_h m ''TCP_WND'' = Some wnd \<and> option_after lwipopts_h m ''PBUF_POOL_SIZE'' = Some size \<and>
     option_after lwipopts_h m ''PBUF_POOL_BUFSIZE'' = Some bufsize \<and>
     option_after lwipopts_h m ''IP_REASS_MAX_PBUFS'' = Some reass \<and>
     2 * snd div mss \<le> qlen \<and> low \<le> snd \<and> snd < 2 ^ 16 \<and> wnd < 2 ^ 16 \<and> mss \<le> snd \<and>
     bufsize \<le> snd \<and> wnd \<le> size * bufsize \<and> reass < size"
  by (rule exI [of _ 2048], rule exI [of _ 1024], rule exI [of _ 8], rule exI [of _ 1024], rule exI [of _ 20480],
      rule exI [of _ 120], rule exI [of _ 256], rule exI [of _ 60])
    (simp add: after_lwipopts [OF assms] option_value_def run_header del: map_of_append)

theorem lwipopts_consistent_witness: "option_after lwipopts_h (predefined Linux) ''TCP_SND_BUF'' \<noteq> None"
  using lwipopts_consistent [OF predefined_plain [of Linux]] by auto

text \<open>
  On every platform \<open>NO_SYS\<close> is 1 and \<open>SYS_LIGHTWEIGHT_PROT\<close>, which follows it, is 0 after \<open>lwipopts.h\<close>: the conditionals
  of \<open>sys.c\<close> on them leave out threads, mailboxes, semaphores, mutexes, the core lock, the keyboard and the critical section.
  \<open>cc.h\<close> defines the name \<open>sys.c\<close> tests for the clock of Darwin there and nowhere else.
\<close>

lemma no_threads:
  assumes "plain_build m"
  shows "option_after lwipopts_h m ''NO_SYS'' = Some 1" and "option_after lwipopts_h m ''SYS_LIGHTWEIGHT_PROT'' = Some 0"
  by (simp_all add: after_lwipopts [OF assms] option_value_def run_header del: map_of_append)

lemma mach_clock:
  "\<exists>m out. cpp (lwipopts_h @ cc_h) (predefined p) = Some (m, out) \<and> (map_of m ''LWIP_UNIX_MACH'' \<noteq> None \<longleftrightarrow> p = Darwin)"
  unfolding lwipopts_then [OF predefined_plain]
  by (cases p) (simp_all add: cc_h_def cc_platform_def run_header del: map_of_append)

end
