(* ===== verification/Cs_Host.thy ===== *)
theory Cs_Host
  imports Lwipcs Cs_Config Go_Std
begin

text \<open>
  The programs around the bridge: the set-up of the tap device and the main programs of \<open>src/test.c\<close>,
  \<open>csocks/pc/test/test.c\<close> and \<open>echo/test/test.c\<close>. The functions of the operating system are the fields of \<open>unix_api\<close>; they
  work on the part of the world outside the program and return as they like. \<open>exit\<close> is the fault \<open>Exited\<close>.
  Messages on the terminal are left out.
\<close>

section \<open>The operating system\<close>

text \<open>The variable \<open>tap_fd\<close> of the programs, and what is outside.\<close>

record 'o host =
  tap_fd :: int
  outside :: 'o

record 'o unix_api =
  ux_open :: "string \<Rightarrow> ('o, int) prog"
  ux_tunsetiff :: "int \<Rightarrow> string \<Rightarrow> u16 \<Rightarrow> ('o, int) prog"
  ux_system :: "string \<Rightarrow> ('o, int) prog"
  ux_read :: "int \<Rightarrow> nat \<Rightarrow> ('o, int \<times> u8 list) prog"
  ux_write :: "int \<Rightarrow> u8 list \<Rightarrow> u16 \<Rightarrow> ('o, int) prog"
  ux_free :: "addr \<Rightarrow> ('o, unit) prog"

definition on_os :: "('o, 'r) prog \<Rightarrow> ('o host world, 'r) prog" where
  "on_os m = zoom (\<lambda>w. outside (app w)) (\<lambda>x w. w\<lparr>app := (app w)\<lparr>outside := x\<rparr>\<rparr>) m"

lemma on_os_run [run_simps]:
  "on_os m w = (case m (outside (app w)) of
       None \<Rightarrow> None
     | Some (Fault f) \<Rightarrow> Some (Fault f)
     | Some (Ok (x, v)) \<Rightarrow> Some (Ok (x, w\<lparr>app := (app w)\<lparr>outside := v\<rparr>\<rparr>)))"
  by (simp add: on_os_def run_simps)

lemma on_os_Ok [ok_simps]:
  "on_os m w = Some (Ok (y, v)) \<longleftrightarrow> (\<exists>x. m (outside (app w)) = Some (Ok (y, x)) \<and> v = w\<lparr>app := (app w)\<lparr>outside := x\<rparr>\<rparr>)"
  by (auto simp: on_os_def ok_simps)

section \<open>The tap device\<close>

text \<open>\<open>DEVTAP\<close> and the name of the interface, unless the build sets them otherwise.\<close>

definition devtap :: "platform \<Rightarrow> string" where
  "devtap p = (case p of Linux \<Rightarrow> ''/dev/net/tun'' | OpenBSD \<Rightarrow> ''/dev/tun0'' | _ \<Rightarrow> ''/dev/tap0'')"

definition dotted :: "'x netif_api \<Rightarrow> u32 \<Rightarrow> string" where
  "dotted N a = dec (unat (ip4_addr_byte N 0 a)) @ ''.'' @ dec (unat (ip4_addr_byte N 1 a)) @ ''.'' @
     dec (unat (ip4_addr_byte N 2 a)) @ ''.'' @ dec (unat (ip4_addr_byte N 3 a))"

text \<open>\<open>IFCONFIG_BIN IFCONFIG_ARGS\<close> with its arguments, and \<open>snprintf\<close> into a buffer of \<open>n\<close> bytes.\<close>

definition ifconfig_text :: "platform \<Rightarrow> 'x netif_api \<Rightarrow> u32 \<Rightarrow> u32 \<Rightarrow> string" where
  "ifconfig_text p N gw netmask = ''/sbin/ifconfig '' @
     (case p of OpenBSD \<Rightarrow> ''tun0 inet '' | _ \<Rightarrow> ''tap0 inet '') @ dotted N gw @ '' netmask '' @ dotted N netmask @
     (case p of OpenBSD \<Rightarrow> '' link0'' | _ \<Rightarrow> '''')"

definition snprintf :: "nat \<Rightarrow> string \<Rightarrow> string" where
  "snprintf n s = take (n - 1) s"

definition tap_open :: "'o unix_api \<Rightarrow> platform \<Rightarrow> ('o host world, unit) prog" where
  "tap_open X p =
     bnd (on_os (ux_open X (devtap p))) (\<lambda>fd.
     seq (modify (\<lambda>w. w\<lparr>app := (app w)\<lparr>tap_fd := fd\<rparr>\<rparr>))
    (if fd = - 1 then fail (Exited 1)
     else if p = Linux then
       bnd (on_os (ux_tunsetiff X fd (take 15 ''tap0'') (or 0x0002 0x1000))) (\<lambda>r.
       if r < 0 then fail (Exited 1) else ret ())
     else ret ()))"

text \<open>\<open>gw\<close> and \<open>netmask\<close> are \<open>netif_ip4_gw\<close> and \<open>netif_ip4_netmask\<close> of lwIP.\<close>

definition tap_ifconfig ::
  "'o unix_api \<Rightarrow> platform \<Rightarrow> 'o host netif_api \<Rightarrow> (addr \<Rightarrow> ('o host world, u32) prog) \<Rightarrow>
   (addr \<Rightarrow> ('o host world, u32) prog) \<Rightarrow> addr \<Rightarrow> ('o host world, unit) prog" where
  "tap_ifconfig X p N gw netmask netif =
     bnd (gw netif) (\<lambda>a.
     bnd (netmask netif) (\<lambda>m.
     bnd (on_os (ux_system X (snprintf 1024 (ifconfig_text p N a m)))) (\<lambda>r.
     if r < 0 then fail (Exited 1) else ret ())))"

definition cs_tap_init ::
  "'o unix_api \<Rightarrow> platform \<Rightarrow> 'o host netif_api \<Rightarrow> (addr \<Rightarrow> ('o host world, u32) prog) \<Rightarrow>
   (addr \<Rightarrow> ('o host world, u32) prog) \<Rightarrow> addr \<Rightarrow> addr \<Rightarrow> ('o host world, unit) prog" where
  "cs_tap_init X p N gw netmask arg netif =
     block [tap_open X p, netif_set_link_up N netif, tap_ifconfig X p N gw netmask netif]"

text \<open>The one of the programs that host Go does not report the link.\<close>

definition test_tap_init ::
  "'o unix_api \<Rightarrow> platform \<Rightarrow> 'o host netif_api \<Rightarrow> (addr \<Rightarrow> ('o host world, u32) prog) \<Rightarrow>
   (addr \<Rightarrow> ('o host world, u32) prog) \<Rightarrow> addr \<Rightarrow> addr \<Rightarrow> ('o host world, unit) prog" where
  "test_tap_init X p N gw netmask arg netif = block [tap_open X p, tap_ifconfig X p N gw netmask netif]"

section \<open>Frames\<close>

definition test_output :: "'o unix_api \<Rightarrow> addr \<Rightarrow> u8 list \<Rightarrow> u16 \<Rightarrow> ('o host world, int) prog" where
  "test_output X arg buf len = bnd (gets (\<lambda>w. tap_fd (app w))) (\<lambda>fd. on_os (ux_write X fd buf len))"

definition test_input :: "'o unix_api \<Rightarrow> addr \<Rightarrow> u16 \<Rightarrow> ('o host world, int \<times> u8 list) prog" where
  "test_input X arg len = bnd (gets (\<lambda>w. tap_fd (app w))) (\<lambda>fd. on_os (ux_read X fd (unat len)))"

definition test_raw_output_h :: "'o unix_api \<Rightarrow> addr \<Rightarrow> addr \<Rightarrow> u8 list \<Rightarrow> u16 \<Rightarrow> ('o host world, int) prog" where
  "test_raw_output_h X arg netif buf len = test_output X arg buf len"

definition test_raw_input_h ::
  "'o host pbuf_api \<Rightarrow> 'o unix_api \<Rightarrow> addr \<Rightarrow> addr \<Rightarrow> ('o host world, addr \<times> u16 option) prog" where
  "test_raw_input_h P X arg netif =
     bnd (test_input X arg 1518) (\<lambda>(len, buf).
     if len < 1 then ret (NULL, Some 0)
     else
       bnd (pbuf_alloc P PBUF_RAW (word_of_int len) PBUF_POOL) (\<lambda>p.
       seq (whenc (p \<noteq> NULL) (ignore (pbuf_take P p buf (word_of_int len))))
      (ret (p, None))))"

text \<open>The operating system as the callbacks of \<open>src/test.c\<close> use it.\<close>

definition host_os :: "'o unix_api \<Rightarrow> 'o host os_api" where
  "host_os X = \<lparr>os_printf = (\<lambda>m. ret ()), os_write = test_output X NULL, os_read = (\<lambda>n. test_input X NULL (of_nat n))\<rparr>"

section \<open>Callbacks nobody registers\<close>

definition cs_input_free :: "'o unix_api \<Rightarrow> addr \<Rightarrow> addr \<Rightarrow> addr \<Rightarrow> ('o host world, unit) prog" where
  "cs_input_free X arg netif buf = on_os (ux_free X buf)"

definition test_tcp_accept :: "addr \<Rightarrow> addr \<Rightarrow> addr \<Rightarrow> ('x world, err_t) prog" where
  "test_tcp_accept arg newpcb state = ret ERR_OK"

definition test_tcp_recv :: "'x pbuf_api \<Rightarrow> 'x tcp_api \<Rightarrow> addr \<Rightarrow> addr \<Rightarrow> addr \<Rightarrow> addr \<Rightarrow> ('x world, err_t) prog" where
  "test_tcp_recv P T arg tpcb p state =
     bnd (deref pbufs p) (\<lambda>b.
     seq (tcp_recved T tpcb (pb_tot_len b))
    (seq (ignore (pbuf_free P p))
    (ret ERR_OK)))"

definition test_tcp_send_done :: "addr \<Rightarrow> addr \<Rightarrow> addr \<Rightarrow> ('x world, unit) prog" where
  "test_tcp_send_done arg tpcb state = ret ()"

definition test_tcp_close :: "addr \<Rightarrow> addr \<Rightarrow> addr \<Rightarrow> ('x world, unit) prog" where
  "test_tcp_close arg tpcb state = ret ()"

definition test_udp_recv ::
  "'x pbuf_api \<Rightarrow> 'x udp_api \<Rightarrow> addr \<Rightarrow> addr \<Rightarrow> addr \<Rightarrow> ip_addr_t \<Rightarrow> u16 \<Rightarrow> ('x world, err_t) prog" where
  "test_udp_recv P U arg upcb p ipaddr port =
     seq (ignore (cs_udp_sendto U upcb p ipaddr port))
    (seq (ignore (pbuf_free P p))
    (ret ERR_OK))"

section \<open>Main programs\<close>

text \<open>\<open>main\<close> of \<open>src/test.c\<close>. The result of \<open>cs_init\<close> is not looked at, and the loop has no end.\<close>

definition echo_main ::
  "'o unix_api \<Rightarrow> platform \<Rightarrow> 'o host pbuf_api \<Rightarrow> 'o host tcp_api \<Rightarrow> 'o host udp_api \<Rightarrow> 'o host netif_api \<Rightarrow>
   (addr \<Rightarrow> ('o host world, u32) prog) \<Rightarrow> (addr \<Rightarrow> ('o host world, u32) prog) \<Rightarrow> addr \<Rightarrow> addr \<Rightarrow> addr \<Rightarrow>
   ('o host world, unit) prog" where
  "echo_main X p P T U N gw netmask garbage netif back =
     (let C = [back \<mapsto> echo_back P T U (host_os X) (cs_tap_init X p N gw netmask) garbage netif] in
      seq (ignore (cs_init T U N C back))
          (repeat_m (seq (cs_netif_proc P N C netif) (ret True))))"

text \<open>
  The structure \<open>main\<close> of \<open>csocks/pc/test/test.c\<close> passes to \<open>cs_init\<close>, and what it is when Go takes over.
  \<open>echo/test/test.c\<close> does not assign \<open>init\<close>.
\<close>

definition pc_callback ::
  "'o unix_api \<Rightarrow> platform \<Rightarrow> 'o host netif_api \<Rightarrow> (addr \<Rightarrow> ('o host world, u32) prog) \<Rightarrow>
   (addr \<Rightarrow> ('o host world, u32) prog) \<Rightarrow> 'o host go_api \<Rightarrow> 'o host go_cs \<Rightarrow> addr \<Rightarrow> addr \<Rightarrow> 'o host cs_callback" where
  "pc_callback X p N gw netmask H G garbage netif = go_cs_init_handle H G \<lparr>cb_state = garbage, cb_netif = netif,
     cb_tcp_accept = None, cb_tcp_recv = None, cb_tcp_send_done = None, cb_tcp_close = None, cb_udp_recv = None,
     cb_output = None, cb_input = None, cb_init = Some (test_tap_init X p N gw netmask)\<rparr>"

definition pc_callback_running :: "'o unix_api \<Rightarrow> 'o host cs_callback \<Rightarrow> 'o host cs_callback" where
  "pc_callback_running X cb = cb\<lparr>cb_output := Some (test_raw_output_h X)\<rparr>"

definition echo_go_callback :: "'o host go_api \<Rightarrow> 'o host go_cs \<Rightarrow> addr \<Rightarrow> addr \<Rightarrow> 'o host cs_callback" where
  "echo_go_callback H G garbage netif = go_cs_init_handle H G \<lparr>cb_state = garbage, cb_netif = netif,
     cb_tcp_accept = None, cb_tcp_recv = None, cb_tcp_send_done = None, cb_tcp_close = None, cb_udp_recv = None,
     cb_output = None, cb_input = None, cb_init = None\<rparr>"

section \<open>The command fits\<close>

lemma dec_length: "n < 1000 \<Longrightarrow> length (dec n) \<le> 3"
  by (subst dec.simps, simp, subst dec.simps, simp, subst dec.simps, auto)

lemma dec_byte: "length (dec (unat (b :: u8))) \<le> 3"
proof -
  have "unat b < 2 ^ 8" using unsigned_less [of b] by simp
  then show ?thesis by (intro dec_length) simp
qed

lemma dotted_length: "length (dotted N a) \<le> 15"
  unfolding dotted_def using dec_byte [of "ip4_addr_byte N 0 a"] dec_byte [of "ip4_addr_byte N 1 a"]
    dec_byte [of "ip4_addr_byte N 2 a"] dec_byte [of "ip4_addr_byte N 3 a"] by simp

lemma ifconfig_fits: "length (ifconfig_text p N a m) < 100"
  using dotted_length [of N a] dotted_length [of N m] by (simp add: ifconfig_text_def split: platform.split)

lemma snprintf_whole: "snprintf 1024 (ifconfig_text p N a m) = ifconfig_text p N a m"
  using ifconfig_fits [of p N a m] by (simp add: snprintf_def)

lemma dotted_ip4:
  "doc_ip4_bytes N \<Longrightarrow> dotted N (IP4_ADDR N a b c d) =
     dec (unat a) @ ''.'' @ dec (unat b) @ ''.'' @ dec (unat c) @ ''.'' @ dec (unat d)"
  by (simp add: doc_ip4_bytes_def dotted_def)

section \<open>Setting up the device\<close>

text \<open>
  What the set-up hands to the operating system, by what that answers: a system call that fails ends the program
  with status 1 at once.
\<close>

definition outcome :: "('o, int) prog \<Rightarrow> (int \<Rightarrow> bool) \<Rightarrow> ('o, int) prog" where
  "outcome m bad = bnd m (\<lambda>r. if bad r then fail (Exited 1) else ret r)"

definition tap_calls :: "'o unix_api \<Rightarrow> platform \<Rightarrow> string \<Rightarrow> ('o, int) prog" where
  "tap_calls X p cmd =
     bnd (outcome (ux_open X (devtap p)) (\<lambda>fd. fd = - 1)) (\<lambda>fd.
     seq (if p = Linux then ignore (outcome (ux_tunsetiff X fd ''tap0'' 0x1002) (\<lambda>r. r < 0)) else ret ())
    (seq (ignore (outcome (ux_system X cmd) (\<lambda>r. r < 0)))
    (ret fd)))"

definition link_only :: "'x netif_api \<Rightarrow> bool" where
  "link_only N \<longleftrightarrow> (\<forall>n w i. n \<noteq> NULL \<longrightarrow> netifs w n = Some i \<longrightarrow>
     (\<exists>fl. netif_set_link_up N n w = Some (Ok ((), w\<lparr>netifs := (netifs w)(n \<mapsto> i\<lparr>n_flags := fl\<rparr>)\<rparr>))))"

lemma dec_values: "dec 192 = ''192''" "dec 168 = ''168''" "dec 100 = ''100''" "dec 1 = ''1''" "dec 255 = ''255''" "dec 0 = ''0''"
  by code_simp+

definition tap_command :: "platform \<Rightarrow> string" where
  "tap_command p = (if p = OpenBSD then ''/sbin/ifconfig tun0 inet 192.168.100.1 netmask 255.255.255.0 link0''
     else ''/sbin/ifconfig tap0 inet 192.168.100.1 netmask 255.255.255.0'')"

lemma ifconfig_command:
  "doc_ip4_bytes N \<Longrightarrow> ifconfig_text p N (IP4_ADDR N 192 168 100 1) (IP4_ADDR N 255 255 255 0) = tap_command p"
  by (cases p) (simp_all add: ifconfig_text_def tap_command_def dotted_ip4 dec_values [unfolded One_nat_def])

text \<open>
  C37. The echo program sets up its device, or does not start. \<open>cs_tap_init\<close> makes exactly these calls in this order:
  it opens the device, on Linux makes it the tap interface \<open>tap0\<close> without packet information, and gives the
  host's end the address and the mask that \<open>cs_init\<close> uses for the gateway; the command fits its buffer on every
  platform. If a call fails the program exits with status 1. Otherwise the link of the interface, which is not up yet, is reported and \<open>tap_fd\<close> is the
  device that frames are read from and written to afterwards.
\<close>

theorem cs_tap_init_refines:
  assumes "doc_ip4_bytes N" and "link_only N" and "n \<noteq> NULL" and "netifs w n = Some i"
    and "\<And>v. gw n v = Some (Ok (IP4_ADDR N 192 168 100 1, v))" and "\<And>v. netmask n v = Some (Ok (IP4_ADDR N 255 255 255 0, v))"
  shows "case tap_calls X p (tap_command p) (outside (app w)) of
       None \<Rightarrow> cs_tap_init X p N gw netmask arg n w = None
     | Some (Fault f) \<Rightarrow> cs_tap_init X p N gw netmask arg n w = Some (Fault f)
     | Some (Ok (fd, x)) \<Rightarrow> fd \<noteq> - 1 \<and> (\<exists>w' fl. cs_tap_init X p N gw netmask arg n w = Some (Ok ((), w')) \<and>
         w' = w\<lparr>netifs := (netifs w)(n \<mapsto> i\<lparr>n_flags := fl\<rparr>), app := \<lparr>tap_fd = fd, outside = x\<rparr>\<rparr> \<and>
         cs_output (host_os X) arg n buf len w' = on_os (ux_write X fd buf len) w')"
proof -
  from assms(2,3) have "\<forall>v. \<exists>fl. netifs v n = Some i \<longrightarrow>
      netif_set_link_up N n v = Some (Ok ((), v\<lparr>netifs := (netifs v)(n \<mapsto> i\<lparr>n_flags := fl\<rparr>)\<rparr>))"
    unfolding link_only_def by blast
  then obtain F where link: "\<And>v. netifs v n = Some i \<Longrightarrow>
      netif_set_link_up N n v = Some (Ok ((), v\<lparr>netifs := (netifs v)(n \<mapsto> i\<lparr>n_flags := F v\<rparr>)\<rparr>))"
    by metis
  have flags: "or 0x0002 0x1000 = (0x1002 :: u16)" by simp
  have whole: "g\<lparr>tap_fd := a, outside := b\<rparr> = \<lparr>tap_fd = a, outside = b\<rparr>" for g :: "'a host" and a b by simp
  show ?thesis
    by (auto simp: tap_calls_def outcome_def cs_tap_init_def tap_open_def tap_ifconfig_def run_simps assms(3-6) link flags whole
        snprintf_whole ifconfig_command [OF assms(1)] cs_output_def host_os_def test_output_def
        split: option.split res.split)
qed

section \<open>A concrete system\<close>

text \<open>An operating system that records the calls. It answers every call, and \<open>system\<close> as told.\<close>

definition log_os :: "int \<Rightarrow> string list unix_api" where
  "log_os r = \<lparr>ux_open = (\<lambda>d. seq (modify (\<lambda>l. l @ [''open '' @ d])) (ret 3)),
     ux_tunsetiff = (\<lambda>fd n fl. seq (modify (\<lambda>l. l @ [''TUNSETIFF '' @ n])) (ret 0)),
     ux_system = (\<lambda>c. seq (modify (\<lambda>l. l @ [c])) (ret r)),
     ux_read = (\<lambda>fd n. ret (0, [])),
     ux_write = (\<lambda>fd bs n. seq (modify (\<lambda>l. l @ [''write''])) (ret (uint n))),
     ux_free = (\<lambda>p. ret ())\<rparr>"

definition host_world :: "string list host world" where
  "host_world = \<lparr>pbufs = Map.empty, ess = Map.empty, tpcbs = Map.empty, upcbs = Map.empty,
     netifs = [4 \<mapsto> blank_netif], app = \<lparr>tap_fd = - 1, outside = []\<rparr>\<rparr>"

lemma ref_link_only [simp]: "link_only ref_netif"
proof -
  have upd: "n_flags_update f i = i\<lparr>n_flags := f (n_flags i)\<rparr>" for f and i :: netif by (cases i) simp
  have "\<exists>fl. netif_set_link_up ref_netif n w = Some (Ok ((), w\<lparr>netifs := (netifs w)(n \<mapsto> i\<lparr>n_flags := fl\<rparr>)\<rparr>))"
    if "netifs w n = Some i" for n i and w :: "'a world"
    by (rule exI [of _ "or 4 (n_flags i)"]) (simp add: ref_netif_def set_netif_def that upd [symmetric])
  then show ?thesis unfolding link_only_def by blast
qed

lemma log_os_calls:
  "tap_calls (log_os 0) Linux c [] = Some (Ok (3, [''open /dev/net/tun'', ''TUNSETIFF tap0'', c]))"
  by (simp add: tap_calls_def outcome_def log_os_def devtap_def run_simps)

theorem cs_tap_init_refines_witness:
  "\<exists>w. cs_tap_init (log_os 0) Linux ref_netif (\<lambda>n. ret (IP4_ADDR (ref_netif :: string list host netif_api) 192 168 100 1))
       (\<lambda>n. ret (IP4_ADDR (ref_netif :: string list host netif_api) 255 255 255 0)) 9 4 host_world = Some (Ok ((), w)) \<and>
     app w = \<lparr>tap_fd = 3, outside = [''open /dev/net/tun'', ''TUNSETIFF tap0'',
       ''/sbin/ifconfig tap0 inet 192.168.100.1 netmask 255.255.255.0'']\<rparr>"
  using cs_tap_init_refines [of ref_netif 4 host_world blank_netif
      "\<lambda>n. ret (IP4_ADDR (ref_netif :: string list host netif_api) 192 168 100 1)"
      "\<lambda>n. ret (IP4_ADDR (ref_netif :: string list host netif_api) 255 255 255 0)" "log_os 0" Linux 9 "[]" 0]
  by (auto simp: host_world_def log_os_calls tap_command_def run_simps)

end
