(* ===== verification/Cs_Drain.thy ===== *)
theory Cs_Drain
  imports Cs_Tcp_System Cs_Config
begin

text \<open>
  That pending data goes out. With the buffer sizes of \<open>lwipopts.h\<close>, every buffer of the pool fits an empty send
  buffer, so each acknowledgement of everything that was sent lets the sent callback of \<open>tcp.c\<close> write at
  least one more buffer, unless lwIP refuses the write, for want of memory or of room in its queue, and then the buffer is kept for the
  next round.
\<close>

section \<open>Rounds of acknowledgements\<close>

text \<open>The peer acknowledges everything sent so far, so that the send buffer is empty again, \<open>n\<close> times.\<close>

definition ack_all ::
  "'x pbuf_api \<Rightarrow> 'x tcp_api \<Rightarrow> 'x callbacks \<Rightarrow> addr \<Rightarrow> u16 \<Rightarrow> addr \<Rightarrow> ('x world, unit) prog" where
  "ack_all P T C ca space p =
     bnd (deref tpcbs p) (\<lambda>c. tcp_event_run P T C ca (EvSent p (space - t_snd_buf c)))"

primrec ack_rounds ::
  "'x pbuf_api \<Rightarrow> 'x tcp_api \<Rightarrow> 'x callbacks \<Rightarrow> addr \<Rightarrow> u16 \<Rightarrow> addr \<Rightarrow> nat \<Rightarrow> ('x world, unit) prog" where
  "ack_rounds P T C ca space p 0 = ret ()"
| "ack_rounds P T C ca space p (Suc n) = seq (ack_all P T C ca space p) (ack_rounds P T C ca space p n)"

text \<open>A connection whose pending buffers have at most \<open>b\<close> bytes, as the rounds need it.\<close>

definition sending :: "addr \<Rightarrow> nat \<Rightarrow> 'x world \<Rightarrow> addr \<Rightarrow> addr \<Rightarrow> addr list \<Rightarrow> bool" where
  "sending ca b w p es qs \<longleftrightarrow> conn w p es qs \<and> (\<forall>q \<in> set qs. length (bytes_at (pbufs w) q) \<le> b) \<and>
     (\<exists>e. ess w es = Some e \<and> es_callback e = ca \<and> es_state e \<noteq> ES_CLOSING) \<and>
     (\<exists>c. tpcbs w p = Some c \<and> t_sent c = fn_cs_tcp_send \<and> t_callback_arg c = es)"

lemma sending_after_send:
  assumes "sending ca b w p es qs"
  shows "sending ca b ((after_send w p es qs k)\<lparr>app := a\<rparr>) p es (drop k qs)"
proof -
  from assms have conn: "conn w p es qs" by (simp add: sending_def)
  then obtain e c where "ess w es = Some e" "sole_chain (pbufs w) (es_p e) qs" by (rule connE)
  then have "distinct (take k qs @ drop k qs)" using sole_chain_distinct by simp
  then have disj: "set (take k qs) \<inter> set (drop k qs) = {}" by (simp only: distinct_append)
  have "bytes_at (pbufs (after_send w p es qs k)) q = bytes_at (pbufs w) q" if "q \<in> set (drop k qs)" for q
    using that disj by (auto simp: bytes_at_def after_send_def)
  moreover have "set (drop k qs) \<subseteq> set qs" by (rule set_drop_subset)
  ultimately show ?thesis using assms after_send_conn(1) [OF conn, of k]
    by (auto simp: sending_def after_send_def)
qed

text \<open>
  What lwIP may do in a round: \<open>refuses_next\<close>, that it refuses the first write of the round, which offers it the first pending
  buffer when the send buffer is empty. \<open>refusals\<close> counts such rounds.
\<close>

definition acked :: "u16 \<Rightarrow> addr \<Rightarrow> addr \<Rightarrow> 'x world \<Rightarrow> 'x world" where
  "acked space p es w =
     w\<lparr>tpcbs := (tpcbs w)(p := map_option (\<lambda>c. c\<lparr>t_snd_buf := space\<rparr>) (tpcbs w p)),
       ess := (ess w)(es := map_option (\<lambda>e. e\<lparr>es_retries := 0\<rparr>) (ess w es))\<rparr>"

definition refuses_next :: "'x tcp_api \<Rightarrow> u16 \<Rightarrow> addr \<Rightarrow> addr \<Rightarrow> 'x world \<Rightarrow> bool" where
  "refuses_next T space p es w \<longleftrightarrow> (case ess w es of
       None \<Rightarrow> False
     | Some e \<Rightarrow> es_p e \<noteq> NULL \<and> (case pbufs w (es_p e) of
           None \<Rightarrow> False
         | Some b \<Rightarrow> (case tcp_write T p (pb_payload b) (pb_len b) 1 (acked space p es w) of
               Some (Ok (err, w')) \<Rightarrow> err \<noteq> ERR_OK
             | _ \<Rightarrow> False)))"

primrec refusals ::
  "'x pbuf_api \<Rightarrow> 'x tcp_api \<Rightarrow> 'x callbacks \<Rightarrow> addr \<Rightarrow> u16 \<Rightarrow> addr \<Rightarrow> addr \<Rightarrow> nat \<Rightarrow> 'x world \<Rightarrow> nat" where
  "refusals P T C ca space p es 0 w = 0"
| "refusals P T C ca space p es (Suc n) w = (if refuses_next T space p es w then 1 else 0) +
     (case ack_all P T C ca space p w of
        Some (Ok (_, w')) \<Rightarrow> refusals P T C ca space p es n w'
      | _ \<Rightarrow> 0)"

lemma refusals_le: "refusals P T C ca space p es n w \<le> n"
proof (induction n arbitrary: w)
  case (Suc n)
  have "(case ack_all P T C ca space p w of Some (Ok (_, w')) \<Rightarrow> refusals P T C ca space p es n w' | _ \<Rightarrow> 0) \<le> n"
    using Suc.IH by (auto split: option.split res.split)
  then show ?case by simp
qed simp

lemma sending_acked:
  assumes "sending ca b w p es qs"
  shows "sending ca b (acked space p es w) p es qs" and "stream (acked space p es w) p qs = stream w p qs"
  using assms by (auto simp: sending_def conn_def acked_def stream_def enqueued_def)

text \<open>A buffer that fits is sent unless lwIP refuses it.\<close>

lemma blocked_refuses:
  assumes s: "sending ca b w p es qs" and "qs \<noteq> []" and b: "b \<le> unat space"
    and bl: "send_blocked T (acked space p es w) p qs"
  shows "refuses_next T space p es w"
proof -
  from assms(2) obtain q rs where qs: "qs = q # rs" by (cases qs) auto
  from s obtain e c where ec: "ess w es = Some e" "sole_chain (pbufs w) (es_p e) (q # rs)" "tpcbs w p = Some c"
    unfolding qs by (auto simp: sending_def conn_def)
  then obtain x where x: "es_p e = q" "q \<noteq> NULL" "pbufs w q = Some x" "sole_pbuf x" by (auto simp: sole_chain_Cons)
  with s have "pb_len x \<le> space" using b
    by (auto simp: sending_def qs bytes_at_def sole_pbuf_def word_le_nat_alt)
  with bl x ec show ?thesis by (auto simp: send_blocked_def qs acked_def refuses_next_def)
qed

context cs_recv_app
begin

text \<open>One round.\<close>

lemma ack_round:
  assumes doc: "doc_stack P T" and s: "sending ca b w p es qs" and b: "b \<le> unat space"
  shows "\<exists>w' k. ack_all P T C ca space p w = Some (Ok ((), w')) \<and>
     sending ca b w' p es (drop k qs) \<and> (qs = [] \<or> refuses_next T space p es w \<or> 0 < k) \<and>
     stream w' p (drop k qs) = stream w p qs"
proof -
  let ?u = "acked space p es w"
  from s obtain e c where conn: "conn w p es qs" and e: "ess w es = Some e" "es_callback e = ca" "es_state e \<noteq> ES_CLOSING"
    and c: "tpcbs w p = Some c" and hook: "t_sent c = fn_cs_tcp_send" "t_callback_arg c = es"
    by (auto simp: sending_def)
  then have nn: "p \<noteq> NULL" "es \<noteq> NULL" and ch: "sole_chain (pbufs w) (es_p e) qs" by (auto simp: conn_def)
  let ?c = "c\<lparr>t_snd_buf := space\<rparr>"
  let ?v = "w\<lparr>tpcbs := (tpcbs w)(p \<mapsto> ?c)\<rparr>"
  have u: "?v\<lparr>ess := (ess w)(es \<mapsto> e\<lparr>es_retries := 0\<rparr>)\<rparr> = ?u" using c e by (simp add: acked_def)
  have eu: "ess ?u es = Some (e\<lparr>es_retries := 0\<rparr>)" and cu: "tpcbs ?u p = Some ?c" using e c by (simp_all add: acked_def)
  note su = sending_acked(1) [OF s, of space] and st = sending_acked(2) [OF s, of space]
  have ev: "ack_all P T C ca space p w = ignore (cs_tcp_send P T C es p (space - t_snd_buf c)) ?v"
    using c nn hook by (simp add: ack_all_def run_simps put_pcb_def)
  show ?thesis
  proof (cases "qs = []")
    case True
    with ch have "es_p e = NULL" by simp
    moreover obtain a where "callp (cb_tcp_send_done cb) (\<lambda>f. f (cb_state cb) p es) ?u = Some (Ok ((), ?u\<lparr>app := a\<rparr>))"
      using call_send_done by blast
    ultimately have "cs_tcp_send P T C es p (space - t_snd_buf c) ?v = Some (Ok (ERR_OK, ?u\<lparr>app := a\<rparr>))"
      using nn e by (simp add: cs_tcp_send_def update_es_def run_simps u eu)
    moreover have "sending ca b (?u\<lparr>app := a\<rparr>) p es (drop 0 qs)" using su by (simp add: sending_def)
    ultimately show ?thesis using True st ev
      by (intro exI [of _ "?u\<lparr>app := a\<rparr>"] exI [of _ 0]) (simp add: run_simps)
  next
    case False
    from su have at: "conn ?u p es qs" by (simp add: sending_def)
    from send_run [OF doc_stackD(4) [OF doc] at] obtain k a where
      run: "cs_tcp_raw_send P T p es ?u = Some (Ok ((), (after_send ?u p es qs k)\<lparr>app := a\<rparr>))"
      and bl: "send_blocked T (after_send ?u p es qs k) p (drop k qs)" by blast
    have "refuses_next T space p es w" if "k = 0"
      using bl blocked_refuses [OF s False b] by (simp add: that after_send_0 [OF at])
    moreover have "es_p e \<noteq> NULL" using ch False by (cases qs) (auto simp: sole_chain_Cons)
    moreover have "?c\<lparr>t_sent := fn_cs_tcp_send\<rparr> = ?c" by (rule tcp_pcb.equality) (simp_all add: hook)
    then have "?u\<lparr>tpcbs := (tpcbs ?u)(p \<mapsto> ?c\<lparr>t_sent := fn_cs_tcp_send\<rparr>)\<rparr> = ?u" using c
      by (intro world.equality) (simp_all add: acked_def)
    ultimately have "cs_tcp_send P T C es p (space - t_snd_buf c) ?v =
        Some (Ok (ERR_OK, (after_send ?u p es qs k)\<lparr>app := a\<rparr>))"
      using nn e hook c run
      by (simp add: cs_tcp_send_def update_es_def run_simps u eu cu tcp_setters_run [OF doc_stackD(5) [OF doc]])
    moreover have "stream (after_send ?u p es qs k) p (drop k qs) = stream ?u p qs"
      by (simp add: stream_def enqueued_after_send [OF at] after_send_conn(2) [OF at] chain_bytes_take_drop)
    ultimately show ?thesis using sending_after_send [OF su, where k = k and a = a] st ev \<open>k = 0 \<Longrightarrow> refuses_next T space p es w\<close>
      by (intro exI [of _ "(after_send ?u p es qs k)\<lparr>app := a\<rparr>"] exI [of _ k]) (auto simp: run_simps stream_def)
  qed
qed

lemma ack_rounds_drain:
  assumes "doc_stack P T" and "sending ca b w p es qs" and "b \<le> unat space"
    and "length qs + refusals P T C ca space p es n w \<le> n"
  shows "\<exists>w'. ack_rounds P T C ca space p n w = Some (Ok ((), w')) \<and> sending ca b w' p es [] \<and>
     stream w' p [] = stream w p qs"
  using assms(2,4)
proof (induction n arbitrary: w qs)
  case 0
  then show ?case by (auto simp: run_simps)
next
  case (Suc n)
  from ack_round [OF assms(1) Suc.prems(1) assms(3)] obtain w1 k where
    run: "ack_all P T C ca space p w = Some (Ok ((), w1))"
    and s1: "sending ca b w1 p es (drop k qs)" and k: "qs = [] \<or> refuses_next T space p es w \<or> 0 < k"
    and st: "stream w1 p (drop k qs) = stream w p qs" by blast
  from run have "refusals P T C ca space p es (Suc n) w =
      (if refuses_next T space p es w then 1 else 0) + refusals P T C ca space p es n w1" by simp
  with k Suc.prems(2) refusals_le [of P T C ca space p es n w1] have
    "length (drop k qs) + refusals P T C ca space p es n w1 \<le> n" by (cases "qs = []") (auto split: if_splits)
  from Suc.IH [OF s1 this] run st show ?case by (auto simp: run_simps)
qed

text \<open>A stack that takes every write that fits refuses none.\<close>

lemma no_refusals:
  assumes doc: "doc_stack P T" and take: "accepts_fitting T" and "sending ca b w p es qs" and b: "b \<le> unat space"
  shows "refusals P T C ca space p es n w = 0"
  using assms(3)
proof (induction n arbitrary: w qs)
  case (Suc n)
  from Suc.prems obtain e c where e: "ess w es = Some e" "sole_chain (pbufs w) (es_p e) qs" and c: "tpcbs w p = Some c"
    and small: "\<forall>q \<in> set qs. length (bytes_at (pbufs w) q) \<le> b" by (auto simp: sending_def conn_def)
  have "\<exists>w'. tcp_write T p (pb_payload x) (pb_len x) 1 (acked space p es w) = Some (Ok (ERR_OK, w'))"
    if "pbufs w (es_p e) = Some x" "es_p e \<noteq> NULL" for x
  proof -
    from that e(2) small b have "pb_len x \<le> space"
      by (cases qs) (auto simp: sole_chain_Cons bytes_at_def sole_pbuf_def word_le_nat_alt)
    with take c show ?thesis unfolding accepts_fitting_def by (simp add: acked_def)
  qed
  with e(1) have "\<not> refuses_next T space p es w" by (fastforce simp: refuses_next_def split: option.splits)
  moreover from ack_round [OF doc Suc.prems b] obtain w1 k where
    "ack_all P T C ca space p w = Some (Ok ((), w1))" "sending ca b w1 p es (drop k qs)" by blast
  ultimately show ?case using Suc.IH by simp
qed simp

end

lemma inv_sending:
  assumes inv: "tcp_inv_at ca w ch" and e: "ess w es = Some e" and qs: "sole_chain (pbufs w) (es_p e) qs"
    and "\<forall>q \<in> set qs. length (bytes_at (pbufs w) q) \<le> b"
  shows "sending ca b w (es_pcb e) es qs"
proof -
  from tcp_inv_atD(1) [OF inv e] have at: "conn_at ca w es e (ch es)" .
  then have "conn w (es_pcb e) es qs" using qs e by (auto simp: conn_at_def conn_def)
  moreover from at obtain c where "tpcbs w (es_pcb e) = Some c" "t_sent c = fn_cs_tcp_send" "t_callback_arg c = es"
    by (auto simp: conn_at_def slots_def es_slots_def)
  moreover from at have "es_callback e = ca" "es_state e \<noteq> ES_CLOSING" by (auto simp: conn_at_def)
  ultimately show ?thesis using e assms(4) by (simp add: sending_def)
qed


end
