(* ===== verification/Cs_Echo_Run.thy ===== *)
theory Cs_Echo_Run
  imports Cs_Echo Cs_Drain
begin

text \<open>
  Whole runs of an echo server. The locale \<open>cs_echo_app\<close> extends the contract of the receive callback: the
  received bytes are appended to the stream of the connection. Then, in every run, the stream of every
  open connection is what was received on it. The program of \<open>test.c\<close> is such an application.
\<close>

section \<open>Received data\<close>

locale cs_echo_app = cs_recv_app C ca cb for C :: "'x callbacks" and ca :: addr and cb :: "'x cs_callback" +
  assumes echoes: "cb_tcp_recv cb = Some f \<Longrightarrow> conn w tpcb es qs \<Longrightarrow> ess w es = Some e \<Longrightarrow> p \<noteq> NULL \<Longrightarrow>
     sole_chain (pbufs w) p ps \<Longrightarrow> set ps \<inter> set qs = {} \<Longrightarrow> f s tpcb p es w = Some (Ok (ERR_OK, w')) \<Longrightarrow>
     conn w' tpcb es rs \<Longrightarrow> stream w' tpcb rs = stream w tpcb (qs @ ps)"

lemma conn_stream_conn: "conn w p es qs \<Longrightarrow> ess w es = Some e \<Longrightarrow> es_pcb e = p \<Longrightarrow> conn_stream w es = stream w p qs"
  using chain_list_is_chain [OF sole_chain_is_chain] by (fastforce simp: conn_def conn_stream_def)

lemma conn_chain_unique: "conn w p es qs \<Longrightarrow> conn w p es rs \<Longrightarrow> qs = rs"
  by (auto simp: conn_def split: option.splits dest!: sole_chain_is_chain chain_list_is_chain)

text \<open>The bytes of a chain that arrives with an event.\<close>

definition arrived :: "(addr \<times> pbuf) list \<Rightarrow> u8 list" where
  "arrived ps = chain_bytes (map_of ps) (map fst ps)"

context cs_echo_app
begin

lemma data_stream:
  assumes inv: "tcp_inv_at ca w ch" and e: "ess w es = Some e" "es_pcb e = p"
    and en: "tcp_enabled (EvData p ps) w"
    and run: "tcp_event_run P T C ca (EvData p ps) w = Some (Ok ((), w'))"
  shows "conn_stream w' es = conn_stream w es @ arrived ps"
proof -
  let ?h = "pbufs w ++ map_of ps" and ?q = "head_ptr (map fst ps)"
  let ?w = "w\<lparr>pbufs := ?h\<rparr>" and ?e = "e\<lparr>es_state := ES_RECEIVED\<rparr>"
  let ?v = "?w\<lparr>ess := (ess ?w)(es \<mapsto> ?e)\<rparr>"
  from tcp_inv_atD(1) [OF inv e(1)] e(2) obtain c where cat: "conn_at ca w es e (ch es)" and c: "tpcbs w p = Some c"
    and sl: "slots c = es_slots es" by (auto simp: conn_at_def)
  then have hook: "t_recv c = fn_cs_tcp_raw_recv" "t_callback_arg c = es" by (simp_all add: slots_def es_slots_def)
  have nn: "es \<noteq> NULL" "p \<noteq> NULL" "es_callback e = ca" "es_state e \<in> {ES_ACCEPTED, ES_RECEIVED}"
    using cat e(2) by (auto simp: conn_at_def)
  from en have ne: "ps \<noteq> []" and fresh: "\<And>q. q \<in> set (map fst ps) \<Longrightarrow> pbufs w q = None"
    and ps: "sole_chain ?h ?q (map fst ps)" by (auto simp: list_all_iff)
  from ps ne have q: "?q \<noteq> NULL" by (cases ps) (auto simp: sole_chain_Cons)
  have out: "?h q = pbufs w q" if "q \<notin> set (map fst ps)" for q
    using that by (simp add: map_add_def map_of_eq_None_iff [THEN iffD2])
  have sep: "set (map fst ps) \<inter> set (ch es) = {}" using inv_chain_alloc [OF inv] e fresh by blast
  then have old: "\<And>q. q \<in> set (ch es) \<Longrightarrow> ?h q = pbufs w q" using out by blast
  from conn_at_conn [OF cat e(1)] e sole_chain_cong [of "ch es" ?h "pbufs w"] old have
    here: "conn ?w p es (ch es)" by (simp add: conn_def)
  then have conn: "conn ?v p es (ch es)" using e by (simp add: conn_def)
  from recv_run [OF here _ nn(3,4) q _ sep, of P T] e ps obtain w1 qs' where
    recv: "cs_tcp_raw_recv P T C es p ?q ERR_OK ?w = Some (Ok (ERR_OK, w1))"
    and lc: "local_change ?w w1 es ES_RECEIVED (set (ch es) \<union> set (map fst ps)) qs'"
    by auto
  with run c nn hook have w1: "w1 = w'" by (simp add: run_simps)
  from lc e obtain e' where e': "ess w' es = Some e'" "es_pcb e' = p" unfolding w1 by (auto elim: local_changeE)
  from local_change_conn [OF lc here] have conn': "conn w' p es qs'" unfolding w1 .
  from recv_cb obtain f where f: "cb_tcp_recv cb = Some f" by blast
  from raw_recv_open [of es ?w e ca C cb ?q f P T p] nn e(1) q f recv at have "f (cb_state cb) p ?q es ?v = Some (Ok (ERR_OK, w'))"
    unfolding w1 by simp
  moreover have "ess ?v es = Some ?e" "sole_chain (pbufs ?v) ?q (map fst ps)" using ps by simp_all
  ultimately have "stream w' p qs' = stream ?v p (ch es @ map fst ps)" by (intro echoes [OF f conn _ q _ sep _ conn'])
  moreover have "chain_bytes ?h (ch es) = chain_bytes (pbufs w) (ch es)" by (rule chain_bytes_cong [OF old])
  moreover have "chain_bytes ?h (map fst ps) = arrived ps" unfolding arrived_def
    by (rule chain_bytes_cong) (auto simp: map_add_def map_of_eq_None_iff split: option.split)
  ultimately show ?thesis
    using conn_stream_conn [OF conn' e'] conn_stream_inv [OF inv e(1)] e(2)
    by (simp add: stream_def enqueued_def chain_bytes_def)
qed

end

section \<open>Runs of an echo server\<close>

text \<open>
  A run in which the application only answers: it does not write of its own accord, and nothing is
  enqueued on a control block before its connection is accepted. The run remembers what arrived on
  each connection since it was accepted.
\<close>

fun echo_event :: "tcp_event \<Rightarrow> bool" where
  "echo_event (EvAccept p c) \<longleftrightarrow> t_enqueued c = []"
| "echo_event (EvWrite es buf) \<longleftrightarrow> False"
| "echo_event ev \<longleftrightarrow> True"

fun received :: "tcp_event \<Rightarrow> addr \<Rightarrow> u8 list" where
  "received (EvData p ps) q = (if q = p then arrived ps else [])"
| "received ev q = []"

definition record_rcv :: "tcp_event \<Rightarrow> 'x world \<Rightarrow> (addr \<Rightarrow> u8 list) \<Rightarrow> addr \<Rightarrow> u8 list" where
  "record_rcv ev w rcv es = (case ess w es of None \<Rightarrow> [] | Some e \<Rightarrow> rcv es @ received ev (es_pcb e))"

inductive echo_reach ::
  "'x pbuf_api \<Rightarrow> 'x tcp_api \<Rightarrow> 'x callbacks \<Rightarrow> addr \<Rightarrow> 'x world \<Rightarrow> (addr \<Rightarrow> u8 list) \<Rightarrow> bool"
  for P :: "'x pbuf_api" and T :: "'x tcp_api" and C :: "'x callbacks" and ca :: addr where
  start: "tcp_init_world w \<Longrightarrow> echo_reach P T C ca w (\<lambda>_. [])"
| event: "echo_reach P T C ca w rcv \<Longrightarrow> tcp_enabled ev w \<Longrightarrow> echo_event ev \<Longrightarrow>
    tcp_event_run P T C ca ev w = Some (Ok ((), w')) \<Longrightarrow> echo_reach P T C ca w' (record_rcv ev w rcv)"

lemma echo_reach_tcp: "echo_reach P T C ca w rcv \<Longrightarrow> tcp_reach P T C ca w"
  by (induction rule: echo_reach.induct) (auto intro: tcp_reach.intros)

lemma conn_stream_cases:
  assumes "ess w es = Some e" and "ess w' es \<noteq> None" and "echo_event ev" and "stream_step P T C ev w w'"
    and "\<And>p ps. ev = EvData p ps \<Longrightarrow> es_pcb e = p \<Longrightarrow> conn_stream w' es = conn_stream w es @ arrived ps"
  shows "conn_stream w' es = conn_stream w es @ received ev (es_pcb e)"
  using assms by (cases ev) (auto simp: streams_kept_def on_pcb_def)

lemma conn_stream_new:
  assumes "ess w es = None" and "ess w' es \<noteq> None" and "echo_event ev" and "stream_step P T C ev w w'"
  shows "conn_stream w' es = []"
  using assms by (cases ev) auto

context cs_echo_app
begin

lemma echo_stream:
  assumes doc: "doc_stack P T" and "echo_reach P T C ca w rcv" and "ess w es \<noteq> None"
  shows "conn_stream w es = rcv es"
  using assms(2,3)
proof (induction arbitrary: es)
  case (start w)
  then show ?case by (simp add: tcp_init_world_def)
next
  case (event w rcv ev w')
  from reach_inv [OF doc echo_reach_tcp [OF event.hyps(1)]] have inv: "tcp_inv ca w" .
  then obtain ch where at: "tcp_inv_at ca w ch" unfolding tcp_inv_def by blast
  note step = event_step(2) [OF doc inv event.hyps(2,4)]
  show ?case
  proof (cases "ess w es")
    case None
    with conn_stream_new [OF None event.prems event.hyps(3) step] show ?thesis by (simp add: record_rcv_def)
  next
    case (Some e)
    have "conn_stream w' es = conn_stream w es @ received ev (es_pcb e)"
      using conn_stream_cases [OF Some event.prems event.hyps(3) step] data_stream [OF at Some] event.hyps(2,4)
      by blast
    with Some event.IH [of es] show ?thesis by (simp add: record_rcv_def)
  qed
qed

end

section \<open>The program of test.c is an echo server\<close>

sublocale echo_host \<subseteq> echo_side: cs_echo_app "[ca \<mapsto> echo_back P T U Os tap_init garbage netif]" ca
  "echo_back P T U Os tap_init garbage netif"
proof unfold_locales
  fix f s tpcb p es qs ps e rs and w w' :: "'x world"
  assume f: "cb_tcp_recv (echo_back P T U Os tap_init garbage netif) = Some f"
    and conn: "conn w tpcb es qs" "ess w es = Some e" "p \<noteq> NULL" "sole_chain (pbufs w) p ps" "set ps \<inter> set qs = {}"
    and run: "f s tpcb p es w = Some (Ok (ERR_OK, w'))" and after: "conn w' tpcb es rs"
  from echo_recv [OF stack(1) conn, of s] f run obtain rs' where
    lc: "local_change w w' es (es_state e) (set qs \<union> set ps) rs'"
    and st: "stream w' tpcb rs' = stream w tpcb (qs @ ps)"
    by (auto simp: echo_back_def)
  from conn_chain_unique [OF local_change_conn [OF lc conn(1)] after] st
  show "stream w' tpcb rs = stream w tpcb (qs @ ps)" by simp
qed

context echo_host
begin

lemma is_echo_app:
  "cs_echo_app [ca \<mapsto> echo_back P T U Os tap_init garbage netif] ca (echo_back P T U Os tap_init garbage netif)"
  by (rule echo_side.cs_echo_app_axioms)

end

text \<open>
  C6. The echo server echoes, whatever happens. In every run of the TCP side with the application of
  \<open>test.c\<close>, any number of connections opening, sending, acknowledging, closing and being polled in any
  order: for every connection that is open, the bytes enqueued for its peer followed by the bytes still
  pending are exactly the bytes that arrived from that peer since the connection was accepted. Nothing
  is lost, duplicated, reordered or sent to another peer, however small the send buffer.
\<close>

theorem echo_run_stream:
  assumes "echo_host P T Os ca" and "doc_stack P T"
    and "echo_reach P T [ca \<mapsto> echo_back P T U Os ti g n] ca w rcv" and "ess w es = Some e"
  shows "\<exists>qs. sole_chain (pbufs w) (es_p e) qs \<and> enqueued w (es_pcb e) @ chain_bytes (pbufs w) qs = rcv es"
proof -
  note app = echo_host.is_echo_app [OF assms(1), of U ti g n]
  then have "cs_recv_app [ca \<mapsto> echo_back P T U Os ti g n] ca (echo_back P T U Os ti g n)"
    by (simp add: cs_echo_app_def)
  from cs_recv_app.reach_inv [OF this assms(2) echo_reach_tcp [OF assms(3)]] obtain ch where
    at: "tcp_inv_at ca w ch" unfolding tcp_inv_def by blast
  from cs_echo_app.echo_stream [OF app assms(2,3)] assms(4) have "conn_stream w es = rcv es" by simp
  with conn_stream_inv [OF at assms(4)] tcp_inv_atD(1) [OF at assms(4)] show ?thesis
    by (auto simp: conn_at_def stream_def)
qed

text \<open>The first connection to an empty stack, on which three bytes arrive.\<close>

definition three_bytes :: "(addr \<times> pbuf) list" where
  "three_bytes = [(8, demo_buf NULL [10, 20, 30])]"

lemma echo_one_run: "echo_reach ref_pbuf ref_tcp [9 \<mapsto> echo_ref] 9 echo_one (record_rcv (EvAccept 5 blank_pcb) echo_start (\<lambda>_. []))"
proof -
  have "echo_reach ref_pbuf ref_tcp [9 \<mapsto> echo_ref] 9 echo_start (\<lambda>_. [])"
    by (rule echo_reach.start) (simp add: tcp_init_world_def echo_start_def)
  then show ?thesis
    by (rule echo_reach.event [OF _ _ _ echo_accept_event]) (simp_all add: echo_start_def blank_idle, simp add: blank_pcb_def)
qed

theorem echo_run_stream_witness:
  "\<exists>w' e qs. tcp_event_run ref_pbuf ref_tcp [9 \<mapsto> echo_ref] 9 (EvData 5 three_bytes) echo_one = Some (Ok ((), w')) \<and>
     ess w' heap_addr = Some e \<and> sole_chain (pbufs w') (es_p e) qs \<and>
     enqueued w' (es_pcb e) @ chain_bytes (pbufs w') qs = [10, 20, 30]"
proof -
  let ?ev = "EvData 5 three_bytes"
  have en: "tcp_enabled ?ev echo_one"
    by (simp add: echo_one_def echo_start_def three_bytes_def demo_buf_def sole_chain_Cons sole_pbuf_def)
  from cs_recv_app.reach_inv [OF echo_app ref_doc_stack echo_one_reach] have inv: "tcp_inv 9 echo_one" .
  from cs_recv_app.event_ok [OF echo_app ref_doc_stack inv en] obtain w' where
    run: "tcp_event_run ref_pbuf ref_tcp [9 \<mapsto> echo_ref] 9 ?ev echo_one = Some (Ok ((), w'))"
    and "dom (ess w') = dom (ess echo_one)" by (auto simp: is_reset_def simp del: tcp_event_run.simps)
  then obtain e where e: "ess w' heap_addr = Some e" using echo_one_conn by blast
  have "arrived three_bytes = [10, 20, 30]"
    by (simp add: arrived_def three_bytes_def bytes_at_def demo_buf_def)
  with echo_run_stream [OF ref_echo.echo_host_axioms ref_doc_stack
      echo_reach.event [OF echo_one_run en _ run, unfolded echo_ref_def] e]
  show ?thesis using run e by (auto simp: record_rcv_def echo_one_conn echo_start_def simp del: tcp_event_run.simps)
qed


text \<open>The three bytes are still pending, since the send buffer is full, and go out when the peer acknowledges.\<close>

lemma three_bytes_pending:
  "\<exists>w e qs. tcp_reach ref_pbuf ref_tcp [9 \<mapsto> echo_ref] 9 w \<and> ess w heap_addr = Some e \<and>
     sole_chain (pbufs w) (es_p e) qs \<and> enqueued w (es_pcb e) @ chain_bytes (pbufs w) qs = [10, 20, 30]"
proof -
  let ?ev = "EvData 5 three_bytes"
  have en: "tcp_enabled ?ev echo_one"
    by (simp add: echo_one_def echo_start_def three_bytes_def demo_buf_def sole_chain_Cons sole_pbuf_def)
  note app = ref_echo.is_echo_app [folded echo_ref_def]
  from cs_recv_app.reach_inv [OF echo_app ref_doc_stack echo_one_reach] have inv: "tcp_inv 9 echo_one" .
  from cs_recv_app.event_ok [OF echo_app ref_doc_stack inv en] obtain w where
    run: "tcp_event_run ref_pbuf ref_tcp [9 \<mapsto> echo_ref] 9 ?ev echo_one = Some (Ok ((), w))"
    and "tcp_inv 9 w" and "dom (ess w) = dom (ess echo_one)" by (auto simp: is_reset_def simp del: tcp_event_run.simps)
  then obtain e ch where e: "ess w heap_addr = Some e" and at: "tcp_inv_at 9 w ch"
    using echo_one_conn unfolding tcp_inv_def by blast
  have "arrived three_bytes = [10, 20, 30]"
    by (simp add: arrived_def three_bytes_def bytes_at_def demo_buf_def)
  with cs_echo_app.echo_stream [OF app ref_doc_stack echo_reach.event [OF echo_one_run en _ run], of heap_addr] e
  have "conn_stream w heap_addr = [10, 20, 30]" by (simp add: record_rcv_def echo_one_conn echo_start_def)
  with conn_stream_inv [OF at e] tcp_inv_atD(1) [OF at e] tcp_reach.event [OF echo_one_reach en run] e show ?thesis
    by (auto simp: conn_at_def stream_def)
qed

lemma bytes_at_le_chain: "q \<in> set qs \<Longrightarrow> length (bytes_at h q) \<le> length (chain_bytes h qs)"
  by (induction qs) auto


end
