(* ===== verification/Sys_Time.thy ===== *)
theory Sys_Time
  imports Cs_Prelude
begin

text \<open>
  Time in the operating-system port, \<open>src/sys.c\<close>: the monotonic clock, the deadline and the elapsed
  time of a timed wait, and the millisecond and nanosecond counters of 32 bits. A \<open>struct timespec\<close> has
  \<open>long\<close> members, which are integers here: a clock that overflows 64 bits is out of reach. The variant of
  \<open>cond_wait\<close> for Darwin and old Android (a relative deadline) is in \<open>Sys_Port\<close>.
\<close>

section \<open>The functions\<close>

datatype timespec = Timespec (tv_sec: int) (tv_nsec: int)

abbreviation (input) SYS_ARCH_TIMEOUT :: u32 where "SYS_ARCH_TIMEOUT \<equiv> 0xffffffff"

text \<open>
  \<open>get_monotonic_time\<close> on Darwin, from the ticks and the time base, in 64-bit arithmetic. Elsewhere it
  is \<open>clock_gettime\<close>, and the reading is an argument of the functions below.
\<close>

definition get_monotonic_time :: "64 word \<Rightarrow> 64 word \<Rightarrow> 64 word \<Rightarrow> timespec" where
  "get_monotonic_time t numer denom =
     (let nano = (t * numer) div denom; sec = nano div 1000000000
      in Timespec (uint sec) (uint (nano - sec * 1000000000)))"

text \<open>The absolute time \<open>cond_wait\<close> hands to \<open>pthread_cond_timedwait\<close>.\<close>

definition cond_deadline :: "timespec \<Rightarrow> u32 \<Rightarrow> timespec" where
  "cond_deadline rtime1 timeout =
     (let sec = tv_sec rtime1 + uint timeout div 1000;
          nsec = tv_nsec rtime1 + (uint timeout mod 1000) * 1000000
      in if nsec \<ge> 1000000000 then Timespec (sec + 1) (nsec - 1000000000) else Timespec sec nsec)"

text \<open>The time \<open>cond_wait\<close> reports, from the clock before and after the wait.\<close>

definition cond_elapsed :: "timespec \<Rightarrow> timespec \<Rightarrow> u32" where
  "cond_elapsed rtime1 rtime2 =
     (let sec = tv_sec rtime2 - tv_sec rtime1;
          nsec = tv_nsec rtime2 - tv_nsec rtime1;
          ts = if nsec < 0 then Timespec (sec - 1) (nsec + 1000000000) else Timespec sec nsec
      in word_of_int (tv_sec ts * 1000 + tv_nsec ts div 1000000))"

text \<open>
  \<open>cond_wait\<close>: \<open>ret\<close> is the result of the \<open>pthread\<close> call (110 is \<open>ETIMEDOUT\<close>), \<open>rtime1\<close> and \<open>rtime2\<close>
  the clock readings around it.
\<close>

definition cond_wait :: "u32 \<Rightarrow> int \<Rightarrow> timespec \<Rightarrow> timespec \<Rightarrow> u32" where
  "cond_wait timeout retval rtime1 rtime2 =
     (if timeout = 0 then word_of_int retval
      else if retval = 110 then SYS_ARCH_TIMEOUT
      else cond_elapsed rtime1 rtime2)"

abbreviation (input) SYS_ARCH_INTR :: u32 where "SYS_ARCH_INTR \<equiv> 0xfffffffe"

text \<open>On the Hurd: \<open>eintr\<close> is the value of \<open>EINTR\<close> and \<open>etimedout\<close> that of \<open>ETIMEDOUT\<close>.\<close>

definition cond_wait_hurd :: "int \<Rightarrow> int \<Rightarrow> u32 \<Rightarrow> int \<Rightarrow> timespec \<Rightarrow> timespec \<Rightarrow> u32" where
  "cond_wait_hurd etimedout eintr timeout retval rtime1 rtime2 =
     (if timeout = 0 then if retval = 1 then SYS_ARCH_INTR else word_of_int retval
      else if retval = etimedout then SYS_ARCH_TIMEOUT
      else if retval = eintr then SYS_ARCH_INTR
      else cond_elapsed rtime1 rtime2)"

lemma cond_wait_hurd_else:
  "retval \<noteq> 1 \<Longrightarrow> retval \<noteq> eintr \<Longrightarrow> cond_wait_hurd 110 eintr timeout retval t1 t2 = cond_wait timeout retval t1 t2"
  by (simp add: cond_wait_hurd_def cond_wait_def)

definition sys_now :: "timespec \<Rightarrow> u32" where
  "sys_now ts = word_of_int (tv_sec ts * 1000 + tv_nsec ts div 1000000)"

definition sys_jiffies :: "timespec \<Rightarrow> u32" where
  "sys_jiffies ts = word_of_int (tv_sec ts * 1000000000 + tv_nsec ts)"

section \<open>Normal form and order\<close>

definition wf_ts :: "timespec \<Rightarrow> bool" where
  "wf_ts ts \<longleftrightarrow> 0 \<le> tv_sec ts \<and> 0 \<le> tv_nsec ts \<and> tv_nsec ts < 1000000000"

text \<open>The specification: a time stamp is a number of nanoseconds.\<close>

definition ns :: "timespec \<Rightarrow> int" where
  "ns ts = tv_sec ts * 1000000000 + tv_nsec ts"

instantiation timespec :: linorder
begin

definition less_eq_timespec :: "timespec \<Rightarrow> timespec \<Rightarrow> bool" where
  "less_eq_timespec a b \<longleftrightarrow> tv_sec a < tv_sec b \<or> tv_sec a = tv_sec b \<and> tv_nsec a \<le> tv_nsec b"

definition less_timespec :: "timespec \<Rightarrow> timespec \<Rightarrow> bool" where
  "less_timespec a b \<longleftrightarrow> a \<le> b \<and> \<not> b \<le> (a :: timespec)"

instance
  by standard (auto simp: less_eq_timespec_def less_timespec_def timespec.expand)

end

lemma ns_mono: "wf_ts a \<Longrightarrow> wf_ts b \<Longrightarrow> ns a \<le> ns b \<longleftrightarrow> a \<le> b"
  unfolding wf_ts_def ns_def less_eq_timespec_def by linarith

lemma ns_inj: "wf_ts a \<Longrightarrow> wf_ts b \<Longrightarrow> ns a = ns b \<Longrightarrow> a = b"
  using ns_mono [of a b] ns_mono [of b a] by simp

text \<open>Milliseconds since the start of the clock, as \<open>sys_now\<close> computes them before the cut to 32 bits.\<close>

definition ms :: "timespec \<Rightarrow> int" where
  "ms ts = tv_sec ts * 1000 + tv_nsec ts div 1000000"

lemma ms_ns: "ms ts = ns ts div 1000000"
proof -
  have "ns ts = tv_nsec ts + 1000000 * (tv_sec ts * 1000)" by (simp add: ns_def)
  then show ?thesis by (simp add: ms_def div_mult_self2)
qed

lemma word_of_int_u32_id: "0 \<le> n \<Longrightarrow> n < 2 ^ 32 \<Longrightarrow> uint (word_of_int n :: u32) = n"
  by (simp add: uint_word_of_int)

lemma div_million_add: "(n + 1000000 * k) div 1000000 = k + n div (1000000 :: int)"
  by (rule div_mult_self2) simp

lemma timeout_split:
  "uint timeout div 1000 * 1000000000 + uint timeout mod 1000 * 1000000 = uint (timeout :: u32) * 1000000"
  using div_mult_mod_eq [of "uint timeout" 1000] by linarith

lemma timeout_parts: "0 \<le> uint (timeout :: u32) div 1000" "0 \<le> uint timeout mod 1000" "uint timeout mod 1000 < 1000"
  by (simp_all add: pos_imp_zdiv_nonneg_iff)

lemma deadline_ns:
  assumes "wf_ts now"
  shows "wf_ts (cond_deadline now timeout)"
    and "ns (cond_deadline now timeout) =
      ns now + (uint timeout div 1000 * 1000000000 + uint timeout mod 1000 * 1000000)"
  using assms timeout_parts [of timeout] by (auto simp: cond_deadline_def wf_ts_def ns_def Let_def)

section \<open>Properties\<close>

text \<open>
  The deadline of a timed wait is exact: it is a normalised time stamp, and lies the timeout, in
  milliseconds, after the reading of the clock. The carry from nanoseconds to seconds is right.
\<close>

theorem cond_deadline_exact:
  assumes "wf_ts now"
  shows "wf_ts (cond_deadline now timeout) \<and>
     ns (cond_deadline now timeout) = ns now + uint timeout * 1000000"
  using deadline_ns [OF assms] timeout_split by simp

text \<open>
  The time reported for a wait is the number of whole milliseconds between the two readings of
  the clock, as long as it fits 32 bits.
\<close>

theorem cond_wait_elapsed_exact:
  assumes "wf_ts t1" and "wf_ts t2" and "t1 \<le> t2" and "timeout \<noteq> 0" and "retval \<noteq> 110"
    and "(ns t2 - ns t1) div 1000000 < 2 ^ 32"
  shows "uint (cond_wait timeout retval t1 t2) = (ns t2 - ns t1) div 1000000"
proof -
  let ?sec = "tv_sec t2 - tv_sec t1" and ?nsec = "tv_nsec t2 - tv_nsec t1"
  have diff: "ns t2 - ns t1 = ?nsec + 1000000 * (?sec * 1000)" by (simp add: ns_def)
  have "ns t1 \<le> ns t2" using assms(1-3) by (simp add: ns_mono)
  then have nn: "0 \<le> (ns t2 - ns t1) div 1000000" by (simp add: pos_imp_zdiv_nonneg_iff)
  have val: "(if ?nsec < 0 then (?sec - 1) * 1000 + (?nsec + 1000000000) div 1000000
      else ?sec * 1000 + ?nsec div 1000000) = (ns t2 - ns t1) div 1000000"
    using div_million_add [of ?nsec "?sec * 1000"] div_million_add [of ?nsec 1000]
    unfolding diff by (simp add: algebra_simps)
  have "cond_elapsed t1 t2 = word_of_int (if ?nsec < 0 then (?sec - 1) * 1000 + (?nsec + 1000000000) div 1000000
      else ?sec * 1000 + ?nsec div 1000000)"
    by (cases "?nsec < 0") (simp_all only: cond_elapsed_def Let_def if_True if_False timespec.sel)
  then have "cond_elapsed t1 t2 = word_of_int ((ns t2 - ns t1) div 1000000)" unfolding val .
  with assms(4-6) word_of_int_u32_id [OF nn] show ?thesis by (simp add: cond_wait_def)
qed

text \<open>
  Differences of \<open>sys_now\<close> survive its wrap-around. The 32-bit difference of two readings is the
  difference of the clocks in milliseconds modulo 2 to the 32, hence within one millisecond of the time
  that has passed whenever that is less than 49 days.
\<close>

theorem sys_now_difference:
  assumes "wf_ts t1" and "wf_ts t2" and "t1 \<le> t2" and "ms t2 - ms t1 < 2 ^ 32"
  shows "uint (sys_now t2 - sys_now t1) = ms t2 - ms t1 \<and>
     \<bar>uint (sys_now t2 - sys_now t1) * 1000000 - (ns t2 - ns t1)\<bar> < 1000000"
proof -
  have "ns t1 \<le> ns t2" using assms(1-3) by (simp add: ns_mono)
  then have nn: "0 \<le> ms t2 - ms t1" by (simp add: ms_ns zdiv_mono1)
  have diff: "sys_now t2 - sys_now t1 = word_of_int (ms t2 - ms t1)"
    by (simp add: sys_now_def ms_def)
  have eq: "uint (sys_now t2 - sys_now t1) = ms t2 - ms t1"
    unfolding diff by (rule word_of_int_u32_id [OF nn assms(4)])
  have "ns t = ms t * 1000000 + ns t mod 1000000" for t by (simp add: ms_ns)
  from this [of t1] this [of t2] have "(ms t2 - ms t1) * 1000000 - (ns t2 - ns t1) = ns t1 mod 1000000 - ns t2 mod 1000000"
    by (simp add: algebra_simps)
  moreover have "0 \<le> ns t1 mod 1000000" "ns t1 mod 1000000 < 1000000"
    "0 \<le> ns t2 mod 1000000" "ns t2 mod 1000000 < 1000000" by simp_all
  ultimately show ?thesis unfolding eq by linarith
qed

theorem cond_deadline_exact_witness:
  "cond_deadline (Timespec 7 999000000) 1500 = Timespec 9 499000000"
proof -
  have "wf_ts (cond_deadline (Timespec 7 999000000) 1500) \<and>
      ns (cond_deadline (Timespec 7 999000000) 1500) = 9499000000"
    using cond_deadline_exact [of "Timespec 7 999000000" 1500] by (simp add: wf_ts_def ns_def)
  then show ?thesis by (intro ns_inj) (simp_all add: wf_ts_def ns_def)
qed

theorem cond_wait_elapsed_exact_witness:
  "uint (cond_wait 500 0 (Timespec 7 900000000) (Timespec 8 100000000)) = 200"
  using cond_wait_elapsed_exact [of "Timespec 7 900000000" "Timespec 8 100000000" 500 0]
  by (simp add: wf_ts_def ns_def less_eq_timespec_def)

theorem sys_now_difference_witness:
  "uint (sys_now (Timespec 4294968 0) - sys_now (Timespec 4294967 0)) = 1000"
  using sys_now_difference [of "Timespec 4294967 0" "Timespec 4294968 0"]
  by (simp add: wf_ts_def ms_def less_eq_timespec_def)

end
