(* ===== verification/Sys_Sem.thy ===== *)
theory Sys_Sem
  imports Sys_Time Lwip_Env
begin

text \<open>
  Semaphores of the operating-system port, \<open>src/sys.c\<close>. The mutex and the condition variable inside a
  semaphore make its operations atomic between the waits, so its state is the counter; what other
  threads do to it while a thread waits is an argument of \<open>sys_arch_sem_wait\<close>.
\<close>

section \<open>The functions\<close>

record sys_sem =
  sem_c :: u32

text \<open>\<open>malloc_ok\<close> says whether \<open>malloc\<close> finds memory; a semaphore that was not allocated is \<open>None\<close>.\<close>

definition sys_sem_new_internal :: "bool \<Rightarrow> u8 \<Rightarrow> sys_sem option" where
  "sys_sem_new_internal malloc_ok count = (if malloc_ok then Some \<lparr>sem_c = ucast count\<rparr> else None)"

definition sys_sem_new :: "bool \<Rightarrow> u8 \<Rightarrow> err_t \<times> sys_sem option" where
  "sys_sem_new malloc_ok count =
     (let sem = sys_sem_new_internal malloc_ok count
      in if sem = None then (ERR_MEM, sem) else (ERR_OK, sem))"

text \<open>
  \<open>sys_sem_signal\<close>: between the lock and the unlock of the semaphore's mutex it is \<open>sem_up\<close>.
\<close>

definition sem_up :: "sys_sem \<Rightarrow> sys_sem" where
  "sem_up sem = (let c = sem_c sem + 1 in sem\<lparr>sem_c := if c > 1 then 1 else c\<rparr>)"

definition sys_sem_signal :: "sys_sem option \<Rightarrow> sys_sem res" where
  "sys_sem_signal s = (case s of
       None \<Rightarrow> Fault (AssertFailed ''invalid sem'')
     | Some sem \<Rightarrow> Ok (sem_up sem))"

text \<open>
  \<open>sys_sem_free_internal\<close> destroys what the semaphore contains and frees it; \<open>sys_sem_free\<close> does so
  through a handle, which is not cleared: \<open>None\<close> stands for a null handle before it and for memory that is
  gone after it.
\<close>

definition sys_sem_free_internal :: "sys_sem option \<Rightarrow> ('s, unit) prog" where
  "sys_sem_free_internal sem = (if sem = None then fail NullDeref else ret ())"

definition sys_sem_free :: "(sys_sem option, unit) prog" where
  "sys_sem_free = bnd (gets id) (\<lambda>sem. whenc (sem \<noteq> None)
     (block [sys_sem_free_internal sem, modify (\<lambda>_. None)]))"

text \<open>
  One wait on the condition variable: the state of the semaphore when the thread has the mutex again,
  the result of the \<open>pthread\<close> call, and the clock before and after it.
\<close>

record wake =
  wk_sem :: sys_sem
  wk_ret :: int
  wk_t1 :: timespec
  wk_t2 :: timespec

text \<open>
  \<open>hurd\<close> is \<open>None\<close> unless \<open>LWIP_UNIX_HURD\<close> is defined, and then has the values of \<open>ETIMEDOUT\<close> and \<open>EINTR\<close> there; it decides
  which variant of \<open>cond_wait\<close> is compiled.
\<close>

definition cond_wait_on :: "(int \<times> int) option \<Rightarrow> u32 \<Rightarrow> wake \<Rightarrow> u32" where
  "cond_wait_on hurd timeout wk = (case hurd of
       None \<Rightarrow> cond_wait timeout (wk_ret wk) (wk_t1 wk) (wk_t2 wk)
     | Some (etimedout, eintr) \<Rightarrow> cond_wait_hurd etimedout eintr timeout (wk_ret wk) (wk_t1 wk) (wk_t2 wk))"

text \<open>
  The loop of \<open>sys_arch_sem_wait\<close>. When the list of wake-ups ends and the counter is still 0, the thread
  waits for ever.
\<close>

fun sem_wait_loop :: "(int \<times> int) option \<Rightarrow> u32 \<Rightarrow> wake list \<Rightarrow> u32 \<Rightarrow> sys_sem \<Rightarrow> (u32 \<times> sys_sem) option" where
  "sem_wait_loop hurd timeout wakes time_needed sem =
     (if sem_c sem \<le> 0 then
        (case wakes of
           [] \<Rightarrow> None
         | wk # wks \<Rightarrow>
             if timeout > 0 then
               let t = cond_wait_on hurd timeout wk in
               if t = SYS_ARCH_TIMEOUT then Some (SYS_ARCH_TIMEOUT, wk_sem wk)
               else if hurd \<noteq> None \<and> t = SYS_ARCH_INTR then Some (0, wk_sem wk)
               else sem_wait_loop hurd timeout wks t (wk_sem wk)
             else if cond_wait_on hurd 0 wk \<noteq> 0 then Some (0, wk_sem wk)
             else sem_wait_loop hurd timeout wks time_needed (wk_sem wk))
      else Some (time_needed, sem\<lparr>sem_c := sem_c sem - 1\<rparr>))"

declare sem_wait_loop.simps [simp del]

definition sys_arch_sem_wait ::
  "(int \<times> int) option \<Rightarrow> sys_sem option \<Rightarrow> u32 \<Rightarrow> wake list \<Rightarrow> (u32 \<times> sys_sem) res option" where
  "sys_arch_sem_wait hurd s timeout wakes = (case s of
       None \<Rightarrow> Some (Fault (AssertFailed ''invalid sem''))
     | Some sem \<Rightarrow> map_option Ok (sem_wait_loop hurd timeout wakes 0 sem))"

section \<open>Properties\<close>

lemma u32_succ_gt_1: "(x + 1 :: u32) > 1 \<longleftrightarrow> x \<noteq> 0 \<and> x \<noteq> 0xffffffff"
proof (cases "x = 0xffffffff")
  case False
  have "unat (0xffffffff :: u32) = 4294967295" by simp
  with False have "unat x \<noteq> 4294967295" by (metis word_unat_eq_iff)
  with unsigned_less [of x, where ?'a = nat] have "unat (x + 1) = unat x + 1"
    by (simp add: unat_word_ariths)
  with False show ?thesis by (auto simp: word_less_nat_alt unat_gt_0)
qed (simp add: word_less_nat_alt)

lemma sem_up_c [simp]: "sem_c (sem_up s) = (if sem_c s = 0xffffffff then 0 else 1)"
  by (auto simp: sem_up_def Let_def u32_succ_gt_1)

lemma sem_up_eq: "sem_c s \<noteq> 0xffffffff \<Longrightarrow> sem_up s = s\<lparr>sem_c := 1\<rparr>"
  by (cases s) (auto simp: sem_up_def Let_def u32_succ_gt_1)

text \<open>
  The semaphore as the thread sees it after \<open>k\<close> waits on the condition variable, and when such a wait ends the loop without a
  token: the time is up, it was interrupted, or, without a timeout, it failed.
\<close>

definition sem_at :: "sys_sem \<Rightarrow> wake list \<Rightarrow> nat \<Rightarrow> sys_sem" where
  "sem_at sem wakes k = (sem # map wk_sem wakes) ! k"

lemma sem_at_simps [simp]: "sem_at sem wakes 0 = sem" "sem_at sem (wk # wks) (Suc k) = sem_at (wk_sem wk) wks k"
  by (simp_all add: sem_at_def)

definition wait_fails :: "(int \<times> int) option \<Rightarrow> u32 \<Rightarrow> wake \<Rightarrow> bool" where
  "wait_fails hurd timeout wk \<longleftrightarrow> (let t = cond_wait_on hurd timeout wk in
     if timeout = 0 then t \<noteq> 0 else t = SYS_ARCH_TIMEOUT \<or> hurd \<noteq> None \<and> t = SYS_ARCH_INTR)"

text \<open>The result of a wait that ends after \<open>k\<close> waits on the condition variable.\<close>

definition wait_result ::
  "(int \<times> int) option \<Rightarrow> u32 \<Rightarrow> wake list \<Rightarrow> u32 \<Rightarrow> sys_sem \<Rightarrow> nat \<Rightarrow> u32 \<Rightarrow> sys_sem \<Rightarrow> bool" where
  "wait_result hurd timeout wakes t0 sem k t sem' \<longleftrightarrow> k \<le> length wakes \<and>
     (\<forall>j<k. sem_c (sem_at sem wakes j) = 0) \<and> (\<forall>j. Suc j < k \<longrightarrow> \<not> wait_fails hurd timeout (wakes ! j)) \<and>
     (if 0 < k \<and> wait_fails hurd timeout (wakes ! (k - 1))
      then sem' = sem_at sem wakes k \<and>
        t = (if 0 < timeout \<and> cond_wait_on hurd timeout (wakes ! (k - 1)) = SYS_ARCH_TIMEOUT then SYS_ARCH_TIMEOUT else 0)
      else unat (sem_c (sem_at sem wakes k)) = unat (sem_c sem') + 1 \<and>
        t = (if k = 0 \<or> timeout = 0 then t0 else cond_wait_on hurd timeout (wakes ! (k - 1))))"

lemma unat_dec: "x \<noteq> 0 \<Longrightarrow> unat x = unat (x - 1) + 1" for x :: u32
  by (simp add: unat_minus_one unat_gt_0)

lemma wait_result_now: "sem_c sem \<noteq> 0 \<Longrightarrow> wait_result hurd timeout wakes t0 sem 0 t0 (sem\<lparr>sem_c := sem_c sem - 1\<rparr>)"
  by (simp add: wait_result_def unat_dec)

lemma wait_result_fails:
  "sem_c sem = 0 \<Longrightarrow> wait_fails hurd timeout wk \<Longrightarrow> wait_result hurd timeout (wk # wks) t0 sem (Suc 0)
     (if 0 < timeout \<and> cond_wait_on hurd timeout wk = SYS_ARCH_TIMEOUT then SYS_ARCH_TIMEOUT else 0) (wk_sem wk)"
  by (simp add: wait_result_def)

lemma wait_result_later:
  assumes "sem_c sem = 0" and "\<not> wait_fails hurd timeout wk"
    and "wait_result hurd timeout wks (if timeout = 0 then t0 else cond_wait_on hurd timeout wk) (wk_sem wk) k t sem'"
  shows "wait_result hurd timeout (wk # wks) t0 sem (Suc k) t sem'"
proof -
  have "sem_c (sem_at sem (wk # wks) j) = 0" if "j < Suc k" for j
    using that assms(1,3) by (cases j) (simp_all add: wait_result_def)
  moreover have "\<not> wait_fails hurd timeout ((wk # wks) ! j)" if "Suc j < Suc k" for j
    using that assms(2,3) by (cases j) (simp_all add: wait_result_def)
  ultimately show ?thesis using assms(2,3) by (cases k) (auto simp: wait_result_def split: if_splits)
qed

lemma sem_wait_loop_spec:
  "\<exists>cur \<in> set (sem # map wk_sem wakes). sem_c cur \<noteq> 0 \<Longrightarrow>
   \<exists>t sem' k. sem_wait_loop hurd timeout wakes t0 sem = Some (t, sem') \<and> wait_result hurd timeout wakes t0 sem k t sem'"
proof (induction wakes arbitrary: t0 sem)
  case Nil
  then show ?case using wait_result_now [of sem hurd timeout "[]" t0] by (auto simp: sem_wait_loop.simps)
next
  case (Cons wk wks)
  note step = sem_wait_loop.simps [of hurd timeout "wk # wks" t0 sem]
  show ?case
  proof (cases "sem_c sem = 0")
    case False
    with wait_result_now [of sem hurd timeout "wk # wks" t0] show ?thesis by (auto simp: step)
  next
    case zero: True
    show ?thesis
    proof (cases "wait_fails hurd timeout wk")
      case True
      with zero have "sem_wait_loop hurd timeout (wk # wks) t0 sem =
          Some (if 0 < timeout \<and> cond_wait_on hurd timeout wk = SYS_ARCH_TIMEOUT then SYS_ARCH_TIMEOUT else 0, wk_sem wk)"
        by (auto simp: step wait_fails_def Let_def word_gt_0 split: if_splits)
      with wait_result_fails [OF zero True, of wks t0] show ?thesis by blast
    next
      case False
      let ?t = "if timeout = 0 then t0 else cond_wait_on hurd timeout wk"
      from zero Cons.prems have "\<exists>cur \<in> set (wk_sem wk # map wk_sem wks). sem_c cur \<noteq> 0" by auto
      from Cons.IH [OF this, of ?t] obtain t sem' k where
        "sem_wait_loop hurd timeout wks ?t (wk_sem wk) = Some (t, sem')"
        "wait_result hurd timeout wks ?t (wk_sem wk) k t sem'" by blast
      moreover from zero False have "sem_wait_loop hurd timeout (wk # wks) t0 sem = sem_wait_loop hurd timeout wks ?t (wk_sem wk)"
        by (auto simp: step wait_fails_def Let_def word_gt_0)
      ultimately show ?thesis using wait_result_later [OF zero False, of wks t0 k t sem']
        by (intro exI [of _ t] exI [of _ sem'] exI [of _ "Suc k"]) simp
    qed
  qed
qed


text \<open>A thread that is woken for nothing, waits again and then finds the token.\<close>

definition demo_wakes :: "wake list" where
  "demo_wakes = [\<lparr>wk_sem = \<lparr>sem_c = 0\<rparr>, wk_ret = 0, wk_t1 = Timespec 0 0, wk_t2 = Timespec 0 5000000\<rparr>,
     \<lparr>wk_sem = \<lparr>sem_c = 1\<rparr>, wk_ret = 0, wk_t1 = Timespec 1 0, wk_t2 = Timespec 1 7000000\<rparr>]"


text \<open>
  A wait with no timeout can return without a token: when the wait on the condition variable fails
  while the counter is 0, it returns 0, the value of success, and the counter is as the other threads
  left it. The mailbox functions drop the result, so their caller then runs without the mailbox mutex.
\<close>

theorem sys_arch_sem_wait_error_is_success:
  assumes "sem_c sem = 0" and "(word_of_int (wk_ret wk) :: u32) \<noteq> 0"
  shows "sys_arch_sem_wait None (Some sem) 0 (wk # wakes) = Some (Ok (0, wk_sem wk))"
  using assms by (simp add: sys_arch_sem_wait_def sem_wait_loop.simps [of None 0 "wk # wakes"] cond_wait_on_def cond_wait_def)

theorem sys_arch_sem_wait_error_is_success_witness:
  "sys_arch_sem_wait None (Some \<lparr>sem_c = 0\<rparr>) 0
     [\<lparr>wk_sem = \<lparr>sem_c = 0\<rparr>, wk_ret = 22, wk_t1 = Timespec 0 0, wk_t2 = Timespec 0 0\<rparr>] = Some (Ok (0, \<lparr>sem_c = 0\<rparr>))"
  using sys_arch_sem_wait_error_is_success [of "\<lparr>sem_c = 0\<rparr>"
      "\<lparr>wk_sem = \<lparr>sem_c = 0\<rparr>, wk_ret = 22, wk_t1 = Timespec 0 0, wk_t2 = Timespec 0 0\<rparr>" "[]"] by simp

end
