(* ===== verification/Sys_Mbox.thy ===== *)
theory Sys_Mbox
  imports Sys_Sem Fifo_Spec
begin

text \<open>
  Mailboxes of the operating-system port, \<open>src/sys.c\<close>: a ring of 128 message pointers between two
  counters that only grow, and three semaphores. A function of the source is a sequence of critical
  sections under the semaphore \<open>mutex\<close>; each section is one definition here. \<open>sys_mbox_trypost\<close> and
  \<open>sys_arch_mbox_tryfetch\<close> have one section, and are shown to be a bounded first-in-first-out queue
  (locale \<open>bounded_fifo\<close>). The blocking functions run in the theory \<open>Sys_Mbox_Run\<close>.
\<close>

section \<open>The state\<close>

abbreviation (input) SYS_MBOX_SIZE :: int where "SYS_MBOX_SIZE \<equiv> 128"
abbreviation (input) SYS_MBOX_EMPTY :: u32 where "SYS_MBOX_EMPTY \<equiv> 0xffffffff"
abbreviation (input) INT_MAX :: int where "INT_MAX \<equiv> 2147483647"

record sys_mbox =
  mb_first :: int
  mb_last :: int
  mb_msgs :: "addr list"
  mb_not_empty :: "sys_sem option"
  mb_not_full :: "sys_sem option"
  mb_mutex :: "sys_sem option"
  mb_wait_send :: int

text \<open>
  \<open>sys_mbox_new\<close>: \<open>m\<close> says whether \<open>malloc\<close> finds memory for the mailbox, \<open>m1\<close> to \<open>m3\<close> for its
  semaphores. The array of messages is not initialised: \<open>junk\<close> is what the memory holds.
\<close>

definition sys_mbox_new :: "bool \<Rightarrow> bool \<Rightarrow> bool \<Rightarrow> bool \<Rightarrow> addr list \<Rightarrow> err_t \<times> sys_mbox option" where
  "sys_mbox_new m m1 m2 m3 junk =
     (if \<not> m then (ERR_MEM, None)
      else (ERR_OK, Some \<lparr>mb_first = 0, mb_last = 0, mb_msgs = junk,
              mb_not_empty = sys_sem_new_internal m1 0,
              mb_not_full = sys_sem_new_internal m2 0,
              mb_mutex = sys_sem_new_internal m3 1, mb_wait_send = 0\<rparr>))"

section \<open>Operations of C on the state\<close>

text \<open>Addition of \<open>int\<close>s, and the index \<open>i % SYS_MBOX_SIZE\<close>, whose sign is that of \<open>i\<close>.\<close>

definition add_int :: "int \<Rightarrow> int \<Rightarrow> ('s, int) prog" where
  "add_int x y = (if - INT_MAX - 1 \<le> x + y \<and> x + y \<le> INT_MAX then ret (x + y) else fail SignedOverflow)"

definition ring_index :: "int \<Rightarrow> ('s, nat) prog" where
  "ring_index i = (if 0 \<le> i then ret (nat (i mod SYS_MBOX_SIZE))
     else if - i mod SYS_MBOX_SIZE = 0 then ret 0 else fail OutOfBounds)"

text \<open>Waits with no timeout and no other thread, and signals, on the semaphores of a mailbox.\<close>

definition of_sem :: "(sys_mbox \<Rightarrow> sys_sem option) \<Rightarrow> (sys_sem \<Rightarrow> sys_mbox \<Rightarrow> sys_mbox) \<Rightarrow>
    (sys_sem option \<Rightarrow> sys_sem res option) \<Rightarrow> (sys_mbox, unit) prog" where
  "of_sem sel upd f = (\<lambda>mb. case f (sel mb) of
       None \<Rightarrow> None
     | Some (Fault e) \<Rightarrow> Some (Fault e)
     | Some (Ok sem) \<Rightarrow> Some (Ok ((), upd sem mb)))"

definition wait_now :: "sys_sem option \<Rightarrow> sys_sem res option" where
  "wait_now s = (case sys_arch_sem_wait None s 0 [] of
       None \<Rightarrow> None
     | Some (Fault e) \<Rightarrow> Some (Fault e)
     | Some (Ok (t, sem)) \<Rightarrow> Some (Ok sem))"

definition signal_now :: "sys_sem option \<Rightarrow> sys_sem res option" where
  "signal_now s = Some (sys_sem_signal s)"

definition wait_mutex :: "(sys_mbox, unit) prog" where
  "wait_mutex = of_sem mb_mutex (\<lambda>s. mb_mutex_update (\<lambda>_. Some s)) wait_now"

definition signal_mutex :: "(sys_mbox, unit) prog" where
  "signal_mutex = of_sem mb_mutex (\<lambda>s. mb_mutex_update (\<lambda>_. Some s)) signal_now"

definition wait_not_empty :: "(sys_mbox, unit) prog" where
  "wait_not_empty = of_sem mb_not_empty (\<lambda>s. mb_not_empty_update (\<lambda>_. Some s)) wait_now"

definition signal_not_empty :: "(sys_mbox, unit) prog" where
  "signal_not_empty = of_sem mb_not_empty (\<lambda>s. mb_not_empty_update (\<lambda>_. Some s)) signal_now"

definition wait_not_full :: "(sys_mbox, unit) prog" where
  "wait_not_full = of_sem mb_not_full (\<lambda>s. mb_not_full_update (\<lambda>_. Some s)) wait_now"

definition signal_not_full :: "(sys_mbox, unit) prog" where
  "signal_not_full = of_sem mb_not_full (\<lambda>s. mb_not_full_update (\<lambda>_. Some s)) signal_now"

section \<open>The critical sections\<close>

text \<open>The test that opens \<open>sys_mbox_trypost\<close> and the loop of \<open>sys_mbox_post\<close>.\<close>

definition mbox_full :: "(sys_mbox, bool) prog" where
  "mbox_full = bnd (gets id) (\<lambda>mb.
     bnd (add_int (mb_last mb) 1) (\<lambda>l.
     bnd (add_int (mb_first mb) SYS_MBOX_SIZE) (\<lambda>f. ret (l \<ge> f))))"

text \<open>The common end of both: store the message, count it, tell a fetcher, give the mutex back.\<close>

definition mbox_put :: "addr \<Rightarrow> (sys_mbox, unit) prog" where
  "mbox_put msg = bnd (gets id) (\<lambda>mb.
     bnd (ring_index (mb_last mb)) (\<lambda>i.
     seq (modify (\<lambda>mb. mb\<lparr>mb_msgs := (mb_msgs mb)[i := msg]\<rparr>))
     (let fst_msg = (mb_last mb = mb_first mb) in
     bnd (add_int (mb_last mb) 1) (\<lambda>l.
     block [modify (\<lambda>mb. mb\<lparr>mb_last := l\<rparr>), whenc fst_msg signal_not_empty, signal_mutex]))))"

definition trypost_section :: "addr \<Rightarrow> (sys_mbox, err_t) prog" where
  "trypost_section msg = bnd mbox_full (\<lambda>full.
     if full then seq signal_mutex (ret ERR_MEM) else seq (mbox_put msg) (ret ERR_OK))"

text \<open>One round of the loop of \<open>sys_mbox_post\<close>: \<open>False\<close> when the thread has to wait for \<open>not_full\<close>.\<close>

definition post_section :: "addr \<Rightarrow> (sys_mbox, bool) prog" where
  "post_section msg = bnd mbox_full (\<lambda>full.
     if full then
       bnd (gets mb_wait_send) (\<lambda>w. bnd (add_int w 1) (\<lambda>w'.
       seq (modify (\<lambda>mb. mb\<lparr>mb_wait_send := w'\<rparr>)) (seq signal_mutex (ret False))))
     else seq (mbox_put msg) (ret True))"

text \<open>What \<open>sys_mbox_post\<close> does when it has waited for \<open>not_full\<close>, before it tests again.\<close>

definition post_resume :: "(sys_mbox, unit) prog" where
  "post_resume = seq wait_mutex
     (bnd (gets mb_wait_send) (\<lambda>w. bnd (add_int w (- 1)) (\<lambda>w'. modify (\<lambda>mb. mb\<lparr>mb_wait_send := w'\<rparr>))))"

text \<open>
  The common end of \<open>sys_arch_mbox_fetch\<close> and \<open>sys_arch_mbox_tryfetch\<close>. \<open>want\<close> says that \<open>msg\<close> is not
  null; the message is the value only then.
\<close>

definition mbox_get :: "bool \<Rightarrow> (sys_mbox, addr option) prog" where
  "mbox_get want = bnd (gets id) (\<lambda>mb.
     bnd (if want then bnd (ring_index (mb_first mb)) (\<lambda>i. ret (Some (mb_msgs mb ! i))) else ret None) (\<lambda>msg.
     bnd (add_int (mb_first mb) 1) (\<lambda>f.
     seq (block [modify (\<lambda>mb. mb\<lparr>mb_first := f\<rparr>), whenc (mb_wait_send mb \<noteq> 0) signal_not_full, signal_mutex])
     (ret msg))))"

definition tryfetch_section :: "bool \<Rightarrow> (sys_mbox, u32 \<times> addr option) prog" where
  "tryfetch_section want = bnd (gets id) (\<lambda>mb.
     if mb_first mb = mb_last mb then seq signal_mutex (ret (SYS_MBOX_EMPTY, None))
     else bnd (mbox_get want) (\<lambda>msg. ret (0, msg)))"

text \<open>One round of \<open>sys_arch_mbox_fetch\<close>: \<open>None\<close> when the thread has to wait for \<open>not_empty\<close>.\<close>

definition fetch_section :: "bool \<Rightarrow> (sys_mbox, addr option option) prog" where
  "fetch_section want = bnd (gets id) (\<lambda>mb.
     if mb_first mb = mb_last mb then seq signal_mutex (ret None)
     else bnd (mbox_get want) (\<lambda>msg. ret (Some msg)))"

section \<open>The functions that do not block\<close>

text \<open>A function that gets the handle of the mailbox: \<open>None\<close> is a null handle.\<close>

definition with_mbox :: "(sys_mbox, 'a) prog \<Rightarrow> (sys_mbox option, 'a) prog" where
  "with_mbox m = (\<lambda>h. case h of
       None \<Rightarrow> Some (Fault (AssertFailed ''invalid mbox''))
     | Some mb \<Rightarrow> (case m mb of
           None \<Rightarrow> None
         | Some (Fault e) \<Rightarrow> Some (Fault e)
         | Some (Ok (x, mb')) \<Rightarrow> Some (Ok (x, Some mb'))))"

definition sys_mbox_trypost :: "addr \<Rightarrow> (sys_mbox option, err_t) prog" where
  "sys_mbox_trypost msg = with_mbox (seq wait_mutex (trypost_section msg))"

definition sys_mbox_trypost_fromisr :: "addr \<Rightarrow> (sys_mbox option, err_t) prog" where
  "sys_mbox_trypost_fromisr msg = sys_mbox_trypost msg"

definition sys_arch_mbox_tryfetch :: "bool \<Rightarrow> (sys_mbox option, u32 \<times> addr option) prog" where
  "sys_arch_mbox_tryfetch want = with_mbox (seq wait_mutex (tryfetch_section want))"

text \<open>
  \<open>sys_mbox_free\<close>: it takes the mutex for good, destroys the three semaphores, which must exist, and
  frees the mailbox. The handle is not cleared; \<open>None\<close> stands for memory that is gone.
\<close>

definition sys_mbox_free :: "(sys_mbox option, unit) prog" where
  "sys_mbox_free = (\<lambda>h. if h = None then Some (Ok ((), None)) else
     seq (with_mbox wait_mutex) (bnd (gets the) (\<lambda>mb. block
       [sys_sem_free_internal (mb_not_empty mb), sys_sem_free_internal (mb_not_full mb),
        sys_sem_free_internal (mb_mutex mb), modify (\<lambda>_. None)])) h)"

section \<open>Running the sections\<close>

text \<open>The well-formed mailboxes, and the messages in the ring, oldest first.\<close>

abbreviation (input) sem :: "u32 \<Rightarrow> sys_sem option" where "sem n \<equiv> Some \<lparr>sem_c = n\<rparr>"

definition is_sem :: "sys_sem option \<Rightarrow> bool" where
  "is_sem s \<longleftrightarrow> s = sem 0 \<or> s = sem 1"

definition mbox_wf :: "sys_mbox \<Rightarrow> bool" where
  "mbox_wf mb \<longleftrightarrow> 0 \<le> mb_first mb \<and> mb_first mb \<le> mb_last mb \<and> mb_last mb \<le> mb_first mb + 127 \<and>
     mb_last mb \<le> INT_MAX \<and> length (mb_msgs mb) = 128 \<and> is_sem (mb_not_empty mb) \<and> is_sem (mb_not_full mb) \<and>
     is_sem (mb_mutex mb) \<and> 0 \<le> mb_wait_send mb \<and> mb_wait_send mb \<le> INT_MAX"

definition mbox_queue :: "sys_mbox \<Rightarrow> addr list" where
  "mbox_queue mb = map (\<lambda>i. mb_msgs mb ! nat (i mod 128)) [mb_first mb..mb_last mb - 1]"

named_theorems mbox_run \<open>what a step of a critical section does to a mailbox\<close>

lemma signal_now_is_sem: "is_sem s \<Longrightarrow> signal_now s = Some (Ok \<lparr>sem_c = 1\<rparr>)"
  by (auto simp: is_sem_def signal_now_def sys_sem_signal_def sem_up_eq)

lemma wait_now_1: "wait_now (sem 1) = Some (Ok \<lparr>sem_c = 0\<rparr>)"
  by (simp add: wait_now_def sys_arch_sem_wait_def sem_wait_loop.simps)

lemma wait_now_0: "wait_now (sem 0) = None"
  by (simp add: wait_now_def sys_arch_sem_wait_def sem_wait_loop.simps)

lemma signal_mutex_run [mbox_run]:
  "is_sem (mb_mutex mb) \<Longrightarrow> signal_mutex mb = Some (Ok ((), mb\<lparr>mb_mutex := sem 1\<rparr>))"
  by (simp add: signal_mutex_def of_sem_def signal_now_is_sem)

lemma signal_not_empty_run [mbox_run]:
  "is_sem (mb_not_empty mb) \<Longrightarrow> signal_not_empty mb = Some (Ok ((), mb\<lparr>mb_not_empty := sem 1\<rparr>))"
  by (simp add: signal_not_empty_def of_sem_def signal_now_is_sem)

lemma signal_not_full_run [mbox_run]:
  "is_sem (mb_not_full mb) \<Longrightarrow> signal_not_full mb = Some (Ok ((), mb\<lparr>mb_not_full := sem 1\<rparr>))"
  by (simp add: signal_not_full_def of_sem_def signal_now_is_sem)

lemma wait_mutex_iff [mbox_run]:
  "is_sem (mb_mutex mb) \<Longrightarrow>
   wait_mutex mb = (if mb_mutex mb = sem 1 then Some (Ok ((), mb\<lparr>mb_mutex := sem 0\<rparr>)) else None)"
  by (auto simp: wait_mutex_def of_sem_def wait_now_1 wait_now_0 is_sem_def)

lemma wait_not_empty_iff [mbox_run]:
  "is_sem (mb_not_empty mb) \<Longrightarrow>
   wait_not_empty mb = (if mb_not_empty mb = sem 1 then Some (Ok ((), mb\<lparr>mb_not_empty := sem 0\<rparr>)) else None)"
  by (auto simp: wait_not_empty_def of_sem_def wait_now_1 wait_now_0 is_sem_def)

lemma wait_not_full_iff [mbox_run]:
  "is_sem (mb_not_full mb) \<Longrightarrow>
   wait_not_full mb = (if mb_not_full mb = sem 1 then Some (Ok ((), mb\<lparr>mb_not_full := sem 0\<rparr>)) else None)"
  by (auto simp: wait_not_full_def of_sem_def wait_now_1 wait_now_0 is_sem_def)

lemma is_sem_simps [simp]: "is_sem (sem 0)" "is_sem (sem 1)"
  by (simp_all add: is_sem_def)

lemma add_int_run [mbox_run]:
  "add_int x y s = (if - INT_MAX - 1 \<le> x + y \<and> x + y \<le> INT_MAX then Some (Ok (x + y, s)) else Some (Fault SignedOverflow))"
  by (simp add: add_int_def run_simps)

lemma ring_index_run [mbox_run]: "0 \<le> i \<Longrightarrow> ring_index i s = Some (Ok (nat (i mod 128), s))"
  by (simp add: ring_index_def run_simps)

text \<open>The states after a section, as updates of the state before.\<close>

definition after_put :: "addr \<Rightarrow> sys_mbox \<Rightarrow> sys_mbox" where
  "after_put msg mb = mb\<lparr>mb_msgs := (mb_msgs mb)[nat (mb_last mb mod 128) := msg], mb_last := mb_last mb + 1,
     mb_not_empty := (if mb_last mb = mb_first mb then sem 1 else mb_not_empty mb), mb_mutex := sem 1\<rparr>"

definition after_get :: "sys_mbox \<Rightarrow> sys_mbox" where
  "after_get mb = mb\<lparr>mb_first := mb_first mb + 1,
     mb_not_full := (if mb_wait_send mb \<noteq> 0 then sem 1 else mb_not_full mb), mb_mutex := sem 1\<rparr>"

text \<open>
  The counters may still move: the next addition of \<open>mbox_full\<close> is in range. It fails once the ring has
  delivered 2147483520 messages.
\<close>

definition mbox_live :: "sys_mbox \<Rightarrow> bool" where
  "mbox_live mb \<longleftrightarrow> mb_first mb + 128 \<le> INT_MAX"

lemma mbox_full_run [mbox_run]:
  "mbox_wf mb \<Longrightarrow> mbox_live mb \<Longrightarrow> mbox_full mb = Some (Ok (mb_last mb = mb_first mb + 127, mb))"
  by (auto simp: mbox_full_def run_simps mbox_run mbox_wf_def mbox_live_def)

lemma mbox_full_overflow:
  "mbox_wf mb \<Longrightarrow> \<not> mbox_live mb \<Longrightarrow> mbox_full mb = Some (Fault SignedOverflow)"
  by (auto simp: mbox_full_def run_simps mbox_run mbox_wf_def mbox_live_def)

lemma mbox_put_run [mbox_run]:
  "mbox_wf mb \<Longrightarrow> mbox_live mb \<Longrightarrow> mb_last mb < mb_first mb + 127 \<Longrightarrow>
   mbox_put msg mb = Some (Ok ((), after_put msg mb))"
  by (auto simp: mbox_put_def run_simps mbox_run mbox_wf_def mbox_live_def after_put_def Let_def)

lemma mbox_get_run [mbox_run]:
  "mbox_wf mb \<Longrightarrow> mb_first mb \<noteq> mb_last mb \<Longrightarrow>
   mbox_get want mb = Some (Ok (if want then Some (hd (mbox_queue mb)) else None, after_get mb))"
  by (auto simp: mbox_get_def run_simps mbox_run mbox_wf_def mbox_live_def after_get_def mbox_queue_def upto_rec1)

section \<open>The ring is a queue\<close>

lemma queue_Nil_iff: "mbox_queue mb = [] \<longleftrightarrow> mb_last mb \<le> mb_first mb"
  unfolding mbox_queue_def by auto

lemma queue_length: "mbox_wf mb \<Longrightarrow> int (length (mbox_queue mb)) = mb_last mb - mb_first mb"
  by (simp add: mbox_queue_def mbox_wf_def)

text \<open>Two counters less than 128 apart never share a slot.\<close>

lemma ring_distinct: "0 \<le> i \<Longrightarrow> i < j \<Longrightarrow> j < i + 128 \<Longrightarrow> nat (i mod 128) \<noteq> nat (j mod (128 :: int))"
proof
  assume range: "0 \<le> i" "i < j" "j < i + 128" and "nat (i mod 128) = nat (j mod 128)"
  then have "j mod 128 = i mod 128" by (metis eq_nat_nat_iff pos_mod_sign zero_less_numeral)
  then have "128 dvd j - i" by (simp add: mod_eq_dvd_iff)
  with range show False by (auto dest: zdvd_imp_le)
qed

lemma queue_after_put:
  assumes "mbox_wf mb" and "mb_last mb < mb_first mb + 127"
  shows "mbox_queue (after_put msg mb) = mbox_queue mb @ [msg]"
proof -
  let ?l = "mb_last mb" and ?f = "mb_first mb"
  have range: "0 \<le> ?f" "?f \<le> ?l" "length (mb_msgs mb) = 128" using assms by (simp_all add: mbox_wf_def)
  have slot: "nat (?l mod 128) < 128" by (simp add: nat_less_iff)
  have "[?f..?l] = [?f..?l - 1] @ [?l]" using range by (simp add: upto_rec2)
  moreover have "(mb_msgs mb)[nat (?l mod 128) := msg] ! nat (i mod 128) = mb_msgs mb ! nat (i mod 128)"
    if "i \<in> set [?f..?l - 1]" for i
    using that ring_distinct [of i ?l] assms range by auto
  ultimately show ?thesis using slot range by (simp add: mbox_queue_def after_put_def)
qed

lemma queue_after_get:
  "mbox_wf mb \<Longrightarrow> mb_first mb \<noteq> mb_last mb \<Longrightarrow> mbox_queue (after_get mb) = tl (mbox_queue mb)"
  by (auto simp: mbox_queue_def after_get_def mbox_wf_def upto_rec1)

lemma queue_sems [simp]:
  "mbox_queue (mb\<lparr>mb_mutex := x\<rparr>) = mbox_queue mb"
  "mbox_queue (mb\<lparr>mb_not_empty := x\<rparr>) = mbox_queue mb"
  "mbox_queue (mb\<lparr>mb_not_full := x\<rparr>) = mbox_queue mb"
  "mbox_queue (mb\<lparr>mb_wait_send := w\<rparr>) = mbox_queue mb"
  by (simp_all add: mbox_queue_def)

lemma after_put_wf: "mbox_wf mb \<Longrightarrow> mbox_live mb \<Longrightarrow> mb_last mb < mb_first mb + 127 \<Longrightarrow> mbox_wf (after_put msg mb)"
  by (auto simp: mbox_wf_def mbox_live_def after_put_def)

lemma after_get_wf: "mbox_wf mb \<Longrightarrow> mb_first mb \<noteq> mb_last mb \<Longrightarrow> mbox_wf (after_get mb)"
  by (auto simp: mbox_wf_def after_get_def)

lemma after_put_sel [simp]:
  "mb_first (after_put msg mb) = mb_first mb" "mb_last (after_put msg mb) = mb_last mb + 1"
  "mb_mutex (after_put msg mb) = sem 1" "mb_not_full (after_put msg mb) = mb_not_full mb"
  "mb_not_empty (after_put msg mb) = (if mb_last mb = mb_first mb then sem 1 else mb_not_empty mb)"
  "mb_wait_send (after_put msg mb) = mb_wait_send mb"
  by (simp_all add: after_put_def)

lemma after_get_sel [simp]:
  "mb_first (after_get mb) = mb_first mb + 1" "mb_last (after_get mb) = mb_last mb"
  "mb_mutex (after_get mb) = sem 1" "mb_not_empty (after_get mb) = mb_not_empty mb"
  "mb_not_full (after_get mb) = (if mb_wait_send mb \<noteq> 0 then sem 1 else mb_not_full mb)"
  "mb_wait_send (after_get mb) = mb_wait_send mb"
  by (simp_all add: after_get_def)

lemma wf_mutex [simp]: "mbox_wf mb \<Longrightarrow> is_sem x \<Longrightarrow> mbox_wf (mb\<lparr>mb_mutex := x\<rparr>)"
  by (simp add: mbox_wf_def)

lemma live_mutex [simp]: "mbox_live (mb\<lparr>mb_mutex := x\<rparr>) = mbox_live mb"
  by (simp add: mbox_live_def)

lemma wf_is_sem: "mbox_wf mb \<Longrightarrow> is_sem (mb_mutex mb) \<and> is_sem (mb_not_empty mb) \<and> is_sem (mb_not_full mb)"
  by (simp add: mbox_wf_def)

text \<open>The four outcomes of the two sections that do not block.\<close>

lemma trypost_section_run:
  assumes "mbox_wf mb" and "mbox_live mb"
  shows "trypost_section msg mb = (if mb_last mb = mb_first mb + 127
     then Some (Ok (ERR_MEM, mb\<lparr>mb_mutex := sem 1\<rparr>)) else Some (Ok (ERR_OK, after_put msg mb)))"
proof -
  have "mb_last mb \<le> mb_first mb + 127" using assms by (simp add: mbox_wf_def)
  with assms show ?thesis by (auto simp: trypost_section_def run_simps mbox_run wf_is_sem)
qed

lemma tryfetch_section_run:
  "mbox_wf mb \<Longrightarrow> tryfetch_section want mb = (if mb_first mb = mb_last mb
     then Some (Ok ((SYS_MBOX_EMPTY, None), mb\<lparr>mb_mutex := sem 1\<rparr>))
     else Some (Ok ((0, if want then Some (hd (mbox_queue mb)) else None), after_get mb)))"
  by (auto simp: tryfetch_section_def run_simps mbox_run wf_is_sem)

section \<open>The mailbox provides the interface\<close>

definition post_client :: "addr \<Rightarrow> (sys_mbox option, bool) prog" where
  "post_client msg = bnd (sys_mbox_trypost msg) (\<lambda>e. ret (e = ERR_OK))"

definition fetch_client :: "(sys_mbox option, addr option) prog" where
  "fetch_client = bnd (sys_arch_mbox_tryfetch True) (\<lambda>r. ret (if fst r = SYS_MBOX_EMPTY then None else snd r))"

definition idle_mbox :: "sys_mbox option \<Rightarrow> bool" where
  "idle_mbox h \<longleftrightarrow> (\<exists>mb. h = Some mb \<and> mbox_wf mb \<and> mb_mutex mb = sem 1)"

definition mbox_life :: "sys_mbox option \<Rightarrow> nat" where
  "mbox_life h = nat (INT_MAX - 127 - mb_first (the h))"

definition mbox_abs :: "sys_mbox option \<Rightarrow> addr list" where
  "mbox_abs h = mbox_queue (the h)"

lemma locked_trypost:
  assumes "mbox_wf mb" and "mb_mutex mb = sem 1" and "mbox_live mb"
  shows "sys_mbox_trypost msg (Some mb) = (if mb_last mb = mb_first mb + 127
     then Some (Ok (ERR_MEM, Some mb)) else Some (Ok (ERR_OK, Some (after_put msg mb))))"
proof -
  have "mb\<lparr>mb_mutex := sem 1\<rparr> = mb" using assms(2) by (cases mb) simp
  moreover have "after_put msg (mb\<lparr>mb_mutex := sem 0\<rparr>) = after_put msg mb" by (simp add: after_put_def)
  ultimately show ?thesis
    using assms by (simp add: sys_mbox_trypost_def with_mbox_def run_simps mbox_run trypost_section_run)
qed

lemma locked_tryfetch:
  assumes "mbox_wf mb" and "mb_mutex mb = sem 1"
  shows "sys_arch_mbox_tryfetch want (Some mb) = (if mb_first mb = mb_last mb
     then Some (Ok ((SYS_MBOX_EMPTY, None), Some mb))
     else Some (Ok ((0, if want then Some (hd (mbox_queue mb)) else None), Some (after_get mb))))"
proof -
  have "mb\<lparr>mb_mutex := sem 1\<rparr> = mb" using assms(2) by (cases mb) simp
  moreover have "after_get (mb\<lparr>mb_mutex := sem 0\<rparr>) = after_get mb" by (simp add: after_get_def)
  ultimately show ?thesis
    using assms by (simp add: sys_arch_mbox_tryfetch_def with_mbox_def run_simps mbox_run tryfetch_section_run)
qed

interpretation ring: bounded_fifo idle_mbox mbox_life mbox_abs 127 post_client fetch_client
proof
  fix h :: "sys_mbox option" and m :: addr
  assume "idle_mbox h" "0 < mbox_life h"
  then obtain mb where mb: "h = Some mb" "mbox_wf mb" "mb_mutex mb = sem 1" and live: "mbox_live mb"
    by (auto simp: idle_mbox_def mbox_life_def mbox_live_def)
  note len = queue_length [OF mb(2)]
  { assume "length (mbox_abs h) < 127"
    with len mb(1) have "mb_last mb < mb_first mb + 127" by (simp add: mbox_abs_def)
    with mb live show "wp (post_client m) (\<lambda>b s'. b \<and> idle_mbox s' \<and> mbox_life s' = mbox_life h \<and>
        mbox_abs s' = mbox_abs h @ [m]) h"
      by (auto simp: wp_def post_client_def run_simps locked_trypost idle_mbox_def mbox_life_def mbox_abs_def
          after_put_wf queue_after_put) }
  { assume "127 \<le> length (mbox_abs h)"
    with len mb have "mb_last mb = mb_first mb + 127" by (simp add: mbox_abs_def mbox_wf_def)
    with mb live show "wp (post_client m) (\<lambda>b s'. \<not> b \<and> idle_mbox s' \<and> mbox_life s' = mbox_life h \<and>
        mbox_abs s' = mbox_abs h) h"
      by (auto simp: wp_def post_client_def run_simps locked_trypost idle_mbox_def) }
next
  fix h :: "sys_mbox option" and m :: addr and q :: "addr list"
  assume "idle_mbox h" and q: "mbox_abs h = m # q"
  then obtain mb where mb: "h = Some mb" "mbox_wf mb" "mb_mutex mb = sem 1" by (auto simp: idle_mbox_def)
  with q have "mb_first mb < mb_last mb" using queue_Nil_iff [of mb] by (simp add: mbox_abs_def)
  with mb q show "wp fetch_client (\<lambda>r s'. r = Some m \<and> idle_mbox s' \<and> mbox_life h \<le> mbox_life s' + 1 \<and>
      mbox_abs s' = q) h"
    by (auto simp: wp_def fetch_client_def run_simps locked_tryfetch idle_mbox_def mbox_life_def mbox_abs_def
        after_get_wf queue_after_get)
next
  fix h :: "sys_mbox option"
  assume "idle_mbox h" and q: "mbox_abs h = []"
  then obtain mb where mb: "h = Some mb" "mbox_wf mb" "mb_mutex mb = sem 1" by (auto simp: idle_mbox_def)
  with q have "mb_first mb = mb_last mb" by (simp add: mbox_abs_def queue_Nil_iff mbox_wf_def)
  with mb q show "wp fetch_client (\<lambda>r s'. r = None \<and> idle_mbox s' \<and> mbox_life s' = mbox_life h \<and>
      mbox_abs s' = []) h"
    by (auto simp: wp_def fetch_client_def run_simps locked_tryfetch idle_mbox_def)
qed

section \<open>Properties\<close>

lemma sys_mbox_new_idle:
  "length junk = 128 \<Longrightarrow> idle_mbox (snd (sys_mbox_new True True True True junk)) \<and>
     mbox_abs (snd (sys_mbox_new True True True True junk)) = [] \<and>
     mbox_life (snd (sys_mbox_new True True True True junk)) = 2147483520"
  by (simp add: sys_mbox_new_def sys_sem_new_internal_def idle_mbox_def mbox_wf_def mbox_abs_def mbox_queue_def
      mbox_life_def)

text \<open>
  C8. The mailbox refines a bounded queue. On a mailbox as \<open>sys_mbox_new\<close> returns it when its allocations succeed, any sequence of
  fewer than 2147483520 calls of \<open>sys_mbox_trypost\<close> and \<open>sys_arch_mbox_tryfetch\<close> returns without a fault,
  every call answers as a first-in-first-out queue of capacity 127 does, and the ring holds that queue.
\<close>

theorem sys_mbox_refines_fifo:
  assumes "length junk = 128" and "length ops < 2147483520"
  shows "\<exists>rs h. exec_ops post_client fetch_client ops (snd (sys_mbox_new True True True True junk)) = Some (Ok (rs, h)) \<and>
     (rs, mbox_abs h) = fifo_ops 127 ops [] \<and> length (mbox_abs h) \<le> 127"
proof -
  let ?h = "snd (sys_mbox_new True True True True junk)"
  from sys_mbox_new_idle [OF assms(1)] assms(2)
  have "wp (exec_ops post_client fetch_client ops) (\<lambda>rs h. (rs, mbox_abs h) = fifo_ops 127 ops [] \<and> idle_mbox h) ?h"
    using ring.ops_refine [of ?h ops] by simp
  then obtain rs h where "exec_ops post_client fetch_client ops ?h = Some (Ok (rs, h))"
    and eq: "(rs, mbox_abs h) = fifo_ops 127 ops []" by (auto simp: wp_iff)
  moreover from eq have "mbox_abs h = snd (fifo_ops 127 ops [])" by (metis snd_conv)
  ultimately show ?thesis using fifo_ops_bound [of "[]" 127 ops] by auto
qed

theorem sys_mbox_refines_fifo_witness:
  "\<exists>rs h. exec_ops post_client fetch_client [Put 5, Put 6, Get, Get, Get]
       (snd (sys_mbox_new True True True True (replicate 128 0))) = Some (Ok (rs, h)) \<and>
     rs = [Accepted, Accepted, Got 5, Got 6, Empty] \<and> mbox_abs h = []"
  using sys_mbox_refines_fifo [of "replicate 128 0" "[Put 5, Put 6, Get, Get, Get]"] by auto

text \<open>
  \<open>sys_mbox_new\<close> does not look at the semaphores it allocates: when there is no memory for the mutex, it
  reports success, and the first post stops at an assertion.
\<close>

lemma sys_mbox_new_ignores_failure:
  "fst (sys_mbox_new True m1 m2 False junk) = ERR_OK \<and>
   sys_mbox_trypost msg (snd (sys_mbox_new True m1 m2 False junk)) = Some (Fault (AssertFailed ''invalid sem''))"
  by (simp add: sys_mbox_new_def sys_sem_new_internal_def sys_mbox_trypost_def with_mbox_def run_simps
      wait_mutex_def of_sem_def wait_now_def sys_arch_sem_wait_def)

end
