(* ===== verification/Sys_Mbox_Run.thy ===== *)
theory Sys_Mbox_Run
  imports Sys_Mbox
begin

text \<open>
  Threads on one mailbox, \<open>src/sys.c\<close>. The program counter of a thread says where in
  \<open>sys_mbox_post\<close>, \<open>sys_mbox_trypost\<close>, \<open>sys_arch_mbox_fetch\<close> or \<open>sys_arch_mbox_tryfetch\<close> it is; a step is
  a wait on a semaphore or a critical section, and any thread may take the next one. The mutex is a
  semaphore of the model like the others, so that sections exclude each other is a theorem. The
  state keeps two ghost lists: the messages whose post succeeded and the messages taken out. A wait
  either takes a token or runs into its timeout: failures of the condition variable, which
  \<open>sys_arch_sem_wait\<close> reports as success, are the subject of \<open>Sys_Sem\<close> and do not happen in these runs.
\<close>

section \<open>Threads\<close>

datatype mthread =
    Idle int "addr option"
  | PostEnter addr
  | PostCheck addr
  | PostSleep addr
  | PostReenter addr
  | TrypostEnter addr
  | TrypostCheck addr
  | FetchEnter bool u32
  | FetchCheck bool u32 u32
  | FetchSleep bool u32 u32
  | FetchReenter bool u32 u32
  | TryfetchEnter bool
  | TryfetchCheck bool

text \<open>
  The step of a thread: \<open>None\<close> while it has to wait. \<open>time\<close> is the time \<open>sys_arch_sem_wait\<close> reports for
  a timed wait. \<open>Idle r m\<close> is the return from a call with the result \<open>r\<close> (0 for \<open>sys_mbox_post\<close>, which
  has none) and the message \<open>m\<close>.
\<close>

fun thread_move :: "u32 \<Rightarrow> mthread \<Rightarrow> (sys_mbox, mthread) prog" where
  "thread_move time (Idle r m) = (\<lambda>_. None)"
| "thread_move time (PostEnter m) = seq wait_mutex (ret (PostCheck m))"
| "thread_move time (PostCheck m) = bnd (post_section m) (\<lambda>d. ret (if d then Idle 0 None else PostSleep m))"
| "thread_move time (PostSleep m) = seq wait_not_full (ret (PostReenter m))"
| "thread_move time (PostReenter m) = seq post_resume (ret (PostCheck m))"
| "thread_move time (TrypostEnter m) = seq wait_mutex (ret (TrypostCheck m))"
| "thread_move time (TrypostCheck m) = bnd (trypost_section m) (\<lambda>e. ret (Idle e None))"
| "thread_move time (FetchEnter w t) = seq wait_mutex (ret (FetchCheck w t 0))"
| "thread_move time (FetchCheck w t n) = bnd (fetch_section w) (\<lambda>r. ret (case r of
       None \<Rightarrow> FetchSleep w t n
     | Some msg \<Rightarrow> Idle (uint n) msg))"
| "thread_move time (FetchSleep w t n) = seq wait_not_empty (ret (FetchReenter w t (if t \<noteq> 0 then time else n)))"
| "thread_move time (FetchReenter w t n) = seq wait_mutex (ret (FetchCheck w t n))"
| "thread_move time (TryfetchEnter w) = seq wait_mutex (ret (TryfetchCheck w))"
| "thread_move time (TryfetchCheck w) = bnd (tryfetch_section w) (\<lambda>(r, msg). ret (Idle (uint r) msg))"

text \<open>The calls a thread can make.\<close>

fun is_call :: "mthread \<Rightarrow> bool" where
  "is_call (PostEnter m) = True"
| "is_call (TrypostEnter m) = True"
| "is_call (FetchEnter w t) = True"
| "is_call (TryfetchEnter w) = True"
| "is_call _ = False"

fun is_idle :: "mthread \<Rightarrow> bool" where
  "is_idle (Idle r m) = True"
| "is_idle _ = False"

text \<open>What a step adds to the ghost lists, from the program counters around it and the mailbox before.\<close>

fun posted :: "mthread \<Rightarrow> mthread \<Rightarrow> addr list" where
  "posted (PostCheck m) (Idle r x) = [m]"
| "posted (TrypostCheck m) (Idle r x) = (if r = ERR_OK then [m] else [])"
| "posted _ _ = []"

fun fetched :: "sys_mbox \<Rightarrow> mthread \<Rightarrow> mthread \<Rightarrow> addr list" where
  "fetched mb (FetchCheck w t n) (Idle r x) = [if w then the x else hd (mbox_queue mb)]"
| "fetched mb (TryfetchCheck w) (Idle r x) =
     (if r = uint SYS_MBOX_EMPTY then [] else [if w then the x else hd (mbox_queue mb)])"
| "fetched mb _ _ = []"

record mbox_sys =
  ms_mb :: sys_mbox
  ms_ths :: "mthread list"
  ms_sent :: "addr list"
  ms_got :: "addr list"

section \<open>Steps and runs\<close>

datatype step_kind = Call | Move | Timeout

inductive mbox_step :: "step_kind \<Rightarrow> mbox_sys \<Rightarrow> mbox_sys \<Rightarrow> bool" where
  call: "i < length (ms_ths s) \<Longrightarrow> is_idle (ms_ths s ! i) \<Longrightarrow> is_call pc \<Longrightarrow>
    mbox_step Call s (s\<lparr>ms_ths := (ms_ths s)[i := pc]\<rparr>)"
| move: "i < length (ms_ths s) \<Longrightarrow> time \<noteq> SYS_ARCH_TIMEOUT \<Longrightarrow>
    thread_move time (ms_ths s ! i) (ms_mb s) = Some (Ok (pc, mb)) \<Longrightarrow>
    mbox_step Move s \<lparr>ms_mb = mb, ms_ths = (ms_ths s)[i := pc],
      ms_sent = ms_sent s @ posted (ms_ths s ! i) pc,
      ms_got = ms_got s @ fetched (ms_mb s) (ms_ths s ! i) pc\<rparr>"
| timeout: "i < length (ms_ths s) \<Longrightarrow> ms_ths s ! i = FetchSleep w t n \<Longrightarrow> t \<noteq> 0 \<Longrightarrow>
    mbox_step Timeout s (s\<lparr>ms_ths := (ms_ths s)[i := Idle (uint SYS_ARCH_TIMEOUT) None]\<rparr>)"

inductive_cases mbox_stepE: "mbox_step k s s'"

definition mbox_start :: "nat \<Rightarrow> addr list \<Rightarrow> mbox_sys" where
  "mbox_start n junk = \<lparr>ms_mb = the (snd (sys_mbox_new True True True True junk)),
     ms_ths = replicate n (Idle 0 None), ms_sent = [], ms_got = []\<rparr>"

text \<open>The states of runs that stay within \<open>P\<close>, from \<open>n\<close> idle threads and a new mailbox.\<close>

inductive mbox_reach :: "(mbox_sys \<Rightarrow> bool) \<Rightarrow> nat \<Rightarrow> addr list \<Rightarrow> mbox_sys \<Rightarrow> bool" for P n junk where
  start: "mbox_reach P n junk (mbox_start n junk)"
| step: "mbox_reach P n junk s \<Longrightarrow> mbox_step k s s' \<Longrightarrow> P s' \<Longrightarrow> mbox_reach P n junk s'"

section \<open>What the steps do\<close>

lemma post_section_run:
  assumes wf: "mbox_wf mb"
  shows "post_section msg mb = (if \<not> mbox_live mb then Some (Fault SignedOverflow)
     else if mb_last mb = mb_first mb + 127 then
       (if mb_wait_send mb < INT_MAX then Some (Ok (False, mb\<lparr>mb_wait_send := mb_wait_send mb + 1, mb_mutex := sem 1\<rparr>))
        else Some (Fault SignedOverflow))
     else Some (Ok (True, after_put msg mb)))"
proof (cases "mbox_live mb")
  case False
  with wf show ?thesis by (simp add: post_section_def bnd_run mbox_full_overflow)
next
  case True
  have bounds: "mb_last mb \<le> mb_first mb + 127" "0 \<le> mb_wait_send mb" "is_sem (mb_mutex mb)"
    using wf by (simp_all add: mbox_wf_def)
  show ?thesis
  proof (cases "mb_last mb = mb_first mb + 127")
    case full: True
    from True full wf bounds show ?thesis
      by (simp add: post_section_def run_simps mbox_full_run add_int_run signal_mutex_run)
  next
    case False
    with True wf bounds show ?thesis
      by (simp add: post_section_def run_simps mbox_full_run mbox_put_run)
  qed
qed

lemma post_resume_run:
  "mbox_wf mb \<Longrightarrow> post_resume mb = (if mb_mutex mb = sem 1
     then Some (Ok ((), mb\<lparr>mb_mutex := sem 0, mb_wait_send := mb_wait_send mb - 1\<rparr>)) else None)"
  by (simp add: post_resume_def run_simps wait_mutex_iff add_int_run mbox_wf_def)

lemma fetch_section_run:
  "mbox_wf mb \<Longrightarrow> fetch_section want mb = (if mb_first mb = mb_last mb
     then Some (Ok (None, mb\<lparr>mb_mutex := sem 1\<rparr>))
     else Some (Ok (Some (if want then Some (hd (mbox_queue mb)) else None), after_get mb)))"
  by (simp add: fetch_section_def run_simps mbox_get_run signal_mutex_run wf_is_sem)

lemma trypost_overflow:
  "mbox_wf mb \<Longrightarrow> \<not> mbox_live mb \<Longrightarrow> trypost_section msg mb = Some (Fault SignedOverflow)"
  by (simp add: trypost_section_def bnd_run mbox_full_overflow)

text \<open>Each step, as an update of the mailbox.\<close>

lemmas move_run = seq_run bnd_run ret_run wait_mutex_iff wait_not_empty_iff wait_not_full_iff wf_is_sem
  post_section_run post_resume_run fetch_section_run trypost_section_run tryfetch_section_run trypost_overflow

section \<open>Counting threads\<close>

definition cnt :: "('a \<Rightarrow> bool) \<Rightarrow> 'a list \<Rightarrow> int" where
  "cnt P xs = int (length (filter P xs))"

lemma cnt_update:
  "i < length xs \<Longrightarrow> cnt P (xs[i := y]) = cnt P xs + of_bool (P y) - of_bool (P (xs ! i))"
proof (induction xs arbitrary: i)
  case (Cons x xs)
  then show ?case by (cases i) (auto simp: cnt_def)
qed simp

lemma cnt_nonneg: "0 \<le> cnt P xs"
  by (simp add: cnt_def)

lemma cnt_le_length: "cnt P xs \<le> int (length xs)"
  by (simp add: cnt_def)

lemma cnt_pos: "i < length xs \<Longrightarrow> P (xs ! i) \<Longrightarrow> 1 \<le> cnt P xs"
proof -
  assume "i < length xs" "P (xs ! i)"
  then have "xs ! i \<in> set (filter P xs)" by simp
  then have "filter P xs \<noteq> []" by force
  then show ?thesis by (cases "filter P xs") (simp_all add: cnt_def)
qed

lemma cnt_zero_iff: "cnt P xs = 0 \<longleftrightarrow> (\<forall>x\<in>set xs. \<not> P x)"
  by (simp add: cnt_def filter_empty_conv)

text \<open>Threads inside a critical section, and threads \<open>wait_send\<close> counts.\<close>

fun in_section :: "mthread \<Rightarrow> bool" where
  "in_section (PostCheck m) = True"
| "in_section (TrypostCheck m) = True"
| "in_section (FetchCheck w t n) = True"
| "in_section (TryfetchCheck w) = True"
| "in_section _ = False"

fun waits_room :: "mthread \<Rightarrow> bool" where
  "waits_room (PostSleep m) = True"
| "waits_room (PostReenter m) = True"
| "waits_room _ = False"

definition sem_val :: "sys_sem option \<Rightarrow> int" where
  "sem_val s = (case s of None \<Rightarrow> 0 | Some x \<Rightarrow> uint (sem_c x))"

lemma sem_val_simps [simp]: "sem_val (sem 0) = 0" "sem_val (sem 1) = 1"
  by (simp_all add: sem_val_def)

lemma sem_val_range: "is_sem s \<Longrightarrow> 0 \<le> sem_val s \<and> sem_val s \<le> 1"
  by (auto simp: is_sem_def)

lemma is_sem_0: "is_sem s \<Longrightarrow> sem_val s = 0 \<Longrightarrow> s = sem 0"
  by (auto simp: is_sem_def)

lemma is_sem_1: "is_sem s \<Longrightarrow> sem_val s \<noteq> 0 \<Longrightarrow> s = sem 1"
  by (auto simp: is_sem_def)

section \<open>The invariant\<close>

lemma wf_sems [simp]:
  "mbox_wf mb \<Longrightarrow> is_sem x \<Longrightarrow> mbox_wf (mb\<lparr>mb_not_empty := x\<rparr>)"
  "mbox_wf mb \<Longrightarrow> is_sem x \<Longrightarrow> mbox_wf (mb\<lparr>mb_not_full := x\<rparr>)"
  "mbox_wf mb \<Longrightarrow> 0 \<le> w \<Longrightarrow> w \<le> INT_MAX \<Longrightarrow> mbox_wf (mb\<lparr>mb_wait_send := w\<rparr>)"
  by (simp_all add: mbox_wf_def)

lemma wf_room: "mbox_wf mb \<Longrightarrow> mb_last mb \<noteq> mb_first mb + 127 \<Longrightarrow> mb_last mb < mb_first mb + 127"
  by (simp add: mbox_wf_def)

lemma wf_wait_send: "mbox_wf mb \<Longrightarrow> 0 \<le> mb_wait_send mb \<and> mb_wait_send mb \<le> INT_MAX"
  by (simp add: mbox_wf_def)

lemma move_wf:
  assumes "thread_move time pc mb = Some (Ok (pc', mb'))" and "mbox_wf mb"
    and "waits_room pc \<Longrightarrow> 1 \<le> mb_wait_send mb"
  shows "mbox_wf mb'"
  using assms wf_wait_send [OF assms(2)]
  by (cases pc; cases "mbox_live mb") (auto simp: move_run after_put_wf after_get_wf wf_room split: if_splits)

lemma move_mutex:
  assumes "thread_move time pc mb = Some (Ok (pc', mb'))" and "mbox_wf mb"
    and "in_section pc \<Longrightarrow> mb_mutex mb = sem 0"
  shows "sem_val (mb_mutex mb') + of_bool (in_section pc') = sem_val (mb_mutex mb) + of_bool (in_section pc)"
  using assms by (cases pc; cases "mbox_live mb") (auto simp: move_run split: if_splits)

lemma move_wait_send:
  assumes "thread_move time pc mb = Some (Ok (pc', mb'))" and "mbox_wf mb"
  shows "mb_wait_send mb' + of_bool (waits_room pc) = mb_wait_send mb + of_bool (waits_room pc')"
  using assms by (cases pc; cases "mbox_live mb") (auto simp: move_run split: if_splits)

lemma queue_Cons: "mbox_wf mb \<Longrightarrow> mb_first mb \<noteq> mb_last mb \<Longrightarrow> mbox_queue mb = hd (mbox_queue mb) # tl (mbox_queue mb)"
  by (simp add: queue_Nil_iff mbox_wf_def)

text \<open>A step moves messages from the thread to the end of the queue, or from its head to the thread.\<close>

lemma move_data:
  assumes "thread_move time pc mb = Some (Ok (pc', mb'))" and "mbox_wf mb"
  shows "fetched mb pc pc' @ mbox_queue mb' = mbox_queue mb @ posted pc pc'"
    and "mb_first mb' = mb_first mb + int (length (fetched mb pc pc'))"
  using assms queue_Cons [OF assms(2)]
  by (cases pc; cases "mbox_live mb"; auto simp: move_run queue_after_put queue_after_get wf_room split: if_splits)+

definition mbox_inv :: "mbox_sys \<Rightarrow> bool" where
  "mbox_inv s \<longleftrightarrow> mbox_wf (ms_mb s) \<and>
     sem_val (mb_mutex (ms_mb s)) + cnt in_section (ms_ths s) = 1 \<and>
     mb_wait_send (ms_mb s) = cnt waits_room (ms_ths s) \<and>
     ms_sent s = ms_got s @ mbox_queue (ms_mb s) \<and>
     mb_first (ms_mb s) = int (length (ms_got s))"

lemma inv_section:
  assumes "mbox_inv s" and "i < length (ms_ths s)" and "in_section (ms_ths s ! i)"
  shows "mb_mutex (ms_mb s) = sem 0"
  using assms cnt_pos [of i "ms_ths s" in_section] sem_val_range [of "mb_mutex (ms_mb s)"] wf_is_sem [of "ms_mb s"]
    is_sem_0 [of "mb_mutex (ms_mb s)"]
  by (auto simp: mbox_inv_def)

lemma mbox_inv_start: "length junk = 128 \<Longrightarrow> mbox_inv (mbox_start n junk)"
  using sys_mbox_new_idle [of junk]
  by (auto simp: mbox_inv_def mbox_start_def idle_mbox_def mbox_abs_def mbox_life_def sys_mbox_new_def
      sys_sem_new_internal_def cnt_def)

lemma mbox_inv_step:
  assumes "mbox_inv s" and "mbox_step k s s'"
  shows "mbox_inv s'"
  using assms(2)
proof cases
  case (call i pc)
  then have "\<not> in_section (ms_ths s ! i)" "\<not> waits_room (ms_ths s ! i)" "\<not> in_section pc" "\<not> waits_room pc"
    by (cases "ms_ths s ! i"; simp; cases pc; simp)+
  with call assms(1) show ?thesis by (simp add: mbox_inv_def cnt_update)
next
  case (timeout i w t n)
  with assms(1) show ?thesis by (simp add: mbox_inv_def cnt_update)
next
  case (move i time pc mb)
  note inv = assms(1) [unfolded mbox_inv_def]
  have wait: "waits_room (ms_ths s ! i) \<Longrightarrow> 1 \<le> mb_wait_send (ms_mb s)"
    using inv cnt_pos [OF move(3), of waits_room] by simp
  note step = move(5)
  have wf: "mbox_wf (ms_mb s)" using inv by simp
  have "mbox_wf mb" by (rule move_wf [OF step wf wait])
  moreover have "sem_val (mb_mutex mb) + cnt in_section ((ms_ths s)[i := pc]) = 1"
    using move_mutex [OF step wf inv_section [OF assms(1) move(3)]] inv
    by (simp add: cnt_update [OF move(3)])
  moreover have "mb_wait_send mb = cnt waits_room ((ms_ths s)[i := pc])"
    using move_wait_send [OF step wf] inv by (simp add: cnt_update [OF move(3)])
  ultimately show ?thesis using move(2) move_data [OF step wf] inv by (simp add: mbox_inv_def)
qed

lemma mbox_reach_inv: "mbox_reach P n junk s \<Longrightarrow> length junk = 128 \<Longrightarrow> mbox_inv s"
  by (induction rule: mbox_reach.induct) (auto intro: mbox_inv_start mbox_inv_step)

lemma mbox_step_threads: "mbox_step k s s' \<Longrightarrow> length (ms_ths s') = length (ms_ths s)"
  by (auto elim!: mbox_stepE)

lemma mbox_reach_threads: "mbox_reach P n junk s \<Longrightarrow> length (ms_ths s) = n"
  by (induction rule: mbox_reach.induct) (simp_all add: mbox_start_def mbox_step_threads)

section \<open>Wake-ups\<close>

fun posting :: "mthread \<Rightarrow> bool" where
  "posting (PostCheck m) = True"
| "posting (TrypostCheck m) = True"
| "posting _ = False"

fun post_sleeps :: "mthread \<Rightarrow> bool" where
  "post_sleeps (PostSleep m) = True"
| "post_sleeps _ = False"

fun post_returns :: "mthread \<Rightarrow> bool" where
  "post_returns (PostReenter m) = True"
| "post_returns (PostCheck m) = True"
| "post_returns _ = False"

fun fetch_sleeps :: "mthread \<Rightarrow> bool" where
  "fetch_sleeps (FetchSleep w t n) = True"
| "fetch_sleeps _ = False"

text \<open>Threads inside the blocking fetch.\<close>

fun fetching :: "mthread \<Rightarrow> bool" where
  "fetching (FetchEnter w t) = True"
| "fetching (FetchCheck w t n) = True"
| "fetching (FetchSleep w t n) = True"
| "fetching (FetchReenter w t n) = True"
| "fetching _ = False"

definition one_fetcher :: "mbox_sys \<Rightarrow> bool" where
  "one_fetcher s \<longleftrightarrow> cnt fetching (ms_ths s) \<le> 1"

lemma cnt_mono: "(\<And>x. P x \<Longrightarrow> Q x) \<Longrightarrow> cnt P xs \<le> cnt Q xs"
  by (induction xs) (auto simp: cnt_def)

lemma sleeps_wait: "cnt post_sleeps ths \<le> cnt waits_room ths"
  by (rule cnt_mono) (auto elim: post_sleeps.elims)

lemma sleeps_fetching: "cnt fetch_sleeps ths \<le> cnt fetching ths"
  by (rule cnt_mono) (auto elim: fetch_sleeps.elims)

text \<open>
  A sleeping poster of an empty mailbox will be woken: the semaphore has a token, or another poster is
  on its way to the mailbox. A sleeping fetcher of a mailbox with a message has a token.
\<close>

definition posters_served :: "mbox_sys \<Rightarrow> bool" where
  "posters_served s \<longleftrightarrow> (mbox_queue (ms_mb s) = [] \<and> 0 < cnt post_sleeps (ms_ths s) \<longrightarrow>
     mb_not_full (ms_mb s) = sem 1 \<or> 0 < cnt post_returns (ms_ths s))"

definition fetcher_served :: "mbox_sys \<Rightarrow> bool" where
  "fetcher_served s \<longleftrightarrow> (mbox_queue (ms_mb s) \<noteq> [] \<and> 0 < cnt fetch_sleeps (ms_ths s) \<longrightarrow>
     mb_not_empty (ms_mb s) = sem 1)"

text \<open>The step that leaves the mailbox empty, and the step that leaves a message in it.\<close>

lemma queue_empty_iff: "mbox_wf mb \<Longrightarrow> mbox_queue mb = [] \<longleftrightarrow> mb_first mb = mb_last mb"
  by (auto simp: queue_Nil_iff mbox_wf_def)

lemma move_leaves_empty:
  assumes "thread_move time pc mb = Some (Ok (pc', mb'))" and "mbox_wf mb" and "mbox_queue mb' = []"
  shows "\<not> post_sleeps pc'"
    and "mb_wait_send mb = 0 \<or> mb_not_full mb' = sem 1 \<or> post_returns pc' \<or>
      mbox_queue mb = [] \<and> mb_not_full mb' = mb_not_full mb \<and> (post_returns pc \<longrightarrow> post_returns pc')"
  using assms
  by (cases pc; cases "mbox_live mb"; force simp: move_run queue_after_put wf_room queue_empty_iff split: if_splits)+

lemma move_leaves_message:
  assumes "thread_move time pc mb = Some (Ok (pc', mb'))" and "mbox_wf mb" and "mbox_queue mb' \<noteq> []"
  shows "\<not> fetch_sleeps pc'"
    and "mb_not_empty mb' = sem 1 \<or> fetch_sleeps pc \<or> mbox_queue mb \<noteq> [] \<and> mb_not_empty mb' = mb_not_empty mb"
  using assms
  by (cases pc; cases "mbox_live mb"; force simp: move_run queue_after_get queue_empty_iff split: if_splits)+

lemma posters_served_step:
  assumes "mbox_inv s" and "posters_served s" and "mbox_step k s s'"
  shows "posters_served s'"
  using assms(3)
proof cases
  case (call i pc)
  then have "\<not> post_sleeps (ms_ths s ! i)" "\<not> post_returns (ms_ths s ! i)" "\<not> post_sleeps pc" "\<not> post_returns pc"
    by (cases "ms_ths s ! i"; simp; cases pc; simp)+
  with call assms(2) show ?thesis by (simp add: posters_served_def cnt_update)
next
  case (timeout i w t n)
  with assms(2) show ?thesis by (simp add: posters_served_def cnt_update)
next
  case (move i time pc mb)
  have inv: "mbox_wf (ms_mb s)" "mb_wait_send (ms_mb s) = cnt waits_room (ms_ths s)"
    using assms(1) by (simp_all add: mbox_inv_def)
  note counts = sleeps_wait [of "ms_ths s"] cnt_nonneg [of post_returns "ms_ths s"]
    cnt_pos [OF move(3), of post_returns] cnt_update [OF move(3)]
  show ?thesis
    unfolding posters_served_def
  proof (intro impI, elim conjE)
    assume empty: "mbox_queue (ms_mb s') = []" and sleeper: "0 < cnt post_sleeps (ms_ths s')"
    from empty move(2) have "mbox_queue mb = []" by simp
    note left = move_leaves_empty [OF move(5) inv(1) this]
    from sleeper left(1) move(2) have "0 < cnt post_sleeps (ms_ths s)"
      by (auto simp: counts of_bool_def split: if_splits)
    with left(2) inv(2) assms(2) counts move(2)
    show "mb_not_full (ms_mb s') = sem 1 \<or> 0 < cnt post_returns (ms_ths s')"
      by (auto simp: posters_served_def of_bool_def)
  qed
qed

lemma fetcher_served_step:
  assumes "mbox_inv s" and "fetcher_served s" and "one_fetcher s" and "mbox_step k s s'"
  shows "fetcher_served s'"
  using assms(4)
proof cases
  case (call i pc)
  then have "\<not> fetch_sleeps (ms_ths s ! i)" "\<not> fetch_sleeps pc"
    by (cases "ms_ths s ! i"; simp; cases pc; simp)+
  with call assms(2) show ?thesis by (simp add: fetcher_served_def cnt_update)
next
  case (timeout i w t n)
  with assms(2) show ?thesis by (auto simp: fetcher_served_def cnt_update)
next
  case (move i time pc mb)
  have inv: "mbox_wf (ms_mb s)" using assms(1) by (simp add: mbox_inv_def)
  show ?thesis
    unfolding fetcher_served_def
  proof (intro impI, elim conjE)
    assume "mbox_queue (ms_mb s') \<noteq> []" and sleeper: "0 < cnt fetch_sleeps (ms_ths s')"
    then have "mbox_queue mb \<noteq> []" using move(2) by simp
    note left = move_leaves_message [OF move(5) inv this]
    from sleeper left(1) move(2) have "0 < cnt fetch_sleeps (ms_ths s)" "\<not> fetch_sleeps (ms_ths s ! i)"
      using sleeps_fetching [of "ms_ths s"] assms(3)
      by (auto simp: cnt_update [OF move(3)] one_fetcher_def of_bool_def split: if_splits)
    with left(2) assms(2) move(2) show "mb_not_empty (ms_mb s') = sem 1"
      by (auto simp: fetcher_served_def)
  qed
qed

lemma mbox_reach_posters_served: "mbox_reach P n junk s \<Longrightarrow> length junk = 128 \<Longrightarrow> posters_served s"
proof (induction rule: mbox_reach.induct)
  case start
  then show ?case by (simp add: posters_served_def mbox_start_def cnt_def)
next
  case (step s k s')
  then show ?case using mbox_reach_inv posters_served_step by blast
qed

lemma mbox_reach_within: "mbox_reach P n junk s \<Longrightarrow> P (mbox_start n junk) \<Longrightarrow> P s"
  by (induction rule: mbox_reach.induct) simp_all

lemma one_fetcher_start: "one_fetcher (mbox_start n junk)"
  by (simp add: one_fetcher_def mbox_start_def cnt_def)

lemma mbox_reach_fetcher_served:
  "mbox_reach one_fetcher n junk s \<Longrightarrow> length junk = 128 \<Longrightarrow> fetcher_served s"
proof (induction rule: mbox_reach.induct)
  case start
  then show ?case by (simp add: fetcher_served_def mbox_start_def cnt_def)
next
  case (step s k s')
  then show ?case using mbox_reach_inv fetcher_served_step mbox_reach_within one_fetcher_start by blast
qed

section \<open>Sections finish\<close>

lemma cnt_split: "cnt P xs + cnt (\<lambda>x. \<not> P x) xs = int (length xs)"
  using sum_length_filter_compl [of P xs] by (simp add: cnt_def)

lemma move_outcome:
  assumes "mbox_wf mb" and "in_section pc" and "mb_wait_send mb < INT_MAX"
  shows "if posting pc \<and> \<not> mbox_live mb then thread_move time pc mb = Some (Fault SignedOverflow)
     else \<exists>pc' mb'. thread_move time pc mb = Some (Ok (pc', mb'))"
  using assms by (cases pc; cases "mbox_live mb") (auto simp: move_run)

lemma section_outcome:
  assumes "mbox_inv s" and "int (length (ms_ths s)) \<le> INT_MAX" and "i < length (ms_ths s)" and "in_section (ms_ths s ! i)"
  shows "if posting (ms_ths s ! i) \<and> 2147483520 \<le> length (ms_got s)
     then thread_move time (ms_ths s ! i) (ms_mb s) = Some (Fault SignedOverflow)
     else \<exists>pc mb. thread_move time (ms_ths s ! i) (ms_mb s) = Some (Ok (pc, mb))"
proof -
  have "\<not> waits_room (ms_ths s ! i)" using assms(4) by (cases "ms_ths s ! i") auto
  then have "cnt waits_room (ms_ths s) < INT_MAX"
    using cnt_pos [OF assms(3), of "\<lambda>x. \<not> waits_room x"] cnt_split [of waits_room "ms_ths s"] assms(2) by linarith
  moreover have "mbox_live (ms_mb s) \<longleftrightarrow> length (ms_got s) < 2147483520"
    using assms(1) by (auto simp: mbox_live_def mbox_inv_def)
  ultimately show ?thesis
    using move_outcome [of "ms_mb s" "ms_ths s ! i" time] assms(1,4) by (auto simp: mbox_inv_def)
qed

lemma can_move:
  assumes "i < length (ms_ths s)" and "\<exists>pc mb. thread_move 0 (ms_ths s ! i) (ms_mb s) = Some (Ok (pc, mb))"
  shows "\<exists>s'. mbox_step Move s s'"
  using assms(2) by (elim exE) (rule exI, rule mbox_step.move [OF assms(1)], auto)

lemma section_can_move:
  assumes "mbox_inv s" and "int (length (ms_ths s)) \<le> INT_MAX" and "length (ms_got s) < 2147483520"
    and "0 < cnt in_section (ms_ths s)"
  shows "\<exists>s'. mbox_step Move s s'"
proof -
  from assms(4) obtain x where "x \<in> set (ms_ths s)" "in_section x"
    using cnt_zero_iff [of in_section "ms_ths s"] by auto
  then obtain i where i: "i < length (ms_ths s)" "in_section (ms_ths s ! i)" by (auto simp: in_set_conv_nth)
  from section_outcome [OF assms(1,2) i, of 0] assms(3) show ?thesis
    by (intro can_move [OF i(1)]) simp
qed

lemma waiter_can_move:
  assumes "mbox_inv s" and "cnt in_section (ms_ths s) = 0" and "i < length (ms_ths s)"
    and "ms_ths s ! i = PostReenter m"
  shows "\<exists>s'. mbox_step Move s s'"
proof -
  have wf: "mbox_wf (ms_mb s)" and "sem_val (mb_mutex (ms_mb s)) = 1" using assms(1,2) by (simp_all add: mbox_inv_def)
  then have "mb_mutex (ms_mb s) = sem 1" using is_sem_1 [of "mb_mutex (ms_mb s)"] by (simp add: wf_is_sem)
  with wf assms(4) have "\<exists>pc mb. thread_move 0 (ms_ths s ! i) (ms_mb s) = Some (Ok (pc, mb))" by (simp add: move_run)
  then show ?thesis by (rule can_move [OF assms(3)])
qed

section \<open>Properties\<close>

text \<open>
  C9. Under any interleaving of any number of threads the mailbox is a lossless queue: the messages
  posted so far, in order, are those taken out so far followed by those in the ring, of which there are
  at most 127; and at most one thread is inside a critical section.
\<close>

theorem mbox_run_fifo:
  assumes "mbox_reach P n junk s" and "length junk = 128"
  shows "ms_sent s = ms_got s @ mbox_queue (ms_mb s) \<and> length (mbox_queue (ms_mb s)) \<le> 127 \<and>
     length (filter in_section (ms_ths s)) \<le> 1"
proof -
  from mbox_reach_inv [OF assms] have inv: "mbox_inv s" .
  then have wf: "mbox_wf (ms_mb s)" by (simp add: mbox_inv_def)
  with inv have "length (filter in_section (ms_ths s)) \<le> 1"
    using sem_val_range [of "mb_mutex (ms_mb s)"] by (simp add: mbox_inv_def cnt_def wf_is_sem)
  moreover have "length (mbox_queue (ms_mb s)) \<le> 127" using wf queue_length [OF wf] by (simp add: mbox_wf_def)
  ultimately show ?thesis using inv by (simp add: mbox_inv_def)
qed

text \<open>
  A thread inside a critical section leaves it without a fault, unless it is posting and the
  mailbox has delivered at least 2147483520 messages: then the next addition to the counters overflows
  \<open>int\<close>, which C leaves undefined. The counters are never taken modulo the size of the ring.
\<close>

theorem mbox_run_section_outcome:
  assumes "mbox_reach P n junk s" and "length junk = 128" and "n \<le> 2147483647"
    and "i < n" and "in_section (ms_ths s ! i)"
  shows "if posting (ms_ths s ! i) \<and> 2147483520 \<le> length (ms_got s)
     then thread_move time (ms_ths s ! i) (ms_mb s) = Some (Fault SignedOverflow)
     else \<exists>pc mb. thread_move time (ms_ths s ! i) (ms_mb s) = Some (Ok (pc, mb))"
  using section_outcome [OF mbox_reach_inv [OF assms(1,2)], of i time] mbox_reach_threads [OF assms(1)] assms(3-5)
  by simp

text \<open>
  C10. With one thread at a time in the blocking fetch, and before 2147483520 messages have been fetched, no wake-up is lost. A fetcher that sleeps while
  the mailbox holds a message can run at once; and when a poster sleeps while the mailbox is empty, some
  thread can run. Hence fetcher and posters never wait for each other.
\<close>

theorem mbox_run_no_lost_wakeup:
  assumes "mbox_reach one_fetcher n junk s" and "length junk = 128" and "n \<le> 2147483647"
    and "length (ms_got s) < 2147483520"
  shows "(\<forall>i w t tn. i < n \<and> ms_ths s ! i = FetchSleep w t tn \<and> mbox_queue (ms_mb s) \<noteq> [] \<longrightarrow>
       (\<exists>mb. thread_move 0 (ms_ths s ! i) (ms_mb s) = Some (Ok (FetchReenter w t (if t \<noteq> 0 then 0 else tn), mb)))) \<and>
     (\<forall>i m. i < n \<and> ms_ths s ! i = PostSleep m \<and> mbox_queue (ms_mb s) = [] \<longrightarrow> (\<exists>s'. mbox_step Move s s'))"
proof (intro conjI allI impI; elim conjE)
  note inv = mbox_reach_inv [OF assms(1,2)]
  then have wf: "mbox_wf (ms_mb s)" by (simp add: mbox_inv_def)
  have len: "length (ms_ths s) = n" by (rule mbox_reach_threads [OF assms(1)])
  {
    fix i w t tn
    assume i: "i < n" "ms_ths s ! i = FetchSleep w t tn" "mbox_queue (ms_mb s) \<noteq> []"
    with cnt_pos [of i "ms_ths s" fetch_sleeps] len have "0 < cnt fetch_sleeps (ms_ths s)" by simp
    with i mbox_reach_fetcher_served [OF assms(1,2)] have "mb_not_empty (ms_mb s) = sem 1"
      by (simp add: fetcher_served_def)
    with i wf show "\<exists>mb. thread_move 0 (ms_ths s ! i) (ms_mb s) = Some (Ok (FetchReenter w t (if t \<noteq> 0 then 0 else tn), mb))"
      by (simp add: move_run)
  next
    fix i m
    assume i: "i < n" "ms_ths s ! i = PostSleep m" "mbox_queue (ms_mb s) = []"
    with cnt_pos [of i "ms_ths s" post_sleeps] len have "0 < cnt post_sleeps (ms_ths s)" by simp
    with i mbox_reach_posters_served [OF assms(1,2)]
    consider "mb_not_full (ms_mb s) = sem 1" | "0 < cnt post_returns (ms_ths s)"
      by (auto simp: posters_served_def)
    then show "\<exists>s'. mbox_step Move s s'"
    proof cases
      case 1
      with i wf have "\<exists>pc mb. thread_move 0 (ms_ths s ! i) (ms_mb s) = Some (Ok (pc, mb))" by (simp add: move_run)
      then show ?thesis using i len by (intro can_move [of i]) simp_all
    next
      case 2
      then obtain x where "x \<in> set (ms_ths s)" "post_returns x"
        using cnt_zero_iff [of post_returns "ms_ths s"] by auto
      then obtain j where j: "j < length (ms_ths s)" "post_returns (ms_ths s ! j)" by (auto simp: in_set_conv_nth)
      show ?thesis
      proof (cases "cnt in_section (ms_ths s) = 0")
        case True
        with j cnt_pos [of j "ms_ths s" in_section] obtain m' where "ms_ths s ! j = PostReenter m'"
          by (cases "ms_ths s ! j") auto
        with waiter_can_move [OF inv True j(1)] show ?thesis by blast
      next
        case False
        with section_can_move [OF inv] len assms(3,4) cnt_nonneg [of in_section "ms_ths s"] show ?thesis by simp
      qed
    qed
  }
qed

section \<open>Concrete runs\<close>

text \<open>A schedule: thread \<open>i\<close> makes a call, or takes its next step.\<close>

fun mbox_sched :: "(nat \<times> mthread option) list \<Rightarrow> mbox_sys \<Rightarrow> mbox_sys option" where
  "mbox_sched [] s = Some s"
| "mbox_sched ((i, Some pc) # es) s =
     (if i < length (ms_ths s) \<and> is_idle (ms_ths s ! i) \<and> is_call pc
      then mbox_sched es (s\<lparr>ms_ths := (ms_ths s)[i := pc]\<rparr>) else None)"
| "mbox_sched ((i, None) # es) s =
     (if i < length (ms_ths s) then (case thread_move 0 (ms_ths s ! i) (ms_mb s) of
          Some (Ok (pc, mb)) \<Rightarrow> mbox_sched es \<lparr>ms_mb = mb, ms_ths = (ms_ths s)[i := pc],
            ms_sent = ms_sent s @ posted (ms_ths s ! i) pc,
            ms_got = ms_got s @ fetched (ms_mb s) (ms_ths s ! i) pc\<rparr>
        | _ \<Rightarrow> None)
      else None)"

lemma mbox_sched_reach:
  "mbox_sched es s = Some s' \<Longrightarrow> mbox_reach (\<lambda>_. True) n junk s \<Longrightarrow> mbox_reach (\<lambda>_. True) n junk s'"
proof (induction es s rule: mbox_sched.induct)
  case (2 i pc es s)
  then show ?case by (auto split: if_splits intro: mbox_reach.step mbox_step.call)
next
  case (3 i es s)
  from 3(2) obtain pc mb where i: "i < length (ms_ths s)"
    and run: "thread_move 0 (ms_ths s ! i) (ms_mb s) = Some (Ok (pc, mb))"
    by (auto split: if_splits option.splits res.splits)
  let ?t = "\<lparr>ms_mb = mb, ms_ths = (ms_ths s)[i := pc], ms_sent = ms_sent s @ posted (ms_ths s ! i) pc,
      ms_got = ms_got s @ fetched (ms_mb s) (ms_ths s ! i) pc\<rparr>"
  have "mbox_step Move s ?t" by (rule mbox_step.move [OF i _ run]) simp
  with 3(3) have "mbox_reach (\<lambda>_. True) n junk ?t" by (blast intro: mbox_reach.step)
  with 3(1) [OF i run refl] 3(2) i run show ?case by simp
qed simp

text \<open>Two fetchers go to sleep, two messages arrive, and one of the fetchers takes the first.\<close>

definition lost_schedule :: "(nat \<times> mthread option) list" where
  "lost_schedule =
     [(0, Some (FetchEnter True 0)), (0, None), (0, None),
      (1, Some (FetchEnter True 0)), (1, None), (1, None),
      (2, Some (PostEnter 7)), (2, None), (2, None),
      (2, Some (PostEnter 8)), (2, None), (2, None),
      (0, None), (0, None), (0, None)]"

definition lost_state :: mbox_sys where
  "lost_state = \<lparr>ms_mb = \<lparr>mb_first = 1, mb_last = 2, mb_msgs = (replicate 128 0)[0 := 7, 1 := 8],
       mb_not_empty = sem 0, mb_not_full = sem 0, mb_mutex = sem 1, mb_wait_send = 0\<rparr>,
     ms_ths = [Idle 0 (Some 7), FetchSleep True 0 0, Idle 0 None], ms_sent = [7, 8], ms_got = [7]\<rparr>"

lemma lost_run: "mbox_sched lost_schedule (mbox_start 3 (replicate 128 0)) = Some lost_state"
  by code_simp

lemma lost_reach: "mbox_reach (\<lambda>_. True) 3 (replicate 128 0) lost_state"
  by (rule mbox_sched_reach [OF lost_run]) (rule mbox_reach.start)

lemma lost_stuck: "\<not> mbox_step Move lost_state s'"
proof
  assume "mbox_step Move lost_state s'"
  then show False
  proof cases
    case (move i time pc mb)
    then have "i = 0 \<or> i = 1 \<or> i = 2" by (auto simp: lost_state_def)
    with move show False by (auto simp: lost_state_def seq_run wait_not_empty_iff)
  qed
qed

text \<open>
  With two threads in the blocking fetch a wake-up is lost: \<open>not_empty\<close> is signalled only by a post
  to an empty mailbox, so of two sleeping fetchers one stays asleep while its message is in the mailbox,
  and no thread can run until another call is made.
\<close>

theorem mbox_two_fetchers_lose_wakeup:
  "\<exists>s. mbox_reach (\<lambda>_. True) 3 (replicate 128 0) s \<and> mbox_queue (ms_mb s) = [8] \<and>
     ms_ths s ! 1 = FetchSleep True 0 0 \<and> (\<nexists>s'. mbox_step Move s s')"
proof (intro exI conjI)
  show "mbox_queue (ms_mb lost_state) = [8]" by code_simp
  show "ms_ths lost_state ! 1 = FetchSleep True 0 0" by (simp add: lost_state_def)
qed (use lost_reach lost_stuck in auto)

text \<open>A run with one fetcher: it sleeps, a post wakes it.\<close>

definition wake_state :: mbox_sys where
  "wake_state = \<lparr>ms_mb = \<lparr>mb_first = 0, mb_last = 1, mb_msgs = (replicate 128 0)[0 := 7],
       mb_not_empty = sem 1, mb_not_full = sem 0, mb_mutex = sem 1, mb_wait_send = 0\<rparr>,
     ms_ths = [FetchSleep True 0 0, Idle 0 None], ms_sent = [7], ms_got = []\<rparr>"

lemma mbox_sched_reach_one:
  assumes "mbox_reach one_fetcher n junk s" and "mbox_sched [e] s = Some s'" and "one_fetcher s'"
  shows "mbox_reach one_fetcher n junk s'"
proof -
  obtain i pc where e: "e = (i, pc)" by (cases e)
  have "\<exists>k. mbox_step k s s'"
  proof (cases pc)
    case None
    with assms(2) e show ?thesis
      by (auto split: if_splits option.splits res.splits intro!: exI [of _ Move] mbox_step.move [where time = 0])
  next
    case (Some c)
    with assms(2) e show ?thesis by (auto split: if_splits intro!: exI [of _ Call] mbox_step.call)
  qed
  with assms show ?thesis by (blast intro: mbox_reach.step)
qed

fun mbox_trace :: "(nat \<times> mthread option) list \<Rightarrow> mbox_sys \<Rightarrow> mbox_sys option" where
  "mbox_trace [] s = Some s"
| "mbox_trace (e # es) s = (case mbox_sched [e] s of
       Some s' \<Rightarrow> if one_fetcher s' then mbox_trace es s' else None
     | None \<Rightarrow> None)"

lemma mbox_trace_reach:
  "mbox_trace es s = Some s' \<Longrightarrow> mbox_reach one_fetcher n junk s \<Longrightarrow> mbox_reach one_fetcher n junk s'"
proof (induction es arbitrary: s)
  case (Cons e es)
  then show ?case by (auto split: option.splits if_splits intro: mbox_sched_reach_one)
qed simp

lemma wake_reach: "mbox_reach one_fetcher 2 (replicate 128 0) wake_state"
proof (rule mbox_trace_reach)
  show "mbox_trace [(0, Some (FetchEnter True 0)), (0, None), (0, None), (1, Some (PostEnter 7)), (1, None), (1, None)]
      (mbox_start 2 (replicate 128 0)) = Some wake_state" by code_simp
qed (rule mbox_reach.start)

section \<open>The properties on concrete runs\<close>

theorem mbox_run_fifo_witness:
  "ms_sent lost_state = [7, 8] \<and> ms_got lost_state @ mbox_queue (ms_mb lost_state) = [7, 8]"
  using mbox_run_fifo [OF lost_reach] by (simp add: lost_state_def)

definition section_state :: mbox_sys where
  "section_state = \<lparr>ms_mb = \<lparr>mb_first = 0, mb_last = 0, mb_msgs = replicate 128 0,
       mb_not_empty = sem 0, mb_not_full = sem 0, mb_mutex = sem 0, mb_wait_send = 0\<rparr>,
     ms_ths = [PostCheck 7], ms_sent = [], ms_got = []\<rparr>"

theorem mbox_run_section_outcome_witness:
  "\<exists>pc mb. thread_move 0 (PostCheck 7) (ms_mb section_state) = Some (Ok (pc, mb))"
proof -
  have "mbox_sched [(0, Some (PostEnter 7)), (0, None)] (mbox_start 1 (replicate 128 0)) = Some section_state"
    by code_simp
  then have "mbox_reach (\<lambda>_. True) 1 (replicate 128 0) section_state"
    by (rule mbox_sched_reach) (rule mbox_reach.start)
  from mbox_run_section_outcome [OF this, of 0 0] show ?thesis by (simp add: section_state_def)
qed

theorem mbox_run_no_lost_wakeup_witness:
  "\<exists>mb. thread_move 0 (FetchSleep True 0 0) (ms_mb wake_state) = Some (Ok (FetchReenter True 0 0, mb))"
proof -
  have queue: "mbox_queue (ms_mb wake_state) \<noteq> []" by code_simp
  have st: "ms_ths wake_state ! 0 = FetchSleep True 0 0" "length (ms_got wake_state) < 2147483520"
    by (simp_all add: wake_state_def)
  have "length (replicate 128 (0 :: nat)) = 128" "(2 :: nat) \<le> 2147483647" by simp_all
  from mbox_run_no_lost_wakeup [OF wake_reach this st(2), THEN conjunct1, rule_format, of 0 True 0 0]
  show ?thesis using queue st(1) by simp
qed

end
