(* ===== verification/Sys_Lock.thy ===== *)
theory Sys_Lock
  imports Sys_Mbox
begin

text \<open>
  Locks and threads of the operating-system port, \<open>src/sys.c\<close>: the recursive lock of
  \<open>sys_arch_protect\<close> and \<open>sys_arch_unprotect\<close>, whose owner is tested without a lock, with one step for each
  access to a shared variable; the mutexes, the lock of the lwIP core and the check that it is held;
  and the creation of threads.
\<close>

section \<open>The recursive lock\<close>

text \<open>The owner nobody is, \<open>(pthread_t)0xDEAD\<close>.\<close>

abbreviation (input) NOBODY :: addr where "NOBODY \<equiv> 57005"

record lwprot =
  lwprot_mutex :: "addr option"
  lwprot_thread :: addr
  lwprot_count :: int

definition lwprot_init :: lwprot where
  "lwprot_init = \<lparr>lwprot_mutex = None, lwprot_thread = NOBODY, lwprot_count = 0\<rparr>"

text \<open>
  Where a thread is: outside both functions, or before one of their accesses. The names say which
  access comes next.
\<close>

datatype lpc =
    Out
  | ProtTest
  | ProtLock
  | ProtOwn
  | ProtCount
  | ProtInc
  | UnTest
  | UnDec
  | UnCheck
  | UnClear
  | UnUnlock

text \<open>The accesses of \<open>sys_arch_protect\<close> by the thread \<open>self\<close>; taking a mutex that is taken waits.\<close>

fun protect_move :: "addr \<Rightarrow> lpc \<Rightarrow> (lwprot, lpc) prog" where
  "protect_move self ProtTest = bnd (gets lwprot_thread) (\<lambda>t. ret (if t \<noteq> self then ProtLock else ProtInc))"
| "protect_move self ProtLock = (\<lambda>l. if lwprot_mutex l = None
     then Some (Ok (ProtOwn, l\<lparr>lwprot_mutex := Some self\<rparr>)) else None)"
| "protect_move self ProtOwn = seq (modify (\<lambda>l. l\<lparr>lwprot_thread := self\<rparr>)) (ret ProtCount)"
| "protect_move self ProtCount = seq (modify (\<lambda>l. l\<lparr>lwprot_count := 1\<rparr>)) (ret Out)"
| "protect_move self ProtInc = bnd (gets lwprot_count) (\<lambda>c. bnd (add_int c 1) (\<lambda>c'.
     seq (modify (\<lambda>l. l\<lparr>lwprot_count := c'\<rparr>)) (ret Out)))"
| "protect_move self _ = (\<lambda>_. None)"

text \<open>The accesses of \<open>sys_arch_unprotect\<close>.\<close>

fun unprotect_move :: "addr \<Rightarrow> lpc \<Rightarrow> (lwprot, lpc) prog" where
  "unprotect_move self UnTest = bnd (gets lwprot_thread) (\<lambda>t. ret (if t = self then UnDec else Out))"
| "unprotect_move self UnDec = bnd (gets lwprot_count) (\<lambda>c. bnd (add_int c (- 1)) (\<lambda>c'.
     seq (modify (\<lambda>l. l\<lparr>lwprot_count := c'\<rparr>)) (ret UnCheck)))"
| "unprotect_move self UnCheck = bnd (gets lwprot_count) (\<lambda>c. ret (if c = 0 then UnClear else Out))"
| "unprotect_move self UnClear = seq (modify (\<lambda>l. l\<lparr>lwprot_thread := NOBODY\<rparr>)) (ret UnUnlock)"
| "unprotect_move self UnUnlock = seq (modify (\<lambda>l. l\<lparr>lwprot_mutex := None\<rparr>)) (ret Out)"
| "unprotect_move self _ = (\<lambda>_. None)"

text \<open>
  Any number of threads use the lock. \<open>ls_depth\<close> is a ghost: how many calls of \<open>sys_arch_protect\<close> have
  returned in a thread and wait for their \<open>sys_arch_unprotect\<close>.
\<close>

record lock_sys =
  ls_lock :: lwprot
  ls_pc :: "addr \<Rightarrow> lpc"
  ls_depth :: "addr \<Rightarrow> nat"

inductive lock_step :: "lock_sys \<Rightarrow> lock_sys \<Rightarrow> bool" where
  call_protect: "t \<noteq> NOBODY \<Longrightarrow> ls_pc s t = Out \<Longrightarrow> lock_step s (s\<lparr>ls_pc := (ls_pc s)(t := ProtTest)\<rparr>)"
| call_unprotect: "t \<noteq> NOBODY \<Longrightarrow> ls_pc s t = Out \<Longrightarrow> lock_step s (s\<lparr>ls_pc := (ls_pc s)(t := UnTest)\<rparr>)"
| protecting: "t \<noteq> NOBODY \<Longrightarrow> protect_move t (ls_pc s t) (ls_lock s) = Some (Ok (pc, l)) \<Longrightarrow>
    lock_step s \<lparr>ls_lock = l, ls_pc = (ls_pc s)(t := pc),
      ls_depth = (ls_depth s)(t := if pc = Out then ls_depth s t + 1 else ls_depth s t)\<rparr>"
| unprotecting: "t \<noteq> NOBODY \<Longrightarrow> unprotect_move t (ls_pc s t) (ls_lock s) = Some (Ok (pc, l)) \<Longrightarrow>
    lock_step s \<lparr>ls_lock = l, ls_pc = (ls_pc s)(t := pc),
      ls_depth = (ls_depth s)(t := if pc = Out then ls_depth s t - 1 else ls_depth s t)\<rparr>"

inductive lock_reach :: "lock_sys \<Rightarrow> bool" where
  start: "lock_reach \<lparr>ls_lock = lwprot_init, ls_pc = (\<lambda>_. Out), ls_depth = (\<lambda>_. 0)\<rparr>"
| step: "lock_reach s \<Longrightarrow> lock_step s s' \<Longrightarrow> lock_reach s'"

section \<open>Mutexes, the core lock and threads\<close>

text \<open>
  A mutex by its handle: \<open>None\<close> is a null handle, \<open>Some None\<close> a free mutex, \<open>Some (Some t)\<close> one that the
  thread \<open>t\<close> has. A failed \<open>sys_mutex_new\<close> leaves the handle as it was.
\<close>

type_synonym mutex = "addr option option"

definition sys_mutex_new :: "bool \<Rightarrow> (mutex, err_t) prog" where
  "sys_mutex_new malloc_ok = (if malloc_ok then seq (modify (\<lambda>_. Some None)) (ret ERR_OK) else ret ERR_MEM)"

definition sys_mutex_lock :: "addr \<Rightarrow> (mutex, unit) prog" where
  "sys_mutex_lock self = (\<lambda>m. case m of
       None \<Rightarrow> Some (Fault NullDeref)
     | Some None \<Rightarrow> Some (Ok ((), Some (Some self)))
     | Some (Some t) \<Rightarrow> None)"

definition sys_mutex_unlock :: "(mutex, unit) prog" where
  "sys_mutex_unlock = (\<lambda>m. case m of
       None \<Rightarrow> Some (Fault NullDeref)
     | Some _ \<Rightarrow> Some (Ok ((), Some None)))"

definition sys_mutex_free :: "(mutex, unit) prog" where
  "sys_mutex_free = (\<lambda>m. case m of None \<Rightarrow> Some (Fault NullDeref) | Some _ \<Rightarrow> Some (Ok ((), None)))"

record core =
  lock_tcpip_core :: mutex
  lwip_core_lock_holder_thread_id :: addr
  lwip_tcpip_thread_id :: addr
  threads :: "addr list"

definition on_core_mutex :: "(mutex, unit) prog \<Rightarrow> (core, unit) prog" where
  "on_core_mutex f = (\<lambda>c. case f (lock_tcpip_core c) of
       None \<Rightarrow> None
     | Some (Fault e) \<Rightarrow> Some (Fault e)
     | Some (Ok (_, m)) \<Rightarrow> Some (Ok ((), c\<lparr>lock_tcpip_core := m\<rparr>)))"

definition sys_lock_tcpip_core :: "addr \<Rightarrow> (core, unit) prog" where
  "sys_lock_tcpip_core self = block [on_core_mutex (sys_mutex_lock self),
     modify (\<lambda>c. c\<lparr>lwip_core_lock_holder_thread_id := self\<rparr>)]"

definition sys_unlock_tcpip_core :: "(core, unit) prog" where
  "sys_unlock_tcpip_core = block [modify (\<lambda>c. c\<lparr>lwip_core_lock_holder_thread_id := 0\<rparr>),
     on_core_mutex sys_mutex_unlock]"

definition sys_mark_tcpip_thread :: "addr \<Rightarrow> (core, unit) prog" where
  "sys_mark_tcpip_thread self = modify (\<lambda>c. c\<lparr>lwip_tcpip_thread_id := self\<rparr>)"

text \<open>\<open>core_locking\<close> is the option \<open>LWIP_TCPIP_CORE_LOCKING\<close> of the build.\<close>

definition sys_check_core_locking :: "bool \<Rightarrow> addr \<Rightarrow> (core, unit) prog" where
  "sys_check_core_locking core_locking self = bnd (gets id) (\<lambda>c.
     whenc (lwip_tcpip_thread_id c \<noteq> 0)
       (if core_locking
        then lwip_assert ''Function called without core lock'' (self = lwip_core_lock_holder_thread_id c)
        else lwip_assert ''Function called from wrong thread'' (self = lwip_tcpip_thread_id c)))"

definition introduce_thread :: "bool \<Rightarrow> addr \<Rightarrow> (core, bool) prog" where
  "introduce_thread malloc_ok tid =
     (if malloc_ok then seq (modify (\<lambda>c. c\<lparr>threads := tid # threads c\<rparr>)) (ret True) else ret False)"

text \<open>
  \<open>sys_thread_new\<close>: \<open>malloc_ok\<close> and \<open>malloc_ok'\<close> say whether the two allocations find memory, \<open>code\<close> and
  \<open>tmp\<close> are the result of \<open>pthread_create\<close> and the thread it made. The first allocation is not checked.
\<close>

definition sys_thread_new :: "bool \<Rightarrow> int \<Rightarrow> addr \<Rightarrow> bool \<Rightarrow> (core, addr) prog" where
  "sys_thread_new malloc_ok code tmp malloc_ok' =
     (if \<not> malloc_ok then fail NullDeref
      else bnd (if code = 0 then introduce_thread malloc_ok' tmp else ret False) (\<lambda>st.
        if st then ret tmp else fail Aborted))"

section \<open>The invariant of the lock\<close>

text \<open>When a thread has the mutex, when its name is in \<open>lwprot_thread\<close>, and what the counter then says.\<close>

fun has_mutex :: "lpc \<Rightarrow> nat \<Rightarrow> bool" where
  "has_mutex ProtLock d = False"
| "has_mutex ProtOwn d = True"
| "has_mutex ProtCount d = True"
| "has_mutex UnUnlock d = True"
| "has_mutex pc d = (0 < d)"

fun is_named :: "lpc \<Rightarrow> nat \<Rightarrow> bool" where
  "is_named ProtLock d = False"
| "is_named ProtOwn d = False"
| "is_named ProtCount d = True"
| "is_named UnUnlock d = False"
| "is_named pc d = (0 < d)"

fun depth_ok :: "lpc \<Rightarrow> nat \<Rightarrow> int \<Rightarrow> bool" where
  "depth_ok ProtLock d c = (d = 0)"
| "depth_ok ProtOwn d c = (d = 0)"
| "depth_ok ProtCount d c = (d = 0)"
| "depth_ok ProtInc d c = (0 < d \<and> c = int d)"
| "depth_ok UnDec d c = (0 < d \<and> c = int d)"
| "depth_ok UnCheck d c = (0 < d \<and> c = int d - 1)"
| "depth_ok UnClear d c = (d = 1 \<and> c = 0)"
| "depth_ok UnUnlock d c = (d = 1 \<and> c = 0)"
| "depth_ok pc d c = (0 < d \<longrightarrow> c = int d)"

definition lock_inv :: "lock_sys \<Rightarrow> bool" where
  "lock_inv s \<longleftrightarrow> (\<forall>t. t \<noteq> NOBODY \<longrightarrow>
     (lwprot_mutex (ls_lock s) = Some t \<longleftrightarrow> has_mutex (ls_pc s t) (ls_depth s t)) \<and>
     (lwprot_thread (ls_lock s) = t \<longleftrightarrow> is_named (ls_pc s t) (ls_depth s t)) \<and>
     depth_ok (ls_pc s t) (ls_depth s t) (lwprot_count (ls_lock s)))"

lemma lock_invD:
  assumes "lock_inv s" and "t \<noteq> NOBODY"
  shows "lwprot_mutex (ls_lock s) = Some t \<longleftrightarrow> has_mutex (ls_pc s t) (ls_depth s t)"
    and "lwprot_thread (ls_lock s) = t \<longleftrightarrow> is_named (ls_pc s t) (ls_depth s t)"
    and "depth_ok (ls_pc s t) (ls_depth s t) (lwprot_count (ls_lock s))"
  using assms by (auto simp: lock_inv_def)

text \<open>Without the mutex a thread does not depend on the counter.\<close>

lemma depth_ok_free: "\<not> has_mutex pc d \<Longrightarrow> depth_ok pc d c \<Longrightarrow> depth_ok pc d c'"
  by (cases pc) auto

lemma named_has_mutex: "is_named pc d \<Longrightarrow> has_mutex pc d"
  by (cases pc) auto

text \<open>
  A move of \<open>t\<close> keeps the invariant when it keeps it for \<open>t\<close>, and another thread sees the mutex, the name and
  the counter change only while it has none of them.
\<close>

lemma lock_inv_moveI:
  assumes "lock_inv s" and "t \<noteq> NOBODY"
    and own: "(lwprot_mutex l = Some t \<longleftrightarrow> has_mutex pc d) \<and> (lwprot_thread l = t \<longleftrightarrow> is_named pc d) \<and>
      depth_ok pc d (lwprot_count l)"
    and mutex: "lwprot_mutex l = lwprot_mutex (ls_lock s) \<or>
      lwprot_mutex (ls_lock s) \<in> {None, Some t} \<and> lwprot_mutex l \<in> {None, Some t}"
    and rest: "lwprot_thread l = lwprot_thread (ls_lock s) \<and> lwprot_count l = lwprot_count (ls_lock s) \<or>
      lwprot_mutex (ls_lock s) = Some t \<and> lwprot_thread l \<in> {lwprot_thread (ls_lock s), t, NOBODY}"
  shows "lock_inv \<lparr>ls_lock = l, ls_pc = (ls_pc s)(t := pc), ls_depth = (ls_depth s)(t := d)\<rparr>"
  unfolding lock_inv_def
proof (intro allI impI)
  fix u
  assume u: "u \<noteq> NOBODY"
  let ?s' = "\<lparr>ls_lock = l, ls_pc = (ls_pc s)(t := pc), ls_depth = (ls_depth s)(t := d)\<rparr>"
  show "(lwprot_mutex (ls_lock ?s') = Some u \<longleftrightarrow> has_mutex (ls_pc ?s' u) (ls_depth ?s' u)) \<and>
     (lwprot_thread (ls_lock ?s') = u \<longleftrightarrow> is_named (ls_pc ?s' u) (ls_depth ?s' u)) \<and>
     depth_ok (ls_pc ?s' u) (ls_depth ?s' u) (lwprot_count (ls_lock ?s'))"
  proof (cases "u = t")
    case True
    with own show ?thesis by simp
  next
    case False
    note inv = lock_invD [OF assms(1) u]
    have m: "lwprot_mutex l = Some u \<longleftrightarrow> lwprot_mutex (ls_lock s) = Some u" using mutex False by auto
    show ?thesis
    proof (cases "lwprot_mutex (ls_lock s) = Some t")
      case True
      with False inv(1) have free: "\<not> has_mutex (ls_pc s u) (ls_depth s u)" by simp
      then have "\<not> is_named (ls_pc s u) (ls_depth s u)" using named_has_mutex by blast
      with inv(2) rest False u have "lwprot_thread l \<noteq> u" by auto
      with inv m False free depth_ok_free [OF free inv(3)] named_has_mutex show ?thesis by auto
    next
      case other: False
      with rest inv m False show ?thesis by auto
    qed
  qed
qed

lemma lock_inv_step:
  assumes "lock_inv s" and "lock_step s s'"
  shows "lock_inv s'"
  using assms(2)
proof cases
  case (call_protect t)
  with lock_invD [OF assms(1) call_protect(2)] have "lock_inv \<lparr>ls_lock = ls_lock s, ls_pc = (ls_pc s)(t := ProtTest),
      ls_depth = (ls_depth s)(t := ls_depth s t)\<rparr>"
    by (intro lock_inv_moveI [OF assms(1)]) simp_all
  with call_protect show ?thesis by (simp add: lock_inv_def)
next
  case (call_unprotect t)
  with lock_invD [OF assms(1) call_unprotect(2)] have "lock_inv \<lparr>ls_lock = ls_lock s, ls_pc = (ls_pc s)(t := UnTest),
      ls_depth = (ls_depth s)(t := ls_depth s t)\<rparr>"
    by (intro lock_inv_moveI [OF assms(1)]) simp_all
  with call_unprotect show ?thesis by (simp add: lock_inv_def)
next
  case (protecting t pc l)
  with lock_invD [OF assms(1) protecting(2)] show ?thesis
    unfolding protecting(1)
    by (intro lock_inv_moveI [OF assms(1)]; cases "ls_pc s t") (auto simp: run_simps add_int_run split: if_splits)
next
  case (unprotecting t pc l)
  with lock_invD [OF assms(1) unprotecting(2)] show ?thesis
    unfolding unprotecting(1)
    by (intro lock_inv_moveI [OF assms(1)]; cases "ls_pc s t") (auto simp: run_simps add_int_run split: if_splits)
qed

lemma lock_reach_inv: "lock_reach s \<Longrightarrow> lock_inv s"
proof (induction rule: lock_reach.induct)
  case start
  then show ?case by (simp add: lock_inv_def lwprot_init_def)
qed (rule lock_inv_step)

section \<open>Properties\<close>

text \<open>A thread that has entered, between its calls of the two functions.\<close>

definition inside :: "lock_sys \<Rightarrow> addr \<Rightarrow> bool" where
  "inside s t \<longleftrightarrow> t \<noteq> NOBODY \<and> ls_pc s t = Out \<and> 0 < ls_depth s t"

text \<open>
  C11. The lock is recursive and exclusive, although \<open>lwprot_thread\<close> is read without the mutex. Under
  every interleaving of the accesses of any number of threads, at most one thread is between a
  \<open>sys_arch_protect\<close> and its \<open>sys_arch_unprotect\<close>; that thread has the mutex and the counter is its nesting
  depth; and a thread that has left as often as it entered does not have the mutex.
\<close>

theorem lwprot_exclusive:
  assumes "lock_reach s"
  shows "(\<forall>t u. inside s t \<and> inside s u \<longrightarrow> t = u) \<and>
     (\<forall>t. inside s t \<longrightarrow> lwprot_mutex (ls_lock s) = Some t \<and> lwprot_count (ls_lock s) = int (ls_depth s t)) \<and>
     (\<forall>t. t \<noteq> NOBODY \<and> ls_pc s t = Out \<and> ls_depth s t = 0 \<longrightarrow> lwprot_mutex (ls_lock s) \<noteq> Some t)"
proof -
  note inv = lock_invD [OF lock_reach_inv [OF assms]]
  have holds: "lwprot_mutex (ls_lock s) = Some t \<and> lwprot_count (ls_lock s) = int (ls_depth s t)"
    if "inside s t" for t using that inv(1,3) [of t] by (auto simp: inside_def)
  moreover have "lwprot_mutex (ls_lock s) \<noteq> Some t" if "t \<noteq> NOBODY" "ls_pc s t = Out" "ls_depth s t = 0" for t
    using that inv(1) [of t] by simp
  ultimately show ?thesis by (metis option.inject)
qed

text \<open>The check of the core lock passes in the thread that took it and stops every other.\<close>

lemma check_core_locking_holder:
  assumes "lwip_tcpip_thread_id c \<noteq> 0" and "sys_lock_tcpip_core t c = Some (Ok ((), c'))"
  shows "sys_check_core_locking True u c' =
     (if u = t then Some (Ok ((), c')) else Some (Fault (AssertFailed ''Function called without core lock'')))"
  using assms
  by (auto simp: sys_lock_tcpip_core_def sys_check_core_locking_def on_core_mutex_def sys_mutex_lock_def run_simps
      split: option.splits)

lemma core_lock_blocks:
  "sys_lock_tcpip_core t c = Some (Ok ((), c')) \<Longrightarrow> sys_lock_tcpip_core u c' = None"
  by (auto simp: sys_lock_tcpip_core_def on_core_mutex_def sys_mutex_lock_def run_simps split: option.splits)

lemma sys_thread_new_outcome:
  "sys_thread_new m code tid m' c = (if \<not> m then Some (Fault NullDeref)
     else if code = 0 \<and> m' then Some (Ok (tid, c\<lparr>threads := tid # threads c\<rparr>)) else Some (Fault Aborted))"
  by (simp add: sys_thread_new_def introduce_thread_def run_simps)

text \<open>A thread that has entered once.\<close>

definition entered_state :: lock_sys where
  "entered_state = \<lparr>ls_lock = \<lparr>lwprot_mutex = Some 2, lwprot_thread = 2, lwprot_count = 1\<rparr>,
     ls_pc = (\<lambda>_. Out), ls_depth = (\<lambda>_. 0)(2 := 1)\<rparr>"

lemma lock_call: "lock_reach s \<Longrightarrow> t \<noteq> NOBODY \<Longrightarrow> ls_pc s t = Out \<Longrightarrow> pc \<in> {ProtTest, UnTest} \<Longrightarrow>
    lock_reach (s\<lparr>ls_pc := (ls_pc s)(t := pc)\<rparr>)"
  using lock_reach.step lock_step.call_protect lock_step.call_unprotect by blast

lemma lock_move:
  "lock_reach s \<Longrightarrow> t \<noteq> NOBODY \<Longrightarrow>
   protect_move t (ls_pc s t) (ls_lock s) = Some (Ok (pc, l)) \<Longrightarrow>
   lock_reach \<lparr>ls_lock = l, ls_pc = (ls_pc s)(t := pc),
     ls_depth = (ls_depth s)(t := if pc = Out then ls_depth s t + 1 else ls_depth s t)\<rparr>"
  using lock_reach.step lock_step.protecting by blast

lemma entered_once:
  "lock_reach \<lparr>ls_lock = \<lparr>lwprot_mutex = Some 2, lwprot_thread = 2, lwprot_count = 1\<rparr>,
     ls_pc = (\<lambda>_. Out), ls_depth = (\<lambda>_. 0)(2 := 1)\<rparr>"
proof -
  note c = lock_call [OF lock_reach.start, of 2 ProtTest]
  note m1 = lock_move [OF c, of 2 ProtLock lwprot_init]
  note m2 = lock_move [OF m1, of 2 ProtOwn "lwprot_init\<lparr>lwprot_mutex := Some 2\<rparr>"]
  note m3 = lock_move [OF m2, of 2 ProtCount "lwprot_init\<lparr>lwprot_mutex := Some 2, lwprot_thread := 2\<rparr>"]
  note m4 = lock_move [OF m3, of 2 Out "\<lparr>lwprot_mutex = Some 2, lwprot_thread = 2, lwprot_count = 1\<rparr>"]
  show ?thesis using m4 by (simp add: run_simps lwprot_init_def fun_upd_idem)
qed

theorem lwprot_exclusive_witness:
  "lwprot_mutex (ls_lock entered_state) = Some 2 \<and> \<not> inside entered_state 3"
proof -
  have "lock_reach entered_state" unfolding entered_state_def by (rule entered_once)
  from lwprot_exclusive [OF this] have "inside entered_state 2 \<Longrightarrow> lwprot_mutex (ls_lock entered_state) = Some 2"
    and "inside entered_state 2 \<Longrightarrow> inside entered_state 3 \<Longrightarrow> (2 :: nat) = 3" by blast+
  then show ?thesis by (simp add: inside_def entered_state_def)
qed

end
