(* ===== verification/Sys_Port.thy ===== *)
theory Sys_Port
  imports Sys_Lock
begin

text \<open>
  What is left of the operating-system port: the handle macros of \<open>src/arch/sys_arch.h\<close>, the variant of
  \<open>cond_wait\<close> for Darwin and old Android (a relative time), the entry
  point of a thread, random numbers and the keyboard, all from \<open>src/sys.c\<close>.
\<close>

section \<open>Handles\<close>

text \<open>A handle is a pointer in a cell; the macros get the address of the cell, or the handle itself.\<close>

type_synonym cells = "addr \<rightharpoonup> addr"

definition sys_sem_valid :: "addr \<Rightarrow> (cells, bool) prog" where
  "sys_sem_valid sp = (if sp = NULL then ret False else bnd (deref id sp) (\<lambda>h. ret (h \<noteq> NULL)))"

definition sys_sem_valid_val :: "addr \<Rightarrow> bool" where
  "sys_sem_valid_val sp \<longleftrightarrow> sp \<noteq> NULL"

definition sys_sem_set_invalid :: "addr \<Rightarrow> (cells, unit) prog" where
  "sys_sem_set_invalid sp = whenc (sp \<noteq> NULL) (bnd (deref id sp) (\<lambda>_. modify (\<lambda>m. m(sp \<mapsto> NULL))))"

definition sys_sem_set_invalid_val :: "addr \<Rightarrow> addr" where
  "sys_sem_set_invalid_val sp = NULL"

definition sys_mutex_valid :: "addr \<Rightarrow> (cells, bool) prog" where
  "sys_mutex_valid mp = sys_sem_valid mp"

definition sys_mutex_set_invalid :: "addr \<Rightarrow> (cells, unit) prog" where
  "sys_mutex_set_invalid mp = sys_sem_set_invalid mp"

definition sys_mbox_valid :: "addr \<Rightarrow> (cells, bool) prog" where
  "sys_mbox_valid bp = sys_sem_valid bp"

definition sys_mbox_valid_val :: "addr \<Rightarrow> bool" where
  "sys_mbox_valid_val bp = sys_sem_valid_val bp"

definition sys_mbox_set_invalid :: "addr \<Rightarrow> (cells, unit) prog" where
  "sys_mbox_set_invalid bp = sys_sem_set_invalid bp"

definition sys_mbox_set_invalid_val :: "addr \<Rightarrow> addr" where
  "sys_mbox_set_invalid_val bp = sys_sem_set_invalid_val bp"

lemmas handle_defs = sys_sem_valid_def sys_sem_set_invalid_def sys_mutex_valid_def sys_mutex_set_invalid_def
  sys_mbox_valid_def sys_mbox_set_invalid_def

text \<open>What is declared invalid is invalid, and nothing else changes.\<close>

lemma set_invalid_run:
  "sp \<noteq> NULL \<Longrightarrow> m sp \<noteq> None \<Longrightarrow> sys_sem_set_invalid sp m = Some (Ok ((), m(sp \<mapsto> NULL)))"
  "sys_sem_set_invalid NULL m = Some (Ok ((), m))"
  by (auto simp: handle_defs run_simps)

lemma valid_after_set_invalid:
  "m sp \<noteq> None \<Longrightarrow> seq (sys_mbox_set_invalid sp) (sys_mbox_valid sp) m = Some (Ok (False, if sp = NULL then m else m(sp \<mapsto> NULL)))"
  by (auto simp: handle_defs run_simps)

section \<open>The variants of cond\_wait\<close>

text \<open>The time \<open>pthread_cond_timedwait_relative_np\<close> gets.\<close>

definition cond_relative :: "u32 \<Rightarrow> timespec" where
  "cond_relative timeout = Timespec (uint timeout div 1000) ((uint timeout mod 1000) * 1000000)"

section \<open>Threads, random numbers, keyboard\<close>

text \<open>
  The entry point of a thread: the record \<open>sys_thread_new\<close> allocated has the function and its argument; it is
  freed when the function returns.
\<close>

record thread_wrapper_data =
  td_function :: nat
  td_arg :: addr

definition thread_wrapper ::
  "(nat \<Rightarrow> addr \<Rightarrow> (addr \<rightharpoonup> thread_wrapper_data, unit) prog) \<Rightarrow> addr \<Rightarrow> (addr \<rightharpoonup> thread_wrapper_data, addr) prog" where
  "thread_wrapper run_fn arg =
     bnd (deref id arg) (\<lambda>td.
     seq (run_fn (td_function td) (td_arg td))
    (seq (bnd (deref id arg) (\<lambda>_. modify (\<lambda>m. m(arg := None))))
    (ret NULL)))"

lemma thread_wrapper_frees:
  assumes "arg \<noteq> NULL" and "m arg = Some td" and "run_fn (td_function td) (td_arg td) m = Some (Ok ((), m'))"
    and "m' arg \<noteq> None"
  shows "thread_wrapper run_fn arg m = Some (Ok (NULL, m'(arg := None)))"
  using assms by (auto simp: thread_wrapper_def run_simps)

text \<open>\<open>r\<close> is what \<open>rand\<close> returns; \<open>select\<close> gets the number of descriptors, the set to read and the timeout.\<close>

definition lwip_port_rand :: "int \<Rightarrow> u32" where
  "lwip_port_rand r = word_of_int r"

definition lwip_unix_keypressed :: "(int \<Rightarrow> int list \<Rightarrow> timespec \<Rightarrow> int) \<Rightarrow> int" where
  "lwip_unix_keypressed select = select 1 [0] (Timespec 0 0)"

text \<open>\<open>rand\<close> returns a number from 0 to \<open>RAND_MAX\<close>, which is below \<open>2 ^ 31\<close>: the top bit is never set.\<close>

lemma lwip_port_rand_31: "0 \<le> r \<Longrightarrow> r < 2 ^ 31 \<Longrightarrow> uint (lwip_port_rand r) = r \<and> lwip_port_rand r < 2 ^ 31"
  by (simp add: lwip_port_rand_def uint_word_of_int word_less_def)

section \<open>Properties\<close>

text \<open>
  C39. A timed wait takes as long on every platform. The relative time that \<open>cond_wait\<close> hands to the call of Darwin
  and old Android is a normalised time stamp, and counted from the reading of the clock it ends at exactly the
  deadline it hands to the POSIX call elsewhere.
\<close>

theorem cond_relative_equiv_deadline:
  assumes "wf_ts now"
  shows "wf_ts (cond_relative timeout) \<and>
     (\<forall>t. wf_ts t \<longrightarrow> (ns t = ns now + ns (cond_relative timeout) \<longleftrightarrow> t = cond_deadline now timeout))"
proof -
  have "wf_ts (cond_relative timeout)"
    using timeout_parts [of timeout] by (simp add: wf_ts_def cond_relative_def)
  moreover have wf: "wf_ts (cond_deadline now timeout)"
    and "ns (cond_deadline now timeout) = ns now + ns (cond_relative timeout)"
    using deadline_ns [OF assms, of timeout] by (simp_all add: ns_def cond_relative_def)
  ultimately show ?thesis using ns_inj [OF _ wf] by metis
qed

theorem cond_relative_equiv_deadline_witness:
  "cond_deadline (Timespec 5 999000000) 1500 = Timespec 7 499000000 \<and> cond_relative 1500 = Timespec 1 500000000"
  using cond_relative_equiv_deadline [of "Timespec 5 999000000" 1500]
  by (simp add: wf_ts_def cond_deadline_def cond_relative_def)

end
