(* ===== verification/Spec2Isabelle.thy ===== *)
theory Spec2Isabelle
  imports Go_Loop Go_Echo_Run Csocks_System Csocks_Pc Csocks_Gfw Cs_Host Cs_Echo_Run Sys_Mbox_Run Sys_Port
begin

text \<open>
  \<^bold>\<open>The program.\<close> lwip-cs runs the lwIP TCP/IP stack in user space behind a tap device and hands
  its connections to an application: the C echo program or a proxy written in Go. Its parts are

    \<^item> \<open>src/tcp.c\<close>, \<open>src/tcp.h\<close>: the TCP side. One \<open>cs_tcp_raw_state\<close> per connection, with the chain of
      buffers that wait for room in the send buffer; callbacks for lwIP's raw API; \<open>cs_tcp_char_send\<close>
      for data of the application.
    \<^item> \<open>src/udp.c\<close>: the UDP side. One socket for all traffic, which borrows the source address and
      port of each datagram; the choice of the outgoing interface.
    \<^item> \<open>src/cs.c\<close>, \<open>src/cs.h\<close>: the interface driver between the device and lwIP, address conversion,
      start-up (\<open>cs_init\<close>), and the structure \<open>cs_callback\<close> the application fills.
    \<^item> \<open>src/test.c\<close>: the echo program; \<open>csocks/pc/test/test.c\<close>, \<open>echo/test/test.c\<close>: programs that host Go. They set up
      the tap device and start the rest.
    \<^item> \<open>lwipcs.c\<close>, \<open>lwipcs.h\<close>: the bridge to Go.
    \<^item> \<open>lwipcs.go\<close>: the Go end of it: connections with \<open>Read\<close>, \<open>Write\<close> and \<open>Close\<close> for goroutines, the queues
      between them and the loop that runs the stack, the handlers the bridge calls.
    \<^item> \<open>csocks/csocks.go\<close>: the handler that sends accepted connections to a proxy or directly to the network,
      by what DNS answers went through it, and multiplexes DNS queries; \<open>csocks/mobile/mobile.go\<close> and \<open>csocks/pc/pc.go\<close>
      install it.
    \<^item> \<open>echo/echo.go\<close>: the handler that copies every connection onto itself.
    \<^item> \<open>src/sys.c\<close>: the operating-system port: time, semaphores, mailboxes, locks, threads.
    \<^item> \<open>src/lwipopts.h\<close>, \<open>src/lwipcfg.h\<close>, \<open>src/arch/*.h\<close>: the configuration. It sets \<open>NO_SYS\<close> to 1, so that of
      \<open>sys.c\<close> only clocks and random numbers are compiled; the rest is verified
      here for the builds that clear that option.

  lwIP calls the functions of \<open>tcp.c\<close>, \<open>udp.c\<close> and \<open>cs.c\<close>, which call the functions of \<open>cs_callback\<close>; the
  application calls back into \<open>tcp.c\<close>, \<open>udp.c\<close> and lwIP. With Go, both directions pass through \<open>lwipcs.c\<close>.

  \<^bold>\<open>How C is modelled.\<close> A C function is a state transformer \<open>('s, 'a) prog\<close> (theory \<open>Cs_Prelude\<close>): it
  does not return (\<open>None\<close>), runs into a fault (null or freed memory, a failed assertion, overflow of a
  signed integer, an index out of range, a function pointer nobody set) or returns a value and a new
  state. Machine integers keep their width as words where it matters; memory is a typed heap per
  structure (record \<open>world\<close> of \<open>Lwip_Env\<close>), so that aliasing and use after free are visible. Loops are
  \<open>repeat_m\<close>, a partial function into \<open>option\<close>; the theorems on them prove that they return. No
  definition of the C code uses fuel; the preprocessor of \<open>Cpp\<close> expands a macro at most once on a path, as C does. In \<open>Sys_Sem\<close> a finite
  list of wake-ups stands for the other threads. Go is modelled the same way: its memory is the \<open>app\<close> part of the
  world, a panic is a fault, an operation that would have to wait is \<open>None\<close>, and a definition is what a goroutine
  does between two waits.

  \<^bold>\<open>Code that is not here.\<close> lwIP, \<open>pthread\<close> and the operating system are parameters: the records \<open>pbuf_api\<close>,
  \<open>tcp_api\<close>, \<open>udp_api\<close>, \<open>netif_api\<close>, \<open>os_api\<close> and \<open>unix_api\<close>; for \<open>csocks.go\<close> the processors of the proxy library and the
  parser of DNS messages. The handler of a Go program is an argument of \<open>lwipcs.go\<close> too (record \<open>go_handler\<close>), which the programs supply. The standard libraries are modelled as far as the programs use them (\<open>Go_Chan\<close>, \<open>Go_Std\<close>). Theorems that rely on lwIP have the
  documented behaviour as hypotheses (predicates \<open>doc_...\<close>, most of them in \<open>Lwip_Doc\<close>); \<open>Lwip_Ref\<close> is a
  small executable instance that satisfies them, on which the witnesses run.

  \<^bold>\<open>The theories\<close>, in the order they build on each other:

    \<^item> \<open>Cs_Prelude\<close>: integers, faults, programs, the \<open>wp\<close> calculus with its loop rule.
    \<^item> \<open>Lwip_Env\<close>, \<open>Lwip_Doc\<close>, \<open>Lwip_Ref\<close>: structures and functions of lwIP, their documented behaviour,
      pbuf chains, the reference instance.
    \<^item> \<open>Cs_Tcp\<close>: all functions of \<open>tcp.c\<close>. The send loop conserves the stream (bytes handed to lwIP
      followed by bytes pending) and refines the function that sends the longest prefix of whole buffers.
    \<^item> \<open>Cs_Tcp_Conn\<close>: locale \<open>cs_app\<close>, the contract of the application's callbacks; closing, errors, sending.
    \<^item> \<open>Cs_Tcp_Life\<close>: accept, receive (locale \<open>cs_recv_app\<close>), acknowledgement, poll, end of stream.
    \<^item> \<open>Cs_Tcp_System\<close>: runs of the TCP side under any interleaving of events on any number of
      connections; no handler faults (except on a reset, which always does), no buffer leaks, control
      blocks stay wired to their connections, and what each event does to the bytes of each connection: only a close by the peer drops
      any, those still pending.
    \<^item> \<open>Cpp\<close>, \<open>Cs_Config\<close>: a preprocessor for option files; the configuration headers as its input; the options fit each other.
    \<^item> \<open>Cs_Drain\<close>: with these options pending data is sent completely while the peer acknowledges, one round later for each
      write that lwIP refuses.
    \<^item> \<open>Cs_Udp\<close>: all functions of \<open>udp.c\<close>; the interface choice refines a priority list.
    \<^item> \<open>Cs_Listen\<close>: the set-up of listener and socket on each branch, and when it succeeds.
    \<^item> \<open>Cs_Netif\<close>: all functions of \<open>cs.c\<close>; locale \<open>cs_device\<close>; frames in and out, addresses, \<open>cs_init\<close>.
    \<^item> \<open>Cs_Echo\<close>: the callbacks of \<open>test.c\<close>; locale \<open>echo_host\<close>, whose sublocales show that the echo
      program keeps the contracts \<open>cs_recv_app\<close> and \<open>cs_device\<close>; received bytes are sent back.
    \<^item> \<open>Cs_Echo_Run\<close>: runs of the echo server; each peer is sent exactly the bytes it sent, in their order.
    \<^item> \<open>Lwipcs\<close>: all functions of \<open>lwipcs.c\<close>; ownership of buffers and connections across the bridge, with
      any Go handlers.
    \<^item> \<open>Go_Chan\<close>: Go's buffered channels; they are an interpretation of \<open>bounded_fifo\<close>.
    \<^item> \<open>Go_Bridge\<close>: \<open>lwipcs.go\<close>; \<open>go_handlers\<close> are its handlers as the \<open>go_api\<close> of the bridge.
    \<^item> \<open>Go_Tcp\<close>: one event from \<open>tcp.c\<close> through the bridge to Go and to \<open>Read\<close>; a close by the peer during
      \<open>Write\<close> stops the stack, an empty datagram the program.
    \<^item> \<open>Go_Run\<close>: runs of handlers, goroutines and loop in any order, for any Go program whose handlers change only its own
      memory (\<open>calm\<close>): connections stay well formed. The handlers for received data are two steps, checks and copy and then the send,
      so that goroutines run in between.
    \<^item> \<open>Go_Loop\<close>: the rounds of the two loops of \<open>lwipcs.go\<close> are such runs.
    \<^item> \<open>Go_Write\<close>: the protocol between \<open>Write\<close>, the loop and the notice of sent data: no notice is lost or waits, the
      bytes sent are those of the slice of the waiting \<open>Write\<close>; a UDP write sends what its buffer holds later. What
      goes wrong around a close: data that is dropped, and datagrams and waiting handlers that panic. Exactly when a handler for TCP panics,
      whatever goroutines do between its steps.
    \<^item> \<open>Go_Addr\<close>: the addresses of a connection, which need no more of the bridge than what \<open>lwipcs.c\<close> has.
    \<^item> \<open>Go_Echo\<close>, \<open>Go_Echo_Run\<close>: \<open>echo.go\<close> with \<open>io.Copy\<close> as a goroutine between its waits, and its runs with the bridge: each
      TCP connection is given back what it sent. For UDP it is not.
    \<^item> \<open>Cs_Host\<close>: the main programs and the set-up of the tap device, which refines a list of system calls.
    \<^item> \<open>Go_Std\<close>: numbers, addresses, URLs and patterns as text: \<open>url.Parse\<close>, \<open>net.IP.String\<close>, \<open>strings\<close>, \<open>regexp\<close>. The text of
      an address with its port is a URL from which both are read back.
    \<^item> \<open>Csocks\<close>: \<open>csocks.go\<close>, on a memory that extends the one of \<open>lwipcs.go\<close>.
    \<^item> \<open>Csocks_Gfw\<close>: which entry of the list of domains is taken for a name.
    \<^item> \<open>Csocks_Run\<close>: runs of its goroutines as a step relation that contains every handler, for processors that keep
      the contract of the locale \<open>processor\<close>; the record is exactly the
      answered addresses, connections go where it says, queries reach their processors unchanged; what ends the program.
    \<^item> \<open>Csocks_System\<close>: the handler of \<open>Csocks\<close> as the one of \<open>Go_Run\<close>, for processors that leave the work to goroutines (locale
      \<open>starter\<close>). A run of the whole is a run of the bridge (\<open>Go_Write\<close>) and of the proxy program (\<open>Csocks_Run\<close>), so what holds in either holds
      here: an accepted connection goes from the callback to the processor the record says, and when a handler for TCP panics: only with the
      processor, as the proxy of \<open>mobile.go\<close> does, or when a connection is closed under it.
    \<^item> \<open>Csocks_Pc\<close>: \<open>pc.go\<close>: its handler, and connections that give back what is written to them.
    \<^item> \<open>Sys_Time\<close>: deadlines, elapsed time, 32-bit clocks, the waits on a condition variable, also of the Hurd.
    \<^item> \<open>Sys_Sem\<close>: semaphores; where a wait ends, what it takes from the counter and what it returns.
    \<^item> \<open>Fifo_Spec\<close>: the bounded queue as a specification and as the locale \<open>bounded_fifo\<close>.
    \<^item> \<open>Sys_Mbox\<close>: mailbox functions by critical sections; interpretation of \<open>bounded_fifo\<close>.
    \<^item> \<open>Sys_Mbox_Run\<close>: threads on a mailbox in any interleaving: first in, first out and lossless, at most
      one thread in a section, no lost wake-up with one fetcher, a lost one with two, overflow of the counters.
    \<^item> \<open>Sys_Lock\<close>: the recursive lock, exclusive under every interleaving of its memory accesses; mutexes,
      core lock, threads.
    \<^item> \<open>Sys_Port\<close>: handle macros, the relative variant of timed waits and its agreement with the other, thread entry, random
      numbers, keyboard.

  \<^bold>\<open>Not modelled.\<close> Output to the terminal; lwIP itself; the load generators \<open>test/test.go\<close> and \<open>csocks/pc/wget/wget.go\<close>, which use
  real sockets and nothing of the rest; in \<open>go_cs_proc\<close> of \<open>pc.go\<close> and \<open>mobile.go\<close> the configuration of the proxy library, which is another
  repository. \<open>OnRecv\<close> of \<open>echo.go\<close> is called by nothing, since the interface does not have it. Of headers, include guards,
  includes and prototypes have no behaviour.
  Data races are given the meaning of atomic accesses, in C (\<open>Sys_Lock\<close>) and in Go. Runs in \<open>Go_Run\<close> leave out \<open>Intercept\<close>,
  after which the queue of a connection belongs to the application. \<open>Csocks_System\<close> says nothing of processors that work on a connection
  before they return. In \<open>Go_Std\<close> patterns with groups, alternatives,
  counted repetitions, ranges or letters after a backslash are left to an argument, and a string is its bytes.
\<close>

end
